(* ===== verification/BL_Prelude.thy ===== *)
theory BL_Prelude
  imports Main
begin

text \<open>
  Shared vocabulary of the development.

  \<^item> The outcome monad: a C function of the runtime is a function from a program state to an
    outcome. It returns a value and the new state (\<open>Ret\<close>), has undefined behaviour (\<open>Fault\<close>, with the
    kind of the bad access), ends the process (\<open>Exit\<close>), or has used up the fuel that bounds its loops
    (\<open>Timeout\<close>).
  \<^item> The information order \<open>le_M\<close> on such computations (more fuel never changes an answer) and the
    transition predicate \<open>keeps\<close> (every completed run relates the states before and after).
  \<^item> The C string functions of the standard library that the sources call.
\<close>

section \<open>Outcomes\<close>

datatype fault =
    Bad_pointer      \<comment> \<open>a NULL or unallocated address is dereferenced\<close>
  | Bad_union        \<comment> \<open>a union member is read that the cell does not hold\<close>
  | Bad_index        \<comment> \<open>an array is accessed outside its bounds\<close>
  | Div_by_zero      \<comment> \<open>GMP raises SIGFPE\<close>

datatype ('s, 'a) outcome = Ret 'a 's | Fault fault | Exit int | Timeout

type_synonym ('s, 'a) M = "'s \<Rightarrow> ('s, 'a) outcome"

definition returnM :: "'a \<Rightarrow> ('s, 'a) M" where
  "returnM x = (\<lambda>s. Ret x s)"

definition bindM :: "('s, 'a) M \<Rightarrow> ('a \<Rightarrow> ('s, 'b) M) \<Rightarrow> ('s, 'b) M" where
  "bindM m f = (\<lambda>s. case m s of
      Ret x t \<Rightarrow> f x t | Fault e \<Rightarrow> Fault e | Exit k \<Rightarrow> Exit k | Timeout \<Rightarrow> Timeout)"

definition faultM :: "fault \<Rightarrow> ('s, 'a) M" where
  "faultM e = (\<lambda>s. Fault e)"

definition exitM :: "int \<Rightarrow> ('s, 'a) M" where
  "exitM k = (\<lambda>s. Exit k)"

definition timeoutM :: "('s, 'a) M" where
  "timeoutM = (\<lambda>s. Timeout)"

definition getsM :: "('s \<Rightarrow> 'a) \<Rightarrow> ('s, 'a) M" where
  "getsM f = (\<lambda>s. Ret (f s) s)"

definition modifyM :: "('s \<Rightarrow> 's) \<Rightarrow> ('s, unit) M" where
  "modifyM f = (\<lambda>s. Ret () (f s))"

text \<open>Evaluation of the monad's operations on a state.\<close>

named_theorems run_simps \<open>one-step evaluation of monadic operations on a state\<close>

lemma run_basic [simp, run_simps]:
  "returnM x s = Ret x s" "faultM e s = Fault e" "exitM k s = Exit k" "timeoutM s = Timeout"
  "getsM f s = Ret (f s) s" "modifyM g s = Ret () (g s)"
  by (simp_all add: returnM_def faultM_def exitM_def timeoutM_def getsM_def modifyM_def)

lemma run_bindM [run_simps]:
  "bindM m f s = (case m s of
      Ret x t \<Rightarrow> f x t | Fault e \<Rightarrow> Fault e | Exit k \<Rightarrow> Exit k | Timeout \<Rightarrow> Timeout)"
  by (simp add: bindM_def)

lemma bindM_Ret [simp]: "m s = Ret x t \<Longrightarrow> bindM m f s = f x t"
  and bindM_Fault [simp]: "m s = Fault e \<Longrightarrow> bindM m f s = Fault e"
  and bindM_Exit [simp]: "m s = Exit k \<Longrightarrow> bindM m f s = Exit k"
  and bindM_Timeout [simp]: "m s = Timeout \<Longrightarrow> bindM m f s = Timeout"
  by (simp_all add: bindM_def)

lemma bindM_eq_Ret_iff:
  "bindM m f s = Ret y u \<longleftrightarrow> (\<exists>x t. m s = Ret x t \<and> f x t = Ret y u)"
  by (simp add: bindM_def split: outcome.splits)

lemma bindM_RetE [elim!]:
  assumes "bindM m f s = Ret y u"
  obtains x t where "m s = Ret x t" "f x t = Ret y u"
  using assms by (auto simp: bindM_eq_Ret_iff)

lemma bindM_eq_Timeout_iff:
  "bindM m f s = Timeout \<longleftrightarrow> m s = Timeout \<or> (\<exists>x t. m s = Ret x t \<and> f x t = Timeout)"
  by (simp add: bindM_def split: outcome.splits)

lemma bindM_assoc: "bindM (bindM m f) g = bindM m (\<lambda>x. bindM (f x) g)"
  by (rule ext) (simp add: bindM_def split: outcome.splits)

lemma bindM_return_left [simp]: "bindM (returnM x) f = f x"
  by (rule ext) simp

lemma bindM_return_right [simp]: "bindM m returnM = m"
  by (rule ext) (simp add: bindM_def split: outcome.splits)

section \<open>More fuel, same answer\<close>

text \<open>
  \<open>le_M m m'\<close>: wherever \<open>m\<close> does not run out of fuel, \<open>m'\<close> has the same outcome. The collection
  \<open>mono_intros\<close> holds one rule per construct; a definition's monotonicity follows by backward chaining.
\<close>

definition le_M :: "('s, 'a) M \<Rightarrow> ('s, 'a) M \<Rightarrow> bool" where
  "le_M m m' \<longleftrightarrow> (\<forall>s. m s = Timeout \<or> m s = m' s)"

named_theorems mono_intros \<open>introduction rules for the information order\<close>

lemma le_M_refl [mono_intros, simp, intro!]: "le_M m m"
  by (simp add: le_M_def)

lemma le_M_trans: "le_M m m' \<Longrightarrow> le_M m' m'' \<Longrightarrow> le_M m m''"
  unfolding le_M_def by metis

lemma le_M_timeout [mono_intros, simp]: "le_M timeoutM m" "le_M (\<lambda>s. Timeout) m"
  by (simp_all add: le_M_def)

lemma le_M_bind [mono_intros]:
  assumes "le_M m m'" and "\<And>x. le_M (f x) (f' x)"
  shows "le_M (bindM m f) (bindM m' f')"
  unfolding le_M_def
proof
  fix s
  from assms(1) have "m s = Timeout \<or> m s = m' s" by (simp add: le_M_def)
  then show "bindM m f s = Timeout \<or> bindM m f s = bindM m' f' s"
    using assms(2) unfolding bindM_def le_M_def by (auto split: outcome.splits) metis
qed

lemma le_M_if [mono_intros]:
  "(b \<Longrightarrow> le_M m m') \<Longrightarrow> (\<not> b \<Longrightarrow> le_M k k') \<Longrightarrow>
     le_M (if b then m else k) (if b then m' else k')"
  by simp

lemma le_M_option [mono_intros]:
  "le_M m m' \<Longrightarrow> (\<And>x. le_M (f x) (f' x)) \<Longrightarrow>
     le_M (case z of None \<Rightarrow> m | Some x \<Rightarrow> f x) (case z of None \<Rightarrow> m' | Some x \<Rightarrow> f' x)"
  by (cases z) simp_all

lemma le_M_sum [mono_intros]:
  "(\<And>x. le_M (g x) (g' x)) \<Longrightarrow> (\<And>x. le_M (f x) (f' x)) \<Longrightarrow>
     le_M (case z of Inl x \<Rightarrow> g x | Inr x \<Rightarrow> f x) (case z of Inl x \<Rightarrow> g' x | Inr x \<Rightarrow> f' x)"
  by (cases z) simp_all

lemma le_M_list [mono_intros]:
  "le_M m m' \<Longrightarrow> (\<And>x xs. le_M (f x xs) (f' x xs)) \<Longrightarrow>
     le_M (case z of [] \<Rightarrow> m | x # xs \<Rightarrow> f x xs) (case z of [] \<Rightarrow> m' | x # xs \<Rightarrow> f' x xs)"
  by (cases z) simp_all

lemma le_M_prod [mono_intros]:
  "(\<And>x y. le_M (f x y) (f' x y)) \<Longrightarrow>
     le_M (case z of (x, y) \<Rightarrow> f x y) (case z of (x, y) \<Rightarrow> f' x y)"
  by (cases z) simp

lemma le_M_run: "(\<And>s. le_M (f s) (f' s)) \<Longrightarrow> le_M (\<lambda>s. f s s) (\<lambda>s. f' s s)"
  by (simp add: le_M_def)

lemma le_M_D: "le_M m m' \<Longrightarrow> m s = r \<Longrightarrow> r \<noteq> Timeout \<Longrightarrow> m' s = r"
  unfolding le_M_def by metis

section \<open>Transition invariants\<close>

text \<open>
  \<open>keeps R m\<close>: every run of \<open>m\<close> that returns takes a state to an \<open>R\<close>-related one. For a reflexive and
  transitive \<open>R\<close> the predicate composes along \<open>bindM\<close>; the collection \<open>keeps_intros\<close> holds the rules.
\<close>

definition keeps :: "('s \<Rightarrow> 's \<Rightarrow> bool) \<Rightarrow> ('s, 'a) M \<Rightarrow> bool" where
  "keeps R m \<longleftrightarrow> (\<forall>s x t. m s = Ret x t \<longrightarrow> R s t)"

named_theorems keeps_intros \<open>introduction rules for transition invariants\<close>

lemma keepsD: "keeps R m \<Longrightarrow> m s = Ret x t \<Longrightarrow> R s t"
  by (simp add: keeps_def)

lemma keepsI: "(\<And>s x t. m s = Ret x t \<Longrightarrow> R s t) \<Longrightarrow> keeps R m"
  by (simp add: keeps_def)

lemma keeps_stop [keeps_intros, simp]:
  "keeps R (faultM e)" "keeps R (exitM k)" "keeps R timeoutM"
  "keeps R (\<lambda>s. Fault e)" "keeps R (\<lambda>s. Exit k)" "keeps R (\<lambda>s. Timeout)"
  by (simp_all add: keeps_def)

lemma keeps_if [keeps_intros]:
  "(b \<Longrightarrow> keeps R m) \<Longrightarrow> (\<not> b \<Longrightarrow> keeps R k) \<Longrightarrow> keeps R (if b then m else k)"
  by simp

lemma keeps_option [keeps_intros]:
  "keeps R m \<Longrightarrow> (\<And>x. keeps R (f x)) \<Longrightarrow> keeps R (case z of None \<Rightarrow> m | Some x \<Rightarrow> f x)"
  by (cases z) simp_all

lemma keeps_sum [keeps_intros]:
  "(\<And>x. keeps R (g x)) \<Longrightarrow> (\<And>x. keeps R (f x)) \<Longrightarrow>
     keeps R (case z of Inl x \<Rightarrow> g x | Inr x \<Rightarrow> f x)"
  by (cases z) simp_all

lemma keeps_list [keeps_intros]:
  "keeps R m \<Longrightarrow> (\<And>x xs. keeps R (f x xs)) \<Longrightarrow> keeps R (case z of [] \<Rightarrow> m | x # xs \<Rightarrow> f x xs)"
  by (cases z) simp_all

lemma keeps_prod [keeps_intros]:
  "(\<And>x y. keeps R (f x y)) \<Longrightarrow> keeps R (case z of (x, y) \<Rightarrow> f x y)"
  by (cases z) simp

text \<open>The composition rules need a preorder; they are proved once for every such relation.\<close>

locale preorder_on_states =
  fixes R :: "'s \<Rightarrow> 's \<Rightarrow> bool"
  assumes R_refl: "R s s"
    and R_trans: "R s t \<Longrightarrow> R t u \<Longrightarrow> R s u"
begin

lemma keeps_return: "keeps R (returnM x)"
  by (simp add: keeps_def R_refl)

lemma keeps_gets: "keeps R (getsM f)"
  by (simp add: keeps_def R_refl)

lemma keeps_bind: "keeps R m \<Longrightarrow> (\<And>x. keeps R (f x)) \<Longrightarrow> keeps R (bindM m f)"
  unfolding keeps_def by (blast intro: R_trans)

lemma keeps_run: "(\<And>s. keeps R (f s)) \<Longrightarrow> keeps R (\<lambda>s. f s s)"
  by (auto simp: keeps_def)

end

section \<open>C strings\<close>

text \<open>
  A C string is the list of its characters before the terminating zero; \<open>char*\<close> values that may be NULL
  are options. \<open>strstr\<close> returns the offset of the first occurrence.
\<close>

fun prefixb :: "'a list \<Rightarrow> 'a list \<Rightarrow> bool" where
  "prefixb [] ys = True"
| "prefixb (x # xs) [] = False"
| "prefixb (x # xs) (y # ys) = (x = y \<and> prefixb xs ys)"

lemma prefixb_iff: "prefixb xs ys \<longleftrightarrow> (\<exists>zs. ys = xs @ zs)"
  by (induction xs ys rule: prefixb.induct) auto

fun strstr :: "string \<Rightarrow> string \<Rightarrow> nat option" where
  "strstr s sub =
     (if prefixb sub s then Some 0
      else case s of [] \<Rightarrow> None | c # cs \<Rightarrow> map_option Suc (strstr cs sub))"

declare strstr.simps [simp del]

lemma strstr_Nil: "strstr [] sub = (if sub = [] then Some 0 else None)"
  by (subst strstr.simps) (cases sub, simp_all)

lemma strstr_Cons:
  "strstr (c # cs) sub = (if prefixb sub (c # cs) then Some 0 else map_option Suc (strstr cs sub))"
  by (subst strstr.simps) simp

lemmas strstr_simps [simp] = strstr_Nil strstr_Cons

lemma strstr_Some_split:
  "strstr s sub = Some n \<Longrightarrow> n + length sub \<le> length s \<and> s = take n s @ sub @ drop (n + length sub) s"
proof (induction s arbitrary: n)
  case Nil
  then show ?case by (auto split: if_splits)
next
  case (Cons c cs)
  show ?case
  proof (cases "prefixb sub (c # cs)")
    case True
    then obtain zs where "c # cs = sub @ zs" by (auto simp: prefixb_iff)
    moreover from True Cons.prems have "n = 0" by simp
    moreover have "length (c # cs) = length sub + length zs"
      using \<open>c # cs = sub @ zs\<close> by (metis length_append)
    ultimately show ?thesis by simp
  next
    case False
    with Cons.prems obtain m where m: "strstr cs sub = Some m" "n = Suc m" by auto
    from Cons.IH [OF m(1)] show ?thesis by (auto simp: m(2))
  qed
qed

lemma strstr_None_iff: "strstr s sub = None \<longleftrightarrow> (\<nexists>a b. s = a @ sub @ b)"
proof (induction s)
  case Nil
  show ?case by auto
next
  case (Cons c cs)
  have "(\<exists>a b. c # cs = a @ sub @ b) \<longleftrightarrow> prefixb sub (c # cs) \<or> (\<exists>a b. cs = a @ sub @ b)"
    by (auto simp: prefixb_iff Cons_eq_append_conv)
  with Cons.IH show ?case by (auto split: if_splits)
qed

lemma strstr_first:
  assumes "strstr s sub = Some n" "k < n"
  shows "\<not> prefixb sub (drop k s)"
  using assms
proof (induction s arbitrary: n k)
  case Nil
  then show ?case by (auto split: if_splits)
next
  case (Cons c cs)
  then obtain m where m: "\<not> prefixb sub (c # cs)" "strstr cs sub = Some m" "n = Suc m"
    by (auto split: if_splits)
  with Cons show ?case by (cases k) auto
qed

end
