(* ===== verification/BL_Types.thy ===== *)
theory BL_Types
  imports BL_Prelude
begin

text \<open>
  The data model of \<^verbatim>\<open>include/bearlang/types.h\<close>: the type tags, the error record, the tagged value
  \<open>bl_val_t\<close> with its union, and the program state.

  A C pointer to a \<open>bl_val_t\<close> is a natural number, 0 being NULL; the heap maps the address of every
  live value to its contents. A value keeps its tag (\<open>val_type\<close>) and its union (\<open>payload\<close>) apart, as the
  C structure does: \<open>U_zero\<close> is a union of zero bytes (what \<open>GC_MALLOC\<close> and static storage give), and
  reading a member that the union does not hold is a \<open>Fault\<close>. Memory is never released, since the
  collector only reclaims unreachable values.
\<close>

section \<open>Enumerations\<close>

datatype (plugins only: code size) bl_val_type_t =
    BL_VAL_TYPE_NONE | BL_VAL_TYPE_NULL | BL_VAL_TYPE_ERROR | BL_VAL_TYPE_SYMBOL
  | BL_VAL_TYPE_NUMBER | BL_VAL_TYPE_BOOL | BL_VAL_TYPE_STRING | BL_VAL_TYPE_CONS
  | BL_VAL_TYPE_OPER_NATIVE | BL_VAL_TYPE_FUNC_NATIVE | BL_VAL_TYPE_OPER_BL
  | BL_VAL_TYPE_FUNC_BL | BL_VAL_TYPE_CTX | BL_VAL_TYPE_CPTR | BL_VAL_TYPE_ANY
  | BL_VAL_TYPE_LIST_END | BL_VAL_TYPE_OPER_DO | BL_VAL_TYPE_OPER_IF
  | BL_VAL_TYPE_OPER_WHILE | BL_VAL_TYPE_DOCSTRING | BL_VAL_TYPE_TYPE

datatype (plugins only: code size) bl_err_type_t =
    BL_ERR_ANY | BL_ERR_UNKNOWN | BL_ERR_PARSE | BL_ERR_INSUFFICIENT_ARGS
  | BL_ERR_TOOMANY_ARGS | BL_ERR_INVALID_ARGTYPE | BL_ERR_SYMBOL_NOTFOUND
  | BL_ERR_DIVIDE_BY_ZERO | BL_ERR_CUSTOM | BL_ERR_IO | BL_ERR_MODULE_NOTFOUND
  | BL_ERR_BL_CUSTOM | BL_ERR_INTERNAL

datatype (plugins only: code size) bl_token_type_t =
    BL_TOKEN_LPAREN | BL_TOKEN_RPAREN | BL_TOKEN_STRING | BL_TOKEN_INTEGER | BL_TOKEN_SYMBOL
  | BL_TOKEN_IF | BL_TOKEN_DO | BL_TOKEN_WHILE | BL_TOKEN_DOCSTRING

section \<open>Pointers, errors and values\<close>

type_synonym ptr = nat

abbreviation (input) NULL :: ptr where
  "NULL \<equiv> 0"

text \<open>\<open>BL_LONGEST_LIST\<close> is the largest unsigned 64-bit number.\<close>

definition BL_LONGEST_LIST :: nat where
  "BL_LONGEST_LIST = 0xFFFFFFFFFFFFFFFF"

record bl_err_t =
  err_type :: bl_err_type_t
  min_args :: nat
  max_args :: nat
  provided_args :: nat
  expected_types :: "bl_val_type_t list option"
  provided_types :: "bl_val_type_t list option"
  symbol_name :: "string option"
  errmsg :: "string option"
  errnum :: nat
  err_sym :: ptr
  err_value :: ptr

text \<open>An error structure of zero bytes; \<open>BL_ERR_ANY\<close> is the error number 0.\<close>

definition zero_err :: bl_err_t where
  "zero_err = \<lparr>err_type = BL_ERR_ANY, min_args = 0, max_args = 0, provided_args = 0,
     expected_types = None, provided_types = None, symbol_name = None, errmsg = None,
     errnum = 0, err_sym = NULL, err_value = NULL\<rparr>"

text \<open>
  Code pointers. Every C function that the runtime, the interpreter and the extension modules install
  as a native operator has a constructor; \<open>ctx_getter\<close> lists the custom lookup functions of contexts.
\<close>

datatype (plugins only: code size) native =
    N_profile | N_listbuiltins | N_aget | N_split | N_startswith | N_pmatch | N_add | N_sub
  | N_mult | N_div | N_mod | N_set | N_fn | N_fun | N_foreach | N_filtered | N_throw | N_oper
  | N_map | N_eq | N_lt | N_gt | N_print | N_and | N_not | N_or | N_xor | N_first | N_second
  | N_third | N_rest | N_append | N_prepend | N_reverse | N_include | N_import | N_isset
  | N_serexp | N_inc | N_dec | N_parse | N_eval | N_try | N_quote | N_using | N_doc | N_dir
  | N_mksym | N_ctxget | N_type
  | N_quit | N_module string

datatype ctx_getter = Getter string

text \<open>The context part of the union: two parallel arrays indexed by symbol number.\<close>

record bl_ctx =
  custom_ctx_data :: nat
  keys :: "ptr list"
  vals :: "ptr list"
  vals_count :: nat
  parent :: ptr
  secondary :: ptr
  ctx_get :: "ctx_getter option"
  write_to_parent :: bool

text \<open>
  The union. \<open>U_func\<close> carries both the \<open>FUNC_BL\<close> and the \<open>OPER_BL\<close> structure: their first two members
  (\<open>bl_func_ptr\<close>/\<open>bl_oper_ptr\<close> and \<open>bl_funcargs_ptr\<close>/\<open>bl_operargs_ptr\<close>) lie at the same offsets and
  \<open>bl_oper_oper\<close> uses the closure members of the former on a value of the latter kind.
\<close>

record bl_func =
  bl_func_ptr :: ptr
  bl_funcargs_ptr :: ptr
  lexical_closure :: ptr
  inner_closure :: ptr
  func_sym :: ptr

definition zero_ctx :: bl_ctx where
  "zero_ctx = \<lparr>custom_ctx_data = 0, keys = [], vals = [], vals_count = 0, parent = NULL,
     secondary = NULL, ctx_get = None, write_to_parent = False\<rparr>"

definition zero_func :: bl_func where
  "zero_func = \<lparr>bl_func_ptr = NULL, bl_funcargs_ptr = NULL, lexical_closure = NULL,
     inner_closure = NULL, func_sym = NULL\<rparr>"

datatype bl_union =
    U_zero
  | U_err bl_err_t
  | U_bool bool
  | U_num int
  | U_str string nat
  | U_cons ptr ptr
  | U_ctx bl_ctx
  | U_cptr nat
  | U_native native
  | U_func bl_func
  | U_type bl_val_type_t

record bl_val_t =
  val_type :: bl_val_type_t
  docstr :: ptr
  invoked_sym :: ptr
  custom_data :: nat
  line_num :: nat
  payload :: bl_union

text \<open>
  The members \<open>eval_last\<close> and \<open>filename\<close> of the C structure are never accessed by the sources and are
  left out. \<open>fresh_val T u\<close> is a freshly allocated value with tag \<open>T\<close> whose union was set to \<open>u\<close>;
  \<open>zero_payload T\<close> is the union of zero bytes seen through the member that belongs to the tag.
\<close>

definition fresh_val :: "bl_val_type_t \<Rightarrow> bl_union \<Rightarrow> bl_val_t" where
  "fresh_val T u = \<lparr>val_type = T, docstr = NULL, invoked_sym = NULL, custom_data = 0,
     line_num = 0, payload = u\<rparr>"

definition zero_payload :: "bl_val_type_t \<Rightarrow> bl_union" where
  "zero_payload T = (case T of
      BL_VAL_TYPE_CONS \<Rightarrow> U_cons NULL NULL
    | BL_VAL_TYPE_NUMBER \<Rightarrow> U_num 0
    | BL_VAL_TYPE_BOOL \<Rightarrow> U_bool False
    | BL_VAL_TYPE_ERROR \<Rightarrow> U_err zero_err
    | BL_VAL_TYPE_CTX \<Rightarrow> U_ctx zero_ctx
    | BL_VAL_TYPE_CPTR \<Rightarrow> U_cptr 0
    | BL_VAL_TYPE_FUNC_BL \<Rightarrow> U_func zero_func
    | BL_VAL_TYPE_OPER_BL \<Rightarrow> U_func zero_func
    | BL_VAL_TYPE_TYPE \<Rightarrow> U_type BL_VAL_TYPE_NONE
    | _ \<Rightarrow> U_zero)"

section \<open>The program state\<close>

text \<open>
  What the process gets from its surroundings, all of it code outside the repository: the environment
  variables, the text of the files it opens for reading source, the matches of a glob pattern, the
  extension module that a dynamic library holds (\<open>None\<close> when it cannot be opened, \<open>Some None\<close> when it has
  no initialisation function) and the messages of \<open>dlerror\<close>, the text that a \<open>clock\<close>
  difference prints as, what a string reads as after it was freed, and the results of the C library
  functions that the modules wrap, of Python's and of the web server's, and the value that an
  uninitialised \<open>int\<close> happens to have. A stream is opened with its contents (\<open>Inr\<close>) or fails with an error
  number (\<open>Inl\<close>).
\<close>

datatype py_object = Py_str string | Py_callable nat | Py_other nat

record os_iface =
  getenv :: "string \<Rightarrow> string option"
  source_text :: "string \<Rightarrow> string option"
  glob_paths :: "string \<Rightarrow> string list"
  dylib :: "string \<Rightarrow> string option option"
  dlerror_text :: "string \<Rightarrow> string"
  clock_text :: string
  freed_text :: "string \<Rightarrow> string"
  fopen_result :: "string \<Rightarrow> string \<Rightarrow> nat + string"
  fclose_errno :: "nat \<Rightarrow> nat"
  popen_result :: "string \<Rightarrow> string \<Rightarrow> string option"
  dlopen_handle :: "string \<Rightarrow> nat"
  dlsym_addr :: "nat \<Rightarrow> string \<Rightarrow> nat"
  build_path :: "nat \<Rightarrow> string"
  build_version :: string
  py_module :: "string \<Rightarrow> nat"
  py_attr :: "nat \<Rightarrow> string \<Rightarrow> py_object option"
  http_requests :: "(string \<times> string \<times> string) list"
  foreign_ptr :: "nat \<Rightarrow> nat"
  uninit_int :: int

text \<open>
  Objects of the C library that a \<open>CPTR\<close> value may point to: a static text, a response of the web
  module, a stream with the input that is left, what was written to it and its end-of-file flag, and the
  description of a foreign function (its address, the number of its arguments and their types, where
  assigned).
\<close>

datatype stream_kind = Std_in | Std_out | Std_err | Disk string string

record stream =
  st_kind :: stream_kind
  st_in :: string
  st_out :: string
  st_eof :: bool
  st_open :: bool

record ffi_func_t =
  native_fn :: nat
  arg_count :: nat
  arg_types :: "bl_val_type_t option list"
  ret_type :: "string option"

datatype c_obj =
    C_text string
  | C_html string
  | C_stream stream
  | C_ffi ffi_func_t

text \<open>Calls of outside code whose effect is not part of the state; they are recorded in order.\<close>

datatype ext_call =
    Call_python nat "(bool \<times> string) list"
  | Call_foreign nat "ptr list"
  | Call_pclose nat
  | Call_history_save
  | Call_bind string
  | Call_send_html string

text \<open>
  \<open>heap\<close> and \<open>next_addr\<close> are the values allocated so far, \<open>symbol_table\<close> and \<open>last_sym_id\<close> the globals of
  \<^verbatim>\<open>utils.c\<close>, \<open>stdout_buf\<close> and \<open>stderr_buf\<close> what was written, \<open>c_objs\<close> the objects that C pointers refer to
  (pointer \<open>k\<close> is the object number \<open>k - 1\<close>), \<open>ext_calls\<close> the calls of outside code, \<open>input_lines\<close> the lines that the user will type, and
  \<open>uninit_bool\<close> the value that an uninitialised local \<open>bool\<close> happens to have (two functions read one).
\<close>

record store =
  heap :: "ptr \<Rightarrow> bl_val_t option"
  next_addr :: nat
  symbol_table :: "(string \<times> ptr) list"
  last_sym_id :: nat
  stdout_buf :: string
  stderr_buf :: string
  c_objs :: "c_obj list"
  ext_calls :: "ext_call list"
  input_lines :: "string list"
  uninit_bool :: bool
  os :: os_iface

type_synonym 'a BL = "(store, 'a) M"

text \<open>The C modules' calls back into the evaluator: context, expression, result.\<close>

type_synonym evaluator = "ptr \<Rightarrow> ptr \<Rightarrow> ptr BL"

section \<open>Access to values\<close>

definition deref :: "ptr \<Rightarrow> bl_val_t BL" where
  "deref p = (\<lambda>s. case heap s p of None \<Rightarrow> Fault Bad_pointer | Some c \<Rightarrow> Ret c s)"

definition put_val :: "ptr \<Rightarrow> bl_val_t \<Rightarrow> store \<Rightarrow> store" where
  "put_val p c s = s\<lparr>heap := (heap s)(p \<mapsto> c)\<rparr>"

definition update :: "ptr \<Rightarrow> (bl_val_t \<Rightarrow> bl_val_t) \<Rightarrow> unit BL" where
  "update p f = bindM (deref p) (\<lambda>c. modifyM (put_val p (f c)))"

definition get_type :: "ptr \<Rightarrow> bl_val_type_t BL" where
  "get_type p = bindM (deref p) (\<lambda>c. returnM (val_type c))"

definition get_payload :: "ptr \<Rightarrow> bl_union BL" where
  "get_payload p = bindM (deref p) (\<lambda>c. returnM (payload c))"

text \<open>
  Reading a union member: defined on the member the union holds, on zero bytes, and on other members
  where the layout of \<open>bl_val_t\<close> fixes the bytes that are read. A number is a structure with the unused
  \<open>fix_int\<close> (always zero) at offset 0 and the GMP integer \<open>i_val\<close> at offset 8, so the \<open>car\<close>, the truth value
  and the \<open>fix_int\<close> of a number are zero; and \<open>i_val\<close>, whose sign and size are its second four bytes, reads
  as 0 where the union holds a boolean, a code pointer, a C pointer, a type, a string or symbol (a symbol
  number below \<open>2 ^ 32\<close>) or the last cell of a list.
\<close>

definition union_car :: "bl_union \<Rightarrow> ptr BL" where
  "union_car u = (case u of U_cons a d \<Rightarrow> returnM a | U_zero \<Rightarrow> returnM NULL
     | U_num i \<Rightarrow> returnM NULL | _ \<Rightarrow> faultM Bad_union)"

definition union_cdr :: "bl_union \<Rightarrow> ptr BL" where
  "union_cdr u = (case u of U_cons a d \<Rightarrow> returnM d | U_zero \<Rightarrow> returnM NULL | _ \<Rightarrow> faultM Bad_union)"

definition union_s_val :: "bl_union \<Rightarrow> string BL" where
  "union_s_val u = (case u of U_str x i \<Rightarrow> returnM x | U_zero \<Rightarrow> faultM Bad_pointer | _ \<Rightarrow> faultM Bad_union)"

definition union_sym_id :: "bl_union \<Rightarrow> nat BL" where
  "union_sym_id u = (case u of U_str x i \<Rightarrow> returnM i | U_zero \<Rightarrow> returnM 0 | _ \<Rightarrow> faultM Bad_union)"

definition union_i_val :: "bl_union \<Rightarrow> int BL" where
  "union_i_val u = (case u of U_num i \<Rightarrow> returnM i | U_zero \<Rightarrow> returnM 0 | U_bool b \<Rightarrow> returnM 0
     | U_native f \<Rightarrow> returnM 0 | U_cptr k \<Rightarrow> returnM 0 | U_type T \<Rightarrow> returnM 0
     | U_str x k \<Rightarrow> if k < 2 ^ 32 then returnM 0 else faultM Bad_union
     | U_cons a d \<Rightarrow> if d = NULL then returnM 0 else faultM Bad_union
     | _ \<Rightarrow> faultM Bad_union)"

definition union_fix_int :: "bl_union \<Rightarrow> int BL" where
  "union_fix_int u = (case u of U_num i \<Rightarrow> returnM 0 | U_zero \<Rightarrow> returnM 0
     | U_bool b \<Rightarrow> returnM (if b then 1 else 0) | _ \<Rightarrow> faultM Bad_union)"

definition union_b_val :: "bl_union \<Rightarrow> bool BL" where
  "union_b_val u = (case u of U_bool b \<Rightarrow> returnM b | U_zero \<Rightarrow> returnM False | U_num i \<Rightarrow> returnM False
     | _ \<Rightarrow> faultM Bad_union)"

definition union_err :: "bl_union \<Rightarrow> bl_err_t BL" where
  "union_err u = (case u of U_err e \<Rightarrow> returnM e | U_zero \<Rightarrow> returnM zero_err | _ \<Rightarrow> faultM Bad_union)"

definition union_ctx :: "bl_union \<Rightarrow> bl_ctx BL" where
  "union_ctx u = (case u of U_ctx c \<Rightarrow> returnM c | U_zero \<Rightarrow> returnM zero_ctx | _ \<Rightarrow> faultM Bad_union)"

definition union_func :: "bl_union \<Rightarrow> bl_func BL" where
  "union_func u = (case u of U_func f \<Rightarrow> returnM f | U_zero \<Rightarrow> returnM zero_func | _ \<Rightarrow> faultM Bad_union)"

definition union_native :: "bl_union \<Rightarrow> native BL" where
  "union_native u = (case u of U_native c \<Rightarrow> returnM c | U_zero \<Rightarrow> faultM Bad_pointer | _ \<Rightarrow> faultM Bad_union)"

definition union_cptr :: "bl_union \<Rightarrow> nat BL" where
  "union_cptr u = (case u of U_cptr c \<Rightarrow> returnM c | U_zero \<Rightarrow> returnM 0 | _ \<Rightarrow> faultM Bad_union)"

definition union_type :: "bl_union \<Rightarrow> bl_val_type_t BL" where
  "union_type u = (case u of U_type T \<Rightarrow> returnM T | U_zero \<Rightarrow> returnM BL_VAL_TYPE_NONE | _ \<Rightarrow> faultM Bad_union)"

lemmas union_defs = union_car_def union_cdr_def union_s_val_def union_sym_id_def union_i_val_def union_fix_int_def
  union_b_val_def union_err_def union_ctx_def union_func_def union_native_def union_cptr_def
  union_type_def

definition get_car :: "ptr \<Rightarrow> ptr BL" where "get_car p = bindM (get_payload p) union_car"
definition get_cdr :: "ptr \<Rightarrow> ptr BL" where "get_cdr p = bindM (get_payload p) union_cdr"
definition get_s_val :: "ptr \<Rightarrow> string BL" where "get_s_val p = bindM (get_payload p) union_s_val"
definition get_sym_id :: "ptr \<Rightarrow> nat BL" where "get_sym_id p = bindM (get_payload p) union_sym_id"
definition get_i_val :: "ptr \<Rightarrow> int BL" where "get_i_val p = bindM (get_payload p) union_i_val"
definition get_fix_int :: "ptr \<Rightarrow> int BL" where "get_fix_int p = bindM (get_payload p) union_fix_int"
definition get_b_val :: "ptr \<Rightarrow> bool BL" where "get_b_val p = bindM (get_payload p) union_b_val"
definition get_err :: "ptr \<Rightarrow> bl_err_t BL" where "get_err p = bindM (get_payload p) union_err"
definition get_ctx :: "ptr \<Rightarrow> bl_ctx BL" where "get_ctx p = bindM (get_payload p) union_ctx"
definition get_func :: "ptr \<Rightarrow> bl_func BL" where "get_func p = bindM (get_payload p) union_func"
definition get_native :: "ptr \<Rightarrow> native BL" where "get_native p = bindM (get_payload p) union_native"
definition get_cptr :: "ptr \<Rightarrow> nat BL" where "get_cptr p = bindM (get_payload p) union_cptr"
definition get_ref_type :: "ptr \<Rightarrow> bl_val_type_t BL" where "get_ref_type p = bindM (get_payload p) union_type"

lemmas get_defs = get_car_def get_cdr_def get_s_val_def get_sym_id_def get_i_val_def get_fix_int_def get_b_val_def
  get_err_def get_ctx_def get_func_def get_native_def get_cptr_def get_ref_type_def

text \<open>Writing a union member stores the whole member; \<open>set_car\<close> and \<open>set_cdr\<close> write half of a pair.\<close>

definition set_payload :: "ptr \<Rightarrow> bl_union \<Rightarrow> unit BL" where
  "set_payload p u = update p (\<lambda>c. c\<lparr>payload := u\<rparr>)"

definition set_car :: "ptr \<Rightarrow> ptr \<Rightarrow> unit BL" where
  "set_car p x = bindM (get_payload p) (\<lambda>u. case u of
      U_cons a d \<Rightarrow> set_payload p (U_cons x d) | U_zero \<Rightarrow> set_payload p (U_cons x NULL)
    | _ \<Rightarrow> faultM Bad_union)"

definition set_cdr :: "ptr \<Rightarrow> ptr \<Rightarrow> unit BL" where
  "set_cdr p x = bindM (get_payload p) (\<lambda>u. case u of
      U_cons a d \<Rightarrow> set_payload p (U_cons a x) | U_zero \<Rightarrow> set_payload p (U_cons NULL x)
    | _ \<Rightarrow> faultM Bad_union)"

text \<open>
  Assigning to a GMP integer, to the members of a function or a context, or to a string's text is defined
  where the union holds that member (or, for the integer, zero bytes).
\<close>

definition set_i_val :: "ptr \<Rightarrow> int \<Rightarrow> unit BL" where
  "set_i_val p i = bindM (get_payload p) (\<lambda>u. case u of
      U_num j \<Rightarrow> set_payload p (U_num i) | U_zero \<Rightarrow> set_payload p (U_num i) | _ \<Rightarrow> faultM Bad_union)"

definition set_func :: "ptr \<Rightarrow> bl_func \<Rightarrow> unit BL" where
  "set_func p f = bindM (get_payload p) (\<lambda>u. case u of
      U_func g \<Rightarrow> set_payload p (U_func f) | _ \<Rightarrow> faultM Bad_union)"

definition set_s_val :: "ptr \<Rightarrow> string \<Rightarrow> unit BL" where
  "set_s_val p x = bindM (get_type p) (\<lambda>T.
     if T = BL_VAL_TYPE_STRING then set_payload p (U_str x 0) else faultM Bad_union)"

text \<open>
  \<open>for(i = L; i != NULL; i = i->cdr)\<close> with a body that may return from the function (\<open>Inl\<close>) or go on with
  new local variables (\<open>Inr\<close>). The first argument bounds the iterations.
\<close>

primrec for_cdr :: "nat \<Rightarrow> (ptr \<Rightarrow> 'a \<Rightarrow> ('r + 'a) BL) \<Rightarrow> ptr \<Rightarrow> 'a \<Rightarrow> ('r + 'a) BL" where
  "for_cdr 0 body i x = timeoutM"
| "for_cdr (Suc n) body i x =
     (if i = NULL then returnM (Inr x)
      else bindM (body i x) (\<lambda>r. case r of
             Inl v \<Rightarrow> returnM (Inl v)
           | Inr y \<Rightarrow> bindM (get_cdr i) (\<lambda>j. for_cdr n body j y)))"

end
