(* ===== verification/BL_Memory.thy ===== *)
theory BL_Memory
  imports BL_Types
begin

text \<open>
  Memory: the value pool of \<^verbatim>\<open>utils.c\<close> (\<open>bl_alloc_vals\<close>), allocation in the program state, the rules
  that evaluate reads and writes, and the relations between states that the whole runtime keeps: the
  store is well formed, tags never change, symbols are immutable.
\<close>

section \<open>The value pool\<close>

text \<open>
  \<open>bl_alloc_vals\<close> serves values from a pool of \<open>POOL_DEFAULT_SIZE\<close> entries and starts a new pool when
  \<open>last_alloc\<close> reaches the pool's size. An address is the number of the pool (a request larger than a
  pool gets one of its own) together with an index into it.
\<close>

definition POOL_DEFAULT_SIZE :: nat where
  "POOL_DEFAULT_SIZE = 100000"

record val_pools =
  val_pool :: nat
  last_alloc :: nat
  val_pool_size :: nat
  mallocs :: nat

definition init_pools :: val_pools where
  "init_pools = \<lparr>val_pool = 0, last_alloc = 0, val_pool_size = POOL_DEFAULT_SIZE, mallocs = 1\<rparr>"

definition bl_alloc_vals :: "nat \<Rightarrow> val_pools \<Rightarrow> (nat \<times> nat) \<times> val_pools" where
  "bl_alloc_vals count ps =
     (if count > POOL_DEFAULT_SIZE then ((mallocs ps, 0), ps\<lparr>mallocs := Suc (mallocs ps)\<rparr>)
      else
        let ps1 = (if last_alloc ps \<ge> val_pool_size ps
                   then ps\<lparr>val_pool := mallocs ps, mallocs := Suc (mallocs ps), last_alloc := 0\<rparr>
                   else ps);
            ps2 = ps1\<lparr>last_alloc := last_alloc ps1 + count\<rparr>
        in ((val_pool ps2, last_alloc ps2), ps2))"

text \<open>What the pool state promises between two requests.\<close>

definition pools_ok :: "val_pools \<Rightarrow> bool" where
  "pools_ok ps \<longleftrightarrow> val_pool ps < mallocs ps \<and> last_alloc ps \<le> val_pool_size ps
     \<and> val_pool_size ps = POOL_DEFAULT_SIZE"

text \<open>The addresses that single requests may have handed out before the pools were in this state.\<close>

definition pools_used :: "val_pools \<Rightarrow> (nat \<times> nat) set" where
  "pools_used ps = {(g, i). g < val_pool ps \<or> g = val_pool ps \<and> i \<le> last_alloc ps}"

text \<open>
  The interface of an allocator that hands out one address at a time: the address is new and counts as
  used from then on.
\<close>

locale fresh_allocator =
  fixes alloc :: "'st \<Rightarrow> 'addr \<times> 'st"
    and used :: "'st \<Rightarrow> 'addr set"
    and ok :: "'st \<Rightarrow> bool"
  assumes alloc_new: "ok st \<Longrightarrow> alloc st = (a, st') \<Longrightarrow> a \<notin> used st"
    and alloc_used: "ok st \<Longrightarrow> alloc st = (a, st') \<Longrightarrow> insert a (used st) \<subseteq> used st'"
    and alloc_ok: "ok st \<Longrightarrow> alloc st = (a, st') \<Longrightarrow> ok st'"
begin

primrec alloc_many :: "nat \<Rightarrow> 'st \<Rightarrow> 'addr list \<times> 'st" where
  "alloc_many 0 st = ([], st)"
| "alloc_many (Suc n) st =
     (case alloc st of (a, st1) \<Rightarrow> case alloc_many n st1 of (as, st2) \<Rightarrow> (a # as, st2))"

lemma alloc_many_props:
  "ok st \<Longrightarrow> alloc_many n st = (as, st') \<Longrightarrow>
     ok st' \<and> used st \<subseteq> used st' \<and> set as \<subseteq> used st' \<and> set as \<inter> used st = {} \<and> distinct as"
proof (induction n arbitrary: st as)
  case 0
  then show ?case by simp
next
  case (Suc n)
  obtain a st1 where a: "alloc st = (a, st1)" by fastforce
  obtain as1 where as1: "alloc_many n st1 = (as1, st')" "as = a # as1"
    using Suc.prems(2) a by (auto split: prod.splits)
  have ok1: "ok st1" and sub: "insert a (used st) \<subseteq> used st1" and new: "a \<notin> used st"
    using alloc_ok alloc_used alloc_new Suc.prems(1) a by blast+
  from Suc.IH [OF ok1 as1(1)] sub new show ?case by (auto simp: as1(2))
qed

lemma alloc_many_distinct: "ok st \<Longrightarrow> distinct (fst (alloc_many n st))"
  using alloc_many_props [of st n "fst (alloc_many n st)" "snd (alloc_many n st)"] by simp

end

lemma one_le_pool_size: "POOL_DEFAULT_SIZE \<noteq> 0" "Suc 0 \<le> POOL_DEFAULT_SIZE" "\<not> POOL_DEFAULT_SIZE < Suc 0"
  by (simp_all add: POOL_DEFAULT_SIZE_def)

interpretation pools: fresh_allocator "bl_alloc_vals 1" pools_used pools_ok
  by unfold_locales
    (auto simp: bl_alloc_vals_def pools_used_def pools_ok_def Let_def one_le_pool_size
        split: if_splits)

section \<open>Allocation in the program state\<close>

text \<open>
  The program state counts addresses up: only their freshness matters to the rest of the runtime.
  \<open>new_val\<close> is \<open>bl_mk_val\<close> followed by the assignment of the union, which every constructor performs
  before any other code can see the value.
\<close>

definition alloc_val :: "bl_val_t \<Rightarrow> store \<Rightarrow> ptr \<times> store" where
  "alloc_val c s = (next_addr s, s\<lparr>heap := (heap s)(next_addr s \<mapsto> c), next_addr := Suc (next_addr s)\<rparr>)"

definition new_val :: "bl_val_type_t \<Rightarrow> bl_union \<Rightarrow> ptr BL" where
  "new_val T u = (\<lambda>s. case alloc_val (fresh_val T u) s of (p, t) \<Rightarrow> Ret p t)"

definition bl_mk_val :: "bl_val_type_t \<Rightarrow> ptr BL" where
  "bl_mk_val T = new_val T (zero_payload T)"

text \<open>The addresses in use are exactly those below \<open>next_addr\<close>, and NULL is not one of them.\<close>

definition heap_ok :: "store \<Rightarrow> bool" where
  "heap_ok s \<longleftrightarrow> 0 < next_addr s \<and> (\<forall>p. heap s p \<noteq> None \<longleftrightarrow> 0 < p \<and> p < next_addr s)"

lemma heap_okD:
  "heap_ok s \<Longrightarrow> heap s p = Some c \<Longrightarrow> 0 < p \<and> p < next_addr s"
  "heap_ok s \<Longrightarrow> heap s 0 = None" "heap_ok s \<Longrightarrow> heap s (next_addr s) = None"
  "heap_ok s \<Longrightarrow> 0 < p \<Longrightarrow> p < next_addr s \<Longrightarrow> \<exists>c. heap s p = Some c"
  unfolding heap_ok_def by (metis option.distinct(1), metis less_irrefl, metis less_irrefl, metis not_None_eq)

lemma heap_ok_next: "heap_ok s \<Longrightarrow> 0 < next_addr s"
  by (simp add: heap_ok_def)

lemma heap_okI:
  "0 < next_addr s \<Longrightarrow> (\<And>p. heap s p \<noteq> None \<longleftrightarrow> 0 < p \<and> p < next_addr s) \<Longrightarrow> heap_ok s"
  by (simp add: heap_ok_def)

lemma heap_ok_alloc:
  assumes "heap_ok s"
  shows "heap_ok (s\<lparr>heap := (heap s)(next_addr s \<mapsto> c), next_addr := Suc (next_addr s)\<rparr>)"
proof (rule heap_okI)
  fix p
  have "heap s p \<noteq> None \<longleftrightarrow> 0 < p \<and> p < next_addr s" and "0 < next_addr s"
    using assms by (simp_all add: heap_ok_def)
  then show "heap (s\<lparr>heap := (heap s)(next_addr s \<mapsto> c), next_addr := Suc (next_addr s)\<rparr>) p \<noteq> None \<longleftrightarrow>
      0 < p \<and> p < next_addr (s\<lparr>heap := (heap s)(next_addr s \<mapsto> c), next_addr := Suc (next_addr s)\<rparr>)"
    by auto
qed simp

interpretation store: fresh_allocator "alloc_val c" "\<lambda>s. dom (heap s)" heap_ok
  by unfold_locales (auto simp: alloc_val_def heap_okD(3) heap_ok_alloc)

section \<open>Evaluating reads and writes\<close>

lemma heap_put_val [simp]: "heap (put_val p c s) q = (if q = p then Some c else heap s q)"
  by (simp add: put_val_def)

lemma put_val_frame [simp]:
  "next_addr (put_val p c s) = next_addr s" "symbol_table (put_val p c s) = symbol_table s"
  "last_sym_id (put_val p c s) = last_sym_id s" "stdout_buf (put_val p c s) = stdout_buf s"
  "stderr_buf (put_val p c s) = stderr_buf s" "c_objs (put_val p c s) = c_objs s"
  "input_lines (put_val p c s) = input_lines s" "os (put_val p c s) = os s"
  "ext_calls (put_val p c s) = ext_calls s"
  "uninit_bool (put_val p c s) = uninit_bool s"
  by (simp_all add: put_val_def)

lemma run_deref [simp, run_simps]: "heap s p = Some c \<Longrightarrow> deref p s = Ret c s"
  by (simp add: deref_def)

lemma deref_eq_Ret [simp]: "deref p s = Ret c t \<longleftrightarrow> heap s p = Some c \<and> t = s"
  by (auto simp: deref_def split: option.splits)

lemma deref_not_Timeout [simp]: "deref p s \<noteq> Timeout"
  by (simp add: deref_def split: option.splits)

lemma run_get_type [simp, run_simps]: "heap s p = Some c \<Longrightarrow> get_type p s = Ret (val_type c) s"
  by (simp add: get_type_def)

lemma get_type_eq_Ret [simp]:
  "get_type p s = Ret T t \<longleftrightarrow> (\<exists>c. heap s p = Some c \<and> val_type c = T) \<and> t = s"
  by (auto simp: get_type_def bindM_eq_Ret_iff)

lemma run_get_payload [simp, run_simps]: "heap s p = Some c \<Longrightarrow> get_payload p s = Ret (payload c) s"
  by (simp add: get_payload_def)

lemma run_gets [simp, run_simps]:
  assumes "heap s p = Some c"
  shows "get_car p s = union_car (payload c) s" "get_cdr p s = union_cdr (payload c) s"
    "get_s_val p s = union_s_val (payload c) s" "get_sym_id p s = union_sym_id (payload c) s"
    "get_i_val p s = union_i_val (payload c) s" "get_b_val p s = union_b_val (payload c) s"
    "get_err p s = union_err (payload c) s" "get_ctx p s = union_ctx (payload c) s"
    "get_func p s = union_func (payload c) s" "get_native p s = union_native (payload c) s"
    "get_fix_int p s = union_fix_int (payload c) s"
    "get_cptr p s = union_cptr (payload c) s" "get_ref_type p s = union_type (payload c) s"
  using assms by (simp_all add: get_defs)

lemma run_unions [simp, run_simps]:
  "union_car (U_cons a d) = returnM a" "union_cdr (U_cons a d) = returnM d"
  "union_s_val (U_str x i) = returnM x" "union_sym_id (U_str x i) = returnM i"
  "union_i_val (U_num n) = returnM n" "union_b_val (U_bool b) = returnM b"
  "union_err (U_err e) = returnM e" "union_ctx (U_ctx k) = returnM k"
  "union_func (U_func f) = returnM f" "union_native (U_native nt) = returnM nt"
  "union_cptr (U_cptr v) = returnM v" "union_type (U_type T) = returnM T"
  "union_car U_zero = returnM NULL" "union_cdr U_zero = returnM NULL"
  "union_car (U_num n) = returnM NULL" "union_fix_int (U_num n) = returnM 0"
  "union_b_val (U_num n) = returnM False"
  "union_i_val U_zero = returnM 0" "union_b_val U_zero = returnM False"
  by (simp_all add: union_defs)

lemma run_update [simp, run_simps]: "heap s p = Some c \<Longrightarrow> update p f s = Ret () (put_val p (f c) s)"
  by (simp add: update_def)

lemma run_set_payload [simp, run_simps]:
  "heap s p = Some c \<Longrightarrow> set_payload p u s = Ret () (put_val p (c\<lparr>payload := u\<rparr>) s)"
  by (simp add: set_payload_def)

lemma run_set_car [simp, run_simps]:
  "heap s p = Some c \<Longrightarrow> payload c = U_cons a d \<Longrightarrow>
     set_car p x s = Ret () (put_val p (c\<lparr>payload := U_cons x d\<rparr>) s)"
  by (simp add: set_car_def)

lemma run_set_cdr [simp, run_simps]:
  "heap s p = Some c \<Longrightarrow> payload c = U_cons a d \<Longrightarrow>
     set_cdr p x s = Ret () (put_val p (c\<lparr>payload := U_cons a x\<rparr>) s)"
  by (simp add: set_cdr_def)

lemma run_new_val [run_simps]:
  "new_val T u s = Ret (next_addr s) (s\<lparr>heap := (heap s)(next_addr s \<mapsto> fresh_val T u),
     next_addr := Suc (next_addr s)\<rparr>)"
  by (simp add: new_val_def alloc_val_def)

lemma fresh_val_simps [simp]:
  "val_type (fresh_val T u) = T" "payload (fresh_val T u) = u" "docstr (fresh_val T u) = NULL"
  "invoked_sym (fresh_val T u) = NULL" "custom_data (fresh_val T u) = 0" "line_num (fresh_val T u) = 0"
  by (simp_all add: fresh_val_def)

text \<open>Reads leave the state alone; they never run out of fuel.\<close>

definition pure_read :: "'a BL \<Rightarrow> bool" where
  "pure_read m \<longleftrightarrow> (\<forall>s. m s \<noteq> Timeout \<and> (\<forall>x t. m s = Ret x t \<longrightarrow> t = s))"

lemma pure_read_bind:
  "pure_read m \<Longrightarrow> (\<And>x. pure_read (f x)) \<Longrightarrow> pure_read (bindM m f)"
  unfolding pure_read_def by (simp add: bindM_eq_Ret_iff bindM_eq_Timeout_iff) metis

lemma pure_read_basic: "pure_read (returnM x)" "pure_read (faultM e)" "pure_read (deref p)"
  by (auto simp: pure_read_def)

lemma pure_read_unions:
  "pure_read (union_car u)" "pure_read (union_cdr u)" "pure_read (union_s_val u)"
  "pure_read (union_sym_id u)" "pure_read (union_i_val u)" "pure_read (union_b_val u)"
  "pure_read (union_fix_int u)"
  "pure_read (union_err u)" "pure_read (union_ctx u)" "pure_read (union_func u)"
  "pure_read (union_native u)" "pure_read (union_cptr u)" "pure_read (union_type u)"
  by (cases u; simp add: union_defs pure_read_basic)+

lemma pure_read_gets:
  "pure_read (get_type p)" "pure_read (get_payload p)" "pure_read (get_car p)" "pure_read (get_cdr p)"
  "pure_read (get_s_val p)" "pure_read (get_sym_id p)" "pure_read (get_i_val p)"
  "pure_read (get_fix_int p)"
  "pure_read (get_b_val p)" "pure_read (get_err p)" "pure_read (get_ctx p)" "pure_read (get_func p)"
  "pure_read (get_native p)" "pure_read (get_cptr p)" "pure_read (get_ref_type p)"
  by (simp_all add: get_defs get_type_def get_payload_def pure_read_bind pure_read_basic pure_read_unions)

lemma pure_readD: "pure_read m \<Longrightarrow> m s = Ret x t \<Longrightarrow> t = s"
  by (simp add: pure_read_def)

lemmas read_stateD = pure_read_gets [THEN pure_readD]

lemma get_payload_eq_Ret: "get_payload p s = Ret u t \<longleftrightarrow> (\<exists>c. heap s p = Some c \<and> payload c = u) \<and> t = s"
  by (auto simp: get_payload_def bindM_eq_Ret_iff)

section \<open>States over time\<close>

text \<open>
  The tag decides which union members a value may hold. The values whose tag has no member of its own
  (\<open>None\<close>, the special forms, placeholders) are left unconstrained: \<open>bl_list_append\<close> and \<open>bl_oper_inc\<close> do
  write into them.
\<close>

fun tag_ok :: "bl_val_type_t \<Rightarrow> bl_union \<Rightarrow> bool" where
  "tag_ok BL_VAL_TYPE_ERROR u = (case u of U_err _ \<Rightarrow> True | _ \<Rightarrow> False)"
| "tag_ok BL_VAL_TYPE_SYMBOL u = (case u of U_str _ _ \<Rightarrow> True | _ \<Rightarrow> False)"
| "tag_ok BL_VAL_TYPE_NUMBER u = (case u of U_num _ \<Rightarrow> True | _ \<Rightarrow> False)"
| "tag_ok BL_VAL_TYPE_BOOL u = (case u of U_bool _ \<Rightarrow> True | _ \<Rightarrow> False)"
| "tag_ok BL_VAL_TYPE_STRING u = (case u of U_str _ _ \<Rightarrow> True | _ \<Rightarrow> False)"
| "tag_ok BL_VAL_TYPE_DOCSTRING u = (case u of U_str _ _ \<Rightarrow> True | _ \<Rightarrow> False)"
| "tag_ok BL_VAL_TYPE_CONS u = (case u of U_cons _ _ \<Rightarrow> True | _ \<Rightarrow> False)"
| "tag_ok BL_VAL_TYPE_CTX u =
     (case u of U_ctx c \<Rightarrow> length (vals c) = vals_count c \<and> length (keys c) = vals_count c | _ \<Rightarrow> False)"
| "tag_ok BL_VAL_TYPE_CPTR u = (case u of U_cptr _ \<Rightarrow> True | _ \<Rightarrow> False)"
| "tag_ok BL_VAL_TYPE_OPER_NATIVE u = (case u of U_native _ \<Rightarrow> True | _ \<Rightarrow> False)"
| "tag_ok BL_VAL_TYPE_OPER_BL u = (case u of U_func _ \<Rightarrow> True | _ \<Rightarrow> False)"
| "tag_ok BL_VAL_TYPE_FUNC_BL u = (case u of U_func _ \<Rightarrow> True | _ \<Rightarrow> False)"
| "tag_ok BL_VAL_TYPE_TYPE u = (case u of U_type _ \<Rightarrow> True | _ \<Rightarrow> False)"
| "tag_ok _ u = True"

lemma tag_ok_cons_num:
  "tag_ok T (U_cons a d) \<Longrightarrow> tag_ok T (U_cons a' d')" "tag_ok T (U_num i) \<Longrightarrow> tag_ok T (U_num j)"
  "tag_ok T (U_func f) \<Longrightarrow> tag_ok T (U_func g)"
  "tag_ok T U_zero \<Longrightarrow> tag_ok T u"
  by (cases T; simp)+


text \<open>
  Values with static storage: \<open>null_val\<close>, \<open>true_val\<close>, \<open>false_val\<close> (\<^verbatim>\<open>utils.c\<close>) and the special forms
  (\<^verbatim>\<open>sexp.c\<close>) live at fixed addresses.
\<close>

definition null_val :: ptr where "null_val = 1"
definition true_val :: ptr where "true_val = 2"
definition false_val :: ptr where "false_val = 3"
definition if_oper_val :: ptr where "if_oper_val = 4"
definition do_oper_val :: ptr where "do_oper_val = 5"
definition end_list_val :: ptr where "end_list_val = 6"
definition while_oper_val :: ptr where "while_oper_val = 7"

lemmas static_addr_defs = null_val_def true_val_def false_val_def if_oper_val_def do_oper_val_def
  end_list_val_def while_oper_val_def

lemma static_addr_distinct [simp]:
  "distinct [NULL, null_val, true_val, false_val, if_oper_val, do_oper_val, end_list_val, while_oper_val]"
  by (simp add: static_addr_defs)

lemma static_addr_nonnull [simp]:
  "null_val \<noteq> 0" "true_val \<noteq> 0" "false_val \<noteq> 0" "if_oper_val \<noteq> 0" "do_oper_val \<noteq> 0"
  "end_list_val \<noteq> 0" "while_oper_val \<noteq> 0" "true_val \<noteq> false_val" "false_val \<noteq> true_val"
  "0 < null_val" "0 < true_val" "0 < false_val"
  by (simp_all add: static_addr_defs)

definition has_type :: "store \<Rightarrow> ptr \<Rightarrow> bl_val_type_t \<Rightarrow> bool" where
  "has_type s p T \<longleftrightarrow> (\<exists>c. heap s p = Some c \<and> val_type c = T)"

definition statics_ok :: "store \<Rightarrow> bool" where
  "statics_ok s \<longleftrightarrow> has_type s null_val BL_VAL_TYPE_NULL
     \<and> (\<exists>c. heap s true_val = Some c \<and> val_type c = BL_VAL_TYPE_BOOL \<and> payload c = U_bool True)
     \<and> (\<exists>c. heap s false_val = Some c \<and> val_type c = BL_VAL_TYPE_BOOL \<and> payload c = U_bool False)
     \<and> has_type s if_oper_val BL_VAL_TYPE_OPER_IF \<and> has_type s do_oper_val BL_VAL_TYPE_OPER_DO
     \<and> has_type s end_list_val BL_VAL_TYPE_LIST_END \<and> has_type s while_oper_val BL_VAL_TYPE_OPER_WHILE"

text \<open>
  \<open>is_symbol s p x i\<close>: the value at \<open>p\<close> is the symbol named \<open>x\<close> with number \<open>i\<close>. The symbol table lists
  symbols under their names cut to 31 characters (the size of the \<open>key\<close> array less its terminator), no
  two symbols have the same number, and a symbol whose name fits the table is the one found there.
\<close>

definition is_symbol :: "store \<Rightarrow> ptr \<Rightarrow> string \<Rightarrow> nat \<Rightarrow> bool" where
  "is_symbol s p x i \<longleftrightarrow>
     (\<exists>c. heap s p = Some c \<and> val_type c = BL_VAL_TYPE_SYMBOL \<and> payload c = U_str x i)"

definition symtab_ok :: "store \<Rightarrow> bool" where
  "symtab_ok s \<longleftrightarrow>
     (\<forall>(k, p) \<in> set (symbol_table s). \<exists>x i. is_symbol s p x i \<and> k = take 31 x)
     \<and> (\<forall>p x i. is_symbol s p x i \<longrightarrow> i < last_sym_id s)
     \<and> (\<forall>p q x y i. is_symbol s p x i \<longrightarrow> is_symbol s q y i \<longrightarrow> p = q)
     \<and> (\<forall>p x i. is_symbol s p x i \<longrightarrow> length x < 31 \<longrightarrow> map_of (symbol_table s) x = Some p)"

definition tags_ok :: "store \<Rightarrow> bool" where
  "tags_ok s \<longleftrightarrow> (\<forall>p c. heap s p = Some c \<longrightarrow> tag_ok (val_type c) (payload c))"

definition wf_store :: "store \<Rightarrow> bool" where
  "wf_store s \<longleftrightarrow> heap_ok s \<and> tags_ok s \<and> statics_ok s \<and> symtab_ok s"

text \<open>Values of these tags never change their contents once they are built.\<close>

definition immutable :: "bl_val_type_t \<Rightarrow> bool" where
  "immutable T \<longleftrightarrow> T \<in> {BL_VAL_TYPE_SYMBOL, BL_VAL_TYPE_BOOL, BL_VAL_TYPE_OPER_NATIVE,
     BL_VAL_TYPE_TYPE, BL_VAL_TYPE_DOCSTRING, BL_VAL_TYPE_CPTR}"

definition evolves :: "store \<Rightarrow> store \<Rightarrow> bool" where
  "evolves s t \<longleftrightarrow> next_addr s \<le> next_addr t \<and> last_sym_id s \<le> last_sym_id t
     \<and> (\<forall>k p. length k < 31 \<longrightarrow> map_of (symbol_table s) k = Some p \<longrightarrow>
            map_of (symbol_table t) k = Some p)
     \<and> (\<forall>p c. heap s p = Some c \<longrightarrow> (\<exists>d. heap t p = Some d \<and> val_type d = val_type c
            \<and> (immutable (val_type c) \<longrightarrow> payload d = payload c)))"

text \<open>What every operation of the runtime does to a well-formed state.\<close>

definition safe_step :: "store \<Rightarrow> store \<Rightarrow> bool" where
  "safe_step s t \<longleftrightarrow> (wf_store s \<longrightarrow> wf_store t \<and> evolves s t)"

lemma evolves_refl [simp]: "evolves s s"
  by (auto simp: evolves_def)

lemma evolvesD:
  "evolves s t \<Longrightarrow> heap s p = Some c \<Longrightarrow>
     \<exists>d. heap t p = Some d \<and> val_type d = val_type c \<and> (immutable (val_type c) \<longrightarrow> payload d = payload c)"
  by (simp add: evolves_def)

lemma evolves_trans:
  assumes "evolves s t" "evolves t u"
  shows "evolves s u"
proof -
  have "\<exists>d. heap u p = Some d \<and> val_type d = val_type c \<and> (immutable (val_type c) \<longrightarrow> payload d = payload c)"
    if c: "heap s p = Some c" for p c
  proof -
    obtain d where d: "heap t p = Some d" "val_type d = val_type c"
        "immutable (val_type c) \<longrightarrow> payload d = payload c"
      using evolvesD [OF assms(1) c] by blast
    from evolvesD [OF assms(2) d(1)] d(2,3) show ?thesis by auto
  qed
  with assms show ?thesis by (auto simp: evolves_def)
qed

interpretation safe: preorder_on_states safe_step
  by unfold_locales (auto simp: safe_step_def intro: evolves_trans)

lemmas [keeps_intros] = safe.keeps_return safe.keeps_gets safe.keeps_bind

lemma evolves_type: "evolves s t \<Longrightarrow> has_type s p T \<Longrightarrow> has_type t p T"
  unfolding evolves_def has_type_def by metis

lemma evolves_payload:
  "evolves s t \<Longrightarrow> heap s p = Some c \<Longrightarrow> immutable (val_type c) \<Longrightarrow>
     \<exists>d. heap t p = Some d \<and> val_type d = val_type c \<and> payload d = payload c"
  unfolding evolves_def by blast

lemma evolves_symbol:
  assumes "evolves s t" "is_symbol s p x i"
  shows "is_symbol t p x i"
proof -
  from assms(2) obtain c where c: "heap s p = Some c" "val_type c = BL_VAL_TYPE_SYMBOL" "payload c = U_str x i"
    by (auto simp: is_symbol_def)
  then show ?thesis using evolves_payload [OF assms(1) c(1)] by (auto simp: immutable_def is_symbol_def)
qed

lemma evolves_bool:
  assumes "evolves s t" "\<exists>c. heap s p = Some c \<and> val_type c = BL_VAL_TYPE_BOOL \<and> payload c = u"
  shows "\<exists>c. heap t p = Some c \<and> val_type c = BL_VAL_TYPE_BOOL \<and> payload c = u"
proof -
  from assms(2) obtain c where c: "heap s p = Some c" "val_type c = BL_VAL_TYPE_BOOL" "payload c = u"
    by blast
  then show ?thesis using evolves_payload [OF assms(1) c(1)] by (auto simp: immutable_def)
qed

lemma evolves_statics: "evolves s t \<Longrightarrow> statics_ok s \<Longrightarrow> statics_ok t"
  unfolding statics_ok_def by (intro conjI; elim conjE; erule (1) evolves_type evolves_bool)

lemma statics_bool [simp]:
  assumes "statics_ok s"
  shows "get_b_val true_val s = Ret True s" "get_b_val false_val s = Ret False s"
    "get_type null_val s = Ret BL_VAL_TYPE_NULL s"
  using assms by (auto simp: statics_ok_def has_type_def)

text \<open>A pure read changes nothing.\<close>

lemma pure_read_safe: "pure_read m \<Longrightarrow> keeps safe_step m"
  by (auto simp: keeps_def safe_step_def dest: pure_readD)

lemmas reads_safe [keeps_intros] = pure_read_gets [THEN pure_read_safe] pure_read_basic(3) [THEN pure_read_safe]

text \<open>Overwriting a value: the tag stays, the new contents fit it, and the value is mutable.\<close>

lemma safe_put:
  assumes c: "heap s p = Some c" and d: "val_type d = val_type c" "tag_ok (val_type d) (payload d)"
    and mut: "immutable (val_type c) \<Longrightarrow> payload d = payload c"
  shows "safe_step s (put_val p d s)"
proof -
  let ?t = "put_val p d s"
  have ev: "evolves s ?t"
    using c d(1) mut by (auto simp: evolves_def)
  have sym: "is_symbol ?t q x i \<longleftrightarrow> is_symbol s q x i" for q x i
    using c d(1) mut by (auto simp: is_symbol_def immutable_def)
  show ?thesis
    unfolding safe_step_def
  proof
    assume wf: "wf_store s"
    have "heap_ok ?t"
    proof (rule heap_okI)
      show "0 < next_addr ?t" using wf by (simp add: wf_store_def heap_ok_def)
      show "heap ?t q \<noteq> None \<longleftrightarrow> 0 < q \<and> q < next_addr ?t" for q
        using wf c by (cases "q = p") (auto simp: wf_store_def heap_ok_def)
    qed
    moreover have "tags_ok ?t" using wf d(2) by (auto simp: wf_store_def tags_ok_def)
    moreover have "statics_ok ?t" using wf ev evolves_statics by (auto simp: wf_store_def)
    moreover have "symtab_ok ?t" using wf by (simp add: wf_store_def symtab_ok_def sym)
    ultimately show "wf_store ?t \<and> evolves s ?t" using ev by (simp add: wf_store_def)
  qed
qed

lemma alloc_evolves:
  assumes "heap_ok s"
  shows "evolves s (s\<lparr>heap := (heap s)(next_addr s \<mapsto> c), next_addr := Suc (next_addr s)\<rparr>)"
  using heap_okD(3) [OF assms] by (auto simp: evolves_def)

lemma new_val_safe:
  assumes "tag_ok T u" "T \<noteq> BL_VAL_TYPE_SYMBOL"
  shows "keeps safe_step (new_val T u)"
proof (rule keepsI)
  fix s p t
  assume run: "new_val T u s = Ret p t"
  show "safe_step s t"
    unfolding safe_step_def
  proof
    assume wf: "wf_store s"
    from run have t: "t = s\<lparr>heap := (heap s)(next_addr s \<mapsto> fresh_val T u), next_addr := Suc (next_addr s)\<rparr>"
      by (auto simp: run_new_val)
    have ok: "heap_ok s" using wf by (simp add: wf_store_def)
    have ev: "evolves s t" unfolding t by (rule alloc_evolves [OF ok])
    have sym: "is_symbol t q x i \<longleftrightarrow> is_symbol s q x i" for q x i
      using assms(2) heap_okD(3) [OF ok] by (auto simp: is_symbol_def t)
    have "heap_ok t" unfolding t by (rule heap_ok_alloc [OF ok])
    moreover have "tags_ok t" using wf assms(1) by (auto simp: wf_store_def tags_ok_def t)
    moreover have "statics_ok t" using wf ev evolves_statics by (auto simp: wf_store_def)
    moreover have "symtab_ok t" using wf by (simp add: wf_store_def symtab_ok_def sym) (simp add: t)
    ultimately show "wf_store t \<and> evolves s t" using ev by (simp add: wf_store_def)
  qed
qed

lemma bl_mk_val_safe [keeps_intros]:
  "T \<notin> {BL_VAL_TYPE_SYMBOL, BL_VAL_TYPE_STRING, BL_VAL_TYPE_DOCSTRING, BL_VAL_TYPE_OPER_NATIVE} \<Longrightarrow>
     keeps safe_step (bl_mk_val T)"
  unfolding bl_mk_val_def by (rule new_val_safe) (cases T; simp add: zero_payload_def zero_ctx_def)+

text \<open>Writing bookkeeping members and mutable unions.\<close>

lemma update_meta_safe:
  assumes "\<And>c. val_type (f c) = val_type c" "\<And>c. payload (f c) = payload c"
  shows "keeps safe_step (update p f)"
proof (rule keepsI)
  fix s x t
  assume "update p f s = Ret x t"
  then obtain c where c: "heap s p = Some c" "t = put_val p (f c) s"
    by (auto simp: update_def)
  show "safe_step s t"
  proof (cases "wf_store s")
    case True
    then have "tag_ok (val_type (f c)) (payload (f c))"
      using c assms by (simp add: wf_store_def tags_ok_def)
    with c assms show ?thesis by (auto intro: safe_put)
  qed (simp add: safe_step_def)
qed

lemma set_payload_safe:
  assumes "\<And>T. tag_ok T u \<Longrightarrow> tag_ok T v \<and> \<not> immutable T"
    and "heap s p = Some c" "payload c = u"
  shows "safe_step s (put_val p (c\<lparr>payload := v\<rparr>) s)"
proof (cases "wf_store s")
  case True
  with assms(2,3) have "tag_ok (val_type c) u" by (auto simp: wf_store_def tags_ok_def)
  with assms(1,2) show ?thesis by (intro safe_put [where c = c]) auto
qed (simp add: safe_step_def)

lemma tag_ok_mutable:
  "tag_ok T (U_num i) \<Longrightarrow> tag_ok T (U_num j) \<and> \<not> immutable T"
  "tag_ok T U_zero \<Longrightarrow> tag_ok T u \<and> \<not> immutable T"
  "tag_ok T (U_func f) \<Longrightarrow> tag_ok T (U_func g) \<and> \<not> immutable T"
  "tag_ok T (U_cons a d) \<Longrightarrow> tag_ok T (U_cons a' d') \<and> \<not> immutable T"
  by (cases T; simp add: immutable_def)+

lemma set_mutable_safe:
  assumes "heap s p = Some c"
  shows "payload c = U_num i \<Longrightarrow> safe_step s (put_val p (c\<lparr>payload := U_num j\<rparr>) s)"
    "payload c = U_zero \<Longrightarrow> safe_step s (put_val p (c\<lparr>payload := u\<rparr>) s)"
    "payload c = U_func f \<Longrightarrow> safe_step s (put_val p (c\<lparr>payload := U_func g\<rparr>) s)"
    "payload c = U_cons a d \<Longrightarrow> safe_step s (put_val p (c\<lparr>payload := U_cons a' d'\<rparr>) s)"
  using assms tag_ok_mutable by (blast intro: set_payload_safe)+

lemma set_pair_safe [keeps_intros]: "keeps safe_step (set_car p x)" "keeps safe_step (set_cdr p x)"
  by (rule keepsI;
      auto simp: set_car_def set_cdr_def set_payload_def update_def get_payload_eq_Ret
        intro: set_mutable_safe split: bl_union.splits)+

lemma set_member_safe [keeps_intros]:
  "keeps safe_step (set_i_val p i)" "keeps safe_step (set_func p f)" "keeps safe_step (set_s_val p x)"
proof -
  show "keeps safe_step (set_i_val p i)" "keeps safe_step (set_func p f)"
    by (rule keepsI;
        auto simp: set_i_val_def set_func_def set_payload_def update_def get_payload_eq_Ret
          intro: set_mutable_safe split: bl_union.splits)+
  show "keeps safe_step (set_s_val p x)"
    by (rule keepsI)
      (auto simp: set_s_val_def set_payload_def update_def immutable_def
        intro!: safe_put split: if_splits)
qed

lemma for_cdr_safe [keeps_intros]:
  "(\<And>i x. keeps safe_step (body i x)) \<Longrightarrow> keeps safe_step (for_cdr n body i x)"
  by (induction n arbitrary: i x) (simp_all add: keeps_intros)

lemma for_cdr_mono [mono_intros]:
  assumes "n \<le> n'" "\<And>i x. le_M (body i x) (body' i x)"
  shows "le_M (for_cdr n body i x) (for_cdr n' body' i x)"
  using assms(1)
proof (induction n arbitrary: n' i x)
  case 0
  then show ?case by simp
next
  case (Suc n)
  then obtain k where "n' = Suc k" "n \<le> k" by (cases n') auto
  then show ?case
    by (simp only: for_cdr.simps) (intro mono_intros assms(2) Suc.IH)
qed

end
