(* ===== verification/BL_Values.thy ===== *)
theory BL_Values
  imports BL_Memory
begin

text \<open>
  Constructors of values (\<^verbatim>\<open>runtime/src/utils.c\<close>): numbers, strings, booleans, pointers, types, and the
  interned symbols. The GMP operations the runtime calls are given on integers, following
  \<^verbatim>\<open>vendor/gmp-6.1.2/mpz\<close>.
\<close>

section \<open>Output\<close>

definition print_out :: "string \<Rightarrow> unit BL" where
  "print_out x = modifyM (\<lambda>s. s\<lparr>stdout_buf := stdout_buf s @ x\<rparr>)"

definition print_err :: "string \<Rightarrow> unit BL" where
  "print_err x = modifyM (\<lambda>s. s\<lparr>stderr_buf := stderr_buf s @ x\<rparr>)"

abbreviation (input) LF :: char where "LF \<equiv> CHR 0x0A"
abbreviation (input) TAB :: char where "TAB \<equiv> CHR 0x09"

lemma wf_store_frame:
  assumes "heap t = heap s" "next_addr t = next_addr s" "symbol_table t = symbol_table s"
    "last_sym_id t = last_sym_id s"
  shows "wf_store t = wf_store s" "evolves s t"
proof -
  have "is_symbol t = is_symbol s" "has_type t = has_type s"
    by (intro ext, simp only: is_symbol_def has_type_def assms)+
  then show "wf_store t = wf_store s"
    by (simp only: wf_store_def heap_ok_def tags_ok_def statics_ok_def symtab_ok_def assms)
  have "evolves s t = evolves s s" by (simp only: evolves_def assms)
  then show "evolves s t" by simp
qed

lemma print_safe [keeps_intros]: "keeps safe_step (print_out x)" "keeps safe_step (print_err x)"
  using wf_store_frame [of "_\<lparr>stdout_buf := _\<rparr>"] wf_store_frame [of "_\<lparr>stderr_buf := _\<rparr>"]
  by (simp_all add: keeps_def print_out_def print_err_def safe_step_def)

section \<open>Numbers\<close>

text \<open>\<open>isspace\<close> in the C locale, and the digits that \<open>digit_value_tab\<close> gives a value below 10.\<close>

definition isspace :: "char \<Rightarrow> bool" where
  "isspace c \<longleftrightarrow> c \<in> {CHR '' '', CHR 0x09, CHR 0x0A, CHR 0x0B, CHR 0x0C, CHR 0x0D}"

definition digit_value :: "char \<Rightarrow> nat option" where
  "digit_value c = (let n = of_char c :: nat in if 48 \<le> n \<and> n \<le> 57 then Some (n - 48) else None)"

fun digits_value :: "nat \<Rightarrow> string \<Rightarrow> nat option" where
  "digits_value acc [] = Some acc"
| "digits_value acc (c # cs) =
     (if isspace c then digits_value acc cs
      else case digit_value c of None \<Rightarrow> None | Some d \<Rightarrow> digits_value (10 * acc + d) cs)"

text \<open>
  \<open>mpz_set_str(x, str, 10)\<close>: leading white space, at most one minus sign, at least one digit, then digits
  and white space. The result is \<open>None\<close> where the C function returns -1.
\<close>

definition mpz_set_str :: "string \<Rightarrow> int option" where
  "mpz_set_str str =
     (let s1 = dropWhile isspace str;
          negative = (s1 \<noteq> [] \<and> hd s1 = CHR ''-'');
          s2 = (if negative then tl s1 else s1)
      in case s2 of
           [] \<Rightarrow> None
         | c # _ \<Rightarrow>
             if digit_value c = None then None
             else map_option (\<lambda>n. if negative then - int n else int n)
                    (digits_value 0 (dropWhile (\<lambda>c. c = CHR ''0'' \<or> isspace c) s2)))"

text \<open>\<open>mpz_get_str(NULL, 10, x)\<close>.\<close>

definition digit_char :: "nat \<Rightarrow> char" where
  "digit_char d = char_of (48 + d)"

fun nat_digits :: "nat \<Rightarrow> string" where
  "nat_digits n = (if n < 10 then [digit_char n] else nat_digits (n div 10) @ [digit_char (n mod 10)])"

declare nat_digits.simps [simp del]

definition mpz_get_str :: "int \<Rightarrow> string" where
  "mpz_get_str i = (if i < 0 then CHR ''-'' # nat_digits (nat (- i)) else nat_digits (nat i))"

text \<open>
  \<open>mpz_tdiv_q\<close> divides the magnitudes and gives the quotient a sign from the operands' signs; \<open>mpz_mod\<close>
  computes the truncated remainder and adds the divisor's magnitude when the remainder is negative.
\<close>

definition mpz_tdiv_q :: "int \<Rightarrow> int \<Rightarrow> int" where
  "mpz_tdiv_q n d = (if (n < 0) = (d < 0) then \<bar>n\<bar> div \<bar>d\<bar> else - (\<bar>n\<bar> div \<bar>d\<bar>))"

definition mpz_tdiv_r :: "int \<Rightarrow> int \<Rightarrow> int" where
  "mpz_tdiv_r n d = (if n < 0 then - (\<bar>n\<bar> mod \<bar>d\<bar>) else \<bar>n\<bar> mod \<bar>d\<bar>)"

definition mpz_mod :: "int \<Rightarrow> int \<Rightarrow> int" where
  "mpz_mod n d = (let r = mpz_tdiv_r n d in if r < 0 then r + \<bar>d\<bar> else r)"

definition bl_mk_integer :: "string \<Rightarrow> ptr BL" where
  "bl_mk_integer s = (case mpz_set_str s of
      Some i \<Rightarrow> new_val BL_VAL_TYPE_NUMBER (U_num i)
    | None \<Rightarrow> bindM (new_val BL_VAL_TYPE_NUMBER (U_num 0)) (\<lambda>retval.
        bindM (print_err (''Error in gmp!'' @ [LF])) (\<lambda>_. returnM retval)))"

section \<open>Other constructors\<close>

definition bl_mk_null :: "ptr BL" where
  "bl_mk_null = returnM null_val"

definition bl_mk_str :: "string \<Rightarrow> ptr BL" where
  "bl_mk_str s = new_val BL_VAL_TYPE_STRING (U_str s 0)"

definition bl_mk_docstr :: "string \<Rightarrow> ptr BL" where
  "bl_mk_docstr s = new_val BL_VAL_TYPE_DOCSTRING (U_str s 0)"

definition bl_mk_native_oper :: "native \<Rightarrow> ptr BL" where
  "bl_mk_native_oper func_ptr = new_val BL_VAL_TYPE_OPER_NATIVE (U_native func_ptr)"

definition bl_mk_bool :: "bool \<Rightarrow> ptr BL" where
  "bl_mk_bool b = (if b then returnM true_val else returnM false_val)"

definition bl_mk_ptr :: "nat \<Rightarrow> ptr BL" where
  "bl_mk_ptr p = new_val BL_VAL_TYPE_CPTR (U_cptr p)"

definition bl_mk_type :: "bl_val_type_t \<Rightarrow> ptr BL" where
  "bl_mk_type T = new_val BL_VAL_TYPE_TYPE (U_type T)"

text \<open>A \<open>char*\<close> that may be NULL: passing NULL to \<open>bl_mk_str\<close> crashes in \<open>strlen\<close>.\<close>

definition bl_mk_str_opt :: "string option \<Rightarrow> ptr BL" where
  "bl_mk_str_opt s = (case s of None \<Rightarrow> faultM Bad_pointer | Some x \<Rightarrow> bl_mk_str x)"

lemma mk_safe [keeps_intros]:
  "keeps safe_step (bl_mk_integer s)" "keeps safe_step bl_mk_null" "keeps safe_step (bl_mk_str s)"
  "keeps safe_step (bl_mk_docstr s)" "keeps safe_step (bl_mk_native_oper f)"
  "keeps safe_step (bl_mk_bool b)" "keeps safe_step (bl_mk_ptr p)" "keeps safe_step (bl_mk_type T)"
  "keeps safe_step (bl_mk_str_opt z)"
  unfolding bl_mk_integer_def bl_mk_null_def bl_mk_str_def bl_mk_docstr_def bl_mk_native_oper_def
    bl_mk_bool_def bl_mk_ptr_def bl_mk_type_def bl_mk_str_opt_def
  by (intro keeps_intros new_val_safe; simp)+

section \<open>Symbols\<close>

text \<open>
  \<open>bl_mk_symbol\<close> looks the full name up in the hash table and, when it is not there, makes a symbol with
  the next number and adds it under the name as \<open>snprintf(symobj->key, 32, ...)\<close> leaves it, that is, cut to
  31 characters. A new entry goes to the front of its bucket.
\<close>

definition sym_key :: "string \<Rightarrow> string" where
  "sym_key x = take 31 x"

definition bl_mk_symbol :: "string \<Rightarrow> ptr BL" where
  "bl_mk_symbol name = (\<lambda>s. case map_of (symbol_table s) name of
      Some p \<Rightarrow> Ret p s
    | None \<Rightarrow>
        (case alloc_val (fresh_val BL_VAL_TYPE_SYMBOL (U_str name (last_sym_id s))) s of (p, t) \<Rightarrow>
           Ret p (t\<lparr>last_sym_id := Suc (last_sym_id s),
                    symbol_table := (sym_key name, p) # symbol_table s\<rparr>)))"

lemma bl_mk_symbol_cases:
  obtains (found) p where "map_of (symbol_table s) x = Some p" "bl_mk_symbol x s = Ret p s"
  | (new) "map_of (symbol_table s) x = None"
      "bl_mk_symbol x s = Ret (next_addr s)
         (s\<lparr>heap := (heap s)(next_addr s \<mapsto> fresh_val BL_VAL_TYPE_SYMBOL (U_str x (last_sym_id s))),
            next_addr := Suc (next_addr s), last_sym_id := Suc (last_sym_id s),
            symbol_table := (take 31 x, next_addr s) # symbol_table s\<rparr>)"
  by (cases "map_of (symbol_table s) x") (auto simp: bl_mk_symbol_def alloc_val_def sym_key_def)

lemma bl_mk_symbol_total: "\<exists>p t. bl_mk_symbol x s = Ret p t"
  by (cases rule: bl_mk_symbol_cases [of s x]) auto

text \<open>The state after a new symbol is made: everything the well-formedness of the table asks for.\<close>

lemma bl_mk_symbol_new_wf:
  assumes wf: "wf_store s" and new: "map_of (symbol_table s) x = None"
    and t: "t = s\<lparr>heap := (heap s)(next_addr s \<mapsto> fresh_val BL_VAL_TYPE_SYMBOL (U_str x (last_sym_id s))),
            next_addr := Suc (next_addr s), last_sym_id := Suc (last_sym_id s),
            symbol_table := (take 31 x, next_addr s) # symbol_table s\<rparr>"
  shows "wf_store t" "evolves s t"
proof -
  from wf have ok: "heap_ok s" and st: "symtab_ok s" by (simp_all add: wf_store_def)
  note free = heap_okD(3) [OF ok]
  have sym: "is_symbol t p y i \<longleftrightarrow> is_symbol s p y i \<or> p = next_addr s \<and> y = x \<and> i = last_sym_id s" for p y i
    using free by (auto simp: is_symbol_def t)
  have lt: "i < last_sym_id s" if "is_symbol s p y i" for p y i
    using st that unfolding symtab_ok_def by blast
  have tab: "\<exists>y i. is_symbol s p y i \<and> k = take 31 y" if "(k, p) \<in> set (symbol_table s)" for k p
    using st that unfolding symtab_ok_def by blast
  have key: "map_of (symbol_table s) y = Some p" if "is_symbol s p y i" "length y < 31" for p y i
    using st that unfolding symtab_ok_def by blast
  have inj: "p = q" if "is_symbol s p y i" "is_symbol s q z i" for p q y z i
    using st that unfolding symtab_ok_def by blast
  have short: "take 31 x = k \<Longrightarrow> length k < 31 \<Longrightarrow> map_of (symbol_table s) k = None" for k
    using new by (metis length_take min_less_iff_conj nat_less_le take_all_iff not_le)
  show ev: "evolves s t"
    using alloc_evolves [OF ok] short by (auto simp: evolves_def t)
  have "symbol_table t = (take 31 x, next_addr s) # symbol_table s" by (simp add: t)
  moreover have "last_sym_id t = Suc (last_sym_id s)" by (simp add: t)
  ultimately have "symtab_ok t"
    unfolding symtab_ok_def
  proof (intro conjI allI ballI impI, goal_cases)
    case (1 e) then show ?case using tab by (auto simp: sym) blast
  next
    case (2 p y i) then show ?case using lt by (fastforce simp: sym)
  next
    case (3 p q y z i) then show ?case using lt inj by (auto simp: sym)
  next
    case (4 p y i) then show ?case using key short [of y] by (auto simp: sym)
  qed
  moreover have "heap_ok t"
    using heap_ok_alloc [OF ok] by (auto simp: heap_ok_def t)
  moreover have "tags_ok t" using wf by (auto simp: wf_store_def tags_ok_def t)
  moreover have "statics_ok t" using wf ev evolves_statics by (auto simp: wf_store_def)
  ultimately show "wf_store t" by (simp add: wf_store_def)
qed

lemma bl_mk_symbol_safe [keeps_intros]: "keeps safe_step (bl_mk_symbol x)"
proof (rule keepsI)
  fix s p t
  assume run: "bl_mk_symbol x s = Ret p t"
  show "safe_step s t"
  proof (cases rule: bl_mk_symbol_cases [of s x])
    case (found q)
    with run show ?thesis by (simp add: safe.R_refl)
  next
    case new
    with run show ?thesis using bl_mk_symbol_new_wf [OF _ new(1)] by (auto simp: safe_step_def)
  qed
qed

text \<open>What \<open>bl_mk_symbol\<close> returns: a symbol of that name, if the name fits the table's key.\<close>

lemma bl_mk_symbol_result:
  assumes "wf_store s" "length x < 31" "bl_mk_symbol x s = Ret p t"
  shows "\<exists>i. is_symbol t p x i" "map_of (symbol_table t) x = Some p"
proof -
  have "(\<exists>i. is_symbol t p x i) \<and> map_of (symbol_table t) x = Some p"
  proof (cases rule: bl_mk_symbol_cases [of s x])
    case (found q)
    then have "(x, q) \<in> set (symbol_table s)" by (simp add: map_of_SomeD)
    with assms(1) obtain y i where "is_symbol s q y i" "x = take 31 y"
      unfolding wf_store_def symtab_ok_def by blast
    with assms(2) have "is_symbol s q x i" by simp
    with found assms(3) show ?thesis by auto
  next
    case new
    with assms(2,3) show ?thesis by (auto simp: is_symbol_def)
  qed
  then show "\<exists>i. is_symbol t p x i" "map_of (symbol_table t) x = Some p" by auto
qed

lemma symbol_unique:
  assumes "wf_store s" "is_symbol s p x i" "is_symbol s q x j" "length x < 31"
  shows "p = q"
proof -
  from assms have "map_of (symbol_table s) x = Some p" "map_of (symbol_table s) x = Some q"
    unfolding wf_store_def symtab_ok_def by blast+
  then show ?thesis by simp
qed

lemma symbol_id_unique:
  assumes "wf_store s" "is_symbol s p x i" "is_symbol s q y i"
  shows "p = q \<and> x = y"
proof -
  have "\<forall>p q x y i. is_symbol s p x i \<longrightarrow> is_symbol s q y i \<longrightarrow> p = q"
    using assms(1) unfolding wf_store_def symtab_ok_def by (elim conjE)
  then have pq: "p = q" using assms(2,3) by (elim allE impE)
  have "x = y" using assms(2,3) unfolding pq is_symbol_def by auto
  with pq show ?thesis by simp
qed

text \<open>Interning in any later state gives the same pointer.\<close>

lemma bl_mk_symbol_again:
  assumes "evolves t u" "map_of (symbol_table t) x = Some p" "length x < 31"
  shows "bl_mk_symbol x u = Ret p u"
  using assms by (simp add: evolves_def bl_mk_symbol_def)

section \<open>Decimal numbers\<close>

lemma digit_value_char [simp]: "d < 10 \<Longrightarrow> digit_value (digit_char d) = Some d"
  by (simp add: digit_value_def digit_char_def Let_def)

lemma of_char_digit_char: "d < 10 \<Longrightarrow> (of_char (digit_char d) :: nat) = 48 + d"
  by (simp add: digit_char_def)

lemma isspace_code: "isspace c \<Longrightarrow> (of_char c :: nat) \<le> 32"
  by (auto simp: isspace_def)

lemma digit_char_not_space [simp]: "d < 10 \<Longrightarrow> \<not> isspace (digit_char d)"
  using isspace_code [of "digit_char d"] by (auto simp: of_char_digit_char)

end
