(* ===== verification/BL_Lists.thy ===== *)
theory BL_Lists
  imports BL_Values
begin

text \<open>
  List operations (\<^verbatim>\<open>runtime/src/list_ops.c\<close> and \<open>bl_mk_list\<close> of \<^verbatim>\<open>utils.c\<close>) on the heap, their
  specification by the represented sequence, and the interface through which the rest of the runtime
  uses lists.

  A loop that only follows \<open>cdr\<close> pointers through unchanging cells visits at most \<open>next_addr\<close> cells
  before it meets one again, so \<open>next_addr\<close> iterations are enough: the outcome \<open>Timeout\<close> of these
  operations is exactly the endless loop on a circular list.
\<close>

section \<open>Operations\<close>

definition bl_list_first :: "ptr \<Rightarrow> ptr BL" where
  "bl_list_first L = (if L = NULL then returnM NULL else get_car L)"

definition bl_list_rest :: "ptr \<Rightarrow> ptr BL" where
  "bl_list_rest L = (if L = NULL then returnM NULL else get_cdr L)"

definition bl_list_second :: "ptr \<Rightarrow> ptr BL" where
  "bl_list_second L = (if L = NULL then returnM NULL else bindM (bl_list_rest L) bl_list_first)"

definition bl_list_third :: "ptr \<Rightarrow> ptr BL" where
  "bl_list_third L = bindM (bl_list_rest L) bl_list_second"

definition bl_list_prepend :: "ptr \<Rightarrow> ptr \<Rightarrow> ptr BL" where
  "bl_list_prepend L val = new_val BL_VAL_TYPE_CONS (U_cons val L)"

text \<open>\<open>while(L->cdr != NULL) L = L->cdr\<close>.\<close>

primrec last_cell :: "nat \<Rightarrow> ptr \<Rightarrow> ptr BL" where
  "last_cell 0 L = timeoutM"
| "last_cell (Suc n) L = bindM (get_cdr L) (\<lambda>d. if d = NULL then returnM L else last_cell n d)"

definition bl_list_last :: "ptr \<Rightarrow> ptr BL" where
  "bl_list_last L = (\<lambda>s. (if L = NULL then returnM NULL
     else bindM (last_cell (next_addr s) L) get_car) s)"

definition bl_list_append :: "ptr \<Rightarrow> ptr \<Rightarrow> ptr BL" where
  "bl_list_append L val = (\<lambda>s. (if L = NULL then bl_list_prepend L val
     else bindM (last_cell (next_addr s) L) (\<lambda>l.
          bindM (new_val BL_VAL_TYPE_CONS (U_cons val NULL)) (\<lambda>c.
          bindM (set_cdr l c) (\<lambda>_. returnM L)))) s)"

definition count_cells :: "ptr \<Rightarrow> nat BL" where
  "count_cells L = (\<lambda>s. bindM (for_cdr (Suc (next_addr s)) (\<lambda>i retval. returnM (Inr (Suc retval))) L 0)
     (\<lambda>r. case r of Inl x \<Rightarrow> returnM x | Inr x \<Rightarrow> returnM x) s)"

definition bl_list_len :: "ptr \<Rightarrow> nat BL" where
  "bl_list_len L = (if L = NULL then returnM 0
     else bindM (get_type L) (\<lambda>T. if T = BL_VAL_TYPE_NULL then returnM 0
     else bindM (get_car L) (\<lambda>a. if a = NULL then returnM 0 else count_cells L)))"

definition bl_list_reverse :: "ptr \<Rightarrow> ptr BL" where
  "bl_list_reverse L = (\<lambda>s. bindM
     (for_cdr (Suc (next_addr s))
       (\<lambda>i retval. bindM (get_car i) (\<lambda>a. bindM (bl_list_prepend retval a) (\<lambda>q. returnM (Inr q)))) L NULL)
     (\<lambda>r. case r of Inl x \<Rightarrow> returnM x | Inr x \<Rightarrow> returnM x) s)"

primrec prepend_all :: "(ptr \<Rightarrow> ptr \<Rightarrow> ptr BL) \<Rightarrow> ptr list \<Rightarrow> ptr \<Rightarrow> ptr BL" where
  "prepend_all prep [] L = returnM L"
| "prepend_all prep (x # xs) L = bindM (prep L x) (\<lambda>q. prepend_all prep xs q)"

text \<open>\<open>bl_mk_list(count, ...)\<close>: the variable arguments are a list here.\<close>

definition bl_mk_list :: "ptr list \<Rightarrow> ptr BL" where
  "bl_mk_list xs = (if xs = [] then new_val BL_VAL_TYPE_CONS (U_cons NULL NULL)
     else bindM (prepend_all bl_list_prepend xs NULL) bl_list_reverse)"

section \<open>Represented sequences\<close>

text \<open>\<open>is_list s p cs xs\<close>: from \<open>p\<close> the cells \<open>cs\<close> hang together and hold the pointers \<open>xs\<close>.\<close>

fun is_list :: "store \<Rightarrow> ptr \<Rightarrow> ptr list \<Rightarrow> ptr list \<Rightarrow> bool" where
  "is_list s p [] xs \<longleftrightarrow> p = NULL \<and> xs = []"
| "is_list s p (a # cs) xs \<longleftrightarrow> p = a \<and> (\<exists>x ys d c. xs = x # ys \<and> heap s a = Some c \<and>
     val_type c = BL_VAL_TYPE_CONS \<and> payload c = U_cons x d \<and> is_list s d cs ys)"

lemma is_list_length: "is_list s p cs xs \<Longrightarrow> length cs = length xs"
  by (induction cs arbitrary: p xs) auto

lemma is_list_dom: "is_list s p cs xs \<Longrightarrow> set cs \<subseteq> dom (heap s)"
  by (induction cs arbitrary: p xs) auto

lemma is_list_NULL [simp]: "heap_ok s \<Longrightarrow> is_list s NULL cs xs \<longleftrightarrow> cs = [] \<and> xs = []"
  by (cases cs) (auto simp: heap_okD(2))

lemma is_list_nonNULL:
  assumes "is_list s p cs xs" "p \<noteq> NULL"
  obtains x ys d c ds where "xs = x # ys" "cs = p # ds" "heap s p = Some c"
    "val_type c = BL_VAL_TYPE_CONS" "payload c = U_cons x d" "is_list s d ds ys"
  using assms by (cases cs) auto

lemma is_list_pos: "is_list s p cs xs \<Longrightarrow> heap_ok s \<Longrightarrow> cs \<noteq> [] \<Longrightarrow> 0 < p"
  by (cases cs) (auto dest: heap_okD(1))

lemma is_list_unique: "is_list s p cs xs \<Longrightarrow> is_list s p ds ys \<Longrightarrow> heap_ok s \<Longrightarrow> cs = ds \<and> xs = ys"
proof (induction cs arbitrary: p xs ds ys)
  case Nil
  then show ?case by simp
next
  case (Cons a cs)
  then have "p \<noteq> NULL" using is_list_pos by blast
  with Cons.prems(2) obtain y zs d c es where e: "ys = y # zs" "ds = p # es" "heap s p = Some c"
      "payload c = U_cons y d" "is_list s d es zs"
    by (rule is_list_nonNULL)
  moreover from Cons.prems(1) e obtain us where "xs = y # us" "a = p" "is_list s d cs us" by auto
  ultimately show ?case using Cons.IH Cons.prems(3) by blast
qed

lemma is_list_append_cells:
  "is_list s p (cs @ ds) xs \<Longrightarrow> \<exists>q. is_list s q ds (drop (length cs) xs)"
  by (induction cs arbitrary: p xs) auto

lemma is_list_distinct: "is_list s p cs xs \<Longrightarrow> heap_ok s \<Longrightarrow> distinct cs"
proof (induction cs arbitrary: p xs)
  case Nil
  then show ?case by simp
next
  case (Cons a cs)
  then obtain x ys d where d: "is_list s d cs ys" by auto
  have "a \<notin> set cs"
  proof
    assume "a \<in> set cs"
    then obtain us vs where cs: "cs = us @ a # vs" by (meson split_list)
    from d have "\<exists>q. is_list s q (a # vs) (drop (length us) ys)"
      unfolding cs by (rule is_list_append_cells)
    then have "is_list s a (a # vs) (drop (length us) ys)" by auto
    with Cons.prems is_list_unique have "a # vs = a # cs" by fastforce
    with cs show False by simp
  qed
  with Cons.IH [OF d] Cons.prems(2) show ?case by simp
qed

lemma is_list_bound:
  assumes "is_list s p cs xs" "heap_ok s"
  shows "length cs < next_addr s"
proof -
  have "set cs \<subseteq> {0<..<next_addr s}"
    using is_list_dom [OF assms(1)] heap_okD(1) [OF assms(2)] by fastforce
  then have "card (set cs) \<le> card {0<..<next_addr s}" by (rule card_mono [rotated]) simp
  moreover have "0 < next_addr s" using assms(2) by (simp add: heap_ok_def)
  ultimately show ?thesis using is_list_distinct [OF assms] by (simp add: distinct_card)
qed

text \<open>A list is unaffected by whatever happens outside its cells.\<close>

lemma is_list_frame:
  "is_list s p cs xs \<Longrightarrow> (\<And>a. a \<in> set cs \<Longrightarrow> heap t a = heap s a) \<Longrightarrow> is_list t p cs xs"
  by (induction cs arbitrary: p xs) auto

lemma is_list_fresh:
  assumes "is_list s p cs xs" "heap_ok s"
  shows "is_list (s\<lparr>heap := (heap s)(next_addr s \<mapsto> c), next_addr := k\<rparr>) p cs xs"
  using is_list_dom [OF assms(1)] heap_okD(3) [OF assms(2)]
  by (intro is_list_frame [OF assms(1)]) auto

section \<open>Specifications\<close>

lemma bl_list_prepend_spec:
  assumes "heap_ok s" "is_list s L cs xs"
  obtains q t where "bl_list_prepend L v s = Ret q t" "heap_ok t" "is_list t q (q # cs) (v # xs)"
    "\<And>p c. heap s p = Some c \<Longrightarrow> heap t p = Some c"
    "\<And>p ds ys. is_list s p ds ys \<Longrightarrow> is_list t p ds ys"
proof (rule that)
  show "bl_list_prepend L v s = Ret (next_addr s) (s\<lparr>heap := (heap s)(next_addr s \<mapsto>
      fresh_val BL_VAL_TYPE_CONS (U_cons v L)), next_addr := Suc (next_addr s)\<rparr>)"
    by (simp add: bl_list_prepend_def run_new_val)
qed (use heap_ok_alloc is_list_fresh heap_okD(3) assms in auto)

lemma bl_list_first_spec:
  "heap_ok s \<Longrightarrow> is_list s p cs xs \<Longrightarrow> bl_list_first p s = Ret (if xs = [] then NULL else hd xs) s"
  by (cases cs) (auto simp: bl_list_first_def heap_okD(2))

lemma bl_list_rest_spec:
  assumes "heap_ok s" "is_list s p cs xs"
  shows "\<exists>q. bl_list_rest p s = Ret q s \<and> is_list s q (tl cs) (tl xs)"
  using assms by (cases cs) (auto simp: bl_list_rest_def heap_okD(2))

lemma bl_list_second_spec:
  assumes "heap_ok s" "is_list s p cs xs"
  shows "bl_list_second p s = Ret (if length xs < 2 then NULL else xs ! 1) s"
proof (cases cs)
  case Nil
  with assms show ?thesis by (simp add: bl_list_second_def)
next
  case (Cons a ds)
  obtain q where q: "bl_list_rest p s = Ret q s" "is_list s q (tl cs) (tl xs)"
    using bl_list_rest_spec [OF assms] by blast
  from Cons assms have "p \<noteq> NULL" using is_list_pos by blast
  moreover from Cons assms(2) have "xs \<noteq> []" by auto
  ultimately show ?thesis
    using bl_list_first_spec [OF assms(1) q(2)] q(1)
    by (cases xs; cases "tl xs") (simp_all add: bl_list_second_def)
qed

lemma bl_list_third_spec:
  assumes "heap_ok s" "is_list s p cs xs"
  shows "bl_list_third p s = Ret (if length xs < 3 then NULL else xs ! 2) s"
proof -
  obtain q where q: "bl_list_rest p s = Ret q s" "is_list s q (tl cs) (tl xs)"
    using bl_list_rest_spec [OF assms] by blast
  then show ?thesis
    using bl_list_second_spec [OF assms(1) q(2)]
    by (cases xs) (auto simp: bl_list_third_def less_Suc_eq_0_disj numeral_2_eq_2)
qed

lemma last_cell_spec:
  assumes "is_list s p cs xs" "cs \<noteq> []" "length cs \<le> n" "heap_ok s"
  shows "last_cell n p s = Ret (last cs) s"
  using assms
proof (induction cs arbitrary: p xs n)
  case Nil
  then show ?case by simp
next
  case (Cons a cs)
  then obtain m where n: "n = Suc m" by (cases n) auto
  from Cons.prems obtain x ys d c where c: "heap s a = Some c" "payload c = U_cons x d"
    "is_list s d cs ys" "p = a" by auto
  show ?case
  proof (cases "cs = []")
    case True
    with c show ?thesis by (simp add: n)
  next
    case False
    with c Cons.prems(4) have "d \<noteq> NULL" using is_list_pos by blast
    with c False Cons.IH [OF c(3)] Cons.prems show ?thesis by (simp add: n)
  qed
qed

lemma bl_list_last_spec:
  assumes "is_list s p cs xs" "xs \<noteq> []" "heap_ok s"
  shows "bl_list_last p s = Ret (last xs) s"
proof -
  from assms have cs: "cs \<noteq> []" using is_list_length by fastforce
  have "p \<noteq> NULL" using cs assms is_list_pos by blast
  have last: "last_cell (next_addr s) p s = Ret (last cs) s"
    using last_cell_spec [OF assms(1) cs _ assms(3)] is_list_bound [OF assms(1,3)] by simp
  obtain q where "is_list s q [last cs] (drop (length cs - 1) xs)"
    using is_list_append_cells [of s p "butlast cs" "[last cs]" xs] assms(1) cs by auto
  moreover from this have "drop (length cs - 1) xs = [last xs]"
    using is_list_length [OF assms(1)] assms(2) by (metis append_butlast_last_id append_eq_conv_conj length_butlast)
  ultimately have "get_car (last cs) s = Ret (last xs) s" by auto
  with last \<open>p \<noteq> NULL\<close> show ?thesis by (simp add: bl_list_last_def)
qed

text \<open>\<open>bl_list_append\<close> writes into the last cell: the list that was passed in becomes the longer one.\<close>

lemma is_list_snoc:
  assumes "is_list s p cs xs" "cs \<noteq> []" "distinct cs"
    and "\<And>a. a \<in> set cs \<Longrightarrow> a \<noteq> last cs \<Longrightarrow> heap t a = heap s a"
    and "heap s (last cs) = Some c" "heap t (last cs) = Some (c\<lparr>payload := U_cons (last xs) q\<rparr>)"
    and "is_list t q [q] [v]"
  shows "is_list t p (cs @ [q]) (xs @ [v])"
  using assms
proof (induction cs arbitrary: p xs)
  case Nil
  then show ?case by simp
next
  case (Cons a cs)
  from Cons.prems(1) obtain x ys d e where e: "xs = x # ys" "p = a" "heap s a = Some e"
    "val_type e = BL_VAL_TYPE_CONS" "payload e = U_cons x d" "is_list s d cs ys" by auto
  show ?case
  proof (cases "cs = []")
    case True
    with e Cons.prems show ?thesis by auto
  next
    case False
    then have ys: "ys \<noteq> []" using e(6) is_list_length by fastforce
    have "is_list t d (cs @ [q]) (ys @ [v])"
      using Cons.prems False ys e(1,6) by (intro Cons.IH) auto
    moreover have "a \<noteq> last (a # cs)" using Cons.prems(3) False by auto
    then have "heap t a = heap s a" using Cons.prems(4) by simp
    ultimately show ?thesis using e by auto
  qed
qed

lemma bl_list_append_spec:
  assumes "is_list s p cs xs" "heap_ok s"
  obtains t where "bl_list_append p v s = Ret (if cs = [] then next_addr s else p) t" "heap_ok t"
    "is_list t (if cs = [] then next_addr s else p) (cs @ [next_addr s]) (xs @ [v])"
    "\<And>a c. heap s a = Some c \<Longrightarrow> cs = [] \<or> a \<noteq> last cs \<Longrightarrow> heap t a = Some c"
proof (cases "cs = []")
  case True
  with assms have "p = NULL" "xs = []" by auto
  with True that bl_list_prepend_spec [OF assms(2), of NULL "[]" "[]" v] heap_okD(3) [OF assms(2)]
    heap_ok_alloc [OF assms(2)]
  show ?thesis by (fastforce simp: bl_list_append_def bl_list_prepend_def run_new_val)
next
  case False
  let ?q = "next_addr s"
  let ?s1 = "s\<lparr>heap := (heap s)(?q \<mapsto> fresh_val BL_VAL_TYPE_CONS (U_cons v NULL)), next_addr := Suc ?q\<rparr>"
  have p: "p \<noteq> NULL" using False assms is_list_pos by blast
  have last: "last_cell (next_addr s) p s = Ret (last cs) s"
    using last_cell_spec [OF assms(1) False _ assms(2)] is_list_bound [OF assms] by simp
  have "\<exists>c. heap s (last cs) = Some c \<and> val_type c = BL_VAL_TYPE_CONS \<and> payload c = U_cons (last xs) NULL"
    using assms(1) False
  proof (induction cs arbitrary: p xs)
    case (Cons a cs)
    then obtain x ys d c where c: "xs = x # ys" "heap s a = Some c" "val_type c = BL_VAL_TYPE_CONS"
      "payload c = U_cons x d" "is_list s d cs ys" by auto
    show ?case
    proof (cases "cs = []")
      case False
      then have "ys \<noteq> []" using c(5) is_list_length by fastforce
      with Cons.IH [OF c(5) False] c(1) False show ?thesis by simp
    qed (use c in auto)
  qed simp
  then obtain c where c: "heap s (last cs) = Some c" "val_type c = BL_VAL_TYPE_CONS"
    "payload c = U_cons (last xs) NULL" by blast
  have ne: "last cs \<noteq> ?q" using heap_okD(3) [OF assms(2)] c(1) by auto
  let ?t = "put_val (last cs) (c\<lparr>payload := U_cons (last xs) ?q\<rparr>) ?s1"
  have run: "bl_list_append p v s = Ret p ?t"
    using p last c ne by (simp add: bl_list_append_def run_new_val)
  have ok1: "heap_ok ?s1" by (rule heap_ok_alloc [OF assms(2)])
  have "heap_ok ?t"
  proof (rule heap_okI)
    show "0 < next_addr ?t" by simp
    show "heap ?t a \<noteq> None \<longleftrightarrow> 0 < a \<and> a < next_addr ?t" for a
      using ok1 ne c(1) heap_okD(1) [OF assms(2) c(1)] by (auto simp: heap_ok_def)
  qed
  moreover have "is_list ?t p (cs @ [?q]) (xs @ [v])"
  proof (rule is_list_snoc [OF assms(1) False is_list_distinct [OF assms] _ c(1)])
    show "heap ?t a = heap s a" if "a \<in> set cs" "a \<noteq> last cs" for a
      using that is_list_dom [OF assms(1)] heap_okD(3) [OF assms(2)] by auto
  qed (use ne in auto)
  moreover have "heap ?t a = Some e" if "heap s a = Some e" "a \<noteq> last cs" for a e
    using that heap_okD(3) [OF assms(2)] by auto
  ultimately show ?thesis
    using that [of ?t] run False by simp
qed


text \<open>
  Iterating over a list whose cells the body leaves alone: the loop ends, and an invariant that speaks
  about the elements still to come carries over.
\<close>

definition lists_kept :: "store \<Rightarrow> store \<Rightarrow> bool" where
  "lists_kept s t \<longleftrightarrow> (\<forall>p cs xs. is_list s p cs xs \<longrightarrow> is_list t p cs xs)"

lemma lists_kept_refl [simp]: "lists_kept s s"
  by (simp add: lists_kept_def)

lemma lists_kept_trans: "lists_kept s t \<Longrightarrow> lists_kept t u \<Longrightarrow> lists_kept s u"
  by (simp add: lists_kept_def)

lemma for_cdr_list:
  assumes "is_list s p cs xs" "heap_ok s" "length cs < n" "Inv s x xs"
    and step: "\<And>s x i y ys. heap_ok s \<Longrightarrow> Inv s x (y # ys) \<Longrightarrow> get_car i s = Ret y s \<Longrightarrow>
        \<exists>z t. body i x s = Ret (Inr z) t \<and> heap_ok t \<and> Inv t z ys \<and> lists_kept s t"
  shows "\<exists>z t. for_cdr n body p x s = Ret (Inr z) t \<and> heap_ok t \<and> Inv t z [] \<and> lists_kept s t"
  using assms(1-4)
proof (induction cs arbitrary: s p xs x n)
  case Nil
  then obtain m where "n = Suc m" by (cases n) auto
  with Nil show ?case by simp
next
  case (Cons a cs)
  then obtain m where n: "n = Suc m" by (cases n) auto
  from Cons.prems(1) obtain y ys d c where c: "xs = y # ys" "p = a" "heap s a = Some c"
    "payload c = U_cons y d" "is_list s d cs ys" by auto
  have p: "p \<noteq> NULL" using is_list_pos [OF Cons.prems(1,2)] by simp
  obtain z t where zt: "body p x s = Ret (Inr z) t" "heap_ok t" "Inv t z ys" "lists_kept s t"
    using step [of s x y ys p] Cons.prems(2,4) c by auto
  from zt(4) Cons.prems(1) have "is_list t p (a # cs) xs" unfolding lists_kept_def by blast
  then obtain d' where d': "get_cdr p t = Ret d' t" "is_list t d' cs ys" using c(1) by auto
  obtain w u where "for_cdr m body d' z t = Ret (Inr w) u" "heap_ok u" "Inv u w []" "lists_kept t u"
    using Cons.IH [OF d'(2) zt(2) _ zt(3), of m] Cons.prems(3) n by auto
  with zt d'(1) p n show ?case by (auto intro: lists_kept_trans)
qed

lemma count_cells_spec:
  assumes "is_list s p cs xs" "heap_ok s"
  shows "count_cells p s = Ret (length xs) s"
proof -
  have "\<exists>z t. for_cdr (Suc (next_addr s)) (\<lambda>i retval. returnM (Inr (Suc retval))) p 0 s = Ret (Inr z :: nat + nat) t
      \<and> heap_ok t \<and> (t = s \<and> z + length ([] :: ptr list) = length xs) \<and> lists_kept s t"
    by (rule for_cdr_list [OF assms, where Inv = "\<lambda>t z ys. t = s \<and> z + length ys = length xs"])
      (use is_list_bound [OF assms] in auto)
  then show ?thesis by (auto simp: count_cells_def simp del: for_cdr.simps)
qed

lemma bl_list_len_spec:
  assumes "is_list s p cs xs" "heap_ok s" "xs \<noteq> [] \<Longrightarrow> hd xs \<noteq> NULL"
  shows "bl_list_len p s = Ret (length xs) s"
  using assms count_cells_spec [OF assms(1,2)] is_list_pos [OF assms(1,2)]
  by (cases cs) (auto simp: bl_list_len_def)

text \<open>\<open>bl_list_reverse\<close> builds a new list and leaves the old one as it was.\<close>

lemma prepend_kept:
  assumes "heap_ok s" "is_list s L ds ys"
  shows "\<exists>q t. bl_list_prepend L v s = Ret q t \<and> heap_ok t \<and> is_list t q (q # ds) (v # ys) \<and> lists_kept s t"
  using bl_list_prepend_spec [OF assms, of v] unfolding lists_kept_def by metis

lemma bl_list_reverse_spec:
  assumes "is_list s p cs xs" "heap_ok s"
  shows "\<exists>q ds t. bl_list_reverse p s = Ret q t \<and> heap_ok t \<and> is_list t q ds (rev xs) \<and> lists_kept s t"
proof -
  let ?body = "\<lambda>i retval. bindM (get_car i) (\<lambda>a. bindM (bl_list_prepend retval a) (\<lambda>q. returnM (Inr q)))"
  let ?Inv = "\<lambda>t q ys. \<exists>ds. is_list t q ds (rev (take (length xs - length ys) xs)) \<and>
      (\<exists>zs. xs = zs @ ys)"
  have "\<exists>z t. for_cdr (Suc (next_addr s)) ?body p NULL s = Ret (Inr z :: ptr + ptr) t \<and> heap_ok t
      \<and> ?Inv t z ([] :: ptr list) \<and> lists_kept s t"
  proof (rule for_cdr_list [OF assms])
    show "length cs < Suc (next_addr s)" using is_list_bound [OF assms] by simp
    show "?Inv s NULL xs" by (rule exI [of _ "[]"]) simp
  next
    fix s1 x i y and ys :: "ptr list"
    assume ok: "heap_ok s1" and inv: "?Inv s1 x (y # ys)" and car: "get_car i s1 = Ret y s1"
    from inv obtain ds zs where ds: "is_list s1 x ds (rev zs)" "xs = zs @ y # ys" by auto
    from prepend_kept [OF ok ds(1), of y] obtain q t where
      q: "bl_list_prepend x y s1 = Ret q t" "heap_ok t" "is_list t q (q # ds) (y # rev zs)" "lists_kept s1 t"
      by blast
    have "?Inv t q ys" using q(3) ds(2) by (intro exI [of _ "q # ds"]) auto
    with q car show "\<exists>z t. ?body i x s1 = Ret (Inr z :: ptr + ptr) t \<and> heap_ok t \<and> ?Inv t z ys \<and> lists_kept s1 t"
      by auto
  qed
  then show ?thesis by (fastforce simp: bl_list_reverse_def simp del: for_cdr.simps)
qed

section \<open>The list interface\<close>

text \<open>
  What the rest of the runtime relies on: lists represent sequences, consing and reversing return a
  representation of the expected sequence and keep every list that exists. \<open>bl_mk_list\<close> is correct for
  any provider of that interface.
\<close>

locale sequence_store =
  fixes rep :: "store \<Rightarrow> ptr \<Rightarrow> ptr list \<Rightarrow> bool"
    and ok :: "store \<Rightarrow> bool"
    and prep :: "ptr \<Rightarrow> ptr \<Rightarrow> ptr BL"
    and reverse :: "ptr \<Rightarrow> ptr BL"
  assumes rep_NULL: "ok s \<Longrightarrow> rep s NULL []"
    and prep_rep: "ok s \<Longrightarrow> rep s L xs \<Longrightarrow>
      \<exists>q t. prep L x s = Ret q t \<and> ok t \<and> rep t q (x # xs) \<and> (\<forall>p ys. rep s p ys \<longrightarrow> rep t p ys)"
    and reverse_rep: "ok s \<Longrightarrow> rep s L xs \<Longrightarrow>
      \<exists>q t. reverse L s = Ret q t \<and> ok t \<and> rep t q (rev xs) \<and> (\<forall>p ys. rep s p ys \<longrightarrow> rep t p ys)"
begin

lemma prepend_all_rep:
  "ok s \<Longrightarrow> rep s L ys \<Longrightarrow> \<exists>q t. prepend_all prep xs L s = Ret q t \<and> ok t \<and> rep t q (rev xs @ ys)
     \<and> (\<forall>p zs. rep s p zs \<longrightarrow> rep t p zs)"
proof (induction xs arbitrary: s L ys)
  case Nil
  then show ?case by simp
next
  case (Cons x xs)
  obtain q t where q: "prep L x s = Ret q t" "ok t" "rep t q (x # ys)" "\<forall>p zs. rep s p zs \<longrightarrow> rep t p zs"
    using prep_rep [OF Cons.prems] by blast
  from Cons.IH [OF q(2,3)] q(1,4) show ?case by fastforce
qed

lemma from_list_rep:
  assumes "ok s"
  shows "\<exists>q t. bindM (prepend_all prep xs NULL) reverse s = Ret q t \<and> ok t \<and> rep t q xs
     \<and> (\<forall>p zs. rep s p zs \<longrightarrow> rep t p zs)"
proof -
  obtain q t where q: "prepend_all prep xs NULL s = Ret q t" "ok t" "rep t q (rev xs)"
      "\<forall>p zs. rep s p zs \<longrightarrow> rep t p zs"
    using prepend_all_rep [OF assms rep_NULL [OF assms], of xs] by auto
  from reverse_rep [OF q(2,3)] q(1,4) show ?thesis by fastforce
qed

lemma reverse_twice_rep:
  assumes "ok s" "rep s L xs"
  shows "\<exists>q t. bindM (reverse L) reverse s = Ret q t \<and> ok t \<and> rep t q xs \<and> rep t L xs"
proof -
  obtain q t where q: "reverse L s = Ret q t" "ok t" "rep t q (rev xs)" "rep t L xs"
    using reverse_rep [OF assms] assms(2) by blast
  obtain r u where "reverse q t = Ret r u" "ok u" "rep u r (rev (rev xs))" "\<forall>p zs. rep t p zs \<longrightarrow> rep u p zs"
    using reverse_rep [OF q(2,3)] by blast
  with q show ?thesis by auto
qed

end

definition list_rep :: "store \<Rightarrow> ptr \<Rightarrow> ptr list \<Rightarrow> bool" where
  "list_rep s p xs \<longleftrightarrow> (\<exists>cs. is_list s p cs xs)"

interpretation bl_list: sequence_store list_rep heap_ok bl_list_prepend bl_list_reverse
proof (unfold_locales, goal_cases)
  case (1 s)
  show ?case by (auto simp: list_rep_def intro: exI [of _ "[]"])
next
  case (2 s L xs x)
  then obtain cs where "is_list s L cs xs" by (auto simp: list_rep_def)
  from prepend_kept [OF 2(1) this, of x] show ?case
    unfolding list_rep_def lists_kept_def by metis
next
  case (3 s L xs)
  then obtain cs where "is_list s L cs xs" by (auto simp: list_rep_def)
  from bl_list_reverse_spec [OF this 3(1)] show ?case
    unfolding list_rep_def lists_kept_def by metis
qed

lemma bl_mk_list_spec:
  assumes "heap_ok s" "xs \<noteq> []"
  shows "\<exists>q t. bl_mk_list xs s = Ret q t \<and> heap_ok t \<and> list_rep t q xs \<and> (\<forall>p zs. list_rep s p zs \<longrightarrow> list_rep t p zs)"
  using bl_list.from_list_rep [OF assms(1), of xs] assms(2) by (simp add: bl_mk_list_def)

section \<open>Effects on the state\<close>

lemma last_cell_pure: "last_cell n p s = Ret q t \<Longrightarrow> t = s"
  by (induction n arbitrary: p) (auto dest: read_stateD split: if_splits)

lemma last_cell_safe [keeps_intros]: "keeps safe_step (last_cell n p)"
  by (rule keepsI) (auto dest: last_cell_pure simp: safe.R_refl)

lemma list_ops_safe [keeps_intros]:
  "keeps safe_step (bl_list_first L)" "keeps safe_step (bl_list_rest L)"
  "keeps safe_step (bl_list_second L)" "keeps safe_step (bl_list_third L)"
  "keeps safe_step (bl_list_prepend L v)" "keeps safe_step (bl_list_last L)"
  "keeps safe_step (bl_list_append L v)" "keeps safe_step (bl_list_len L)"
  "keeps safe_step (bl_list_reverse L)" "keeps safe_step (bl_mk_list xs)"
proof -
  show fr: "keeps safe_step (bl_list_first L)" "keeps safe_step (bl_list_rest L)" for L
    unfolding bl_list_first_def bl_list_rest_def by (intro keeps_intros)+
  show sec: "keeps safe_step (bl_list_second L)" for L
    unfolding bl_list_second_def by (intro keeps_intros fr)
  show "keeps safe_step (bl_list_third L)"
    unfolding bl_list_third_def by (intro keeps_intros fr sec)
  show pre: "keeps safe_step (bl_list_prepend L v)" for L v
    unfolding bl_list_prepend_def by (intro new_val_safe) simp_all
  show "keeps safe_step (bl_list_last L)"
    unfolding bl_list_last_def by (rule safe.keeps_run) (intro keeps_intros)
  show "keeps safe_step (bl_list_append L v)"
    unfolding bl_list_append_def by (rule safe.keeps_run) (intro keeps_intros new_val_safe pre; simp)
  have "keeps safe_step (count_cells L)" for L
    unfolding count_cells_def by (rule safe.keeps_run) (intro keeps_intros)
  then show "keeps safe_step (bl_list_len L)"
    unfolding bl_list_len_def by (intro keeps_intros)
  show rv: "keeps safe_step (bl_list_reverse L)" for L
    unfolding bl_list_reverse_def by (rule safe.keeps_run) (intro keeps_intros pre)
  have "keeps safe_step (prepend_all bl_list_prepend xs L)" for xs L
    by (induction xs arbitrary: L) (simp_all add: keeps_intros pre)
  then show "keeps safe_step (bl_mk_list xs)"
    unfolding bl_mk_list_def by (intro keeps_intros new_val_safe rv) simp_all
qed

end
