(* ===== verification/BL_Strings.thy ===== *)
theory BL_Strings
  imports BL_Lists
begin

text \<open>
  String operations (\<^verbatim>\<open>runtime/src/string_ops.c\<close>) that do not print values: concatenation and
  splitting. \<open>join_str\<close> and \<open>str_replace\<close> need the serialiser and are in the theory of the printer.
\<close>

section \<open>Concatenation\<close>

definition safe_strcat :: "string option \<Rightarrow> string option \<Rightarrow> string option" where
  "safe_strcat a b = (case a of None \<Rightarrow> b | Some x \<Rightarrow>
     (case b of None \<Rightarrow> a | Some y \<Rightarrow> Some (x @ y)))"

lemma safe_strcat_assoc: "safe_strcat (safe_strcat a b) c = safe_strcat a (safe_strcat b c)"
  by (simp add: safe_strcat_def split: option.split)

lemma safe_strcat_Some [simp]: "safe_strcat (Some x) (Some y) = Some (x @ y)"
  "safe_strcat None b = b" "safe_strcat a None = a"
  by (simp_all add: safe_strcat_def split: option.split)

section \<open>Splitting\<close>

text \<open>
  \<open>tail_substr\<close> cuts the buffer at the first occurrence of the separator; the result is the part before
  it and the rest, or \<open>None\<close> where the C function returns NULL.
\<close>

definition tail_substr :: "string \<Rightarrow> string \<Rightarrow> (string \<times> string) option" where
  "tail_substr s sep = (case strstr s sep of None \<Rightarrow> None
     | Some k \<Rightarrow> Some (take k s, drop (k + length sep) s))"

text \<open>
  The loop of \<open>split_str\<close>, with the pieces in the order they are found. Every round removes the separator
  from the buffer, so with a non-empty separator the length of the string bounds the rounds; with an
  empty one the loop never ends, which is the value \<open>None\<close>.
\<close>

primrec split_pieces :: "nat \<Rightarrow> string \<Rightarrow> string \<Rightarrow> string list option" where
  "split_pieces 0 buf sep = None"
| "split_pieces (Suc n) buf sep = (case tail_substr buf sep of
      None \<Rightarrow> Some (if buf = [] then [] else [buf])
    | Some (piece, tail) \<Rightarrow> map_option (Cons piece) (split_pieces n tail sep))"

primrec build_strs :: "string list \<Rightarrow> ptr \<Rightarrow> ptr BL" where
  "build_strs [] retval = returnM retval"
| "build_strs (x # xs) retval = bindM (bl_mk_str x) (\<lambda>p.
     bindM (bl_list_prepend retval p) (\<lambda>q. build_strs xs q))"

definition split_str :: "string \<Rightarrow> string \<Rightarrow> ptr BL" where
  "split_str s sep =
     (if length s = 0 then bl_mk_null
      else if length s \<le> length sep then bindM (bl_mk_str s) (\<lambda>p. bl_mk_list [p])
      else case split_pieces (Suc (length s)) s sep of
             None \<Rightarrow> timeoutM
           | Some ps \<Rightarrow> bindM (build_strs ps NULL) bl_list_reverse)"

definition str_first_token :: "string \<Rightarrow> string \<Rightarrow> string BL" where
  "str_first_token s sep = bindM (split_str s sep) (\<lambda>_.
     bindM (split_str s sep) (\<lambda>l. bindM (bl_list_first l) get_s_val))"

section \<open>What splitting computes\<close>

fun intercalate :: "string \<Rightarrow> string list \<Rightarrow> string" where
  "intercalate sep [] = []"
| "intercalate sep [x] = x"
| "intercalate sep (x # y # zs) = x @ sep @ intercalate sep (y # zs)"

lemma tail_substr_Some:
  assumes "tail_substr s sep = Some (x, r)"
  shows "s = x @ sep @ r" "sep \<noteq> [] \<Longrightarrow> strstr x sep = None"
proof -
  from assms obtain k where k: "strstr s sep = Some k" "x = take k s" "r = drop (k + length sep) s"
    by (auto simp: tail_substr_def split: option.splits)
  from strstr_Some_split [OF k(1)] show "s = x @ sep @ r" by (simp add: k)
  assume ne: "sep \<noteq> []"
  show "strstr x sep = None"
    unfolding strstr_None_iff
  proof
    assume "\<exists>a b. x = a @ sep @ b"
    then obtain a b where ab: "x = a @ sep @ b" by blast
    with strstr_Some_split [OF k(1)] have "s = a @ sep @ b @ sep @ r" by (simp add: k)
    then have "prefixb sep (drop (length a) s)" by (auto simp: prefixb_iff)
    moreover have "length a < k"
      using ab ne k(2) by (metis append_eq_conv_conj length_append length_take less_add_same_cancel1
          length_greater_0_conv min.absorb_iff2 min_less_iff_conj append_is_Nil_conv)
    ultimately show False using strstr_first [OF k(1)] by blast
  qed
qed

lemma split_pieces_enough:
  assumes "sep \<noteq> []" "length s < n"
  shows "\<exists>ps. split_pieces n s sep = Some ps"
  using assms(2)
proof (induction n arbitrary: s)
  case 0
  then show ?case by simp
next
  case (Suc n)
  show ?case
  proof (cases "tail_substr s sep")
    case None
    then show ?thesis by simp
  next
    case (Some z)
    obtain x r where z: "z = (x, r)" by fastforce
    with Some have "s = x @ sep @ r" by (auto dest: tail_substr_Some)
    then have "length s = length x + length sep + length r" by simp
    moreover have "0 < length sep" using assms(1) by simp
    ultimately have "length r < n" using Suc.prems by linarith
    with Suc.IH Some z show ?thesis by fastforce
  qed
qed

text \<open>The pieces in order, with the separator between them, are the string or the string less a final separator.\<close>

lemma split_pieces_join:
  assumes "split_pieces n s sep = Some ps" "sep \<noteq> []"
  shows "(if ps = [] then s = [] else s = intercalate sep ps \<or> s = intercalate sep ps @ sep)
    \<and> (\<forall>x \<in> set ps. strstr x sep = None)"
  using assms(1)
proof (induction n arbitrary: s ps)
  case 0
  then show ?case by simp
next
  case (Suc n)
  show ?case
  proof (cases "tail_substr s sep")
    case None
    with Suc.prems show ?thesis by (auto simp: tail_substr_def split: option.splits if_splits)
  next
    case (Some z)
    obtain x r where z: "z = (x, r)" by fastforce
    with Some Suc.prems obtain qs where qs: "split_pieces n r sep = Some qs" "ps = x # qs" by auto
    note cut = tail_substr_Some [OF Some [unfolded z]]
    have rec: "(if qs = [] then r = [] else r = intercalate sep qs \<or> r = intercalate sep qs @ sep)
        \<and> (\<forall>x \<in> set qs. strstr x sep = None)"
      by (rule Suc.IH [OF qs(1)])
    show ?thesis using rec cut assms(2) by (cases qs) (auto simp: qs(2))
  qed
qed

lemma split_pieces_empty_sep: "split_pieces n s [] = None"
proof (induction n arbitrary: s)
  case (Suc n)
  have "strstr s [] = Some 0" by (cases s) simp_all
  with Suc show ?case by (simp add: tail_substr_def)
qed simp

text \<open>The list that \<open>split_str\<close> returns holds string values with exactly these pieces.\<close>

definition is_str :: "store \<Rightarrow> ptr \<Rightarrow> string \<Rightarrow> bool" where
  "is_str s p x \<longleftrightarrow> (\<exists>c i. heap s p = Some c \<and> val_type c = BL_VAL_TYPE_STRING \<and> payload c = U_str x i)"

definition same_heap_below :: "store \<Rightarrow> store \<Rightarrow> bool" where
  "same_heap_below s t \<longleftrightarrow> (\<forall>p c. heap s p = Some c \<longrightarrow> heap t p = Some c)"

lemma same_heap_below_refl [simp]: "same_heap_below s s"
  and same_heap_below_trans: "same_heap_below s t \<Longrightarrow> same_heap_below t u \<Longrightarrow> same_heap_below s u"
  by (simp_all add: same_heap_below_def)

lemma same_heap_below_str: "same_heap_below s t \<Longrightarrow> is_str s p x \<Longrightarrow> is_str t p x"
  unfolding is_str_def same_heap_below_def by blast

lemma same_heap_below_list: "same_heap_below s t \<Longrightarrow> is_list s p cs xs \<Longrightarrow> is_list t p cs xs"
  unfolding same_heap_below_def by (induction cs arbitrary: p xs) auto

lemma new_val_below:
  "heap_ok s \<Longrightarrow> new_val T u s = Ret p t \<Longrightarrow>
     heap_ok t \<and> same_heap_below s t \<and> heap t p = Some (fresh_val T u) \<and> 0 < p"
  using heap_ok_alloc [of s "fresh_val T u"] heap_okD(3) [of s] heap_ok_next [of s]
  by (auto simp: run_new_val same_heap_below_def)

lemma build_strs_spec:
  assumes "heap_ok s" "is_list s L cs qs" "list_all2 (is_str s) qs ys"
  shows "\<exists>q t ds rs. build_strs xs L s = Ret q t \<and> heap_ok t \<and> same_heap_below s t
     \<and> is_list t q ds rs \<and> list_all2 (is_str t) rs (rev xs @ ys)"
  using assms
proof (induction xs arbitrary: s L cs qs ys)
  case Nil
  then show ?case by auto
next
  case (Cons x xs)
  obtain p t1 where p: "bl_mk_str x s = Ret p t1" by (simp add: bl_mk_str_def run_new_val)
  then have t1: "heap_ok t1" "same_heap_below s t1" "is_str t1 p x"
    using new_val_below [OF Cons.prems(1), of BL_VAL_TYPE_STRING "U_str x 0"]
    by (auto simp: bl_mk_str_def is_str_def)
  obtain q t2 where q: "bl_list_prepend L p t1 = Ret q t2" "heap_ok t2" "is_list t2 q (q # cs) (p # qs)"
      "\<And>a c. heap t1 a = Some c \<Longrightarrow> heap t2 a = Some c"
    using bl_list_prepend_spec [OF t1(1) same_heap_below_list [OF t1(2) Cons.prems(2)]] by metis
  have b2: "same_heap_below t1 t2" using q(4) by (simp add: same_heap_below_def)
  have "list_all2 (is_str t2) (p # qs) (x # ys)"
    using Cons.prems(3) t1(2,3) b2
    by (auto intro: same_heap_below_str elim!: list_all2_mono)
  from Cons.IH [OF q(2,3) this] p q(1) t1(2) b2 show ?case
    by (fastforce intro: same_heap_below_trans)
qed

lemma build_strs_safe [keeps_intros]: "keeps safe_step (build_strs xs L)"
  by (induction xs arbitrary: L) (simp_all add: keeps_intros)

lemma split_str_safe [keeps_intros]: "keeps safe_step (split_str s sep)"
  unfolding split_str_def by (intro keeps_intros)

lemma str_first_token_safe [keeps_intros]: "keeps safe_step (str_first_token s sep)"
  unfolding str_first_token_def by (intro keeps_intros)

end
