(* ===== verification/BL_Errors.thy ===== *)
theory BL_Errors
  imports BL_Strings
begin

text \<open>
  Error values and argument checking (\<^verbatim>\<open>runtime/src/error_tools.c\<close>). The checks return NULL when the
  arguments are acceptable and an error value otherwise. The text of an error (\<open>bl_errmsg\<close>) needs the
  serialiser and is defined in the theory of the printer.
\<close>

section \<open>Constructors\<close>

definition bl_err_symnotfound :: "string \<Rightarrow> ptr BL" where
  "bl_err_symnotfound name = new_val BL_VAL_TYPE_ERROR
     (U_err (zero_err\<lparr>err_type := BL_ERR_SYMBOL_NOTFOUND, symbol_name := Some name\<rparr>))"

definition bl_err_modnotfound :: "string \<Rightarrow> ptr BL" where
  "bl_err_modnotfound name = new_val BL_VAL_TYPE_ERROR
     (U_err (zero_err\<lparr>err_type := BL_ERR_MODULE_NOTFOUND, symbol_name := Some name\<rparr>))"

definition bl_err_divzero :: "ptr BL" where
  "bl_err_divzero = new_val BL_VAL_TYPE_ERROR (U_err (zero_err\<lparr>err_type := BL_ERR_DIVIDE_BY_ZERO\<rparr>))"

definition bl_mk_err :: "bl_err_type_t \<Rightarrow> ptr BL" where
  "bl_mk_err T = new_val BL_VAL_TYPE_ERROR (U_err (zero_err\<lparr>err_type := T\<rparr>))"

section \<open>Argument checks\<close>

definition bl_errif_invalid_len :: "ptr \<Rightarrow> nat \<Rightarrow> nat \<Rightarrow> ptr BL" where
  "bl_errif_invalid_len L mn mx = bindM (get_type L) (\<lambda>T.
     if T = BL_VAL_TYPE_ERROR then returnM L
     else bindM (bl_list_len L) (\<lambda>L_len.
       if L_len = mn \<and> mn = mx then returnM NULL
       else if L_len \<ge> mn \<and> L_len \<le> mx then returnM NULL
       else new_val BL_VAL_TYPE_ERROR (U_err (zero_err\<lparr>
              err_type := (if L_len < mn then BL_ERR_INSUFFICIENT_ARGS else BL_ERR_TOOMANY_ARGS),
              min_args := mn, max_args := mx, provided_args := L_len\<rparr>))))"

text \<open>The first loop of \<open>bl_errif_invalid_fixed_args\<close>: an error among the arguments is returned at once.\<close>

primrec check_types :: "bl_val_type_t list \<Rightarrow> ptr \<Rightarrow> bool \<Rightarrow> (ptr + bool) BL" where
  "check_types [] list_iter is_good = returnM (Inr is_good)"
| "check_types (E # Es) list_iter is_good =
     bindM (get_car list_iter) (\<lambda>a. bindM (get_type a) (\<lambda>T.
       if T = BL_VAL_TYPE_ERROR then returnM (Inl a)
       else bindM (get_cdr list_iter) (\<lambda>d.
         check_types Es d (if E \<noteq> T \<and> E \<noteq> BL_VAL_TYPE_ANY then False else is_good))))"

text \<open>The second loop records the types that were given.\<close>

primrec collect_types :: "nat \<Rightarrow> ptr \<Rightarrow> bl_val_type_t list BL" where
  "collect_types 0 list_iter = returnM []"
| "collect_types (Suc n) list_iter =
     bindM (get_car list_iter) (\<lambda>a. bindM (get_type a) (\<lambda>T.
     bindM (get_cdr list_iter) (\<lambda>d. bindM (collect_types n d) (\<lambda>Ts. returnM (T # Ts)))))"

definition bl_errif_invalid_fixed_args :: "ptr \<Rightarrow> bl_val_type_t list \<Rightarrow> ptr BL" where
  "bl_errif_invalid_fixed_args params expected =
     bindM (bl_errif_invalid_len params (length expected) (length expected)) (\<lambda>retval.
       if retval \<noteq> NULL then returnM retval
       else bindM (check_types expected params True) (\<lambda>r. case r of
           Inl a \<Rightarrow> returnM a
         | Inr is_good \<Rightarrow>
             if is_good then returnM NULL
             else bindM (collect_types (length expected) params) (\<lambda>Ts.
               new_val BL_VAL_TYPE_ERROR (U_err (zero_err\<lparr>
                 err_type := BL_ERR_INVALID_ARGTYPE, min_args := length expected,
                 max_args := length expected, provided_args := length expected,
                 expected_types := Some expected, provided_types := Some Ts\<rparr>)))))"

text \<open>
  \<open>bl_errif_invalid_firstarg\<close>: the loop that records the given types never advances \<open>list_iter\<close>, so every
  entry after the first is the type of the second argument.
\<close>

definition bl_errif_invalid_firstarg :: "ptr \<Rightarrow> bl_val_type_t \<Rightarrow> ptr BL" where
  "bl_errif_invalid_firstarg params expected =
     bindM (bl_errif_invalid_len params 1 BL_LONGEST_LIST) (\<lambda>retval.
       if retval \<noteq> NULL then returnM retval
       else bindM (bl_list_first params) (\<lambda>first.
            bindM (get_type first) (\<lambda>T.
            if T = expected then returnM NULL
            else bindM (bl_list_len params) (\<lambda>params_len.
              bindM (get_cdr params) (\<lambda>list_iter.
              bindM (if 1 < params_len
                     then bindM (get_car list_iter) (\<lambda>a. bindM (get_type a) (\<lambda>T2.
                            returnM (replicate (params_len - 1) T2)))
                     else returnM []) (\<lambda>rest.
              new_val BL_VAL_TYPE_ERROR (U_err (zero_err\<lparr>
                err_type := BL_ERR_INVALID_ARGTYPE, min_args := 1, max_args := BL_LONGEST_LIST,
                provided_args := params_len,
                expected_types := Some (expected # replicate (params_len - 1) BL_VAL_TYPE_ANY),
                provided_types := Some (T # rest)\<rparr>))))))))"

section \<open>Type names\<close>

definition bl_ser_type :: "bl_val_type_t \<Rightarrow> string" where
  "bl_ser_type t = (case t of
      BL_VAL_TYPE_NULL \<Rightarrow> ''NULL''
    | BL_VAL_TYPE_ERROR \<Rightarrow> ''ERROR''
    | BL_VAL_TYPE_SYMBOL \<Rightarrow> ''SYMBOL''
    | BL_VAL_TYPE_NUMBER \<Rightarrow> ''NUMBER''
    | BL_VAL_TYPE_BOOL \<Rightarrow> ''BOOL''
    | BL_VAL_TYPE_STRING \<Rightarrow> ''STRING''
    | BL_VAL_TYPE_CONS \<Rightarrow> ''CONS''
    | BL_VAL_TYPE_OPER_NATIVE \<Rightarrow> ''OPER''
    | BL_VAL_TYPE_FUNC_BL \<Rightarrow> ''FUNCTION''
    | BL_VAL_TYPE_FUNC_NATIVE \<Rightarrow> ''FUNCTION''
    | BL_VAL_TYPE_CTX \<Rightarrow> ''CONTEXT''
    | BL_VAL_TYPE_CPTR \<Rightarrow> ''CPTR''
    | BL_VAL_TYPE_ANY \<Rightarrow> ''ANY''
    | _ \<Rightarrow> ''UNKNOWN'')"

text \<open>
  \<open>bl_ser_types\<close>: every name is followed by a comma and the last character of the buffer becomes the
  closing bracket; with no types that last character is the opening one.
\<close>

definition bl_ser_types :: "bl_val_type_t list \<Rightarrow> string" where
  "bl_ser_types ts = butlast (''('' @ concat (map (\<lambda>t. bl_ser_type t @ '','') ts)) @ '')''"

section \<open>Properties\<close>

definition is_error :: "store \<Rightarrow> ptr \<Rightarrow> bl_err_t \<Rightarrow> bool" where
  "is_error s p e \<longleftrightarrow> (\<exists>c. heap s p = Some c \<and> val_type c = BL_VAL_TYPE_ERROR \<and> payload c = U_err e)"

lemma new_error_spec:
  assumes "heap_ok s"
  shows "\<exists>p t. new_val BL_VAL_TYPE_ERROR (U_err e) s = Ret p t \<and> is_error t p e \<and> p \<noteq> NULL \<and> heap_ok t
     \<and> same_heap_below s t"
proof -
  obtain p t where run: "new_val BL_VAL_TYPE_ERROR (U_err e) s = Ret p t" by (simp add: run_new_val)
  with new_val_below [OF assms run] show ?thesis by (auto simp: is_error_def)
qed

lemmas err_defs = bl_err_symnotfound_def bl_err_modnotfound_def bl_err_divzero_def bl_mk_err_def

lemma errors_safe [keeps_intros]:
  "keeps safe_step (bl_err_symnotfound x)" "keeps safe_step (bl_err_modnotfound x)"
  "keeps safe_step bl_err_divzero" "keeps safe_step (bl_mk_err T)"
  unfolding err_defs by (intro new_val_safe; simp)+

lemma errif_invalid_len_safe [keeps_intros]: "keeps safe_step (bl_errif_invalid_len L mn mx)"
  unfolding bl_errif_invalid_len_def by (intro keeps_intros new_val_safe) simp_all

lemma check_types_safe [keeps_intros]: "keeps safe_step (check_types Es p g)"
  by (induction Es arbitrary: p g) (simp_all add: keeps_intros)

lemma collect_types_safe [keeps_intros]: "keeps safe_step (collect_types n p)"
  by (induction n arbitrary: p) (simp_all add: keeps_intros)

lemma errif_invalid_args_safe [keeps_intros]:
  "keeps safe_step (bl_errif_invalid_fixed_args params Es)"
  "keeps safe_step (bl_errif_invalid_firstarg params E)"
  unfolding bl_errif_invalid_fixed_args_def bl_errif_invalid_firstarg_def
  by (intro keeps_intros new_val_safe; simp)+

text \<open>
  An argument list as the evaluator passes it: a proper list of allocated values, none of which is an
  error (errors are returned before the list is built).
\<close>

definition arg_list :: "store \<Rightarrow> ptr \<Rightarrow> ptr list \<Rightarrow> bl_val_type_t list \<Rightarrow> bool" where
  "arg_list s p xs Ts \<longleftrightarrow> p \<noteq> NULL \<and> list_rep s p xs \<and> list_all2 (has_type s) xs Ts
     \<and> BL_VAL_TYPE_ERROR \<notin> set Ts"

lemma has_type_nonnull: "heap_ok s \<Longrightarrow> has_type s p T \<Longrightarrow> p \<noteq> NULL"
  by (auto simp: has_type_def dest: heap_okD(1))

lemma arg_list_len:
  assumes "heap_ok s" "arg_list s p xs Ts"
  shows "bl_list_len p s = Ret (length Ts) s" "get_type p s = Ret BL_VAL_TYPE_CONS s" "length xs = length Ts"
proof -
  from assms obtain cs where cs: "is_list s p cs xs" "p \<noteq> NULL" "list_all2 (has_type s) xs Ts"
    by (auto simp: arg_list_def list_rep_def)
  then show len: "length xs = length Ts" by (simp add: list_all2_lengthD)
  from cs(1,2) show "get_type p s = Ret BL_VAL_TYPE_CONS s" by (rule is_list_nonNULL) simp
  have "hd xs \<noteq> NULL" if "xs \<noteq> []"
    using that cs(3) has_type_nonnull [OF assms(1)] by (cases xs; cases Ts) auto
  with bl_list_len_spec [OF cs(1) assms(1)] len show "bl_list_len p s = Ret (length Ts) s" by simp
qed

lemma errif_invalid_len_ok:
  assumes "heap_ok s" "arg_list s p xs Ts" "mn \<le> length Ts" "length Ts \<le> mx"
  shows "bl_errif_invalid_len p mn mx s = Ret NULL s"
  using arg_list_len [OF assms(1,2)] assms(3,4) by (simp add: bl_errif_invalid_len_def)

lemma errif_invalid_len_error:
  assumes "heap_ok s" "arg_list s p xs Ts" "length Ts < mn \<or> mx < length Ts"
  shows "\<exists>e t. bl_errif_invalid_len p mn mx s = Ret e t \<and> is_error t e (zero_err\<lparr>
      err_type := (if length Ts < mn then BL_ERR_INSUFFICIENT_ARGS else BL_ERR_TOOMANY_ARGS),
      min_args := mn, max_args := mx, provided_args := length Ts\<rparr>) \<and> e \<noteq> NULL \<and> heap_ok t
      \<and> same_heap_below s t"
  using arg_list_len [OF assms(1,2)] assms(3) new_error_spec [OF assms(1)]
  by (auto simp: bl_errif_invalid_len_def)

text \<open>A type list fits the expected one when it has its length and agrees wherever ANY is not expected.\<close>

definition types_match :: "bl_val_type_t list \<Rightarrow> bl_val_type_t list \<Rightarrow> bool" where
  "types_match Es Ts \<longleftrightarrow> list_all2 (\<lambda>E T. E = T \<or> E = BL_VAL_TYPE_ANY) Es Ts"

lemma check_types_spec:
  assumes "is_list s p cs xs" "list_all2 (has_type s) xs Ts" "length Es = length Ts"
    "BL_VAL_TYPE_ERROR \<notin> set Ts"
  shows "check_types Es p g s = Ret (Inr (g \<and> types_match Es Ts)) s"
  using assms
proof (induction Es arbitrary: p cs xs Ts g)
  case Nil
  then show ?case by (simp add: types_match_def)
next
  case (Cons E Es)
  then obtain T Us where Ts: "Ts = T # Us" by (cases Ts) auto
  with Cons.prems obtain x ys where xs: "xs = x # ys" "has_type s x T" "list_all2 (has_type s) ys Us"
    by (auto simp: list_all2_Cons2)
  from Cons.prems(1) xs(1) obtain d ds where d: "get_car p s = Ret x s" "get_cdr p s = Ret d s"
    "is_list s d ds ys" by (cases cs) auto
  have "get_type x s = Ret T s" using xs(2) by (auto simp: has_type_def)
  with d Cons.IH [OF d(3) xs(3)] Cons.prems(3,4) Ts show ?case
    by (auto simp: types_match_def)
qed

lemma collect_types_spec:
  "is_list s p cs xs \<Longrightarrow> list_all2 (has_type s) xs Ts \<Longrightarrow> collect_types (length Ts) p s = Ret Ts s"
proof (induction Ts arbitrary: p cs xs)
  case Nil
  then show ?case by simp
next
  case (Cons T Ts)
  then obtain x ys where xs: "xs = x # ys" "has_type s x T" "list_all2 (has_type s) ys Ts"
    by (auto simp: list_all2_Cons2)
  from Cons.prems(1) xs(1) obtain d ds where d: "get_car p s = Ret x s" "get_cdr p s = Ret d s"
    "is_list s d ds ys" by (cases cs) auto
  have "get_type x s = Ret T s" using xs(2) by (auto simp: has_type_def)
  with d Cons.IH [OF d(3) xs(3)] show ?case by simp
qed

lemma errif_invalid_fixed_args_ok:
  assumes "heap_ok s" "arg_list s p xs Ts" "types_match Es Ts"
  shows "bl_errif_invalid_fixed_args p Es s = Ret NULL s"
proof -
  have len: "length Es = length Ts" using assms(3) by (simp add: types_match_def list_all2_lengthD)
  obtain cs where cs: "is_list s p cs xs" using assms(2) by (auto simp: arg_list_def list_rep_def)
  have "check_types Es p True s = Ret (Inr True) s"
    using check_types_spec [OF cs _ len, of True] assms(2,3) by (simp add: arg_list_def)
  with errif_invalid_len_ok [OF assms(1,2)] len show ?thesis
    by (simp add: bl_errif_invalid_fixed_args_def)
qed

lemma errif_invalid_fixed_args_type_error:
  assumes "heap_ok s" "arg_list s p xs Ts" "length Es = length Ts" "\<not> types_match Es Ts"
  shows "\<exists>e t. bl_errif_invalid_fixed_args p Es s = Ret e t \<and> is_error t e (zero_err\<lparr>
      err_type := BL_ERR_INVALID_ARGTYPE, min_args := length Es, max_args := length Es,
      provided_args := length Es, expected_types := Some Es, provided_types := Some Ts\<rparr>)
      \<and> e \<noteq> NULL \<and> heap_ok t \<and> same_heap_below s t"
proof -
  obtain cs where cs: "is_list s p cs xs" using assms(2) by (auto simp: arg_list_def list_rep_def)
  have "check_types Es p True s = Ret (Inr False) s"
    using check_types_spec [OF cs _ assms(3), of True] assms(2,4) by (simp add: arg_list_def)
  moreover have "collect_types (length Es) p s = Ret Ts s"
    using collect_types_spec [OF cs] assms(2,3) by (simp add: arg_list_def)
  ultimately show ?thesis
    using errif_invalid_len_ok [OF assms(1,2)] assms(3) new_error_spec [OF assms(1)]
    by (simp add: bl_errif_invalid_fixed_args_def)
qed

end
