(* ===== verification/BL_Lexer.thy ===== *)
theory BL_Lexer
  imports BL_Errors
begin

text \<open>
  The scanner that flex generates from \<^verbatim>\<open>runtime/src/lexer.l\<close>. Each pattern is a function that gives
  the length of its longest match at the start of the input; the scanner takes the longest match of all
  patterns and, among equally long ones, the first in the order of the rules. Input that no pattern
  matches is copied to the standard output one character at a time, which is flex's default rule.
\<close>

section \<open>Patterns\<close>

definition is_digit :: "char \<Rightarrow> bool" where
  "is_digit c \<longleftrightarrow> (let n = of_char c :: nat in 48 \<le> n \<and> n \<le> 57)"

definition is_alpha :: "char \<Rightarrow> bool" where
  "is_alpha c \<longleftrightarrow> (let n = of_char c :: nat in 65 \<le> n \<and> n \<le> 90 \<or> 97 \<le> n \<and> n \<le> 122)"

definition is_symchar :: "char \<Rightarrow> bool" where
  "is_symchar c \<longleftrightarrow> c \<in> set ''@_%:=*-/+'' \<or> is_alpha c \<or> is_digit c"

definition is_white :: "char \<Rightarrow> bool" where
  "is_white c \<longleftrightarrow> c \<in> {CHR '' '', CHR 0x09, CHR 0x0A, CHR 0x0D}"

abbreviation (input) DQ :: char where "DQ \<equiv> CHR 0x22"
abbreviation (input) BS :: char where "BS \<equiv> CHR 0x5C"

text \<open>
  The part between the quotes, \<open>(\\.|[^"\\])*\<close>: escaped characters (but not an escaped newline) and
  characters other than the quote and the backslash, up to the next quote.
\<close>

fun body_len :: "string \<Rightarrow> nat option" where
  "body_len [] = None"
| "body_len (c # cs) =
     (if c = DQ then Some 0
      else if c = BS
           then (case cs of [] \<Rightarrow> None
                 | d # ds \<Rightarrow> if d = LF then None else map_option (\<lambda>n. n + 2) (body_len ds))
      else map_option Suc (body_len cs))"

definition m_docstr :: "string \<Rightarrow> nat option" where
  "m_docstr s = (if prefixb [DQ, DQ, DQ] s
     then (case body_len (drop 3 s) of None \<Rightarrow> None
           | Some n \<Rightarrow> if prefixb [DQ, DQ, DQ] (drop (3 + n) s) then Some (n + 6) else None)
     else None)"

definition m_string :: "string \<Rightarrow> nat option" where
  "m_string s = (case s of [] \<Rightarrow> None
     | c # cs \<Rightarrow> if c = DQ then map_option (\<lambda>n. n + 2) (body_len cs) else None)"

definition m_white :: "string \<Rightarrow> nat option" where
  "m_white s = (case s of [] \<Rightarrow> None | c # cs \<Rightarrow> if is_white c then Some 1 else None)"

text \<open>\<open>;.*$\<close>: the end-of-line anchor asks for a newline after the comment.\<close>

definition m_comment :: "string \<Rightarrow> nat option" where
  "m_comment s = (case s of [] \<Rightarrow> None
     | c # cs \<Rightarrow> if c = CHR '';'' \<and> LF \<in> set cs
                then Some (Suc (length (takeWhile (\<lambda>x. x \<noteq> LF) cs))) else None)"

definition m_lit :: "string \<Rightarrow> string \<Rightarrow> nat option" where
  "m_lit w s = (if prefixb w s then Some (length w) else None)"

definition m_number :: "string \<Rightarrow> nat option" where
  "m_number s = (let d = length (takeWhile (\<lambda>c. c = CHR ''-'') s);
                     k = length (takeWhile is_digit (drop d s))
                 in if k = 0 then None else Some (d + k))"

definition m_symbol :: "string \<Rightarrow> nat option" where
  "m_symbol s = (let k = length (takeWhile is_symchar s) in if k = 0 then None else Some k)"

definition m_quoted :: "string \<Rightarrow> nat option" where
  "m_quoted s = (case s of [] \<Rightarrow> None
     | c # cs \<Rightarrow> if c = CHR 0x27 then map_option Suc (m_symbol cs) else None)"

section \<open>The scanner\<close>

datatype lex_action = Skip | Give bl_token_type_t

text \<open>The rules in the order of the file; the number of characters cut from either end of the text.\<close>

definition lex_rules :: "((string \<Rightarrow> nat option) \<times> lex_action \<times> nat) list" where
  "lex_rules =
     [(m_docstr, Give BL_TOKEN_DOCSTRING, 3), (m_string, Give BL_TOKEN_STRING, 1),
      (m_white, Skip, 0), (m_comment, Skip, 0),
      (m_lit ''('', Give BL_TOKEN_LPAREN, 0), (m_lit '')'', Give BL_TOKEN_RPAREN, 0),
      (m_number, Give BL_TOKEN_INTEGER, 0),
      (m_lit ''if'', Give BL_TOKEN_IF, 0), (m_lit ''do'', Give BL_TOKEN_DO, 0),
      (m_lit ''while'', Give BL_TOKEN_WHILE, 0),
      (m_quoted, Give BL_TOKEN_SYMBOL, 0), (m_symbol, Give BL_TOKEN_SYMBOL, 0)]"

text \<open>Longest match, first rule: the candidate so far is kept unless a later rule matches more.\<close>

fun longest :: "((string \<Rightarrow> nat option) \<times> lex_action \<times> nat) list \<Rightarrow> string \<Rightarrow>
    (nat \<times> lex_action \<times> nat) option \<Rightarrow> (nat \<times> lex_action \<times> nat) option" where
  "longest [] s best = best"
| "longest ((m, a, trim) # rs) s best = longest rs s (case m s of
      None \<Rightarrow> best
    | Some n \<Rightarrow> (case best of None \<Rightarrow> Some (n, a, trim)
                | Some (k, _) \<Rightarrow> if k < n then Some (n, a, trim) else best))"

definition lex_match :: "string \<Rightarrow> (nat \<times> lex_action \<times> nat) option" where
  "lex_match s = longest lex_rules s None"

record scanner =
  scan_rest :: string
  scan_line :: nat

definition count_lf :: "string \<Rightarrow> nat" where
  "count_lf x = length (filter (\<lambda>c. c = LF) x)"

definition scan_take :: "nat \<Rightarrow> scanner \<Rightarrow> scanner" where
  "scan_take n sc = \<lparr>scan_rest = drop n (scan_rest sc),
     scan_line = scan_line sc + count_lf (take n (scan_rest sc))\<rparr>"

text \<open>
  \<open>yylex\<close>: the characters echoed on the way, and the next token with its text and the scanner after it,
  or \<open>None\<close> at the end of the input. The recursion is bounded by the length of the input, since every
  round consumes at least one character.
\<close>

primrec yylex_loop :: "nat \<Rightarrow> scanner \<Rightarrow> string \<Rightarrow> string \<times> (bl_token_type_t \<times> string \<times> scanner) option" where
  "yylex_loop 0 sc echo = (echo, None)"
| "yylex_loop (Suc n) sc echo =
     (case scan_rest sc of
        [] \<Rightarrow> (echo, None)
      | c # _ \<Rightarrow>
          (case lex_match (scan_rest sc) of
             None \<Rightarrow> yylex_loop n (scan_take 1 sc) (echo @ [c])
           | Some (k, Skip, trim) \<Rightarrow> yylex_loop n (scan_take k sc) echo
           | Some (k, Give tok, trim) \<Rightarrow>
               (echo, Some (tok, take (k - 2 * trim) (drop trim (scan_rest sc)), scan_take k sc))))"

definition yylex :: "scanner \<Rightarrow> string \<times> (bl_token_type_t \<times> string \<times> scanner) option" where
  "yylex sc = yylex_loop (length (scan_rest sc)) sc []"

section \<open>Progress\<close>

lemma body_len_bound: "body_len s = Some n \<Longrightarrow> n < length s"
proof (induction s arbitrary: n rule: body_len.induct)
  case (2 c cs)
  then show ?case by (auto split: if_splits list.splits)
qed simp

lemma prefixb_length: "prefixb xs ys \<Longrightarrow> length xs \<le> length ys"
  by (induction xs ys rule: prefixb.induct) auto

lemma m_bounds:
  "m_docstr s = Some n \<Longrightarrow> 0 < n \<and> n \<le> length s" "m_string s = Some n \<Longrightarrow> 0 < n \<and> n \<le> length s"
  "m_white s = Some n \<Longrightarrow> 0 < n \<and> n \<le> length s" "m_comment s = Some n \<Longrightarrow> 0 < n \<and> n \<le> length s"
  "w \<noteq> [] \<Longrightarrow> m_lit w s = Some n \<Longrightarrow> 0 < n \<and> n \<le> length s"
  "m_number s = Some n \<Longrightarrow> 0 < n \<and> n \<le> length s" "m_quoted s = Some n \<Longrightarrow> 0 < n \<and> n \<le> length s"
  "m_symbol s = Some n \<Longrightarrow> 0 < n \<and> n \<le> length s"
proof -
  show "m_docstr s = Some n \<Longrightarrow> 0 < n \<and> n \<le> length s"
    by (auto simp: m_docstr_def dest!: body_len_bound prefixb_length split: if_splits option.splits)
  show "m_string s = Some n \<Longrightarrow> 0 < n \<and> n \<le> length s"
    by (auto simp: m_string_def dest!: body_len_bound split: if_splits list.splits)
  show "m_white s = Some n \<Longrightarrow> 0 < n \<and> n \<le> length s"
    by (auto simp: m_white_def split: if_splits list.splits)
  show "m_comment s = Some n \<Longrightarrow> 0 < n \<and> n \<le> length s"
    by (auto simp: m_comment_def length_takeWhile_le split: if_splits list.splits)
  show "w \<noteq> [] \<Longrightarrow> m_lit w s = Some n \<Longrightarrow> 0 < n \<and> n \<le> length s"
    by (auto simp: m_lit_def dest: prefixb_length split: if_splits)
  show "m_number s = Some n \<Longrightarrow> 0 < n \<and> n \<le> length s"
  proof -
    let ?d = "length (takeWhile (\<lambda>c. c = CHR ''-'') s)"
    let ?k = "length (takeWhile is_digit (drop ?d s))"
    assume "m_number s = Some n"
    then have "n = ?d + ?k" "0 < ?k" by (auto simp: m_number_def Let_def split: if_splits)
    moreover have "?k \<le> length s - ?d"
      using length_takeWhile_le [of is_digit "drop ?d s"] by simp
    moreover have "?d \<le> length s" by (rule length_takeWhile_le)
    ultimately show "0 < n \<and> n \<le> length s" by linarith
  qed
  show sym: "m_symbol s = Some n \<Longrightarrow> 0 < n \<and> n \<le> length s" for s n
    by (auto simp: m_symbol_def Let_def length_takeWhile_le split: if_splits)
  show "m_quoted s = Some n \<Longrightarrow> 0 < n \<and> n \<le> length s"
    by (auto simp: m_quoted_def dest!: sym split: if_splits list.splits)
qed

lemma longest_bound:
  assumes "\<And>m a trim n. (m, a, trim) \<in> set rs \<Longrightarrow> m s = Some n \<Longrightarrow> 0 < n \<and> n \<le> length s"
    and "\<And>k r. best = Some (k, r) \<Longrightarrow> 0 < k \<and> k \<le> length s"
    and "longest rs s best = Some (k, r)"
  shows "0 < k \<and> k \<le> length s"
  using assms
proof (induction rs arbitrary: best)
  case Nil
  then show ?case by simp
next
  case (Cons x rs)
  obtain m a trim where x: "x = (m, a, trim)" by (cases x)
  show ?case
  proof (rule Cons.IH)
    show "longest rs s (case m s of None \<Rightarrow> best
        | Some n \<Rightarrow> (case best of None \<Rightarrow> Some (n, a, trim)
            | Some (k, _) \<Rightarrow> if k < n then Some (n, a, trim) else best)) = Some (k, r)"
      using Cons.prems(3) by (simp add: x)
  qed (use Cons.prems(1,2) x in \<open>fastforce split: option.splits if_splits prod.splits\<close>)+
qed

lemma lex_match_bound:
  assumes "lex_match s = Some (k, r)"
  shows "0 < k \<and> k \<le> length s"
proof (rule longest_bound [where best = None])
  show "longest lex_rules s None = Some (k, r)" using assms by (simp add: lex_match_def)
qed (auto simp: lex_rules_def dest: m_bounds(1-4,6-) m_bounds(5) [rotated])

text \<open>A token that is returned leaves strictly less input.\<close>

lemma yylex_loop_consumes:
  "yylex_loop n sc echo = (e, Some (tok, text, sc')) \<Longrightarrow> length (scan_rest sc') < length (scan_rest sc)"
proof (induction n arbitrary: sc echo)
  case 0
  then show ?case by simp
next
  case (Suc n)
  show ?case
  proof (cases "scan_rest sc")
    case Nil
    with Suc.prems show ?thesis by simp
  next
    case (Cons c cs)
    show ?thesis
    proof (cases "lex_match (scan_rest sc)")
      case None
      with Suc.prems Cons have "yylex_loop n (scan_take 1 sc) (echo @ [c]) = (e, Some (tok, text, sc'))"
        by simp
      from Suc.IH [OF this] Cons show ?thesis by (simp add: scan_take_def)
    next
      case (Some z)
      obtain k a trim where z: "z = (k, a, trim)" by (cases z)
      from lex_match_bound Some z have k: "0 < k" "k \<le> length (scan_rest sc)" by fastforce+
      show ?thesis
      proof (cases a)
        case Skip
        with Suc.prems Cons Some z have "yylex_loop n (scan_take k sc) echo = (e, Some (tok, text, sc'))"
          by simp
        from Suc.IH [OF this] k show ?thesis by (simp add: scan_take_def)
      next
        case (Give t)
        with Suc.prems Cons Some z k show ?thesis by (auto simp: scan_take_def)
      qed
    qed
  qed
qed

lemma yylex_consumes:
  "yylex sc = (e, Some (tok, text, sc')) \<Longrightarrow> length (scan_rest sc') < length (scan_rest sc)"
  unfolding yylex_def by (rule yylex_loop_consumes)

text \<open>The bound on the rounds is never reached: with it or with more rounds the answer is the same.\<close>

lemma yylex_loop_enough:
  assumes "length (scan_rest sc) \<le> n"
  shows "yylex_loop n sc echo = yylex_loop (length (scan_rest sc)) sc echo"
  using assms
proof (induction "length (scan_rest sc)" arbitrary: n sc echo rule: less_induct)
  case less
  show ?case
  proof (cases "scan_rest sc")
    case Nil
    then show ?thesis by (cases n) simp_all
  next
    case (Cons c cs)
    then obtain m where n: "n = Suc m" using less.prems by (cases n) auto
    have len: "length (scan_rest sc) = Suc (length cs)" by (simp add: Cons)
    have step: "yylex_loop m (scan_take k sc) e = yylex_loop (length cs) (scan_take k sc) e"
      if "0 < k" "k \<le> length (scan_rest sc)" for k e
    proof -
      have lt: "length (scan_rest (scan_take k sc)) < length (scan_rest sc)"
        and le: "length (scan_rest (scan_take k sc)) \<le> length cs"
        using that by (auto simp: scan_take_def len)
      with less.prems n len show ?thesis
        using less.hyps [OF lt, of m e] less.hyps [OF lt le, of e] by simp
    qed
    show ?thesis
    proof (cases "lex_match (scan_rest sc)")
      case None
      with step [of 1] Cons show ?thesis by (simp add: n len)
    next
      case (Some z)
      obtain k a trim where z: "z = (k, a, trim)" by (cases z)
      from lex_match_bound Some z have k: "0 < k" "k \<le> length (scan_rest sc)" by fastforce+
      with step [OF k] Some z Cons show ?thesis by (cases a) (simp_all add: n len)
    qed
  qed
qed

end
