(* ===== verification/BL_Reader.thy ===== *)
theory BL_Reader
  imports BL_Lexer
begin

text \<open>
  The reader (first half of \<^verbatim>\<open>runtime/src/sexp.c\<close>): \<open>read_form\<close> and \<open>read_list\<close> turn tokens into values,
  \<open>bl_parse_sexp\<close> reads one form from a string and \<open>bl_parse_file\<close> a list of forms. The reader functions
  are mutually recursive; each level of recursion is paid for by the input it consumes, and the fuel
  \<open>2 * length + 2\<close> is shown to be enough.
\<close>

section \<open>Definitions\<close>

text \<open>
  \<open>unescape\<close>: the flag \<open>slash\<close> is set by a backslash and cleared only by a following \<open>n\<close> or \<open>t\<close>; the C
  function never initialises it.
\<close>

fun unescape :: "bool \<Rightarrow> string \<Rightarrow> string" where
  "unescape slash [] = []"
| "unescape slash (c # cs) =
     (if c = BS then unescape True cs
      else if c = CHR ''n'' \<and> slash then LF # unescape False cs
      else if c = CHR ''t'' \<and> slash then TAB # unescape False cs
      else c # unescape slash cs)"

definition set_line :: "ptr \<Rightarrow> nat \<Rightarrow> unit BL" where
  "set_line p n = update p (\<lambda>c. c\<lparr>line_num := n\<rparr>)"

fun read_form :: "nat \<Rightarrow> scanner \<Rightarrow> (ptr \<times> scanner) BL"
  and read_list :: "nat \<Rightarrow> scanner \<Rightarrow> (ptr \<times> scanner) BL"
  and read_items :: "nat \<Rightarrow> ptr \<Rightarrow> ptr \<Rightarrow> scanner \<Rightarrow> (ptr \<times> scanner) BL" where
  "read_form 0 sc = timeoutM"
| "read_form (Suc n) sc =
     (case yylex sc of
        (echo, None) \<Rightarrow> bindM (print_out echo) (\<lambda>_. returnM (NULL, sc))
      | (echo, Some (tok, txt, sc1)) \<Rightarrow> bindM (print_out echo) (\<lambda>_.
          bindM (case tok of
                BL_TOKEN_STRING \<Rightarrow> bindM (getsM uninit_bool) (\<lambda>slash.
                   bindM (bl_mk_str (unescape slash txt)) (\<lambda>p. returnM (p, sc1)))
              | BL_TOKEN_LPAREN \<Rightarrow> read_list n sc1
              | BL_TOKEN_RPAREN \<Rightarrow> returnM (end_list_val, sc1)
              | BL_TOKEN_INTEGER \<Rightarrow> bindM (bl_mk_integer txt) (\<lambda>p. returnM (p, sc1))
              | BL_TOKEN_SYMBOL \<Rightarrow> bindM (bl_mk_symbol txt) (\<lambda>p. returnM (p, sc1))
              | BL_TOKEN_IF \<Rightarrow> returnM (if_oper_val, sc1)
              | BL_TOKEN_DO \<Rightarrow> returnM (do_oper_val, sc1)
              | BL_TOKEN_WHILE \<Rightarrow> returnM (while_oper_val, sc1)
              | BL_TOKEN_DOCSTRING \<Rightarrow> bindM (bl_mk_docstr txt) (\<lambda>p. returnM (p, sc1)))
            (\<lambda>(retval, sc2). bindM (set_line retval (scan_line sc2)) (\<lambda>_. returnM (retval, sc2)))))"
| "read_list 0 sc = timeoutM"
| "read_list (Suc n) sc =
     bindM (bl_mk_val BL_VAL_TYPE_CONS) (\<lambda>retval.
     bindM (read_form n sc) (\<lambda>(a, sc1).
     bindM (set_car retval a) (\<lambda>_. bindM (set_cdr retval NULL) (\<lambda>_.
       if a = NULL then returnM (retval, sc1)
       else bindM (get_type a) (\<lambda>T.
         if T = BL_VAL_TYPE_LIST_END
         then bindM (set_car retval NULL) (\<lambda>_. returnM (retval, sc1))
         else read_items n retval retval sc1)))))"
| "read_items 0 retval L sc = timeoutM"
| "read_items (Suc n) retval L sc =
     bindM (read_form n sc) (\<lambda>(e, sc1).
       if e = NULL then returnM (retval, sc1)
       else bindM (get_type e) (\<lambda>T.
         if T = BL_VAL_TYPE_LIST_END then returnM (retval, sc1)
         else bindM (new_val BL_VAL_TYPE_CONS (U_cons e NULL)) (\<lambda>c.
              bindM (set_cdr L c) (\<lambda>_. read_items n retval c sc1))))"

definition scan_string :: "string \<Rightarrow> scanner" where
  "scan_string x = \<lparr>scan_rest = x, scan_line = 1\<rparr>"

definition bl_parse_sexp :: "string \<Rightarrow> ptr BL" where
  "bl_parse_sexp sexp = bindM (read_form (2 * length sexp + 1) (scan_string sexp)) (\<lambda>(retval, sc).
     if retval = NULL then bl_mk_null else returnM retval)"

text \<open>\<open>bl_parse_file\<close> on the contents of the file.\<close>

definition bl_parse_file :: "string \<Rightarrow> ptr BL" where
  "bl_parse_file contents = bindM (read_list (2 * length contents + 2) (scan_string contents))
     (\<lambda>(retval, sc). returnM retval)"

declare read_form.simps [simp del] read_list.simps [simp del] read_items.simps [simp del]

section \<open>Effects on the state\<close>

lemma set_line_safe [keeps_intros]: "keeps safe_step (set_line p n)"
  unfolding set_line_def by (rule update_meta_safe) simp_all

lemma new_cons_safe [keeps_intros]: "keeps safe_step (new_val BL_VAL_TYPE_CONS (U_cons a d))"
  by (rule new_val_safe) simp_all

lemma keeps_token [keeps_intros]:
  "keeps R m1 \<Longrightarrow> keeps R m2 \<Longrightarrow> keeps R m3 \<Longrightarrow> keeps R m4 \<Longrightarrow> keeps R m5 \<Longrightarrow> keeps R m6 \<Longrightarrow>
   keeps R m7 \<Longrightarrow> keeps R m8 \<Longrightarrow> keeps R m9 \<Longrightarrow>
   keeps R (case tok of BL_TOKEN_LPAREN \<Rightarrow> m1 | BL_TOKEN_RPAREN \<Rightarrow> m2 | BL_TOKEN_STRING \<Rightarrow> m3
     | BL_TOKEN_INTEGER \<Rightarrow> m4 | BL_TOKEN_SYMBOL \<Rightarrow> m5 | BL_TOKEN_IF \<Rightarrow> m6 | BL_TOKEN_DO \<Rightarrow> m7
     | BL_TOKEN_WHILE \<Rightarrow> m8 | BL_TOKEN_DOCSTRING \<Rightarrow> m9)"
  by (cases tok) simp_all

lemma reader_safe:
  "keeps safe_step (read_form n sc)" "keeps safe_step (read_list n sc)"
  "keeps safe_step (read_items n r L sc)"
proof (induction n arbitrary: sc r L)
  case 0
  { case 1 show ?case unfolding read_form.simps by (rule keeps_stop) next
    case 2 show ?case unfolding read_list.simps by (rule keeps_stop) next
    case 3 show ?case unfolding read_items.simps by (rule keeps_stop) }
next
  case (Suc n)
  { case 1 show ?case
      unfolding read_form.simps by (intro keeps_intros Suc)
  next
    case 2 show ?case
      unfolding read_list.simps by (intro keeps_intros Suc) simp
  next
    case 3 show ?case
      unfolding read_items.simps by (intro keeps_intros Suc) }
qed

lemmas [keeps_intros] = reader_safe

lemma parse_safe [keeps_intros]: "keeps safe_step (bl_parse_sexp x)" "keeps safe_step (bl_parse_file x)"
  unfolding bl_parse_sexp_def bl_parse_file_def by (intro keeps_intros)+

section \<open>The reader always answers\<close>

text \<open>
  In a well-formed state every input is read to the end of a form without a fault, and the result is an
  allocated value or, at the end of the input, NULL.
\<close>

definition allocated :: "store \<Rightarrow> ptr \<Rightarrow> bool" where
  "allocated s p \<longleftrightarrow> (\<exists>c. heap s p = Some c)"

lemma safe_run: "keeps safe_step m \<Longrightarrow> wf_store s \<Longrightarrow> m s = Ret x t \<Longrightarrow> wf_store t \<and> evolves s t"
  by (auto dest: keepsD simp: safe_step_def)

lemma evolves_allocated: "evolves s t \<Longrightarrow> allocated s p \<Longrightarrow> allocated t p"
  unfolding allocated_def by (auto dest: evolvesD)

lemma wf_cons_cell:
  assumes "wf_store s" "has_type s p BL_VAL_TYPE_CONS"
  obtains c a d where "heap s p = Some c" "payload c = U_cons a d" "val_type c = BL_VAL_TYPE_CONS"
proof -
  from assms(2) obtain c where c: "heap s p = Some c" "val_type c = BL_VAL_TYPE_CONS"
    by (auto simp: has_type_def)
  with assms(1) have "tag_ok BL_VAL_TYPE_CONS (payload c)" unfolding wf_store_def tags_ok_def by force
  then show ?thesis using that c by (auto split: bl_union.splits)
qed

lemma statics_allocated:
  "wf_store s \<Longrightarrow> allocated s end_list_val" "wf_store s \<Longrightarrow> allocated s if_oper_val"
  "wf_store s \<Longrightarrow> allocated s do_oper_val" "wf_store s \<Longrightarrow> allocated s while_oper_val"
  "wf_store s \<Longrightarrow> allocated s null_val"
  by (auto simp: wf_store_def statics_ok_def has_type_def allocated_def)

lemma new_val_total: "\<exists>p t. new_val T u s = Ret p t \<and> has_type t p T"
  by (simp add: run_new_val has_type_def)

lemma mk_atoms_total:
  assumes "wf_store s"
  shows "\<exists>p t. bl_mk_str x s = Ret p t \<and> allocated t p" "\<exists>p t. bl_mk_docstr x s = Ret p t \<and> allocated t p"
    "\<exists>p t. bl_mk_integer x s = Ret p t \<and> allocated t p" "\<exists>p t. bl_mk_symbol x s = Ret p t \<and> allocated t p"
proof -
  show "\<exists>p t. bl_mk_str x s = Ret p t \<and> allocated t p" "\<exists>p t. bl_mk_docstr x s = Ret p t \<and> allocated t p"
    by (simp_all add: bl_mk_str_def bl_mk_docstr_def run_new_val allocated_def)
  show "\<exists>p t. bl_mk_integer x s = Ret p t \<and> allocated t p"
    by (cases "mpz_set_str x")
      (simp_all add: bl_mk_integer_def run_new_val allocated_def run_bindM print_err_def)
  show "\<exists>p t. bl_mk_symbol x s = Ret p t \<and> allocated t p"
  proof (cases rule: bl_mk_symbol_cases [of s x])
    case (found p)
    then have "(x, p) \<in> set (symbol_table s)" by (simp add: map_of_SomeD)
    with assms have "\<exists>y i. is_symbol s p y i" unfolding wf_store_def symtab_ok_def by blast
    with found show ?thesis by (auto simp: is_symbol_def allocated_def)
  next
    case new
    then show ?thesis by (auto simp: allocated_def)
  qed
qed


text \<open>What one call of each reader function delivers, for an input of a given length.\<close>

definition form_total :: "nat \<Rightarrow> scanner \<Rightarrow> store \<Rightarrow> bool" where
  "form_total n sc s \<longleftrightarrow> (\<exists>p sc' t. read_form n sc s = Ret (p, sc') t
     \<and> (p = NULL \<or> allocated t p \<and> length (scan_rest sc') < length (scan_rest sc))
     \<and> length (scan_rest sc') \<le> length (scan_rest sc))"

definition list_total :: "nat \<Rightarrow> scanner \<Rightarrow> store \<Rightarrow> bool" where
  "list_total n sc s \<longleftrightarrow> (\<exists>p sc' t. read_list n sc s = Ret (p, sc') t
     \<and> has_type t p BL_VAL_TYPE_CONS \<and> length (scan_rest sc') \<le> length (scan_rest sc))"

definition items_total :: "nat \<Rightarrow> ptr \<Rightarrow> ptr \<Rightarrow> scanner \<Rightarrow> store \<Rightarrow> bool" where
  "items_total n r L sc s \<longleftrightarrow> (\<exists>sc' t. read_items n r L sc s = Ret (r, sc') t
     \<and> length (scan_rest sc') \<le> length (scan_rest sc))"

lemma set_line_total: "allocated s p \<Longrightarrow> \<exists>t. set_line p n s = Ret () t \<and> allocated t p"
  by (auto simp: set_line_def allocated_def)

lemma form_total_step:
  assumes wf: "wf_store s"
    and rec: "\<And>sc' t. wf_store t \<Longrightarrow> length (scan_rest sc') < length (scan_rest sc) \<Longrightarrow> list_total n sc' t"
  shows "form_total (Suc n) sc s"
proof -
  obtain echo r where lx: "yylex sc = (echo, r)" by fastforce
  define s1 where "s1 = s\<lparr>stdout_buf := stdout_buf s @ echo\<rparr>"
  have pr: "print_out echo s = Ret () s1" by (simp add: print_out_def s1_def)
  have wf1: "wf_store s1" using safe_run [OF print_safe(1) wf pr] by simp
  show ?thesis
  proof (cases r)
    case None
    with lx pr show ?thesis by (simp add: form_total_def read_form.simps)
  next
    case (Some z)
    obtain tok lexeme sc1 where z: "z = (tok, lexeme, sc1)" by (cases z)
    have less: "length (scan_rest sc1) < length (scan_rest sc)"
      using yylex_consumes lx Some z by metis
    have fin: "form_total (Suc n) sc s"
      if "m s1 = Ret (p, sc2) t" "allocated t p" "length (scan_rest sc2) < length (scan_rest sc)"
        "read_form (Suc n) sc = bindM (print_out echo) (\<lambda>_. bindM m (\<lambda>(retval, sc2).
            bindM (set_line retval (scan_line sc2)) (\<lambda>_. returnM (retval, sc2))))" for m p sc2 t
    proof -
      note h = that
      obtain u where "set_line p (scan_line sc2) t = Ret () u" "allocated u p"
        using set_line_total [OF h(2)] by blast
      with h pr show ?thesis unfolding form_total_def h(4) by auto
    qed
    note eq = read_form.simps(2) [of n sc, unfolded lx Some z prod.case option.case]
    show ?thesis
    proof (cases tok)
      case BL_TOKEN_LPAREN
      obtain p sc2 t where "read_list n sc1 s1 = Ret (p, sc2) t" "has_type t p BL_VAL_TYPE_CONS"
          "length (scan_rest sc2) \<le> length (scan_rest sc1)"
        using rec [OF wf1 less] by (auto simp: list_total_def)
      with less BL_TOKEN_LPAREN show ?thesis
        by (intro fin [of "read_list n sc1" p sc2 t]) (auto simp: eq allocated_def has_type_def)
    next
      case BL_TOKEN_STRING
      obtain p t where "bl_mk_str (unescape (uninit_bool s1) lexeme) s1 = Ret p t" "allocated t p"
        using mk_atoms_total(1) [OF wf1] by blast
      with less BL_TOKEN_STRING show ?thesis
        by (intro fin [of "bindM (getsM uninit_bool) (\<lambda>slash.
              bindM (bl_mk_str (unescape slash lexeme)) (\<lambda>p. returnM (p, sc1)))" p sc1 t]) (auto simp: eq)
    next
      case BL_TOKEN_INTEGER
      obtain p t where "bl_mk_integer lexeme s1 = Ret p t" "allocated t p"
        using mk_atoms_total(3) [OF wf1] by blast
      with less BL_TOKEN_INTEGER show ?thesis
        by (intro fin [of "bindM (bl_mk_integer lexeme) (\<lambda>p. returnM (p, sc1))" p sc1 t]) (auto simp: eq)
    next
      case BL_TOKEN_SYMBOL
      obtain p t where "bl_mk_symbol lexeme s1 = Ret p t" "allocated t p"
        using mk_atoms_total(4) [OF wf1] by blast
      with less BL_TOKEN_SYMBOL show ?thesis
        by (intro fin [of "bindM (bl_mk_symbol lexeme) (\<lambda>p. returnM (p, sc1))" p sc1 t]) (auto simp: eq)
    next
      case BL_TOKEN_DOCSTRING
      obtain p t where "bl_mk_docstr lexeme s1 = Ret p t" "allocated t p"
        using mk_atoms_total(2) [OF wf1] by blast
      with less BL_TOKEN_DOCSTRING show ?thesis
        by (intro fin [of "bindM (bl_mk_docstr lexeme) (\<lambda>p. returnM (p, sc1))" p sc1 t]) (auto simp: eq)
    next
      case BL_TOKEN_RPAREN
      with less statics_allocated [OF wf1] show ?thesis
        by (intro fin [of "returnM (end_list_val, sc1)" end_list_val sc1 s1]) (auto simp: eq)
    next
      case BL_TOKEN_IF
      with less statics_allocated [OF wf1] show ?thesis
        by (intro fin [of "returnM (if_oper_val, sc1)" if_oper_val sc1 s1]) (auto simp: eq)
    next
      case BL_TOKEN_DO
      with less statics_allocated [OF wf1] show ?thesis
        by (intro fin [of "returnM (do_oper_val, sc1)" do_oper_val sc1 s1]) (auto simp: eq)
    next
      case BL_TOKEN_WHILE
      with less statics_allocated [OF wf1] show ?thesis
        by (intro fin [of "returnM (while_oper_val, sc1)" while_oper_val sc1 s1]) (auto simp: eq)
    qed
  qed
qed

lemma items_total_step:
  assumes wf: "wf_store s" and L: "has_type s L BL_VAL_TYPE_CONS"
    and frm: "form_total n sc s"
    and rec: "\<And>c sc' t. wf_store t \<Longrightarrow> has_type t c BL_VAL_TYPE_CONS \<Longrightarrow>
        length (scan_rest sc') < length (scan_rest sc) \<Longrightarrow> items_total n r c sc' t"
  shows "items_total (Suc n) r L sc s"
proof -
  obtain e sc1 t where run: "read_form n sc s = Ret (e, sc1) t"
      "e = NULL \<or> allocated t e \<and> length (scan_rest sc1) < length (scan_rest sc)"
      "length (scan_rest sc1) \<le> length (scan_rest sc)"
    using frm by (auto simp: form_total_def)
  have t: "wf_store t" "evolves s t" using safe_run [OF reader_safe(1) wf run(1)] by simp_all
  show ?thesis
  proof (cases "e = NULL")
    case True
    with run show ?thesis by (simp add: items_total_def read_items.simps)
  next
    case False
    with run(2) obtain ce where ce: "heap t e = Some ce" "length (scan_rest sc1) < length (scan_rest sc)"
      by (auto simp: allocated_def)
    show ?thesis
    proof (cases "val_type ce = BL_VAL_TYPE_LIST_END")
      case True
      with False run ce show ?thesis by (simp add: items_total_def read_items.simps)
    next
      case neq: False
      obtain c t1 where c: "new_val BL_VAL_TYPE_CONS (U_cons e NULL) t = Ret c t1"
          "has_type t1 c BL_VAL_TYPE_CONS"
        using new_val_total by blast
      have t1: "wf_store t1" "evolves t t1" using safe_run [OF new_cons_safe t(1) c(1)] by simp_all
      have "has_type t1 L BL_VAL_TYPE_CONS" using evolves_type L t(2) t1(2) by blast
      then obtain cl a d where cl: "heap t1 L = Some cl" "payload cl = U_cons a d"
        using wf_cons_cell [OF t1(1)] by blast
      then obtain t2 where sc: "set_cdr L c t1 = Ret () t2" by simp
      have t2: "wf_store t2" "evolves t1 t2" using safe_run [OF set_pair_safe(2) t1(1) sc] by simp_all
      have "items_total n r c sc1 t2" using rec [OF t2(1) evolves_type [OF t2(2) c(2)] ce(2)] .
      with False neq run ce c sc show ?thesis
        by (auto simp: items_total_def read_items.simps)
    qed
  qed
qed

lemma list_total_step:
  assumes wf: "wf_store s"
    and frm: "\<And>t. wf_store t \<Longrightarrow> form_total n sc t"
    and rec: "\<And>r sc' t. wf_store t \<Longrightarrow> has_type t r BL_VAL_TYPE_CONS \<Longrightarrow>
        length (scan_rest sc') < length (scan_rest sc) \<Longrightarrow> items_total n r r sc' t"
  shows "list_total (Suc n) sc s"
proof -
  obtain r s0 where r: "bl_mk_val BL_VAL_TYPE_CONS s = Ret r s0" "has_type s0 r BL_VAL_TYPE_CONS"
    unfolding bl_mk_val_def using new_val_total by blast
  have s0: "wf_store s0" using safe_run [OF bl_mk_val_safe wf r(1)] by simp
  obtain e sc1 t where run: "read_form n sc s0 = Ret (e, sc1) t"
      "e = NULL \<or> allocated t e \<and> length (scan_rest sc1) < length (scan_rest sc)"
      "length (scan_rest sc1) \<le> length (scan_rest sc)"
    using frm [OF s0] by (auto simp: form_total_def)
  have t: "wf_store t" "evolves s0 t" using safe_run [OF reader_safe(1) s0 run(1)] by simp_all
  obtain c a d where "heap t r = Some c" "payload c = U_cons a d"
    using wf_cons_cell [OF t(1) evolves_type [OF t(2) r(2)]] by blast
  then obtain t1 t2 t3 where ops: "set_car r e t = Ret () t1" "set_cdr r NULL t1 = Ret () t2"
      "set_car r NULL t2 = Ret () t3"
    by simp
  have t12: "wf_store t1" "evolves t t1" "wf_store t2" "evolves t1 t2" "evolves t2 t3"
    using safe_run [OF set_pair_safe(1) t(1) ops(1)] safe_run [OF set_pair_safe(2) _ ops(2)]
      safe_run [OF set_pair_safe(1) _ ops(3)] by simp_all
  have r2: "has_type t2 r BL_VAL_TYPE_CONS" "has_type t3 r BL_VAL_TYPE_CONS"
    using r(2) t(2) t12 evolves_type by blast+
  show ?thesis
  proof (cases "e = NULL")
    case True
    with r run ops r2 show ?thesis by (simp add: list_total_def read_list.simps)
  next
    case False
    with run(2) have e: "allocated t2 e" "length (scan_rest sc1) < length (scan_rest sc)"
      using t12 evolves_allocated by blast+
    then obtain ce where ce: "heap t2 e = Some ce" by (auto simp: allocated_def)
    show ?thesis
    proof (cases "val_type ce = BL_VAL_TYPE_LIST_END")
      case True
      with False r run ops r2 ce show ?thesis by (simp add: list_total_def read_list.simps)
    next
      case neq: False
      obtain sc' u where it: "read_items n r r sc1 t2 = Ret (r, sc') u"
          "length (scan_rest sc') \<le> length (scan_rest sc1)"
        using rec [OF t12(3) r2(1) e(2)] by (auto simp: items_total_def)
      have "has_type u r BL_VAL_TYPE_CONS"
        using safe_run [OF reader_safe(3) t12(3) it(1)] evolves_type r2(1) by blast
      with False neq r run ops ce it e show ?thesis
        by (auto simp: list_total_def read_list.simps)
    qed
  qed
qed

text \<open>The fuel that is always enough: two levels of recursion per character, and one or two more.\<close>

lemma reader_total:
  "wf_store s \<Longrightarrow> 2 * length (scan_rest sc) + 1 \<le> n \<Longrightarrow> form_total n sc s"
  "wf_store s \<Longrightarrow> 2 * length (scan_rest sc) + 2 \<le> n \<Longrightarrow> list_total n sc s"
  "wf_store s \<Longrightarrow> has_type s L BL_VAL_TYPE_CONS \<Longrightarrow> 2 * length (scan_rest sc) + 2 \<le> n \<Longrightarrow>
     items_total n r L sc s"
proof (induction n arbitrary: sc s r L)
  case 0
  { case 1 then show ?case by simp next case 2 then show ?case by simp next case 3 then show ?case by simp }
next
  case (Suc n)
  { case 1 then show ?case by (intro form_total_step Suc(2)) auto
  next
    case 2 then show ?case by (intro list_total_step Suc(1,3)) auto
  next
    case 3 then show ?case by (intro items_total_step Suc(1,3)) auto }
qed

lemma bl_parse_sexp_total:
  assumes "wf_store s"
  shows "\<exists>p t. bl_parse_sexp x s = Ret p t \<and> allocated t p \<and> wf_store t"
proof -
  have "form_total (2 * length x + 1) (scan_string x) s"
    using assms by (intro reader_total) (simp_all add: scan_string_def)
  then obtain p sc t where run: "read_form (2 * length x + 1) (scan_string x) s = Ret (p, sc) t"
      "p = NULL \<or> allocated t p" by (auto simp: form_total_def)
  have "wf_store t" using safe_run [OF reader_safe(1) assms run(1)] by simp
  with run statics_allocated(5) [OF this] show ?thesis
    by (cases "p = NULL") (auto simp: bl_parse_sexp_def bl_mk_null_def)
qed

lemma bl_parse_file_total:
  assumes "wf_store s"
  shows "\<exists>p t. bl_parse_file x s = Ret p t \<and> has_type t p BL_VAL_TYPE_CONS \<and> wf_store t"
proof -
  have "list_total (2 * length x + 2) (scan_string x) s"
    using assms by (intro reader_total) (simp_all add: scan_string_def)
  then obtain p sc t where run: "read_list (2 * length x + 2) (scan_string x) s = Ret (p, sc) t"
      "has_type t p BL_VAL_TYPE_CONS" by (auto simp: list_total_def)
  with safe_run [OF reader_safe(2) assms run(1)] show ?thesis by (auto simp: bl_parse_file_def)
qed

end
