(* ===== verification/BL_Printer.thy ===== *)
theory BL_Printer
  imports BL_Reader
begin

text \<open>
  The serialiser (second half of \<^verbatim>\<open>runtime/src/sexp.c\<close>), the text of an error (\<open>bl_errmsg\<close> of
  \<^verbatim>\<open>error_tools.c\<close>) and the two string functions that print list elements (\<open>join_str\<close> and
  \<open>str_replace\<close> of \<^verbatim>\<open>string_ops.c\<close>).

  Printing only reads the heap, and every level of its recursion is at another address unless the value
  contains itself, so a depth of \<open>next_addr\<close> is enough: the outcome \<open>Timeout\<close> is the endless recursion on
  a circular value.
\<close>

section \<open>Definitions\<close>

text \<open>\<open>%s\<close> with a pointer that may be NULL.\<close>

definition str_arg :: "string option \<Rightarrow> string BL" where
  "str_arg z = (case z of None \<Rightarrow> faultM Bad_pointer | Some x \<Rightarrow> returnM x)"

text \<open>\<open>bl_ser_types(count, types)\<close> reads \<open>count\<close> entries of the array.\<close>

definition ser_type_array :: "nat \<Rightarrow> bl_val_type_t list option \<Rightarrow> string BL" where
  "ser_type_array n z = (case z of
      None \<Rightarrow> if n = 0 then returnM (bl_ser_types []) else faultM Bad_pointer
    | Some ts \<Rightarrow> if length ts < n then faultM Bad_index else returnM (bl_ser_types (take n ts)))"

text \<open>
  \<open>bl_errmsg\<close>: the buffer takes 1022 characters and a terminator. The serialiser is an argument, since
  the two functions call each other.
\<close>

definition errmsg_text :: "(ptr \<Rightarrow> string BL) \<Rightarrow> bl_err_t \<Rightarrow> string BL" where
  "errmsg_text ser e = (case err_type e of
      BL_ERR_UNKNOWN \<Rightarrow> returnM ''Unknown error!''
    | BL_ERR_PARSE \<Rightarrow> returnM ''Could not parse: TODO: implement this''
    | BL_ERR_INSUFFICIENT_ARGS \<Rightarrow> returnM (''Insufficient arguments, expected at least '' @
        nat_digits (min_args e) @ '', received '' @ nat_digits (provided_args e))
    | BL_ERR_TOOMANY_ARGS \<Rightarrow> returnM (''Too many arguments, expected no more than '' @
        nat_digits (max_args e) @ '', received '' @ nat_digits (provided_args e))
    | BL_ERR_INVALID_ARGTYPE \<Rightarrow>
        bindM (ser_type_array (provided_args e) (expected_types e)) (\<lambda>ex.
        bindM (ser_type_array (provided_args e) (provided_types e)) (\<lambda>pr.
        returnM (''Invalid arguments, expected '' @ ex @ '' but got '' @ pr)))
    | BL_ERR_SYMBOL_NOTFOUND \<Rightarrow> bindM (str_arg (symbol_name e)) (\<lambda>x.
        returnM (''Symbol '' @ x @ '' not found in current environment or any parent environment''))
    | BL_ERR_DIVIDE_BY_ZERO \<Rightarrow> returnM ''Divide by zero!''
    | BL_ERR_CUSTOM \<Rightarrow> bindM (str_arg (errmsg e)) (\<lambda>x.
        returnM (''Error code '' @ nat_digits (errnum e) @ '', '' @ x))
    | BL_ERR_IO \<Rightarrow> returnM ''General I/O error''
    | BL_ERR_MODULE_NOTFOUND \<Rightarrow> bindM (str_arg (symbol_name e)) (\<lambda>x.
        returnM (''Module '' @ x @ '' could not be found''))
    | BL_ERR_BL_CUSTOM \<Rightarrow> bindM (get_s_val (err_sym e)) (\<lambda>x.
        bindM (ser (err_value e)) (\<lambda>y. returnM (x @ '': '' @ y)))
    | BL_ERR_ANY \<Rightarrow> returnM ''Invalid error: ANY is for use in try/catch!''
    | BL_ERR_INTERNAL \<Rightarrow> returnM ''Internal error'')"

definition errmsg_with :: "(ptr \<Rightarrow> string BL) \<Rightarrow> ptr \<Rightarrow> string BL" where
  "errmsg_with ser E = bindM (get_err E) (\<lambda>e. bindM (errmsg_text ser e) (\<lambda>x. returnM (take 1022 x)))"

text \<open>
  \<open>bl_ser_sexp\<close>. Every element of a list is followed by a blank and the last blank becomes the closing
  bracket. Functions and operators are printed into a buffer of 1023 characters and a terminator. The
  \<open>default\<close> branch prints nothing.
\<close>

definition ser_elems :: "(ptr \<Rightarrow> string BL) \<Rightarrow> ptr \<Rightarrow> string BL" where
  "ser_elems ser expr = (\<lambda>s. bindM
     (for_cdr (Suc (next_addr s)) (\<lambda>L retval. bindM (get_car L) (\<lambda>x. bindM (ser x) (\<lambda>newval.
         returnM (Inr (retval @ newval @ '' ''))))) expr ''('')
     (\<lambda>r. case r of Inl x \<Rightarrow> returnM x | Inr x \<Rightarrow> returnM (butlast x @ '')'')) s)"

primrec ser_val :: "nat \<Rightarrow> ptr \<Rightarrow> string BL" where
  "ser_val 0 expr = timeoutM"
| "ser_val (Suc n) expr = (if expr = NULL then returnM []
     else bindM (get_type expr) (\<lambda>T. case T of
        BL_VAL_TYPE_ANY \<Rightarrow> returnM ''<any>''
      | BL_VAL_TYPE_OPER_IF \<Rightarrow> returnM ''if''
      | BL_VAL_TYPE_FUNC_NATIVE \<Rightarrow> returnM ''<nativefunction>''
      | BL_VAL_TYPE_NONE \<Rightarrow> returnM ''None''
      | BL_VAL_TYPE_NULL \<Rightarrow> returnM ''None''
      | BL_VAL_TYPE_CTX \<Rightarrow> returnM ''<ctx>''
      | BL_VAL_TYPE_ERROR \<Rightarrow> errmsg_with (ser_val n) expr
      | BL_VAL_TYPE_SYMBOL \<Rightarrow> get_s_val expr
      | BL_VAL_TYPE_STRING \<Rightarrow> bindM (get_s_val expr) (\<lambda>x. returnM (DQ # x @ [DQ]))
      | BL_VAL_TYPE_NUMBER \<Rightarrow> bindM (get_i_val expr) (\<lambda>i. returnM (mpz_get_str i))
      | BL_VAL_TYPE_BOOL \<Rightarrow> bindM (get_b_val expr) (\<lambda>b. returnM (if b then ''True'' else ''False''))
      | BL_VAL_TYPE_FUNC_BL \<Rightarrow> bindM (get_func expr) (\<lambda>f.
          bindM (ser_val n (bl_funcargs_ptr f)) (\<lambda>x. bindM (ser_val n (bl_func_ptr f)) (\<lambda>y.
            returnM (take 1023 (''(fn '' @ x @ '' '' @ y @ '')'')))))
      | BL_VAL_TYPE_OPER_NATIVE \<Rightarrow> returnM ''<nativeoper>''
      | BL_VAL_TYPE_OPER_BL \<Rightarrow> bindM (get_func expr) (\<lambda>f.
          bindM (ser_val n (bl_func_ptr f)) (\<lambda>y. returnM (take 1023 (''(oper user-oper '' @ y @ '')''))))
      | BL_VAL_TYPE_CONS \<Rightarrow> bindM (get_car expr) (\<lambda>a.
          if a = NULL then returnM ''()'' else ser_elems (ser_val n) expr)
      | _ \<Rightarrow> returnM []))"

definition bl_ser_sexp :: "ptr \<Rightarrow> string BL" where
  "bl_ser_sexp expr = (\<lambda>s. ser_val (Suc (next_addr s)) expr s)"

definition bl_errmsg :: "ptr \<Rightarrow> string BL" where
  "bl_errmsg E = errmsg_with bl_ser_sexp E"

text \<open>A string's own text is what stands between the two quotes.\<close>

definition bl_ser_naked_sexp :: "ptr \<Rightarrow> string BL" where
  "bl_ser_naked_sexp expr = bindM (bl_ser_sexp expr) (\<lambda>retval. bindM (get_type expr) (\<lambda>T.
     returnM (if T = BL_VAL_TYPE_STRING then butlast (tl retval) else retval)))"

definition join_str :: "ptr \<Rightarrow> string \<Rightarrow> string option BL" where
  "join_str L sep = (\<lambda>s. bindM
     (for_cdr (Suc (next_addr s)) (\<lambda>i retval. bindM (get_car i) (\<lambda>a. bindM (bl_ser_naked_sexp a) (\<lambda>x.
         returnM (Inr (safe_strcat (if retval \<noteq> None then safe_strcat retval (Some sep) else retval) (Some x))))))
       L None)
     (\<lambda>r. case r of Inl x \<Rightarrow> returnM x | Inr x \<Rightarrow> returnM x) s)"

definition str_replace :: "string \<Rightarrow> string \<Rightarrow> string \<Rightarrow> string option BL" where
  "str_replace s a b = (case strstr s a of
      None \<Rightarrow> returnM (Some s)
    | Some _ \<Rightarrow> bindM (split_str s a) (\<lambda>L. join_str L b))"

declare ser_val.simps [simp del]

section \<open>Printing reads only\<close>

text \<open>Switches over the enumerations preserve every transition invariant of their branches.\<close>

lemma keeps_val_type [keeps_intros]:
  "keeps R m1 \<Longrightarrow> keeps R m2 \<Longrightarrow> keeps R m3 \<Longrightarrow> keeps R m4 \<Longrightarrow> keeps R m5 \<Longrightarrow> keeps R m6 \<Longrightarrow>
   keeps R m7 \<Longrightarrow> keeps R m8 \<Longrightarrow> keeps R m9 \<Longrightarrow> keeps R m10 \<Longrightarrow> keeps R m11 \<Longrightarrow> keeps R m12 \<Longrightarrow>
   keeps R m13 \<Longrightarrow> keeps R m14 \<Longrightarrow> keeps R m15 \<Longrightarrow> keeps R m16 \<Longrightarrow> keeps R m17 \<Longrightarrow> keeps R m18 \<Longrightarrow>
   keeps R m19 \<Longrightarrow> keeps R m20 \<Longrightarrow> keeps R m21 \<Longrightarrow>
   keeps R (case_bl_val_type_t m1 m2 m3 m4 m5 m6 m7 m8 m9 m10 m11 m12 m13 m14 m15 m16 m17 m18 m19 m20 m21 T)"
  by (cases T) simp_all

lemma keeps_err_type [keeps_intros]:
  "keeps R m1 \<Longrightarrow> keeps R m2 \<Longrightarrow> keeps R m3 \<Longrightarrow> keeps R m4 \<Longrightarrow> keeps R m5 \<Longrightarrow> keeps R m6 \<Longrightarrow>
   keeps R m7 \<Longrightarrow> keeps R m8 \<Longrightarrow> keeps R m9 \<Longrightarrow> keeps R m10 \<Longrightarrow> keeps R m11 \<Longrightarrow> keeps R m12 \<Longrightarrow>
   keeps R m13 \<Longrightarrow> keeps R (case_bl_err_type_t m1 m2 m3 m4 m5 m6 m7 m8 m9 m10 m11 m12 m13 T)"
  by (cases T) simp_all

interpretation same: preorder_on_states "(=)"
  by unfold_locales simp_all

lemmas [keeps_intros] = same.keeps_return same.keeps_gets same.keeps_bind

lemma pure_read_same: "pure_read m \<Longrightarrow> keeps (=) m"
  by (auto simp: keeps_def dest: pure_readD)

lemmas reads_same [keeps_intros] = pure_read_gets [THEN pure_read_same] pure_read_basic(3) [THEN pure_read_same]

lemma same_safe: "keeps (=) m \<Longrightarrow> keeps safe_step m"
  unfolding keeps_def using safe.R_refl by metis

lemma for_cdr_same [keeps_intros]:
  "(\<And>i x. keeps (=) (body i x)) \<Longrightarrow> keeps (=) (for_cdr n body i x)"
  by (induction n arbitrary: i x) (simp_all add: keeps_intros)

lemma str_arg_same [keeps_intros]: "keeps (=) (str_arg z)" "keeps (=) (ser_type_array n ts)"
  unfolding str_arg_def ser_type_array_def by (intro keeps_intros)+

lemma errmsg_with_same [keeps_intros]:
  assumes "\<And>p. keeps (=) (ser p)"
  shows "keeps (=) (errmsg_with ser E)"
  unfolding errmsg_with_def errmsg_text_def by (intro keeps_intros assms)

lemma ser_elems_same [keeps_intros]:
  assumes "\<And>p. keeps (=) (ser p)"
  shows "keeps (=) (ser_elems ser p)"
  unfolding ser_elems_def by (rule same.keeps_run) (intro keeps_intros assms)

lemma ser_val_same [keeps_intros]: "keeps (=) (ser_val n p)"
proof (induction n arbitrary: p)
  case 0
  show ?case unfolding ser_val.simps by (intro keeps_intros)
next
  case (Suc n)
  show ?case unfolding ser_val.simps by (intro keeps_intros Suc)
qed

lemma print_same [keeps_intros]:
  "keeps (=) (bl_ser_sexp p)" "keeps (=) (bl_errmsg p)" "keeps (=) (bl_ser_naked_sexp p)"
  "keeps (=) (join_str p sep)"
proof -
  show ser [keeps_intros]: "keeps (=) (bl_ser_sexp p)" for p
    unfolding bl_ser_sexp_def by (rule same.keeps_run) (intro keeps_intros)
  show "keeps (=) (bl_errmsg p)" unfolding bl_errmsg_def by (intro keeps_intros)
  show nk [keeps_intros]: "keeps (=) (bl_ser_naked_sexp p)" for p
    unfolding bl_ser_naked_sexp_def by (intro keeps_intros)
  show "keeps (=) (join_str p sep)" unfolding join_str_def by (rule same.keeps_run) (intro keeps_intros)
qed

lemmas print_safe_step [keeps_intros] = print_same [THEN same_safe]

lemma str_replace_safe [keeps_intros]: "keeps safe_step (str_replace s a b)"
  unfolding str_replace_def by (intro keeps_intros)

section \<open>What is printed\<close>

lemma bl_ser_naked_string:
  assumes "is_str s p x" "p \<noteq> NULL"
  shows "bl_ser_naked_sexp p s = Ret x s" "bl_ser_sexp p s = Ret (DQ # x @ [DQ]) s"
proof -
  from assms obtain c i where c: "heap s p = Some c" "val_type c = BL_VAL_TYPE_STRING" "p \<noteq> NULL"
      "payload c = U_str x i"
    by (auto simp: is_str_def)
  then show ser: "bl_ser_sexp p s = Ret (DQ # x @ [DQ]) s"
    by (auto simp: bl_ser_sexp_def ser_val.simps)
  with c show "bl_ser_naked_sexp p s = Ret x s" by (simp add: bl_ser_naked_sexp_def)
qed

end
