(* ===== verification/BL_Ctx.thy ===== *)
theory BL_Ctx
  imports BL_Printer
begin

text \<open>
  Contexts (\<^verbatim>\<open>runtime/src/ctx.c\<close>): a context is a pair of arrays indexed by symbol number, with a
  parent that lookups fall back to. This theory also has the table of builtin operators
  (\<^verbatim>\<open>include/bearlang/builtins.inc\<close>), the state in which the process starts, and the standard context.

  A context is specified by the partial function from symbol numbers to values that it stands for.
\<close>

section \<open>Calls between the parts of the runtime\<close>

text \<open>
  What an operator may call back: the evaluator, the lookup functions of contexts with custom lookups,
  and the initialisation functions of extension modules, with the fuel that bounds its loops.
\<close>

record runtime =
  rt_fuel :: nat
  rt_eval :: evaluator
  rt_getter :: "string \<Rightarrow> ptr \<Rightarrow> ptr \<Rightarrow> ptr BL"
  rt_init :: "string \<Rightarrow> ptr \<Rightarrow> ptr BL"

section \<open>Contexts\<close>

definition bl_ctx_new :: "ptr \<Rightarrow> ptr BL" where
  "bl_ctx_new prnt =
     bindM (if prnt = NULL then returnM 8 else bindM (get_ctx prnt) (\<lambda>c. returnM (vals_count c))) (\<lambda>n.
       new_val BL_VAL_TYPE_CTX (U_ctx (zero_ctx\<lparr>parent := prnt, secondary := NULL, vals_count := n,
         ctx_get := None, vals := replicate n NULL, keys := replicate n NULL,
         write_to_parent := False\<rparr>)))"

definition bl_ctx_close :: "ptr \<Rightarrow> unit BL" where
  "bl_ctx_close ctx = returnM ()"

definition ctx_slot :: "bl_ctx \<Rightarrow> nat \<Rightarrow> ptr BL" where
  "ctx_slot c i = (if i < length (vals c) then returnM (vals c ! i) else faultM Bad_index)"

definition ctx_key :: "bl_ctx \<Rightarrow> nat \<Rightarrow> ptr BL" where
  "ctx_key c i = (if i < length (keys c) then returnM (keys c ! i) else faultM Bad_index)"

text \<open>
  \<open>bl_ctx_get\<close>. The recursion goes to the parent, or into the two halves of a name with \<open>::\<close>.
\<close>

primrec ctx_lookup :: "nat \<Rightarrow> (string \<Rightarrow> ptr \<Rightarrow> ptr \<Rightarrow> ptr BL) \<Rightarrow> ptr \<Rightarrow> ptr \<Rightarrow> ptr BL" where
  "ctx_lookup 0 getter ctx key = timeoutM"
| "ctx_lookup (Suc n) getter ctx key =
     (if key = NULL then bl_mk_err BL_ERR_INTERNAL
      else bindM (get_ctx ctx) (\<lambda>c. case ctx_get c of
        Some (Getter g) \<Rightarrow> getter g ctx key
      | None \<Rightarrow> bindM (get_type key) (\<lambda>T.
          if T \<noteq> BL_VAL_TYPE_SYMBOL then bl_mk_err BL_ERR_INTERNAL
          else bindM (get_s_val key) (\<lambda>x.
            if x \<noteq> [] \<and> hd x = CHR 0x27 then bl_mk_symbol (tl x)
            else case strstr x ''::'' of
              Some k \<Rightarrow> bindM (bl_mk_symbol (take k x)) (\<lambda>ctx_sym.
                bindM (ctx_lookup n getter ctx ctx_sym) (\<lambda>other_ctx.
                  if other_ctx = NULL then returnM NULL
                  else bindM (bl_mk_symbol (drop (k + 2) x)) (\<lambda>member. ctx_lookup n getter other_ctx member)))
            | None \<Rightarrow> bindM (get_sym_id key) (\<lambda>i.
                bindM (if i < vals_count c then ctx_slot c i else returnM NULL) (\<lambda>retval.
                  if retval \<noteq> NULL then returnM retval
                  else if parent c \<noteq> NULL then ctx_lookup n getter (parent c) key
                  else returnM NULL))))))"

definition bl_ctx_get :: "runtime \<Rightarrow> ptr \<Rightarrow> ptr \<Rightarrow> ptr BL" where
  "bl_ctx_get R ctx key = ctx_lookup (rt_fuel R) (rt_getter R) ctx key"

text \<open>
  \<open>bl_ctx_set\<close>: arrays that are too short are replaced by longer ones with the old contents; a context
  with \<open>write_to_parent\<close> passes the assignment to its parent.
\<close>

definition ctx_grow :: "nat \<Rightarrow> bl_ctx \<Rightarrow> bl_ctx" where
  "ctx_grow n c = c\<lparr>vals_count := n,
     vals := take (vals_count c) (vals c) @ replicate (n - vals_count c) NULL,
     keys := take (vals_count c) (keys c) @ replicate (n - vals_count c) NULL\<rparr>"

definition ctx_store :: "nat \<Rightarrow> ptr \<Rightarrow> ptr \<Rightarrow> bl_ctx \<Rightarrow> bl_ctx" where
  "ctx_store i key val c0 = (let c = (if i \<ge> vals_count c0 then ctx_grow (i + 8) c0 else c0)
     in c\<lparr>keys := (keys c)[i := key], vals := (vals c)[i := val]\<rparr>)"

definition ctx_update :: "ptr \<Rightarrow> (bl_ctx \<Rightarrow> bl_ctx) \<Rightarrow> unit BL" where
  "ctx_update p f = bindM (get_payload p) (\<lambda>u. case u of
      U_ctx c \<Rightarrow> set_payload p (U_ctx (f c)) | _ \<Rightarrow> faultM Bad_union)"

definition bl_ctx_set :: "ptr \<Rightarrow> ptr \<Rightarrow> ptr \<Rightarrow> ptr BL" where
  "bl_ctx_set ctx key val = bindM (get_ctx ctx) (\<lambda>c.
     let dest = (if write_to_parent c then parent c else ctx) in
     bindM (get_sym_id key) (\<lambda>i. bindM (ctx_update dest (ctx_store i key val)) (\<lambda>_. returnM val)))"

section \<open>The builtin operators and the initial state\<close>

text \<open>The rows of \<^verbatim>\<open>builtins.inc\<close>: code, symbol and documentation of every builtin.\<close>

definition builtin_table :: "(native \<times> string \<times> string) list" where
\<open>builtin_table =
  [(N_profile, ''profile'',
      ''(profile expr)'' @ [LF, TAB] @ '' profiles the run time it takes to evaluate expr'' @ [LF]),
   (N_listbuiltins, ''listbuiltins'',
      ''(listbuiltins)'' @ [LF, TAB] @ '' Returns a list of all builtins in the current runtime'' @ [LF]),
   (N_aget, ''aget'',
      ''(aget <SYM> <LIST>)'' @ [LF, TAB] @ '' Gets the value of a symbol from an assoc list''),
   (N_split, ''split'',
      ''(split <STR> <STR>)'' @ [LF, TAB] @ '' Splits the first string by the delimiter specified in the second string'' @ [LF]),
   (N_startswith, ''startswith'',
      ''(startswith <STR> <STR>)'' @ [LF, TAB] @ '' Checks if the first string starts with the second string'' @ [LF]),
   (N_pmatch, ''pmatch'',
      ''(pmatch <STR> <ALIST>)'' @ [LF, TAB] @ '' Matches the string prefix against an alist, that is, returns the cdr of the first pair in the alist where the string starts with the car'' @ [LF, TAB] @ '' Returns None if no match found''),
   (N_add, ''+'',
      ''(+ <NUM> <NUM> ...)'' @ [LF, TAB] @ '' Adds up the numbers provided and returns the sum'' @ [LF] @ ''(+ <ANY> <ANY> ...)'' @ [LF, TAB] @ '' Serialises the provided values into strings and concatenates them together'' @ [LF]),
   (N_sub, ''-'',
      ''(- a b)'' @ [LF, TAB] @ '' Subtracts b from a''),
   (N_mult, ''*'',
      ''(* a b)'' @ [LF, TAB] @ '' Multiplies a by b''),
   (N_div, ''/'',
      ''(/ a b)'' @ [LF, TAB] @ '' Divides a by b''),
   (N_mod, ''%'',
      ''(% a b)'' @ [LF, TAB] @ '' Returns a modulo b''),
   (N_set, ''='',
      ''(= <SYM> <ANY>)'' @ [LF, TAB] @ '' Assigns a value to a symbol''),
   (N_fn, ''fn'',
      ''(fn (args ...) expr ...)'' @ [LF, TAB] @ '' Lambda expression, defines and returns function''),
   (N_fun, ''fun'',
      ''(fun name (args ...) expr ...)'' @ [LF, TAB] @ '' Defines and returns new function and binds it to the specified name''),
   (N_foreach, ''foreach'',
      ''(foreach sym list expr)'' @ [LF, TAB] @ '' A classic for-each loop, binds sym and then evaluates expr for each item in list''),
   (N_filtered, ''filtered'',
      ''(filtered L items)'' @ [LF, TAB] @ '' Returns the list L without any of the items in the list "items"''),
   (N_throw, ''throw'',
      ''(throw errtype errval)'' @ [LF, TAB] @ '' Throws a custom error, errtype should be a symbol specifying the type, errval is an optional param with an arbitrary value''),
   (N_oper, ''oper'',
      ''(oper name (args ...) expr ...)'' @ [LF, TAB] @ '' Defines and returns a new oper and binds it to the specified name''),
   (N_map, ''map'',
      ''(map func L)'' @ [LF, TAB] @ '' Runs func on every item of list L and returns a new list with the results''),
   (N_eq, ''eq'',
      ''(eq a b)'' @ [LF, TAB] @ '' Returns True if a and b are equal, False otherwise''),
   (N_lt, ''lt'',
      ''(lt a b)'' @ [LF, TAB] @ '' Check is a is lower than b''),
   (N_gt, ''gt'',
      ''(gt a b)'' @ [LF, TAB] @ '' Check is a is greater than b''),
   (N_print, ''print'',
      ''(print ...)'' @ [LF, TAB] @ '' Serialises all arguments and then prints them to stdout''),
   (N_and, ''and'',
      ''(and a b)'' @ [LF, TAB] @ '' Boolean and operation''),
   (N_not, ''not'',
      ''(not x)'' @ [LF, TAB] @ '' Boolean not operation''),
   (N_or, ''or'',
      ''(or a b)'' @ [LF, TAB] @ '' Boolean or operation''),
   (N_xor, ''xor'',
      ''(xor a b)'' @ [LF, TAB] @ '' Boolean xor operation''),
   (N_first, ''first'',
      ''(first L)'' @ [LF, TAB] @ '' Returns first item in list L''),
   (N_second, ''second'',
      ''(second L)'' @ [LF, TAB] @ '' Returns second item in list L''),
   (N_third, ''third'',
      ''(third L)'' @ [LF, TAB] @ '' Returns the third item in the list L''),
   (N_rest, ''rest'',
      ''(rest L)'' @ [LF, TAB] @ '' Returns the rest of the list L without the first item''),
   (N_append, ''append'',
      ''(append L x)'' @ [LF, TAB] @ '' Returns the list L with x appended to the end of it''),
   (N_prepend, ''prepend'',
      ''(prepend L x)'' @ [LF, TAB] @ '' Returns the list L with x appended to the start of it''),
   (N_reverse, ''reverse'',
      ''(reverse L)'' @ [LF, TAB] @ '' Returns the list L backwards''),
   (N_include, ''include'',
      ''(include filename)'' @ [LF, TAB] @ '' Loads the specified filename, parses it and includes it literally''),
   (N_import, ''import'',
      ''(import modulename)'' @ [LF, TAB] @ '' Imports the specified module''),
   (N_isset, ''isset'',
      ''(isset x)'' @ [LF, TAB] @ '' Checks if the item x is set in the current environment, returns a boolean''),
   (N_serexp, ''serexp'',
      ''(serexp E)'' @ [LF, TAB] @ '' Serialises the expression E and returns a string''),
   (N_inc, ''inc'',
      ''(inc x)'' @ [LF, TAB] @ '' Increments specified variable in-place''),
   (N_dec, ''dec'',
      ''(dec x)'' @ [LF, TAB] @ '' Decrements specified variable in-place''),
   (N_parse, ''parse'',
      ''(parse s)'' @ [LF, TAB] @ '' Tries to parse the string s into an s-expression''),
   (N_eval, ''eval'',
      ''(eval E)'' @ [LF, TAB] @ '' Evaluates the expression E and returns the result''),
   (N_try, ''try'',
      ''(try e (catch <ERR> handler))'' @ [LF, TAB] @ '' Evaluates e, if an error occurs, evaluates handler''),
   (N_quote, ''quote'',
      ''(quote E)'' @ [LF, TAB] @ '' Returns E un-evaluated''),
   (N_using, ''using'',
      ''(using module::symbol)'' @ [LF, TAB] @ '' Brings a symbol from a module into the current context, use * to bring in all symbols''),
   (N_doc, ''doc'',
      ''(doc item)'' @ [LF, TAB] @ '' Returns the docstring for the specified item''),
   (N_dir, ''dir'',
      ''(dir ctx)'' @ [LF, TAB] @ '' Returns the contents of a context as a list of symbols''),
   (N_mksym, ''mksym'',
      ''(mksym s)'' @ [LF, TAB] @ '' Create a new symbol from string s''),
   (N_ctxget, ''ctxget'',
      ''(ctxget ctx sym)'' @ [LF, TAB] @ '' Gets the value of a symbol from a context''),
   (N_type, ''type'',
      ''(type x)'' @ [LF, TAB] @ '' Returns the type of x'')]\<close>

definition static_cells :: "bl_val_t list" where
  "static_cells =
     [fresh_val BL_VAL_TYPE_NULL U_zero,
      fresh_val BL_VAL_TYPE_BOOL (U_bool True), fresh_val BL_VAL_TYPE_BOOL (U_bool False),
      fresh_val BL_VAL_TYPE_OPER_IF U_zero, fresh_val BL_VAL_TYPE_OPER_DO U_zero,
      fresh_val BL_VAL_TYPE_LIST_END U_zero, fresh_val BL_VAL_TYPE_OPER_WHILE U_zero]"

text \<open>
  \<open>BUILTIN_STRUCT\<close>: a static operator value for every row, and a static value for its documentation
  (whose type is left 0, \<open>BL_VAL_TYPE_NONE\<close>). They follow the other static values in memory.
\<close>

definition builtin_count :: nat where
  "builtin_count = 50"

definition builtin_cell :: "nat \<Rightarrow> native \<Rightarrow> bl_val_t" where
  "builtin_cell i nt = (fresh_val BL_VAL_TYPE_OPER_NATIVE (U_native nt))\<lparr>docstr := 8 + builtin_count + i\<rparr>"

definition builtin_cells :: "bl_val_t list" where
  "builtin_cells = map (\<lambda>(i, nt, nm, doc). builtin_cell i nt) (enumerate 0 builtin_table)"

definition docstr_cells :: "bl_val_t list" where
  "docstr_cells = map (\<lambda>(nt, nm, doc). fresh_val BL_VAL_TYPE_NONE (U_str doc 0)) builtin_table"

definition init_cells :: "bl_val_t list" where
  "init_cells = static_cells @ builtin_cells @ docstr_cells"

definition init_store :: "os_iface \<Rightarrow> bool \<Rightarrow> store" where
  "init_store env ub = \<lparr>heap = (\<lambda>p. if 0 < p \<and> p \<le> length init_cells then Some (init_cells ! (p - 1)) else None),
     next_addr = Suc (length init_cells), symbol_table = [], last_sym_id = 0, stdout_buf = [],
     stderr_buf = [], c_objs = [], ext_calls = [], input_lines = [], uninit_bool = ub, os = env\<rparr>"

text \<open>The address of the static operator value of a builtin.\<close>

fun row_index :: "native \<Rightarrow> (native \<times> string \<times> string) list \<Rightarrow> nat" where
  "row_index nt [] = 0"
| "row_index nt ((m, nm, doc) # rows) = (if m = nt then 0 else Suc (row_index nt rows))"

definition native_oper :: "native \<Rightarrow> ptr" where
  "native_oper nt = 8 + row_index nt builtin_table"

section \<open>The standard context\<close>

text \<open>\<open>strtok_r\<close> with the delimiter \<open>:\<close> gives the non-empty parts.\<close>

fun split_colon :: "string \<Rightarrow> string \<Rightarrow> string list" where
  "split_colon acc [] = (if acc = [] then [] else [acc])"
| "split_colon acc (c # cs) =
     (if c = CHR '':'' then (if acc = [] then split_colon [] cs else acc # split_colon [] cs)
      else split_colon (acc @ [c]) cs)"

primrec append_strs :: "string list \<Rightarrow> ptr \<Rightarrow> ptr BL" where
  "append_strs [] L = returnM L"
| "append_strs (x # xs) L = bindM (bl_mk_str x) (\<lambda>p. bindM (bl_list_append L p) (\<lambda>q. append_strs xs q))"

definition bind_sym :: "ptr \<Rightarrow> string \<Rightarrow> ptr BL \<Rightarrow> unit BL" where
  "bind_sym ctx name mk = bindM (bl_mk_symbol name) (\<lambda>k. bindM mk (\<lambda>v.
     bindM (bl_ctx_set ctx k v) (\<lambda>_. returnM ())))"

primrec bind_all :: "ptr \<Rightarrow> (string \<times> ptr BL) list \<Rightarrow> unit BL" where
  "bind_all ctx [] = returnM ()"
| "bind_all ctx (b # bs) = bindM (bind_sym ctx (fst b) (snd b)) (\<lambda>_. bind_all ctx bs)"

text \<open>\<open>data_types.inc\<close> and \<open>err_types.inc\<close>.\<close>

definition type_table :: "(string \<times> bl_val_type_t) list" where
  "type_table =
     [(''NULL'', BL_VAL_TYPE_NULL), (''ERROR'', BL_VAL_TYPE_ERROR), (''SYMBOL'', BL_VAL_TYPE_SYMBOL),
      (''NUMBER'', BL_VAL_TYPE_NUMBER), (''BOOL'', BL_VAL_TYPE_BOOL), (''STRING'', BL_VAL_TYPE_STRING),
      (''CONS'', BL_VAL_TYPE_CONS), (''OPER_NATIVE'', BL_VAL_TYPE_OPER_NATIVE),
      (''FUNC_NATIVE'', BL_VAL_TYPE_FUNC_NATIVE), (''OPER_BL'', BL_VAL_TYPE_OPER_BL),
      (''FUNC_BL'', BL_VAL_TYPE_FUNC_BL), (''CTX'', BL_VAL_TYPE_CTX), (''CPTR'', BL_VAL_TYPE_CPTR),
      (''ANY'', BL_VAL_TYPE_ANY), (''LIST_END'', BL_VAL_TYPE_LIST_END), (''OPER_DO'', BL_VAL_TYPE_OPER_DO),
      (''OPER_IF'', BL_VAL_TYPE_OPER_IF), (''OPER_WHILE'', BL_VAL_TYPE_OPER_WHILE),
      (''DOCSTRING'', BL_VAL_TYPE_DOCSTRING), (''TYPE'', BL_VAL_TYPE_TYPE)]"

definition err_table :: "(string \<times> bl_err_type_t) list" where
  "err_table =
     [(''ANY'', BL_ERR_ANY), (''UNKNOWN'', BL_ERR_UNKNOWN), (''PARSE'', BL_ERR_PARSE),
      (''INSUFFICIENT_ARGS'', BL_ERR_INSUFFICIENT_ARGS), (''TOOMANY_ARGS'', BL_ERR_TOOMANY_ARGS),
      (''INVALID_ARGTYPE'', BL_ERR_INVALID_ARGTYPE), (''SYMBOL_NOTFOUND'', BL_ERR_SYMBOL_NOTFOUND),
      (''DIVIDE_BY_ZERO'', BL_ERR_DIVIDE_BY_ZERO), (''CUSTOM'', BL_ERR_CUSTOM), (''IO'', BL_ERR_IO),
      (''MODULE_NOTFOUND'', BL_ERR_MODULE_NOTFOUND), (''BL_CUSTOM'', BL_ERR_BL_CUSTOM),
      (''INTERNAL'', BL_ERR_INTERNAL)]"

definition default_path :: "ptr BL" where
  "default_path = bindM (getsM (\<lambda>s. build_path (os s))) (\<lambda>path.
     bindM (bl_mk_str ''.'') (\<lambda>a. bindM (bl_mk_str (path 1)) (\<lambda>b. bindM (bl_mk_str (path 2)) (\<lambda>c.
     bindM (bl_mk_str (path 3)) (\<lambda>d. bl_mk_list [a, b, c, d])))))"

definition bl_ctx_new_std :: "ptr BL" where
  "bl_ctx_new_std =
     bindM (bl_ctx_new NULL) (\<lambda>retval.
     bindM (getsM (\<lambda>s. getenv (os s) ''BEARLANGPATH'')) (\<lambda>path_env.
     bindM (case path_env of
         Some x \<Rightarrow> bindM (append_strs (split_colon [] x) NULL) (\<lambda>path_val.
                     bind_sym retval ''*PATH*'' (returnM path_val))
       | None \<Rightarrow> bind_sym retval ''*PATH*'' default_path) (\<lambda>_.
     bindM (bind_sym retval ''*VERSION*'' (bindM (getsM (\<lambda>s. build_version (os s))) bl_mk_str)) (\<lambda>_.
     bindM (bind_sym retval ''None'' bl_mk_null) (\<lambda>_.
     bindM (bind_all retval (map (\<lambda>(nt, nm, doc). (nm, returnM (native_oper nt))) builtin_table)) (\<lambda>_.
     bindM (bind_all retval
         [(''car'', returnM (native_oper N_first)), (''cdr'', returnM (native_oper N_rest)),
          (''=='', returnM (native_oper N_eq)), (''True'', bl_mk_bool True), (''False'', bl_mk_bool False)]) (\<lambda>_.
     bindM (bind_all retval (map (\<lambda>(nm, T). (''TYPE_'' @ nm, bl_mk_type T)) type_table)) (\<lambda>_.
     bindM (bind_all retval (map (\<lambda>(nm, T). (''ERR_'' @ nm, bl_mk_err T)) err_table)) (\<lambda>_.
     returnM retval)))))))))"

declare ctx_lookup.simps [simp del]

section \<open>Effects on the state\<close>

lemma new_ctx_tag_ok: "length (vals c) = vals_count c \<Longrightarrow> length (keys c) = vals_count c \<Longrightarrow>
    tag_ok BL_VAL_TYPE_CTX (U_ctx c)"
  by simp

lemma bl_ctx_new_safe [keeps_intros]: "keeps safe_step (bl_ctx_new p)"
  unfolding bl_ctx_new_def by (intro keeps_intros new_val_safe) simp_all

definition ctx_lens :: "bl_ctx \<Rightarrow> bool" where
  "ctx_lens c \<longleftrightarrow> length (vals c) = vals_count c \<and> length (keys c) = vals_count c"

lemma ctx_store_lens: "ctx_lens c \<Longrightarrow> ctx_lens (ctx_store i key val c)"
  by (auto simp: ctx_lens_def ctx_store_def ctx_grow_def Let_def)

lemma ctx_update_safe:
  assumes "\<And>c. ctx_lens c \<Longrightarrow> ctx_lens (f c)"
  shows "keeps safe_step (ctx_update p f)"
proof (rule keepsI)
  fix s x t
  assume "ctx_update p f s = Ret x t"
  then obtain c k where c: "heap s p = Some c" "payload c = U_ctx k"
      "t = put_val p (c\<lparr>payload := U_ctx (f k)\<rparr>) s"
    by (auto simp: ctx_update_def set_payload_def update_def get_payload_eq_Ret split: bl_union.splits)
  have "tag_ok T (U_ctx k) \<Longrightarrow> tag_ok T (U_ctx (f k)) \<and> \<not> immutable T" for T
    using assms [of k] by (cases T) (auto simp: ctx_lens_def immutable_def)
  from set_payload_safe [OF this c(1,2)] c(3) show "safe_step s t" by simp
qed

lemma bl_ctx_set_safe [keeps_intros]: "keeps safe_step (bl_ctx_set ctx key val)"
  unfolding bl_ctx_set_def Let_def by (intro keeps_intros ctx_update_safe ctx_store_lens)

lemma ctx_slot_safe [keeps_intros]: "keeps safe_step (ctx_slot c i)" "keeps safe_step (ctx_key c i)"
  unfolding ctx_slot_def ctx_key_def by (intro keeps_intros)+

lemma keeps_getter [keeps_intros]:
  "(\<And>g. keeps R (f g)) \<Longrightarrow> keeps R (case z of Getter g \<Rightarrow> f g)"
  by (cases z) simp

lemma le_M_getter:
  "(\<And>g. le_M (f g) (f' g)) \<Longrightarrow> le_M (case z of Getter g \<Rightarrow> f g) (case z of Getter g \<Rightarrow> f' g)"
  by (cases z) simp

lemma ctx_lookup_safe:
  assumes "\<And>g c k. keeps safe_step (getter g c k)"
  shows "keeps safe_step (ctx_lookup n getter ctx key)"
proof (induction n arbitrary: ctx key)
  case 0
  show ?case unfolding ctx_lookup.simps by (intro keeps_intros)
next
  case (Suc n)
  show ?case unfolding ctx_lookup.simps by (intro keeps_intros assms Suc)
qed

lemma bind_sym_safe [keeps_intros]: "keeps safe_step mk \<Longrightarrow> keeps safe_step (bind_sym ctx x mk)"
  unfolding bind_sym_def by (intro keeps_intros)

lemma bind_all_safe [keeps_intros]:
  "list_all (\<lambda>b. keeps safe_step (snd b)) bs \<Longrightarrow> keeps safe_step (bind_all ctx bs)"
  by (induction bs) (simp_all add: keeps_intros)

lemma append_strs_safe [keeps_intros]: "keeps safe_step (append_strs xs L)"
  by (induction xs arbitrary: L) (simp_all add: keeps_intros)

lemma bl_ctx_new_std_safe [keeps_intros]: "keeps safe_step bl_ctx_new_std"
  unfolding bl_ctx_new_std_def default_path_def
  by (intro keeps_intros) (auto simp: list_all_iff keeps_intros)

section \<open>What operators may rely on\<close>

text \<open>
  The contract between the evaluator and the operators: whatever an operator calls back keeps states
  well formed. Every operator then keeps them well formed too; the operators' theories add their lemmas
  to this locale, and the evaluator is an interpretation of it.
\<close>

locale safe_runtime =
  fixes R :: runtime
  assumes eval_safe: "keeps safe_step (rt_eval R c e)"
    and getter_safe: "keeps safe_step (rt_getter R g c k)"
    and init_safe: "keeps safe_step (rt_init R m c)"
begin

lemma bl_ctx_get_safe: "keeps safe_step (bl_ctx_get R c k)"
  unfolding bl_ctx_get_def by (rule ctx_lookup_safe) (rule getter_safe)

lemmas runtime_safe [keeps_intros] = eval_safe init_safe bl_ctx_get_safe

end

text \<open>
  The contract for fuel: one runtime knows at least as much as another. An operator that is run with the
  better one gives the same answer wherever it gave one before.
\<close>

locale mono_runtime =
  fixes R R' :: runtime
  assumes fuel_mono: "rt_fuel R \<le> rt_fuel R'"
    and eval_mono: "le_M (rt_eval R c e) (rt_eval R' c e)"
    and getter_same: "rt_getter R' = rt_getter R"
    and init_same: "rt_init R' = rt_init R"
begin

lemma ctx_lookup_mono: "n \<le> n' \<Longrightarrow> le_M (ctx_lookup n getter c k) (ctx_lookup n' getter c k)"
proof (induction n arbitrary: n' c k)
  case 0
  show ?case unfolding ctx_lookup.simps by (rule le_M_timeout)
next
  case (Suc n)
  then obtain m where m: "n' = Suc m" "n \<le> m" by (cases n') auto
  show ?case
    unfolding ctx_lookup.simps m(1) by (intro mono_intros Suc.IH m(2) le_M_getter)
qed

lemma bl_ctx_get_mono: "le_M (bl_ctx_get R c k) (bl_ctx_get R' c k)"
  unfolding bl_ctx_get_def getter_same by (rule ctx_lookup_mono) (rule fuel_mono)

lemmas runtime_mono [mono_intros] = eval_mono bl_ctx_get_mono fuel_mono

end

end
