(* ===== verification/BL_Builtins.thy ===== *)
theory BL_Builtins
  imports BL_Ctx
begin

text \<open>
  The builtin operators (\<^verbatim>\<open>runtime/src/builtins.c\<close>, without importing and documentation) and the
  evaluation of argument lists (\<open>bl_eval_cons\<close> of \<^verbatim>\<open>eval.c\<close>), which they share. Every operator gets the
  context and the unevaluated parameters and decides itself what to evaluate; it calls the evaluator
  through the \<open>runtime\<close> record. A NULL result stands for None, which the evaluator substitutes.
\<close>

section \<open>Argument lists\<close>

definition bl_eval_cons :: "runtime \<Rightarrow> ptr \<Rightarrow> ptr \<Rightarrow> ptr BL" where
  "bl_eval_cons R ctx expr = (if expr = NULL then bl_mk_null
     else bindM (for_cdr (rt_fuel R) (\<lambda>i (L_start, L).
         bindM (get_car i) (\<lambda>a. bindM (rt_eval R ctx a) (\<lambda>retval. bindM (get_type retval) (\<lambda>T.
           if T = BL_VAL_TYPE_ERROR then returnM (Inl retval)
           else bindM (new_val BL_VAL_TYPE_CONS (U_cons retval NULL)) (\<lambda>c.
             if L = NULL then returnM (Inr (c, c))
             else bindM (set_cdr L c) (\<lambda>_. returnM (Inr (L_start, c)))))))) expr (NULL, NULL))
       (\<lambda>r. case r of
           Inl e \<Rightarrow> returnM e
         | Inr (L_start, L) \<Rightarrow> if L_start = NULL then bl_mk_null else returnM L_start))"

definition eval_first :: "runtime \<Rightarrow> ptr \<Rightarrow> ptr \<Rightarrow> ptr BL" where
  "eval_first R ctx params = bindM (bl_list_first params) (rt_eval R ctx)"

definition eval_second :: "runtime \<Rightarrow> ptr \<Rightarrow> ptr \<Rightarrow> ptr BL" where
  "eval_second R ctx params = bindM (bl_list_second params) (rt_eval R ctx)"

text \<open>\<open>PARAM_LEN_CHECK(min, max)\<close>, and the same shape for the checks of argument types.\<close>

definition unless_error :: "ptr BL \<Rightarrow> ptr BL \<Rightarrow> ptr BL" where
  "unless_error check body = bindM check (\<lambda>retval. if retval \<noteq> NULL then returnM retval else body)"

section \<open>Strings and association lists\<close>

definition bl_oper_profile :: "runtime \<Rightarrow> ptr \<Rightarrow> ptr \<Rightarrow> ptr BL" where
  "bl_oper_profile R ctx params = bindM (rt_eval R ctx params) (\<lambda>_.
     bindM (getsM (\<lambda>s. clock_text (os s))) (\<lambda>t. bl_mk_str (take 511 (''Took '' @ t @ '' seconds''))))"

definition bl_oper_throw :: "runtime \<Rightarrow> ptr \<Rightarrow> ptr \<Rightarrow> ptr BL" where
  "bl_oper_throw R ctx params = unless_error (bl_errif_invalid_len params 2 2)
     (bindM (bl_list_first params) (\<lambda>errtype. bindM (eval_second R ctx params) (\<lambda>v.
      bindM (if v = NULL then bl_mk_null else returnM v) (\<lambda>errval.
      new_val BL_VAL_TYPE_ERROR (U_err (zero_err\<lparr>err_type := BL_ERR_BL_CUSTOM, err_sym := errtype,
        err_value := errval\<rparr>))))))"

primrec prepend_syms :: "string list \<Rightarrow> ptr \<Rightarrow> ptr BL" where
  "prepend_syms [] L = returnM L"
| "prepend_syms (x # xs) L = bindM (bl_mk_symbol x) (\<lambda>p. bindM (bl_list_prepend L p) (\<lambda>q. prepend_syms xs q))"

definition bl_oper_listbuiltins :: "runtime \<Rightarrow> ptr \<Rightarrow> ptr \<Rightarrow> ptr BL" where
  "bl_oper_listbuiltins R ctx params = unless_error (bl_errif_invalid_len params 0 0)
     (bindM (prepend_syms (map (\<lambda>(nt, nm, doc). nm) builtin_table) NULL) bl_list_reverse)"

definition bl_oper_pmatch :: "runtime \<Rightarrow> ptr \<Rightarrow> ptr \<Rightarrow> ptr BL" where
  "bl_oper_pmatch R ctx params = unless_error (bl_errif_invalid_len params 2 2)
     (bindM (rt_eval R ctx params) (\<lambda>ps. bindM (bl_list_first ps) (\<lambda>S. bindM (bl_list_second ps) (\<lambda>L.
      bindM (for_cdr (rt_fuel R) (\<lambda>i u.
          bindM (get_car i) (\<lambda>entry. bindM (get_car entry) (\<lambda>k. bindM (get_s_val k) (\<lambda>pre.
          bindM (get_s_val S) (\<lambda>x.
            if prefixb pre x
            then bindM (get_cdr entry) (\<lambda>d. bindM (get_car d) (\<lambda>v. returnM (Inl v)))
            else returnM (Inr ())))))) L ())
        (\<lambda>r. case r of Inl v \<Rightarrow> returnM v | Inr _ \<Rightarrow> bl_mk_null)))))"

definition bl_oper_startswith :: "runtime \<Rightarrow> ptr \<Rightarrow> ptr \<Rightarrow> ptr BL" where
  "bl_oper_startswith R ctx params = bindM (rt_eval R ctx params) (\<lambda>ps.
     bindM (bl_list_first ps) (\<lambda>first. bindM (bl_list_second ps) (\<lambda>second.
     bindM (get_s_val first) (\<lambda>x. bindM (get_s_val second) (\<lambda>y. bl_mk_bool (prefixb y x))))))"

definition bl_oper_split :: "runtime \<Rightarrow> ptr \<Rightarrow> ptr \<Rightarrow> ptr BL" where
  "bl_oper_split R ctx params = bindM (rt_eval R ctx params) (\<lambda>ps.
     bindM (bl_list_first ps) (\<lambda>first. bindM (bl_list_second ps) (\<lambda>second.
     bindM (get_s_val first) (\<lambda>x. bindM (get_s_val second) (\<lambda>y. split_str x y)))))"

text \<open>The last entry with the symbol's name wins: the loop goes on after a match.\<close>

definition bl_oper_aget :: "runtime \<Rightarrow> ptr \<Rightarrow> ptr \<Rightarrow> ptr BL" where
  "bl_oper_aget R ctx params = bindM (eval_first R ctx params) (\<lambda>sm. bindM (eval_second R ctx params) (\<lambda>L.
     bindM (get_s_val sm) (\<lambda>x. bindM (bl_err_symnotfound x) (\<lambda>notfound.
     bindM (for_cdr (rt_fuel R) (\<lambda>i retval.
         bindM (get_car i) (\<lambda>L_car. bindM (get_type L_car) (\<lambda>T.
           if T \<noteq> BL_VAL_TYPE_CONS then bindM (bl_mk_err BL_ERR_PARSE) (\<lambda>e. returnM (Inl e))
           else bindM (get_car L_car) (\<lambda>k. bindM (get_s_val k) (\<lambda>kx. bindM (get_s_val sm) (\<lambda>sx.
             if kx = sx then bindM (bl_list_second L_car) (\<lambda>v. returnM (Inr v))
             else returnM (Inr retval))))))) L notfound)
       (\<lambda>r. case r of Inl v \<Rightarrow> returnM v | Inr v \<Rightarrow> returnM v)))))"

definition bl_oper_serexp :: "runtime \<Rightarrow> ptr \<Rightarrow> ptr \<Rightarrow> ptr BL" where
  "bl_oper_serexp R ctx params = bindM (rt_eval R ctx params) (\<lambda>ps. bindM (get_type ps) (\<lambda>T.
     bindM (if T = BL_VAL_TYPE_CONS
            then bindM (bl_list_len ps) (\<lambda>n. if n = 1 then bl_list_first ps else returnM ps)
            else returnM ps) (\<lambda>v. bindM (bl_ser_sexp v) bl_mk_str)))"

definition bl_oper_parse :: "runtime \<Rightarrow> ptr \<Rightarrow> ptr \<Rightarrow> ptr BL" where
  "bl_oper_parse R ctx params = bindM (bl_eval_cons R ctx params) (\<lambda>ps. bindM (get_type ps) (\<lambda>T.
     if T = BL_VAL_TYPE_ERROR then returnM ps
     else unless_error (bl_errif_invalid_fixed_args ps [BL_VAL_TYPE_STRING])
       (bindM (get_car ps) (\<lambda>a. bindM (get_s_val a) bl_parse_sexp))))"

definition bl_oper_mksym :: "runtime \<Rightarrow> ptr \<Rightarrow> ptr \<Rightarrow> ptr BL" where
  "bl_oper_mksym R ctx params = bindM (rt_eval R ctx params) (\<lambda>ps.
     bindM (bl_list_first ps) (\<lambda>first. bindM (get_s_val first) bl_mk_symbol))"

section \<open>Comparison and logic\<close>

text \<open>
  Types and strings are compared by contents. Everything else is compared through \<open>i_val\<close>, whatever the
  values are: symbols and booleans have the integer 0 there.
\<close>

definition bl_oper_eq :: "runtime \<Rightarrow> ptr \<Rightarrow> ptr \<Rightarrow> ptr BL" where
  "bl_oper_eq R ctx params = bindM (eval_first R ctx params) (\<lambda>first. bindM (eval_second R ctx params) (\<lambda>second.
     bindM (get_type first) (\<lambda>T. bindM (get_type second) (\<lambda>U.
       if T = BL_VAL_TYPE_TYPE \<and> U = BL_VAL_TYPE_TYPE
       then bindM (get_ref_type first) (\<lambda>x. bindM (get_ref_type second) (\<lambda>y. bl_mk_bool (x = y)))
       else if T = BL_VAL_TYPE_STRING \<and> U = BL_VAL_TYPE_STRING
       then bindM (get_s_val first) (\<lambda>x. bindM (get_s_val second) (\<lambda>y. bl_mk_bool (x = y)))
       else bindM (get_i_val first) (\<lambda>x. bindM (get_i_val second) (\<lambda>y. bl_mk_bool (x = y)))))))"

definition bl_oper_lt :: "runtime \<Rightarrow> ptr \<Rightarrow> ptr \<Rightarrow> ptr BL" where
  "bl_oper_lt R ctx params = bindM (eval_first R ctx params) (\<lambda>first. bindM (eval_second R ctx params) (\<lambda>second.
     bindM (get_i_val first) (\<lambda>x. bindM (get_i_val second) (\<lambda>y.
       if x \<ge> y then bl_mk_bool False else bl_mk_bool True))))"

definition bl_oper_gt :: "runtime \<Rightarrow> ptr \<Rightarrow> ptr \<Rightarrow> ptr BL" where
  "bl_oper_gt R ctx params = bindM (eval_first R ctx params) (\<lambda>first. bindM (eval_second R ctx params) (\<lambda>second.
     bindM (get_i_val first) (\<lambda>x. bindM (get_i_val second) (\<lambda>y.
       if x \<le> y then bl_mk_bool False else bl_mk_bool True))))"

definition bl_oper_and :: "runtime \<Rightarrow> ptr \<Rightarrow> ptr \<Rightarrow> ptr BL" where
  "bl_oper_and R ctx params = bindM (eval_first R ctx params) (\<lambda>first. bindM (eval_second R ctx params) (\<lambda>second.
     bindM (get_b_val first) (\<lambda>x. if x then bindM (get_b_val second) bl_mk_bool else bl_mk_bool False)))"

definition bl_oper_not :: "runtime \<Rightarrow> ptr \<Rightarrow> ptr \<Rightarrow> ptr BL" where
  "bl_oper_not R ctx params = bindM (eval_first R ctx params) (\<lambda>first.
     bindM (get_b_val first) (\<lambda>x. if x then bl_mk_bool False else bl_mk_bool True))"

definition bl_oper_or :: "runtime \<Rightarrow> ptr \<Rightarrow> ptr \<Rightarrow> ptr BL" where
  "bl_oper_or R ctx params = bindM (eval_first R ctx params) (\<lambda>first. bindM (eval_second R ctx params) (\<lambda>second.
     bindM (get_b_val first) (\<lambda>x. if x then bl_mk_bool True
       else bindM (get_b_val second) (\<lambda>y. if y then bl_mk_bool True else bl_mk_bool False))))"

definition bl_oper_xor :: "runtime \<Rightarrow> ptr \<Rightarrow> ptr \<Rightarrow> ptr BL" where
  "bl_oper_xor R ctx params = bindM (eval_first R ctx params) (\<lambda>first. bindM (eval_second R ctx params) (\<lambda>second.
     bindM (get_b_val first) (\<lambda>x. bindM (get_b_val second) (\<lambda>y. bl_mk_bool (x \<noteq> y)))))"

definition bl_oper_type :: "runtime \<Rightarrow> ptr \<Rightarrow> ptr \<Rightarrow> ptr BL" where
  "bl_oper_type R ctx params = bindM (rt_eval R ctx params) (\<lambda>ps. bindM (get_type ps) (\<lambda>T.
     if T = BL_VAL_TYPE_ERROR then returnM ps
     else bindM (bl_list_first ps) (\<lambda>first. bindM (get_type first) bl_mk_type)))"

section \<open>Arithmetic\<close>

text \<open>
  \<open>bl_oper_add\<close> evaluates its parameters once to check them and again to use them; a single list argument
  stands for the list of its elements, which are evaluated in turn.
\<close>

definition add_lists :: "runtime \<Rightarrow> ptr \<Rightarrow> ptr \<Rightarrow> ptr BL" where
  "add_lists R ctx ps = bindM (for_cdr (rt_fuel R) (\<lambda>L retval.
       bindM (get_car L) (\<lambda>a. bindM (rt_eval R ctx a) (\<lambda>x. bindM (get_type x) (\<lambda>T.
         if T = BL_VAL_TYPE_CONS
         then for_cdr (rt_fuel R) (\<lambda>y retval.
                bindM (get_car y) (\<lambda>b. bindM (bl_list_prepend retval b) (\<lambda>q. returnM (Inr q)))) x retval
         else bindM (bl_list_prepend retval x) (\<lambda>q. returnM (Inr q)))))) ps NULL)
     (\<lambda>r. case r of Inl v \<Rightarrow> returnM v | Inr retval \<Rightarrow> bl_list_reverse retval)"

definition add_values :: "runtime \<Rightarrow> ptr \<Rightarrow> ptr \<Rightarrow> ptr \<Rightarrow> ptr BL" where
  "add_values R ctx retval ps = bindM (for_cdr (rt_fuel R) (\<lambda>L u.
       bindM (get_car L) (\<lambda>a. bindM (rt_eval R ctx a) (\<lambda>x. bindM (get_type retval) (\<lambda>T.
         bindM (if T = BL_VAL_TYPE_NUMBER
           then bindM (get_i_val retval) (\<lambda>i. bindM (get_i_val x) (\<lambda>j. set_i_val retval (i + j)))
           else bindM (get_s_val retval) (\<lambda>y. bindM (bl_ser_naked_sexp x) (\<lambda>z. set_s_val retval (y @ z))))
         (\<lambda>_. returnM (Inr ())))))) ps ())
     (\<lambda>r. case r of Inl v \<Rightarrow> returnM v | Inr _ \<Rightarrow> returnM retval)"

definition add_all :: "runtime \<Rightarrow> ptr \<Rightarrow> ptr \<Rightarrow> ptr \<Rightarrow> ptr BL" where
  "add_all R ctx first ps = bindM (get_type first) (\<lambda>T.
     if T = BL_VAL_TYPE_CONS then add_lists R ctx ps
     else if T = BL_VAL_TYPE_NUMBER
     then bindM (bl_mk_val BL_VAL_TYPE_NUMBER) (\<lambda>retval. add_values R ctx retval ps)
     else bindM (bl_mk_str []) (\<lambda>retval. add_values R ctx retval ps))"

definition bl_oper_add :: "runtime \<Rightarrow> ptr \<Rightarrow> ptr \<Rightarrow> ptr BL" where
  "bl_oper_add R ctx params = bindM (get_type params) (\<lambda>P.
     if P = BL_VAL_TYPE_NULL then bindM bl_mk_null (\<lambda>z. bl_errif_invalid_len z 1 BL_LONGEST_LIST)
     else bindM (bl_eval_cons R ctx params) (\<lambda>L. bindM (get_type L) (\<lambda>T.
       if T = BL_VAL_TYPE_ERROR then returnM L
       else unless_error (bl_errif_invalid_len L 1 BL_LONGEST_LIST)
         (bindM (eval_first R ctx params) (\<lambda>first. bindM (get_type first) (\<lambda>F.
            if F = BL_VAL_TYPE_CONS
            then bindM (bl_list_len params) (\<lambda>n.
              if n = 1 then bindM (bl_list_first first) (\<lambda>head. add_all R ctx head first)
              else add_all R ctx first params)
            else add_all R ctx first params))))))"

definition bl_oper_sub :: "runtime \<Rightarrow> ptr \<Rightarrow> ptr \<Rightarrow> ptr BL" where
  "bl_oper_sub R ctx params = bindM (rt_eval R ctx params) (\<lambda>ps.
     unless_error (bl_errif_invalid_fixed_args ps [BL_VAL_TYPE_NUMBER, BL_VAL_TYPE_NUMBER])
       (bindM (bl_mk_val BL_VAL_TYPE_NUMBER) (\<lambda>retval. bindM (bl_list_first ps) (\<lambda>first.
        bindM (bl_list_second ps) (\<lambda>second. bindM (get_i_val first) (\<lambda>x. bindM (get_i_val second) (\<lambda>y.
        bindM (set_i_val retval (x - y)) (\<lambda>_. returnM retval))))))))"

definition bl_oper_mult :: "runtime \<Rightarrow> ptr \<Rightarrow> ptr \<Rightarrow> ptr BL" where
  "bl_oper_mult R ctx params = bindM (rt_eval R ctx params) (\<lambda>ps.
     unless_error (bl_errif_invalid_fixed_args ps [BL_VAL_TYPE_NUMBER, BL_VAL_TYPE_NUMBER])
       (bindM (bl_mk_val BL_VAL_TYPE_NUMBER) (\<lambda>retval. bindM (eval_first R ctx ps) (\<lambda>first.
        bindM (eval_second R ctx ps) (\<lambda>second. bindM (get_i_val first) (\<lambda>x. bindM (get_i_val second) (\<lambda>y.
        bindM (set_i_val retval (x * y)) (\<lambda>_. returnM retval))))))))"

definition bl_oper_div :: "runtime \<Rightarrow> ptr \<Rightarrow> ptr \<Rightarrow> ptr BL" where
  "bl_oper_div R ctx params = bindM (bl_eval_cons R ctx params) (\<lambda>ps.
     unless_error (bl_errif_invalid_fixed_args ps [BL_VAL_TYPE_NUMBER, BL_VAL_TYPE_NUMBER])
       (bindM (bl_mk_val BL_VAL_TYPE_NUMBER) (\<lambda>retval. bindM (eval_first R ctx ps) (\<lambda>first.
        bindM (eval_second R ctx ps) (\<lambda>second. bindM (get_i_val second) (\<lambda>y.
        if y = 0 then bl_err_divzero
        else bindM (get_i_val first) (\<lambda>x. bindM (set_i_val retval (mpz_tdiv_q x y)) (\<lambda>_. returnM retval))))))))"

text \<open>\<open>mpz_mod\<close> raises a signal when the divisor is zero.\<close>

definition bl_oper_mod :: "runtime \<Rightarrow> ptr \<Rightarrow> ptr \<Rightarrow> ptr BL" where
  "bl_oper_mod R ctx params = bindM (bl_mk_val BL_VAL_TYPE_NUMBER) (\<lambda>retval.
     bindM (eval_first R ctx params) (\<lambda>first. bindM (eval_second R ctx params) (\<lambda>second.
     bindM (get_i_val first) (\<lambda>x. bindM (get_i_val second) (\<lambda>y.
       if y = 0 then faultM Div_by_zero
       else bindM (set_i_val retval (mpz_mod x y)) (\<lambda>_. returnM retval))))))"

text \<open>\<open>inc\<close> and \<open>dec\<close> change the number that the symbol is bound to, wherever else it is used.\<close>

definition bl_oper_inc :: "runtime \<Rightarrow> ptr \<Rightarrow> ptr \<Rightarrow> ptr BL" where
  "bl_oper_inc R ctx params = bindM (bl_list_first params) (\<lambda>symname.
     bindM (bl_ctx_get R ctx symname) (\<lambda>symval. bindM (get_i_val symval) (\<lambda>i.
     bindM (set_i_val symval (i + 1)) (\<lambda>_. returnM symval))))"

definition bl_oper_dec :: "runtime \<Rightarrow> ptr \<Rightarrow> ptr \<Rightarrow> ptr BL" where
  "bl_oper_dec R ctx params = bindM (bl_list_first params) (\<lambda>symname.
     bindM (bl_ctx_get R ctx symname) (\<lambda>symval. bindM (get_i_val symval) (\<lambda>i.
     bindM (set_i_val symval (i - 1)) (\<lambda>_. returnM symval))))"

section \<open>Lists\<close>

definition bl_oper_first :: "runtime \<Rightarrow> ptr \<Rightarrow> ptr \<Rightarrow> ptr BL" where
  "bl_oper_first R ctx params = bindM (rt_eval R ctx params) (\<lambda>ps. bindM (bl_list_len ps) (\<lambda>n.
     if n = 1 then bindM (bl_list_first ps) bl_list_first else bl_list_first ps))"

definition bl_oper_second :: "runtime \<Rightarrow> ptr \<Rightarrow> ptr \<Rightarrow> ptr BL" where
  "bl_oper_second R ctx params = bindM (rt_eval R ctx params) (\<lambda>ps. bindM (bl_list_len ps) (\<lambda>n.
     if n = 1 then bindM (bl_list_first ps) bl_list_second else bl_list_second ps))"

definition bl_oper_third :: "runtime \<Rightarrow> ptr \<Rightarrow> ptr \<Rightarrow> ptr BL" where
  "bl_oper_third R ctx params = bindM (bl_list_len params) (\<lambda>n.
     bindM (if n = 1 then eval_first R ctx params else returnM params) bl_list_third)"

definition bl_oper_rest :: "runtime \<Rightarrow> ptr \<Rightarrow> ptr \<Rightarrow> ptr BL" where
  "bl_oper_rest R ctx params = bindM (rt_eval R ctx params) (\<lambda>ps. bindM (bl_list_len ps) (\<lambda>n.
     bindM (if n = 1 then eval_first R ctx ps else returnM ps) (\<lambda>qs. bindM (bl_list_rest qs) (\<lambda>retval.
       if retval = NULL then bl_mk_null else returnM retval))))"

definition bl_oper_append :: "runtime \<Rightarrow> ptr \<Rightarrow> ptr \<Rightarrow> ptr BL" where
  "bl_oper_append R ctx params = bindM (eval_first R ctx params) (\<lambda>L.
     bindM (eval_second R ctx params) (\<lambda>x. bl_list_append L x))"

definition bl_oper_prepend :: "runtime \<Rightarrow> ptr \<Rightarrow> ptr \<Rightarrow> ptr BL" where
  "bl_oper_prepend R ctx params = bindM (eval_first R ctx params) (\<lambda>L.
     bindM (eval_second R ctx params) (\<lambda>x. bl_list_prepend L x))"

definition bl_oper_reverse :: "runtime \<Rightarrow> ptr \<Rightarrow> ptr \<Rightarrow> ptr BL" where
  "bl_oper_reverse R ctx params = bindM (rt_eval R ctx params) (\<lambda>ps. bindM (bl_list_len ps) (\<lambda>n.
     bindM (if n = 1 then eval_first R ctx ps else returnM ps) bl_list_reverse))"

definition bl_oper_filtered :: "runtime \<Rightarrow> ptr \<Rightarrow> ptr \<Rightarrow> ptr BL" where
  "bl_oper_filtered R ctx params = bindM (eval_first R ctx params) (\<lambda>L0.
     bindM (eval_second R ctx params) (\<lambda>items.
     bindM (for_cdr (rt_fuel R) (\<lambda>L retval.
         bindM (for_cdr (rt_fuel R) (\<lambda>I is_in.
             bindM (get_car L) (\<lambda>a. bindM (get_car I) (\<lambda>b. bindM (bl_mk_list [a, b]) (\<lambda>ab.
             bindM (bl_oper_eq R ctx ab) (\<lambda>eq_result. bindM (get_b_val eq_result) (\<lambda>q.
               returnM (Inr (if q then True else is_in)))))))) items False)
           (\<lambda>r. case r of
              Inl v \<Rightarrow> returnM (Inl v)
            | Inr is_in \<Rightarrow> if is_in then returnM (Inr retval)
                else bindM (get_car L) (\<lambda>a. bindM (bl_list_prepend retval a) (\<lambda>q. returnM (Inr q))))) L0 NULL)
       (\<lambda>r. case r of Inl v \<Rightarrow> returnM v | Inr retval \<Rightarrow> bl_list_reverse retval)))"

section \<open>Control, binding and functions\<close>

definition bl_oper_quote :: "runtime \<Rightarrow> ptr \<Rightarrow> ptr \<Rightarrow> ptr BL" where
  "bl_oper_quote R ctx params = bindM (bl_list_len params) (\<lambda>n.
     if n = 1 then bl_list_first params else returnM params)"

definition bl_oper_eval :: "runtime \<Rightarrow> ptr \<Rightarrow> ptr \<Rightarrow> ptr BL" where
  "bl_oper_eval R ctx params = bindM (rt_eval R ctx params) (\<lambda>ps. bindM (get_type ps) (\<lambda>T.
     if T = BL_VAL_TYPE_ERROR then returnM ps
     else bindM (bl_list_len ps) (\<lambda>n. if n = 1 then eval_first R ctx ps else rt_eval R ctx ps)))"

definition bl_oper_set :: "runtime \<Rightarrow> ptr \<Rightarrow> ptr \<Rightarrow> ptr BL" where
  "bl_oper_set R ctx params = bindM (eval_second R ctx params) (\<lambda>retval.
     bindM (bl_list_first params) (\<lambda>name. bindM (bl_ctx_set ctx name retval) (\<lambda>_. returnM retval)))"

definition bl_oper_print :: "runtime \<Rightarrow> ptr \<Rightarrow> ptr \<Rightarrow> ptr BL" where
  "bl_oper_print R ctx params = bindM (bl_eval_cons R ctx params) (\<lambda>i. bindM (get_type i) (\<lambda>T.
     if T = BL_VAL_TYPE_ERROR then returnM i
     else bindM (for_cdr (rt_fuel R) (\<lambda>i u. bindM (get_car i) (\<lambda>a. bindM (rt_eval R ctx a) (\<lambda>v.
            bindM (bl_ser_naked_sexp v) (\<lambda>x. bindM (print_out x) (\<lambda>_. returnM (Inr ())))))) params ())
          (\<lambda>r. case r of Inl v \<Rightarrow> returnM v | Inr _ \<Rightarrow> bl_mk_null)))"

definition bl_oper_isset :: "runtime \<Rightarrow> ptr \<Rightarrow> ptr \<Rightarrow> ptr BL" where
  "bl_oper_isset R ctx params = bindM (bl_list_first params) (\<lambda>sm. bindM (bl_ctx_get R ctx sm) (\<lambda>symval.
     if symval = NULL then bl_mk_bool False else bl_mk_bool True))"

definition bl_oper_foreach :: "runtime \<Rightarrow> ptr \<Rightarrow> ptr \<Rightarrow> ptr BL" where
  "bl_oper_foreach R ctx params = bindM (bl_list_first params) (\<lambda>sm.
     bindM (eval_second R ctx params) (\<lambda>L0. bindM (bl_list_third params) (\<lambda>expr.
     bindM (for_cdr (rt_fuel R) (\<lambda>L u. bindM (get_car L) (\<lambda>a. bindM (bl_ctx_set ctx sm a) (\<lambda>_.
         bindM (rt_eval R ctx expr) (\<lambda>_. returnM (Inr ()))))) L0 ())
       (\<lambda>r. case r of Inl v \<Rightarrow> returnM v
          | Inr _ \<Rightarrow> bindM (bl_ctx_set ctx sm NULL) (\<lambda>_. bl_mk_null)))))"

definition bl_oper_fn :: "runtime \<Rightarrow> ptr \<Rightarrow> ptr \<Rightarrow> ptr BL" where
  "bl_oper_fn R ctx params = bindM (bl_mk_val BL_VAL_TYPE_FUNC_BL) (\<lambda>retval.
     bindM (bl_list_first params) (\<lambda>args. bindM (bl_list_rest params) (\<lambda>body.
     bindM (bl_ctx_new ctx) (\<lambda>inner. bindM (bl_mk_symbol ''anonymous-lambda'') (\<lambda>sm.
     bindM (set_func retval \<lparr>bl_func_ptr = body, bl_funcargs_ptr = args, lexical_closure = ctx,
              inner_closure = inner, func_sym = sm\<rparr>) (\<lambda>_. returnM retval))))))"

text \<open>A documentation string at the start of the body is taken off it.\<close>

definition take_docstr :: "ptr \<Rightarrow> ptr \<Rightarrow> ptr BL" where
  "take_docstr retval body = bindM (get_car body) (\<lambda>a. bindM (get_type a) (\<lambda>T.
     if T = BL_VAL_TYPE_DOCSTRING
     then bindM (update retval (\<lambda>c. c\<lparr>docstr := a\<rparr>)) (\<lambda>_. get_cdr body)
     else returnM body))"

definition bl_oper_fun :: "runtime \<Rightarrow> ptr \<Rightarrow> ptr \<Rightarrow> ptr BL" where
  "bl_oper_fun R ctx params = bindM (bl_mk_val BL_VAL_TYPE_FUNC_BL) (\<lambda>retval.
     bindM (bl_list_second params) (\<lambda>args. bindM (bl_list_rest params) (\<lambda>r1. bindM (bl_list_rest r1) (\<lambda>r2.
     bindM (take_docstr retval r2) (\<lambda>body. bindM (bl_ctx_new ctx) (\<lambda>inner.
     bindM (bl_list_first params) (\<lambda>sm.
     bindM (set_func retval \<lparr>bl_func_ptr = body, bl_funcargs_ptr = args, lexical_closure = ctx,
              inner_closure = inner, func_sym = sm\<rparr>) (\<lambda>_.
     bindM (bl_ctx_set ctx sm retval) (\<lambda>_. returnM retval)))))))))"

definition bl_oper_oper :: "runtime \<Rightarrow> ptr \<Rightarrow> ptr \<Rightarrow> ptr BL" where
  "bl_oper_oper R ctx params = bindM (bl_mk_val BL_VAL_TYPE_OPER_BL) (\<lambda>retval.
     bindM (bl_list_second params) (\<lambda>args. bindM (bl_list_rest params) (\<lambda>r1. bindM (bl_list_rest r1) (\<lambda>r2.
     bindM (take_docstr retval r2) (\<lambda>body. bindM (bl_ctx_new ctx) (\<lambda>inner.
     bindM (set_func retval (zero_func\<lparr>bl_func_ptr := body, bl_funcargs_ptr := args,
              lexical_closure := ctx, inner_closure := inner\<rparr>)) (\<lambda>_.
     bindM (bl_list_first params) (\<lambda>name.
     bindM (bl_ctx_set ctx name retval) (\<lambda>_. returnM retval)))))))))"

text \<open>
  \<open>bl_oper_map\<close> binds the first parameter of the function to each element and evaluates every expression
  of the body, each giving one element of the result.
\<close>

definition map_step :: "runtime \<Rightarrow> ptr \<Rightarrow> ptr \<Rightarrow> ptr \<times> ptr \<Rightarrow> (ptr + ptr \<times> ptr) BL" where
  "map_step R func j acc = (case acc of (retval_L, retval) \<Rightarrow>
     bindM (bl_mk_val BL_VAL_TYPE_CONS) (\<lambda>c.
     bindM (if retval_L = NULL then returnM () else set_cdr retval_L c) (\<lambda>_.
     bindM (get_func func) (\<lambda>f. bindM (get_car j) (\<lambda>e. bindM (rt_eval R (inner_closure f) e) (\<lambda>v.
     bindM (set_car c v) (\<lambda>_. bindM (get_type v) (\<lambda>T.
       if T = BL_VAL_TYPE_ERROR then returnM (Inl v)
       else if retval_L = NULL then bindM (set_cdr c NULL) (\<lambda>_. returnM (Inr (c, c)))
       else returnM (Inr (c, retval))))))))))"

definition bl_oper_map :: "runtime \<Rightarrow> ptr \<Rightarrow> ptr \<Rightarrow> ptr BL" where
  "bl_oper_map R ctx params = bindM (bl_eval_cons R ctx params) (\<lambda>ps. bindM (get_type ps) (\<lambda>T.
     if T = BL_VAL_TYPE_ERROR then returnM ps
     else unless_error (bl_errif_invalid_fixed_args ps [BL_VAL_TYPE_FUNC_BL, BL_VAL_TYPE_CONS])
       (bindM (bl_list_first ps) (\<lambda>func. bindM (bl_list_second ps) (\<lambda>L.
        bindM (bl_mk_val BL_VAL_TYPE_CONS) (\<lambda>tmp.
        bindM (for_cdr (rt_fuel R) (\<lambda>i acc.
            bindM (get_func func) (\<lambda>f. bindM (get_car (bl_funcargs_ptr f)) (\<lambda>k. bindM (get_car i) (\<lambda>a.
            bindM (bl_ctx_set (inner_closure f) k a) (\<lambda>_.
            for_cdr (rt_fuel R) (map_step R func) (bl_func_ptr f) acc))))) L (NULL, NULL))
          (\<lambda>r. case r of Inl v \<Rightarrow> returnM v | Inr (retval_L, retval) \<Rightarrow> returnM retval)))))))"

text \<open>
  \<open>bl_oper_try\<close>: every clause must have three elements, so \<open>(finally e)\<close> is rejected; the last matching
  catch clause is the one that is evaluated.
\<close>

definition try_clause :: "runtime \<Rightarrow> ptr \<Rightarrow> ptr \<Rightarrow> ptr \<Rightarrow> ptr \<Rightarrow> ptr \<Rightarrow> ptr \<times> ptr \<Rightarrow> (ptr + ptr \<times> ptr) BL" where
  "try_clause R ctx try_result catch_sym finally_sym i acc = (case acc of (catch_expr, finally_expr) \<Rightarrow>
     bindM (get_car i) (\<lambda>cl. bindM (get_type cl) (\<lambda>T.
       if T \<noteq> BL_VAL_TYPE_CONS then bindM (bl_mk_err BL_ERR_PARSE) (\<lambda>e. returnM (Inl e))
       else bindM (bl_list_len cl) (\<lambda>n.
         if n \<noteq> 3 then bindM (bl_mk_err BL_ERR_PARSE) (\<lambda>e. returnM (Inl e))
         else bindM (get_car cl) (\<lambda>head.
           if head = catch_sym
           then bindM (bl_list_second cl) (\<lambda>name. bindM (bl_ctx_get R ctx name) (\<lambda>catch_err.
                bindM (get_err catch_err) (\<lambda>ce. bindM (get_err try_result) (\<lambda>te.
                  if err_type ce = err_type te \<or> err_type ce = BL_ERR_ANY
                  then bindM (bl_list_third cl) (\<lambda>e. returnM (Inr (e, finally_expr)))
                  else returnM (Inr (catch_expr, finally_expr))))))
           else if head = finally_sym
           then bindM (bl_list_second cl) (\<lambda>e. returnM (Inr (catch_expr, e)))
           else bindM (bl_mk_err BL_ERR_PARSE) (\<lambda>e. returnM (Inl e)))))))"

definition bl_oper_try :: "runtime \<Rightarrow> ptr \<Rightarrow> ptr \<Rightarrow> ptr BL" where
  "bl_oper_try R ctx params = bindM (eval_first R ctx params) (\<lambda>try_result.
     bindM (get_type try_result) (\<lambda>T.
     if T \<noteq> BL_VAL_TYPE_ERROR then returnM try_result
     else bindM (bl_list_rest params) (\<lambda>other_exprs. bindM (bl_mk_symbol ''catch'') (\<lambda>catch_sym.
       bindM (bl_mk_symbol ''finally'') (\<lambda>finally_sym. bindM (bl_mk_symbol ''*ERR*'') (\<lambda>err_name.
       bindM (bl_ctx_set ctx err_name try_result) (\<lambda>_.
       bindM (for_cdr (rt_fuel R) (try_clause R ctx try_result catch_sym finally_sym)
                other_exprs (try_result, NULL))
         (\<lambda>r. case r of
            Inl v \<Rightarrow> returnM v
          | Inr (catch_expr, finally_expr) \<Rightarrow> bindM (rt_eval R ctx catch_expr) (\<lambda>retval.
              if finally_expr \<noteq> NULL then rt_eval R ctx finally_expr else returnM retval)))))))))"

primrec dir_members :: "bl_ctx \<Rightarrow> nat list \<Rightarrow> ptr \<Rightarrow> ptr BL" where
  "dir_members c [] retval = returnM retval"
| "dir_members c (i # is) retval = bindM (ctx_slot c i) (\<lambda>v.
     if v = NULL then dir_members c is retval
     else bindM (ctx_key c i) (\<lambda>k. bindM (get_s_val k) (\<lambda>x.
       if x = ''DOC'' then dir_members c is retval
       else bindM (bl_mk_str x) (\<lambda>p. bindM (bl_list_prepend retval p) (\<lambda>q. dir_members c is q)))))"

definition bl_oper_dir :: "runtime \<Rightarrow> ptr \<Rightarrow> ptr \<Rightarrow> ptr BL" where
  "bl_oper_dir R ctx params = bindM (bl_list_first params) (\<lambda>symname.
     bindM (bl_ctx_get R ctx symname) (\<lambda>v. bindM (rt_eval R ctx v) (\<lambda>symval. bindM (get_type symval) (\<lambda>T.
       if T \<noteq> BL_VAL_TYPE_CTX then returnM NULL
       else bindM (get_ctx symval) (\<lambda>c. dir_members c [0..<vals_count c] NULL)))))"

definition bl_oper_ctxget :: "runtime \<Rightarrow> ptr \<Rightarrow> ptr \<Rightarrow> ptr BL" where
  "bl_oper_ctxget R ctx params = bindM (bl_list_first params) (\<lambda>symname.
     bindM (bl_ctx_get R ctx symname) (\<lambda>v. bindM (rt_eval R ctx v) (\<lambda>symval. bindM (get_type symval) (\<lambda>T.
       if T \<noteq> BL_VAL_TYPE_CTX then returnM NULL
       else bindM (bl_list_second params) (\<lambda>second. bindM (get_type second) (\<lambda>U.
         bindM (if U = BL_VAL_TYPE_CONS then rt_eval R ctx second else returnM second) (\<lambda>k.
           bl_ctx_get R symval k)))))))"

section \<open>Effects on the state\<close>

lemma new_error_safe [keeps_intros]: "keeps safe_step (new_val BL_VAL_TYPE_ERROR (U_err e))"
  by (rule new_val_safe) simp_all

lemma unless_error_safe [keeps_intros]:
  "keeps safe_step check \<Longrightarrow> keeps safe_step body \<Longrightarrow> keeps safe_step (unless_error check body)"
  unfolding unless_error_def by (intro keeps_intros)

lemma prepend_syms_safe [keeps_intros]: "keeps safe_step (prepend_syms xs L)"
  by (induction xs arbitrary: L) (simp_all add: keeps_intros)

lemma take_docstr_safe [keeps_intros]: "keeps safe_step (take_docstr p b)"
  unfolding take_docstr_def by (intro keeps_intros update_meta_safe) simp_all

lemma dir_members_safe [keeps_intros]: "keeps safe_step (dir_members c is L)"
  by (induction "is" arbitrary: L) (simp_all add: keeps_intros)

lemma bl_mk_val_safes [keeps_intros]:
  "keeps safe_step (bl_mk_val BL_VAL_TYPE_NUMBER)" "keeps safe_step (bl_mk_val BL_VAL_TYPE_CONS)"
  "keeps safe_step (bl_mk_val BL_VAL_TYPE_FUNC_BL)" "keeps safe_step (bl_mk_val BL_VAL_TYPE_OPER_BL)"
  "keeps safe_step (bl_mk_val BL_VAL_TYPE_CPTR)"
  by (rule bl_mk_val_safe; simp)+

lemmas builtin_defs =
  bl_oper_profile_def bl_oper_throw_def bl_oper_listbuiltins_def bl_oper_pmatch_def
  bl_oper_startswith_def bl_oper_split_def bl_oper_aget_def bl_oper_serexp_def bl_oper_parse_def
  bl_oper_mksym_def bl_oper_eq_def bl_oper_lt_def bl_oper_gt_def bl_oper_and_def bl_oper_not_def
  bl_oper_or_def bl_oper_xor_def bl_oper_type_def bl_oper_add_def bl_oper_sub_def bl_oper_mult_def
  bl_oper_div_def bl_oper_mod_def bl_oper_inc_def bl_oper_dec_def bl_oper_first_def
  bl_oper_second_def bl_oper_third_def bl_oper_rest_def bl_oper_append_def bl_oper_prepend_def
  bl_oper_reverse_def bl_oper_filtered_def bl_oper_quote_def bl_oper_eval_def bl_oper_set_def
  bl_oper_print_def bl_oper_isset_def bl_oper_foreach_def bl_oper_fn_def bl_oper_fun_def
  bl_oper_oper_def bl_oper_map_def bl_oper_try_def bl_oper_dir_def bl_oper_ctxget_def

context safe_runtime
begin

lemma bl_eval_cons_safe [keeps_intros]: "keeps safe_step (bl_eval_cons R c p)"
  unfolding bl_eval_cons_def by (intro keeps_intros)

lemma eval_args_safe [keeps_intros]:
  "keeps safe_step (eval_first R c p)" "keeps safe_step (eval_second R c p)"
  unfolding eval_first_def eval_second_def by (intro keeps_intros)+

lemma add_safe [keeps_intros]: "keeps safe_step (add_all R c x p)"
  unfolding add_all_def add_lists_def add_values_def by (intro keeps_intros)

lemma map_step_safe [keeps_intros]: "keeps safe_step (map_step R f j x)"
  unfolding map_step_def by (intro keeps_intros)

lemma try_clause_safe [keeps_intros]: "keeps safe_step (try_clause R c tr cs fs i x)"
  unfolding try_clause_def by (intro keeps_intros)

lemma bl_oper_eq_safe [keeps_intros]: "keeps safe_step (bl_oper_eq R c p)"
  unfolding bl_oper_eq_def by (intro keeps_intros)

lemma builtins_safe [keeps_intros]:
  "keeps safe_step (bl_oper_profile R c p)" "keeps safe_step (bl_oper_throw R c p)"
  "keeps safe_step (bl_oper_listbuiltins R c p)" "keeps safe_step (bl_oper_pmatch R c p)"
  "keeps safe_step (bl_oper_startswith R c p)" "keeps safe_step (bl_oper_split R c p)"
  "keeps safe_step (bl_oper_aget R c p)" "keeps safe_step (bl_oper_serexp R c p)"
  "keeps safe_step (bl_oper_parse R c p)" "keeps safe_step (bl_oper_mksym R c p)"
  "keeps safe_step (bl_oper_eq R c p)" "keeps safe_step (bl_oper_lt R c p)"
  "keeps safe_step (bl_oper_gt R c p)" "keeps safe_step (bl_oper_and R c p)"
  "keeps safe_step (bl_oper_not R c p)" "keeps safe_step (bl_oper_or R c p)"
  "keeps safe_step (bl_oper_xor R c p)" "keeps safe_step (bl_oper_type R c p)"
  "keeps safe_step (bl_oper_add R c p)" "keeps safe_step (bl_oper_sub R c p)"
  "keeps safe_step (bl_oper_mult R c p)" "keeps safe_step (bl_oper_div R c p)"
  "keeps safe_step (bl_oper_mod R c p)" "keeps safe_step (bl_oper_inc R c p)"
  "keeps safe_step (bl_oper_dec R c p)" "keeps safe_step (bl_oper_first R c p)"
  "keeps safe_step (bl_oper_second R c p)" "keeps safe_step (bl_oper_third R c p)"
  "keeps safe_step (bl_oper_rest R c p)" "keeps safe_step (bl_oper_append R c p)"
  "keeps safe_step (bl_oper_prepend R c p)" "keeps safe_step (bl_oper_reverse R c p)"
  "keeps safe_step (bl_oper_filtered R c p)" "keeps safe_step (bl_oper_quote R c p)"
  "keeps safe_step (bl_oper_eval R c p)" "keeps safe_step (bl_oper_set R c p)"
  "keeps safe_step (bl_oper_print R c p)" "keeps safe_step (bl_oper_isset R c p)"
  "keeps safe_step (bl_oper_foreach R c p)" "keeps safe_step (bl_oper_fn R c p)"
  "keeps safe_step (bl_oper_fun R c p)" "keeps safe_step (bl_oper_oper R c p)"
  "keeps safe_step (bl_oper_map R c p)" "keeps safe_step (bl_oper_try R c p)"
  "keeps safe_step (bl_oper_dir R c p)" "keeps safe_step (bl_oper_ctxget R c p)"
  unfolding builtin_defs by (intro keeps_intros)+

end

section \<open>More fuel, same answer\<close>

lemma unless_error_mono [mono_intros]:
  "le_M check check' \<Longrightarrow> le_M body body' \<Longrightarrow> le_M (unless_error check body) (unless_error check' body')"
  unfolding unless_error_def by (intro mono_intros)

context mono_runtime
begin

lemma bl_eval_cons_mono [mono_intros]: "le_M (bl_eval_cons R c p) (bl_eval_cons R' c p)"
  unfolding bl_eval_cons_def by (intro mono_intros)

lemma eval_args_mono [mono_intros]:
  "le_M (eval_first R c p) (eval_first R' c p)" "le_M (eval_second R c p) (eval_second R' c p)"
  unfolding eval_first_def eval_second_def by (intro mono_intros)+

lemma add_mono [mono_intros]: "le_M (add_all R c x p) (add_all R' c x p)"
  unfolding add_all_def add_lists_def add_values_def by (intro mono_intros)

lemma map_step_mono [mono_intros]: "le_M (map_step R f j x) (map_step R' f j x)"
  unfolding map_step_def by (intro mono_intros)

lemma try_clause_mono [mono_intros]: "le_M (try_clause R c tr cs fs i x) (try_clause R' c tr cs fs i x)"
  unfolding try_clause_def by (intro mono_intros)

lemma bl_oper_eq_mono [mono_intros]: "le_M (bl_oper_eq R c p) (bl_oper_eq R' c p)"
  unfolding bl_oper_eq_def by (intro mono_intros)

lemma builtins_mono [mono_intros]:
  "le_M (bl_oper_profile R c p) (bl_oper_profile R' c p)"
  "le_M (bl_oper_throw R c p) (bl_oper_throw R' c p)"
  "le_M (bl_oper_listbuiltins R c p) (bl_oper_listbuiltins R' c p)"
  "le_M (bl_oper_pmatch R c p) (bl_oper_pmatch R' c p)"
  "le_M (bl_oper_startswith R c p) (bl_oper_startswith R' c p)"
  "le_M (bl_oper_split R c p) (bl_oper_split R' c p)"
  "le_M (bl_oper_aget R c p) (bl_oper_aget R' c p)"
  "le_M (bl_oper_serexp R c p) (bl_oper_serexp R' c p)"
  "le_M (bl_oper_parse R c p) (bl_oper_parse R' c p)"
  "le_M (bl_oper_mksym R c p) (bl_oper_mksym R' c p)" "le_M (bl_oper_eq R c p) (bl_oper_eq R' c p)"
  "le_M (bl_oper_lt R c p) (bl_oper_lt R' c p)" "le_M (bl_oper_gt R c p) (bl_oper_gt R' c p)"
  "le_M (bl_oper_and R c p) (bl_oper_and R' c p)" "le_M (bl_oper_not R c p) (bl_oper_not R' c p)"
  "le_M (bl_oper_or R c p) (bl_oper_or R' c p)" "le_M (bl_oper_xor R c p) (bl_oper_xor R' c p)"
  "le_M (bl_oper_type R c p) (bl_oper_type R' c p)" "le_M (bl_oper_add R c p) (bl_oper_add R' c p)"
  "le_M (bl_oper_sub R c p) (bl_oper_sub R' c p)" "le_M (bl_oper_mult R c p) (bl_oper_mult R' c p)"
  "le_M (bl_oper_div R c p) (bl_oper_div R' c p)" "le_M (bl_oper_mod R c p) (bl_oper_mod R' c p)"
  "le_M (bl_oper_inc R c p) (bl_oper_inc R' c p)" "le_M (bl_oper_dec R c p) (bl_oper_dec R' c p)"
  "le_M (bl_oper_first R c p) (bl_oper_first R' c p)"
  "le_M (bl_oper_second R c p) (bl_oper_second R' c p)"
  "le_M (bl_oper_third R c p) (bl_oper_third R' c p)"
  "le_M (bl_oper_rest R c p) (bl_oper_rest R' c p)"
  "le_M (bl_oper_append R c p) (bl_oper_append R' c p)"
  "le_M (bl_oper_prepend R c p) (bl_oper_prepend R' c p)"
  "le_M (bl_oper_reverse R c p) (bl_oper_reverse R' c p)"
  "le_M (bl_oper_filtered R c p) (bl_oper_filtered R' c p)"
  "le_M (bl_oper_quote R c p) (bl_oper_quote R' c p)"
  "le_M (bl_oper_eval R c p) (bl_oper_eval R' c p)" "le_M (bl_oper_set R c p) (bl_oper_set R' c p)"
  "le_M (bl_oper_print R c p) (bl_oper_print R' c p)"
  "le_M (bl_oper_isset R c p) (bl_oper_isset R' c p)"
  "le_M (bl_oper_foreach R c p) (bl_oper_foreach R' c p)"
  "le_M (bl_oper_fn R c p) (bl_oper_fn R' c p)" "le_M (bl_oper_fun R c p) (bl_oper_fun R' c p)"
  "le_M (bl_oper_oper R c p) (bl_oper_oper R' c p)" "le_M (bl_oper_map R c p) (bl_oper_map R' c p)"
  "le_M (bl_oper_try R c p) (bl_oper_try R' c p)" "le_M (bl_oper_dir R c p) (bl_oper_dir R' c p)"
  "le_M (bl_oper_ctxget R c p) (bl_oper_ctxget R' c p)"
  unfolding builtin_defs by (intro mono_intros)+

end

end
