(* ===== verification/BL_Import.thy ===== *)
theory BL_Import
  imports BL_Builtins
begin

text \<open>
  Files and modules (\<open>bl_eval_file\<close> of \<^verbatim>\<open>utils.c\<close>; including, importing, \<open>using\<close> and the documentation
  operators of \<^verbatim>\<open>builtins.c\<close>). The file system is the \<open>source_text\<close> and \<open>glob_paths\<close> part of the state; an
  extension module's initialisation is called through the \<open>runtime\<close> record.
\<close>

section \<open>Files\<close>

definition bl_eval_file :: "runtime \<Rightarrow> ptr \<Rightarrow> string \<Rightarrow> ptr BL" where
  "bl_eval_file R ctx contents = bindM (bl_parse_file contents) (rt_eval R ctx)"

text \<open>
  \<open>fopen(name, "r")\<close> and \<open>fclose\<close> around a computation on the file's text: without the file the stream is
  NULL and \<open>fclose\<close> crashes at the latest.
\<close>

definition with_source :: "string \<Rightarrow> (string \<Rightarrow> ptr BL) \<Rightarrow> ptr BL" where
  "with_source name f = bindM (getsM (\<lambda>s. source_text (os s) name)) (\<lambda>z. case z of
      None \<Rightarrow> faultM Bad_pointer | Some x \<Rightarrow> f x)"

definition bl_oper_include :: "runtime \<Rightarrow> ptr \<Rightarrow> ptr \<Rightarrow> ptr BL" where
  "bl_oper_include R ctx params = bindM (eval_first R ctx params) (\<lambda>filename.
     bindM (get_s_val filename) (\<lambda>x. with_source x (bl_eval_file R ctx)))"

section \<open>File names\<close>

definition strip_slashes :: "string \<Rightarrow> string" where
  "strip_slashes x = rev (dropWhile (\<lambda>c. c = CHR ''/'') (rev x))"

definition after_last :: "char \<Rightarrow> string \<Rightarrow> string" where
  "after_last c x = rev (takeWhile (\<lambda>d. d \<noteq> c) (rev x))"

text \<open>\<open>dirname\<close> of a non-empty name, and whether the result lies in the argument's buffer.\<close>

definition dirname_of :: "string \<Rightarrow> string" where
  "dirname_of x = (let p = strip_slashes x in
     if p = [] then ''/''
     else if CHR ''/'' \<notin> set p then ''.''
     else let d = strip_slashes (rev (drop 1 (dropWhile (\<lambda>c. c \<noteq> CHR ''/'') (rev p)))) in
          if d = [] then ''/'' else d)"

definition dirname_in_buffer :: "string \<Rightarrow> bool" where
  "dirname_in_buffer x \<longleftrightarrow> CHR ''/'' \<in> set (strip_slashes x) \<or> strip_slashes x = []"

definition basename_of :: "string \<Rightarrow> string" where
  "basename_of x = (if x = [] then ''.''
     else let p = strip_slashes x in if p = [] then ''/'' else after_last (CHR ''/'') p)"

section \<open>Importing\<close>

text \<open>
  The glob pattern. The directory of the current module is read after its buffer was freed, unless
  \<open>dirname\<close> returned the static string for the current directory.
\<close>

definition module_dir :: "string \<Rightarrow> string option BL" where
  "module_dir mod_filename = bindM (getsM (\<lambda>s. freed_text (os s))) (\<lambda>freed.
     returnM (if mod_filename = [] then None
       else if dirname_in_buffer mod_filename then Some (freed (dirname_of mod_filename))
       else Some (dirname_of mod_filename)))"

definition path_prefix :: "ptr \<Rightarrow> string \<Rightarrow> string BL" where
  "path_prefix cur_path pattern = (\<lambda>s. bindM (for_cdr (Suc (next_addr s)) (\<lambda>p_i pat.
       bindM (get_car p_i) (\<lambda>a. bindM (get_s_val a) (\<lambda>x. returnM (Inr (pat @ x @ '','')))))
       cur_path pattern)
     (\<lambda>r. case r of Inl x \<Rightarrow> returnM x | Inr x \<Rightarrow> returnM x) s)"

definition module_pattern :: "string \<Rightarrow> string \<Rightarrow> string" where
  "module_pattern dirs name = butlast dirs @ ''}'' @ ''/{'' @ name @ ''.bl,'' @ ''lib'' @ name @
     ''{.dylib,.so},'' @ name @ ''/module.bl,'' @ name @ ''/lib'' @ name @ ''{.dylib,.so}'' @ ''}''"

definition import_pattern :: "string option \<Rightarrow> ptr \<Rightarrow> string \<Rightarrow> string BL" where
  "import_pattern mod_dirname cur_path name =
     bindM (path_prefix cur_path (''{'' @ (case mod_dirname of
         None \<Rightarrow> [] | Some d \<Rightarrow> if d = [] then [] else d @ '',''))) (\<lambda>dirs.
     returnM (module_pattern dirs name))"

text \<open>The first match that is not a directory.\<close>

definition first_file :: "string list \<Rightarrow> string" where
  "first_file paths = (case find (\<lambda>p. p \<noteq> [] \<and> last p \<noteq> CHR ''/'') paths of
      None \<Rightarrow> [] | Some p \<Rightarrow> take 4095 p)"

definition import_dylib :: "runtime \<Rightarrow> ptr \<Rightarrow> string \<Rightarrow> string \<Rightarrow> ptr BL" where
  "import_dylib R ctx found_path name = bindM (bl_mk_val BL_VAL_TYPE_CPTR) (\<lambda>dylib_val. bindM (getsM os) (\<lambda>env.
     bindM (if dylib env found_path = None
            then print_err (''dlopen error: '' @ dlerror_text env found_path @ [LF]) else returnM ()) (\<lambda>_.
     case dylib env found_path of
       Some (Some m) \<Rightarrow> bindM (rt_init R m ctx) (\<lambda>new_ctx.
         bindM (bind_sym new_ctx ''*FILENAME*'' (bl_mk_str found_path)) (\<lambda>_.
         bindM (bind_sym ctx name (returnM new_ctx)) (\<lambda>_. returnM new_ctx)))
     | _ \<Rightarrow> new_val BL_VAL_TYPE_ERROR (U_err (zero_err\<lparr>err_type := BL_ERR_CUSTOM,
         errmsg := Some (dlerror_text env ''bl_mod_init'')\<rparr>)))))"

definition import_source :: "runtime \<Rightarrow> ptr \<Rightarrow> string \<Rightarrow> string \<Rightarrow> ptr BL" where
  "import_source R ctx found_path name = bindM (bl_ctx_new ctx) (\<lambda>new_ctx.
     bindM (bind_sym new_ctx ''*FILENAME*'' (bl_mk_str found_path)) (\<lambda>_.
     bindM (with_source found_path (bl_eval_file R new_ctx)) (\<lambda>result. bindM (get_type result) (\<lambda>T.
       if T = BL_VAL_TYPE_ERROR then returnM result
       else bindM (bind_sym ctx name (returnM new_ctx)) (\<lambda>_. returnM new_ctx)))))"

definition import_path :: "runtime \<Rightarrow> ptr \<Rightarrow> ptr \<Rightarrow> ptr BL" where
  "import_path R ctx module_name =
     bindM (bindM (bl_mk_symbol ''*PATH*'') (bl_ctx_get R ctx)) (\<lambda>p0.
     bindM (bindM (bl_mk_symbol ''*FILENAME*'') (bl_ctx_get R ctx)) (\<lambda>f0.
     bindM (if p0 = NULL then bl_mk_str ''.'' else returnM p0) (\<lambda>cur_path.
     bindM (if f0 = NULL then bl_mk_str [] else returnM f0) (\<lambda>mod_filename.
     bindM (get_s_val mod_filename) (\<lambda>fname. bindM (module_dir fname) (\<lambda>mod_dirname.
     bindM (get_s_val module_name) (\<lambda>name. bindM (import_pattern mod_dirname cur_path name) (\<lambda>pattern.
     bindM (getsM (\<lambda>s. glob_paths (os s) pattern)) (\<lambda>paths.
       let found_path = first_file paths; fname = basename_of found_path in
       if found_path = [] then bl_err_modnotfound name
       else if CHR ''.'' \<notin> set fname then faultM Bad_pointer
       else if after_last (CHR ''.'') fname \<noteq> ''bl'' then import_dylib R ctx found_path name
       else import_source R ctx found_path name)))))))))"

text \<open>
  \<open>bl_oper_import\<close>: a name with \<open>::\<close> is looked up in the context of the module before the separator, by
  recursion when there are more than two parts.
\<close>

primrec import_loop :: "nat \<Rightarrow> runtime \<Rightarrow> ptr \<Rightarrow> ptr \<Rightarrow> ptr BL" where
  "import_loop 0 R ctx params = timeoutM"
| "import_loop (Suc n) R ctx params = bindM (bl_list_first params) (\<lambda>first.
     bindM (get_s_val first) (\<lambda>x.
       if strstr x ''::'' \<noteq> None
       then bindM (split_str x ''::'') (\<lambda>split. bindM (get_car split) (\<lambda>c0. bindM (get_s_val c0) (\<lambda>other_name.
            bindM (bl_mk_symbol other_name) (\<lambda>other_sym. bindM (bl_ctx_get R ctx other_sym) (\<lambda>other_ctx.
              if other_ctx = NULL then bl_err_modnotfound other_name
              else bindM (bl_list_len split) (\<lambda>len. bindM (get_cdr split) (\<lambda>tail.
                bindM (if len > 2
                  then bindM (join_str tail ''::'') (\<lambda>z. bindM (str_arg z) (\<lambda>kname.
                       bindM (bl_mk_symbol kname) (\<lambda>key. bindM (bl_mk_list [key]) (\<lambda>l.
                       bindM (import_loop n R other_ctx l) (\<lambda>new_ctx. returnM (kname, new_ctx))))))
                  else bindM (get_car tail) (\<lambda>c1. bindM (get_s_val c1) (\<lambda>kname.
                       bindM (bl_mk_symbol kname) (\<lambda>key. bindM (bl_ctx_get R other_ctx key) (\<lambda>new_ctx.
                       returnM (kname, new_ctx)))))) (\<lambda>(kname, new_ctx).
                if new_ctx = NULL then bl_err_modnotfound kname
                else bindM (bl_list_last split) (\<lambda>l. bindM (get_s_val l) (\<lambda>lname.
                     bindM (bind_sym ctx lname (returnM new_ctx)) (\<lambda>_. returnM new_ctx)))))))))))
       else bindM (get_type first) (\<lambda>T.
         if T = BL_VAL_TYPE_SYMBOL
         then bindM (bl_ctx_get R ctx first) (\<lambda>v. bindM (returnM (if v = NULL then first else v)) (\<lambda>module_name.
              bindM (get_type module_name) (\<lambda>U.
                if U = BL_VAL_TYPE_CTX then returnM module_name else import_path R ctx module_name)))
         else import_path R ctx first)))"

definition bl_oper_import :: "runtime \<Rightarrow> ptr \<Rightarrow> ptr \<Rightarrow> ptr BL" where
  "bl_oper_import R ctx params = import_loop (rt_fuel R) R ctx params"

text \<open>\<open>for(i = 0; i < other_ctx->vals_count; i++)\<close> copying every binding.\<close>

primrec using_all :: "nat \<Rightarrow> ptr \<Rightarrow> ptr \<Rightarrow> nat \<Rightarrow> unit BL" where
  "using_all 0 ctx other_ctx i = timeoutM"
| "using_all (Suc n) ctx other_ctx i = bindM (get_ctx other_ctx) (\<lambda>c.
     if i < vals_count c
     then bindM (ctx_slot c i) (\<lambda>v. bindM (if v = NULL then returnM ()
            else bindM (ctx_key c i) (\<lambda>k. bindM (bl_ctx_set ctx k v) (\<lambda>_. returnM ()))) (\<lambda>_.
          using_all n ctx other_ctx (Suc i)))
     else returnM ())"

definition bl_oper_using :: "runtime \<Rightarrow> ptr \<Rightarrow> ptr \<Rightarrow> ptr BL" where
  "bl_oper_using R ctx params = bindM (bl_list_first params) (\<lambda>sm. bindM (get_s_val sm) (\<lambda>x.
     bindM (split_str x ''::'') (\<lambda>split. bindM (bl_list_last split) (\<lambda>l. bindM (get_s_val l) (\<lambda>lname.
     bindM (bl_mk_symbol lname) (\<lambda>lastsym.
     bindM (bl_list_reverse split) (\<lambda>rev_split. bindM (bl_list_rest rev_split) (\<lambda>r.
     bindM (bl_list_reverse r) (\<lambda>all_but_last. bindM (join_str all_but_last ''::'') (\<lambda>z.
     bindM (str_arg z) (\<lambda>other_name. bindM (bl_mk_symbol other_name) (\<lambda>other_sym.
     bindM (bl_ctx_get R ctx other_sym) (\<lambda>other_ctx.
       if other_ctx = NULL then bindM (get_s_val other_sym) bl_err_modnotfound
       else bindM (get_s_val lastsym) (\<lambda>ln.
         if ln = ''*'' then bindM (using_all (rt_fuel R) ctx other_ctx 0) (\<lambda>_. bl_mk_null)
         else bindM (bl_ctx_get R other_ctx lastsym) (\<lambda>symval.
           if symval = NULL then bl_err_symnotfound ln
           else bindM (bl_ctx_set ctx lastsym symval) (\<lambda>_. returnM symval))))))))))))))))"

section \<open>Documentation\<close>

text \<open>The lines of a description, each indented by a tabulator.\<close>

definition doc_lines :: "string \<Rightarrow> string \<Rightarrow> string BL" where
  "doc_lines desc acc = bindM (split_str desc [LF]) (\<lambda>split_desc. (\<lambda>s.
     bindM (for_cdr (Suc (next_addr s)) (\<lambda>i retval. bindM (get_car i) (\<lambda>a. bindM (get_s_val a) (\<lambda>x.
         returnM (Inr (retval @ [TAB] @ x @ [LF]))))) split_desc acc)
       (\<lambda>r. case r of Inl x \<Rightarrow> returnM x | Inr x \<Rightarrow> returnM x) s))"

definition mod_member :: "runtime \<Rightarrow> ptr \<Rightarrow> string \<Rightarrow> ptr BL" where
  "mod_member R md name = bindM (bl_mk_symbol name) (bl_ctx_get R md)"

definition bl_genmod_doc :: "runtime \<Rightarrow> ptr \<Rightarrow> ptr \<Rightarrow> ptr \<Rightarrow> ptr BL" where
  "bl_genmod_doc R ctx sm md =
     bindM (mod_member R md ''*NAME*'') (\<lambda>n0. bindM (get_s_val (if n0 = NULL then sm else n0)) (\<lambda>name.
     bindM (mod_member R md ''*SUMMARY*'') (\<lambda>su.
     bindM (if su = NULL then returnM [] else bindM (get_s_val su) (\<lambda>x. returnM ('' - '' @ x))) (\<lambda>summary.
     bindM (mod_member R md ''*DESCRIPTION*'') (\<lambda>de.
     bindM (let r1 = ''NAME'' @ [LF, TAB] @ name @ summary @ [LF] in
            if de = NULL then returnM r1
            else bindM (get_s_val de) (\<lambda>x. bindM (doc_lines x (r1 @ [LF] @ ''DESCRIPTION'' @ [LF])) (\<lambda>r2.
                 returnM (r2 @ [LF])))) (\<lambda>r3.
     bindM (mod_member R md ''*EXAMPLE*'') (\<lambda>ex.
     bindM (if ex = NULL then returnM r3
            else bindM (get_s_val ex) (\<lambda>x. doc_lines x (r3 @ [LF] @ ''EXAMPLE'' @ [LF]))) bl_mk_str)))))))"

text \<open>
  \<open>bl_oper_doc\<close> and its loop over the members of a context, which calls the operator again for every
  member that is not a context.
\<close>

definition doc_text :: "runtime \<Rightarrow> ptr \<Rightarrow> ptr \<Rightarrow> ptr \<Rightarrow> ptr BL" where
  "doc_text R ctx first first_eval = bindM (get_type first_eval) (\<lambda>T.
     if T = BL_VAL_TYPE_FUNC_BL
     then bindM (get_type first) (\<lambda>F. bindM (get_func first_eval) (\<lambda>f.
          bindM (bl_list_prepend (bl_funcargs_ptr f) (if F = BL_VAL_TYPE_SYMBOL then first else func_sym f)) (\<lambda>l.
          bindM (bl_ser_sexp l) bl_mk_str)))
     else if T = BL_VAL_TYPE_CTX then bl_genmod_doc R ctx first first_eval
     else bindM (bl_ser_sexp first_eval) bl_mk_str)"

primrec doc_members :: "(ptr \<Rightarrow> ptr BL) \<Rightarrow> bl_ctx \<Rightarrow> nat list \<Rightarrow> string \<Rightarrow> string BL" where
  "doc_members doc c [] retval = returnM retval"
| "doc_members doc c (i # is) retval = bindM (ctx_slot c i) (\<lambda>v.
     if v = NULL then doc_members doc c is retval
     else bindM (ctx_key c i) (\<lambda>k. bindM (get_s_val k) (\<lambda>x.
       if x = ''DOC'' \<or> (x \<noteq> [] \<and> hd x = CHR ''*'') then doc_members doc c is retval
       else bindM (get_type v) (\<lambda>T.
         if T = BL_VAL_TYPE_CTX then doc_members doc c is retval
         else bindM (bl_mk_list [v]) (\<lambda>l. bindM (doc l) (\<lambda>d. bindM (get_s_val d) (\<lambda>y.
              doc_members doc c is (retval @ [LF, TAB] @ x @ [LF, TAB] @ y @ [LF]))))))))"

primrec doc_loop :: "nat \<Rightarrow> runtime \<Rightarrow> ptr \<Rightarrow> ptr \<Rightarrow> ptr BL" where
  "doc_loop 0 R ctx params = timeoutM"
| "doc_loop (Suc n) R ctx params = bindM (bl_list_first params) (\<lambda>first. bindM (rt_eval R ctx first) (\<lambda>v.
     bindM (get_type v) (\<lambda>V. bindM (if V = BL_VAL_TYPE_SYMBOL then bl_ctx_get R ctx v else returnM v) (\<lambda>first_eval.
       if first_eval = NULL then bindM (get_s_val first) bl_err_symnotfound
       else bindM (deref first_eval) (\<lambda>cell.
         if docstr cell \<noteq> NULL then bindM (get_s_val (docstr cell)) bl_mk_str
         else bindM (if val_type cell = BL_VAL_TYPE_CTX then mod_member R first_eval ''DOC'' else returnM NULL) (\<lambda>d.
           bindM (if d = NULL then doc_text R ctx first first_eval else returnM d) (\<lambda>dv.
           bindM (get_s_val dv) (\<lambda>text.
             if val_type cell = BL_VAL_TYPE_CTX
             then bindM (get_ctx first_eval) (\<lambda>c.
                  bindM (doc_members (doc_loop n R ctx) c [0..<vals_count c] (text @ [LF] @ ''MEMBERS'')) bl_mk_str)
             else bl_mk_str text))))))))"

definition bl_oper_doc :: "runtime \<Rightarrow> ptr \<Rightarrow> ptr \<Rightarrow> ptr BL" where
  "bl_oper_doc R ctx params = doc_loop (rt_fuel R) R ctx params"

declare import_loop.simps [simp del] using_all.simps [simp del] doc_loop.simps [simp del]

section \<open>Effects on the state\<close>

lemma with_source_safe [keeps_intros]:
  "(\<And>x. keeps safe_step (f x)) \<Longrightarrow> keeps safe_step (with_source name f)"
  unfolding with_source_def by (intro keeps_intros)

lemma str_arg_safe [keeps_intros]: "keeps safe_step (str_arg z)"
  by (rule same_safe [OF str_arg_same(1)])

lemma import_names_safe [keeps_intros]:
  "keeps safe_step (module_dir x)" "keeps safe_step (import_pattern d p x)"
proof -
  show "keeps safe_step (module_dir x)" unfolding module_dir_def by (intro keeps_intros)
  have "keeps safe_step (path_prefix p y)" for y
    unfolding path_prefix_def by (rule safe.keeps_run) (intro keeps_intros)
  then show "keeps safe_step (import_pattern d p x)" unfolding import_pattern_def by (intro keeps_intros)
qed

lemma doc_lines_safe [keeps_intros]: "keeps safe_step (doc_lines x y)"
  unfolding doc_lines_def by (rule safe.keeps_bind, intro keeps_intros, rule safe.keeps_run) (intro keeps_intros)

lemma using_all_safe [keeps_intros]: "keeps safe_step (using_all n c d i)"
proof (induction n arbitrary: i)
  case 0
  show ?case unfolding using_all.simps by (intro keeps_intros)
next
  case (Suc n)
  show ?case unfolding using_all.simps by (intro keeps_intros Suc)
qed

lemma doc_members_safe:
  assumes "\<And>l. keeps safe_step (doc l)"
  shows "keeps safe_step (doc_members doc c is x)"
  by (induction "is" arbitrary: x) (simp_all add: keeps_intros assms)

context safe_runtime
begin

lemma bl_eval_file_safe [keeps_intros]: "keeps safe_step (bl_eval_file R c x)"
  unfolding bl_eval_file_def by (intro keeps_intros)

lemma import_path_safe [keeps_intros]:
  "keeps safe_step (import_dylib R c x y)" "keeps safe_step (import_source R c x y)"
  "keeps safe_step (import_path R c m)"
proof -
  show dy: "keeps safe_step (import_dylib R c x y)" for x y
    unfolding import_dylib_def by (intro keeps_intros)
  show so: "keeps safe_step (import_source R c x y)" for x y
    unfolding import_source_def by (intro keeps_intros)
  show "keeps safe_step (import_path R c m)"
    unfolding import_path_def Let_def by (intro keeps_intros dy so)
qed

lemma import_loop_safe [keeps_intros]: "keeps safe_step (import_loop n R c p)"
proof (induction n arbitrary: c p)
  case 0
  show ?case unfolding import_loop.simps by (intro keeps_intros)
next
  case (Suc n)
  show ?case unfolding import_loop.simps by (intro keeps_intros Suc)
qed

lemma mod_member_safe [keeps_intros]: "keeps safe_step (mod_member R c x)"
  unfolding mod_member_def by (intro keeps_intros)

lemma doc_text_safe [keeps_intros]: "keeps safe_step (doc_text R c x y)"
  unfolding doc_text_def bl_genmod_doc_def Let_def by (intro keeps_intros)

lemma doc_loop_safe [keeps_intros]: "keeps safe_step (doc_loop n R c p)"
proof (induction n arbitrary: p)
  case 0
  show ?case unfolding doc_loop.simps by (intro keeps_intros)
next
  case (Suc n)
  show ?case unfolding doc_loop.simps by (intro keeps_intros doc_members_safe Suc)
qed

lemma import_safe [keeps_intros]:
  "keeps safe_step (bl_oper_include R c p)" "keeps safe_step (bl_oper_import R c p)"
  "keeps safe_step (bl_oper_using R c p)" "keeps safe_step (bl_oper_doc R c p)"
  unfolding bl_oper_include_def bl_oper_import_def bl_oper_using_def bl_oper_doc_def
  by (intro keeps_intros)+

end

section \<open>More fuel, same answer\<close>

lemma with_source_mono [mono_intros]:
  "(\<And>x. le_M (f x) (f' x)) \<Longrightarrow> le_M (with_source name f) (with_source name f')"
  unfolding with_source_def by (intro mono_intros)

lemma using_all_mono [mono_intros]: "n \<le> n' \<Longrightarrow> le_M (using_all n c d i) (using_all n' c d i)"
proof (induction n arbitrary: n' i)
  case 0
  show ?case unfolding using_all.simps by (rule le_M_timeout)
next
  case (Suc n)
  then obtain m where "n' = Suc m" "n \<le> m" by (cases n') auto
  then show ?case by (simp only: using_all.simps) (intro mono_intros Suc.IH)
qed

lemma doc_members_mono:
  assumes "\<And>l. le_M (doc l) (doc' l)"
  shows "le_M (doc_members doc c is x) (doc_members doc' c is x)"
proof (induction "is" arbitrary: x)
  case Nil
  show ?case unfolding doc_members.simps by (rule le_M_refl)
next
  case (Cons i "is")
  show ?case unfolding doc_members.simps by (intro mono_intros Cons assms)
qed

context mono_runtime
begin

lemma bl_eval_file_mono [mono_intros]: "le_M (bl_eval_file R c x) (bl_eval_file R' c x)"
  unfolding bl_eval_file_def by (intro mono_intros)

lemma import_path_mono [mono_intros]: "le_M (import_path R c m) (import_path R' c m)"
proof -
  have dy: "le_M (import_dylib R c x y) (import_dylib R' c x y)" for x y
    unfolding import_dylib_def init_same by (intro mono_intros)
  have so: "le_M (import_source R c x y) (import_source R' c x y)" for x y
    unfolding import_source_def by (intro mono_intros)
  show ?thesis unfolding import_path_def Let_def by (intro mono_intros dy so)
qed

lemma import_loop_mono: "n \<le> n' \<Longrightarrow> le_M (import_loop n R c p) (import_loop n' R' c p)"
proof (induction n arbitrary: n' c p)
  case 0
  show ?case unfolding import_loop.simps by (rule le_M_timeout)
next
  case (Suc n)
  then obtain m where "n' = Suc m" "n \<le> m" by (cases n') auto
  then show ?case by (simp only: import_loop.simps) (intro mono_intros Suc.IH)
qed

lemma mod_member_mono [mono_intros]: "le_M (mod_member R c x) (mod_member R' c x)"
  unfolding mod_member_def by (intro mono_intros)

lemma doc_text_mono [mono_intros]: "le_M (doc_text R c x y) (doc_text R' c x y)"
  unfolding doc_text_def bl_genmod_doc_def Let_def by (intro mono_intros)

lemma doc_loop_mono: "n \<le> n' \<Longrightarrow> le_M (doc_loop n R c p) (doc_loop n' R' c p)"
proof (induction n arbitrary: n' p)
  case 0
  show ?case unfolding doc_loop.simps by (rule le_M_timeout)
next
  case (Suc n)
  then obtain m where "n' = Suc m" "n \<le> m" by (cases n') auto
  then show ?case by (simp only: doc_loop.simps) (intro mono_intros doc_members_mono Suc.IH)
qed

lemma import_mono [mono_intros]:
  "le_M (bl_oper_include R c p) (bl_oper_include R' c p)" "le_M (bl_oper_import R c p) (bl_oper_import R' c p)"
  "le_M (bl_oper_using R c p) (bl_oper_using R' c p)" "le_M (bl_oper_doc R c p) (bl_oper_doc R' c p)"
  unfolding bl_oper_include_def bl_oper_import_def bl_oper_using_def bl_oper_doc_def
  by (intro mono_intros import_loop_mono doc_loop_mono)+

end

end
