(* ===== verification/BL_Modules.thy ===== *)
theory BL_Modules
  imports BL_Import
begin

text \<open>
  The extension modules written in C (\<^verbatim>\<open>stdlib/*/src/*.c\<close>): \<open>hello\<close>, \<open>error\<close>, \<open>os\<close>, \<open>stdio\<close>, \<open>xml\<close>, \<open>cffi\<close>,
  \<open>testmod\<close>, \<open>simpleweb\<close> and \<open>py27\<close>. Each has an initialisation function that builds the module's context and
  the operators it binds there. The C library, the foreign function library, Python and the web server
  are outside code: their results are members of \<open>os_iface\<close> and their calls are recorded.
\<close>

section \<open>C objects\<close>

definition new_c_obj :: "c_obj \<Rightarrow> nat BL" where
  "new_c_obj x = (\<lambda>s. Ret (Suc (length (c_objs s))) (s\<lparr>c_objs := c_objs s @ [x]\<rparr>))"

definition get_c_obj :: "nat \<Rightarrow> c_obj BL" where
  "get_c_obj k = (\<lambda>s. if 0 < k \<and> k \<le> length (c_objs s) then Ret (c_objs s ! (k - 1)) s else Fault Bad_pointer)"

definition put_c_obj :: "nat \<Rightarrow> c_obj \<Rightarrow> unit BL" where
  "put_c_obj k x = modifyM (\<lambda>s. s\<lparr>c_objs := (c_objs s)[k - 1 := x]\<rparr>)"

definition record_call :: "ext_call \<Rightarrow> unit BL" where
  "record_call x = modifyM (\<lambda>s. s\<lparr>ext_calls := ext_calls s @ [x]\<rparr>)"

text \<open>Static objects are made once: \<open>find_c_obj\<close> gives the one that is there, or adds it.\<close>

fun c_obj_index :: "(c_obj \<Rightarrow> bool) \<Rightarrow> c_obj list \<Rightarrow> nat option" where
  "c_obj_index P [] = None"
| "c_obj_index P (x # xs) = (if P x then Some 0 else map_option Suc (c_obj_index P xs))"

definition static_c_obj :: "(c_obj \<Rightarrow> bool) \<Rightarrow> c_obj \<Rightarrow> nat BL" where
  "static_c_obj P x = bindM (getsM c_objs) (\<lambda>xs. case c_obj_index P xs of
      Some i \<Rightarrow> returnM (Suc i) | None \<Rightarrow> new_c_obj x)"

definition bind_doc_native :: "ptr \<Rightarrow> string \<Rightarrow> native \<Rightarrow> ptr BL \<Rightarrow> unit BL" where
  "bind_doc_native my_ctx name nt mk_doc = bindM (bl_mk_native_oper nt) (\<lambda>oper. bindM mk_doc (\<lambda>d.
     bindM (update oper (\<lambda>c. c\<lparr>docstr := d\<rparr>)) (\<lambda>_. bind_sym my_ctx name (returnM oper))))"

section \<open>hello\<close>

definition hello_bearlang :: "runtime \<Rightarrow> ptr \<Rightarrow> ptr \<Rightarrow> ptr BL" where
  "hello_bearlang R ctx params = bindM (print_out (''Hello from an external C module!'' @ [LF])) (\<lambda>_.
     bl_mk_str ''This is the return value!'')"

definition hello_mod_init :: "ptr \<Rightarrow> ptr BL" where
  "hello_mod_init ctx = bindM (bl_ctx_new ctx) (\<lambda>my_ctx.
     bindM (bind_all my_ctx
       [(''*NAME*'', bl_mk_str ''hello''), (''*SUMMARY*'', bl_mk_str ''Example C code module''),
        (''*DESCRIPTION*'', bl_mk_str ''This module is provided as an example and template of how to implement a BearLang module in C''),
        (''*EXAMPLE*'', bl_mk_str (''  (import hello)'' @ [LF] @ ''  (hello::hello)'' @ [LF]))]) (\<lambda>_.
     bindM (bind_doc_native my_ctx ''hello'' (N_module ''hello_bearlang'')
       (bl_mk_str ([LF, TAB] @ ''(hello)'' @ [LF, TAB, TAB] @
          ''An example C function with no parameters, says hello and returns a string'' @ [LF]))) (\<lambda>_.
     returnM my_ctx)))"

section \<open>error\<close>

definition bl_getsym :: "runtime \<Rightarrow> ptr \<Rightarrow> ptr \<Rightarrow> ptr BL" where
  "bl_getsym R ctx params = bindM (rt_eval R ctx params) (\<lambda>ps.
     bindM (get_err ps) (\<lambda>e. bl_mk_str_opt (symbol_name e)))"

definition error_mod_init :: "ptr \<Rightarrow> ptr BL" where
  "error_mod_init ctx = bindM (bl_ctx_new ctx) (\<lambda>my_ctx.
     bindM (bind_all my_ctx
       [(''*NAME*'', bl_mk_str ''error''), (''*SUMMARY*'', bl_mk_str ''Tools for handling errors''),
        (''*DESCRIPTION*'', bl_mk_str ''This module provides tools for handling error types that are not already part of the builtin operators'')]) (\<lambda>_.
     bindM (bind_doc_native my_ctx ''getsym'' (N_module ''bl_getsym'')
       (bl_mk_str ([LF, TAB] @ ''(getsym error)'' @ [LF, TAB, TAB] @
          ''Returns the symbol referenced by the provided error/exception instance'' @ [LF]))) (\<lambda>_.
     returnM my_ctx)))"

section \<open>os\<close>

text \<open>The exit status is the member \<open>fix_int\<close> of the number, which no operation ever sets.\<close>

definition bl_exit :: "runtime \<Rightarrow> ptr \<Rightarrow> ptr \<Rightarrow> ptr BL" where
  "bl_exit R ctx params = bindM (bl_eval_cons R ctx params) (\<lambda>ps. bindM (bl_list_len ps) (\<lambda>n.
     bindM (if n = 1 then bindM (bl_list_first ps) get_fix_int else returnM 0) exitM))"

definition os_mod_init :: "ptr \<Rightarrow> ptr BL" where
  "os_mod_init ctx = bindM (bl_ctx_new ctx) (\<lambda>my_ctx.
     bindM (bind_doc_native my_ctx ''exit'' (N_module ''bl_exit'')
       (bl_mk_docstr (''(exit retval)'' @ [LF, TAB, TAB] @
          ''exits to OS, if retval param is not provided then it is set to 0'' @ [LF]))) (\<lambda>_.
     bindM (bind_all my_ctx
       [(''*NAME*'', bl_mk_str ''os''), (''*SUMMARY*'', bl_mk_str ''Operating system interaction''),
        (''*DESCRIPTION*'', bl_mk_str (''The os module contains basic functions for interacting with the operating system.'' @ [LF]))]) (\<lambda>_.
     returnM my_ctx)))"

section \<open>stdio\<close>

text \<open>
  The preallocated errors never change, so each use gets a value with their contents. The error numbers
  are those of Linux: EBADF 9, EACCES 13, EINVAL 22, EROFS 30, EPIPE 32.
\<close>

definition mode_error :: bl_err_t where
  "mode_error = zero_err\<lparr>err_type := BL_ERR_CUSTOM, errmsg := Some ''Invalid I/O mode'', errnum := 22\<rparr>"
definition perm_error :: bl_err_t where
  "perm_error = zero_err\<lparr>err_type := BL_ERR_CUSTOM, errmsg := Some ''Access denied'', errnum := 13\<rparr>"
definition generic_error :: bl_err_t where
  "generic_error = zero_err\<lparr>err_type := BL_ERR_IO\<rparr>"
definition bad_fd_error :: bl_err_t where
  "bad_fd_error = zero_err\<lparr>err_type := BL_ERR_CUSTOM, errmsg := Some ''Invalid file descriptor'', errnum := 9\<rparr>"
definition eof_error :: bl_err_t where
  "eof_error = zero_err\<lparr>err_type := BL_ERR_CUSTOM, errmsg := Some ''File is closed'', errnum := 32\<rparr>"

definition static_error :: "bl_err_t \<Rightarrow> ptr BL" where
  "static_error e = new_val BL_VAL_TYPE_ERROR (U_err e)"

definition open_stream :: "stream_kind \<Rightarrow> string \<Rightarrow> stream" where
  "open_stream k text = \<lparr>st_kind = k, st_in = text, st_out = [], st_eof = False, st_open = True\<rparr>"

text \<open>A \<open>FILE*\<close> that was closed, or is no stream, may not be used.\<close>

definition get_stream :: "nat \<Rightarrow> stream BL" where
  "get_stream k = bindM (get_c_obj k) (\<lambda>x. case x of
      C_stream st \<Rightarrow> if st_open st then returnM st else faultM Bad_pointer
    | _ \<Rightarrow> faultM Bad_pointer)"

definition writable :: "stream_kind \<Rightarrow> bool" where
  "writable k = (case k of Std_in \<Rightarrow> False | Std_out \<Rightarrow> True | Std_err \<Rightarrow> True
     | Disk name mode \<Rightarrow> \<exists>c \<in> set mode. c \<in> set ''wa+'')"

text \<open>\<open>fputc\<close> and \<open>fprintf\<close> on a stream; False is EOF.\<close>

definition stream_put :: "nat \<Rightarrow> string \<Rightarrow> bool BL" where
  "stream_put k x = bindM (get_stream k) (\<lambda>st.
     if \<not> writable (st_kind st) then returnM False
     else bindM (put_c_obj k (C_stream (st\<lparr>st_out := st_out st @ x\<rparr>))) (\<lambda>_.
          bindM (case st_kind st of Std_out \<Rightarrow> print_out x | Std_err \<Rightarrow> print_err x | _ \<Rightarrow> returnM ()) (\<lambda>_.
          returnM True)))"

definition bl_fopen :: "runtime \<Rightarrow> ptr \<Rightarrow> ptr \<Rightarrow> ptr BL" where
  "bl_fopen R ctx params = bindM (bl_eval_cons R ctx params) (\<lambda>ps.
     unless_error (bl_errif_invalid_fixed_args ps [BL_VAL_TYPE_STRING, BL_VAL_TYPE_STRING])
       (bindM (bl_list_first ps) (\<lambda>f. bindM (bl_list_second ps) (\<lambda>m. bindM (get_s_val f) (\<lambda>filename.
        bindM (get_s_val m) (\<lambda>mode. bindM (getsM (\<lambda>s. fopen_result (os s) filename mode)) (\<lambda>r. case r of
            Inl en \<Rightarrow> static_error (if en = 22 then mode_error
                else if en = 13 \<or> en = 30 then perm_error else generic_error)
          | Inr text \<Rightarrow> bindM (new_c_obj (C_stream (open_stream (Disk filename mode) text))) bl_mk_ptr)))))))"

definition bl_fclose :: "runtime \<Rightarrow> ptr \<Rightarrow> ptr \<Rightarrow> ptr BL" where
  "bl_fclose R ctx params = bindM (bl_eval_cons R ctx params) (\<lambda>ps.
     unless_error (bl_errif_invalid_firstarg ps BL_VAL_TYPE_CPTR)
       (bindM (bl_list_first ps) (\<lambda>bl_fd. bindM (get_cptr bl_fd) (\<lambda>fd. bindM (get_stream fd) (\<lambda>st.
        bindM (put_c_obj fd (C_stream (st\<lparr>st_open := False\<rparr>))) (\<lambda>_.
        bindM (getsM (\<lambda>s. fclose_errno (os s) fd)) (\<lambda>en.
          if en = 0 then bl_mk_null
          else static_error (if en = 9 then bad_fd_error else generic_error))))))))"

text \<open>
  \<open>bl_hexdump\<close>: a number prints its \<open>fix_int\<close>. For other values the function overwrites the text it reads
  while formatting it and returns a buffer that it never filled.
\<close>

definition bl_hexdump :: "ptr \<Rightarrow> string BL" where
  "bl_hexdump V = bindM (get_type V) (\<lambda>T.
     if T = BL_VAL_TYPE_NUMBER then bindM (get_fix_int V) (\<lambda>i. returnM (''0x'' @ nat_digits (nat i)))
     else bindM (bl_ser_naked_sexp V) (\<lambda>buf. faultM Bad_index))"

definition put_or :: "nat \<Rightarrow> string \<Rightarrow> ptr BL \<Rightarrow> ptr BL" where
  "put_or fd x rest = bindM (stream_put fd x) (\<lambda>ok. if ok then rest else static_error generic_error)"

primrec fprintf_loop :: "nat \<Rightarrow> string \<Rightarrow> bool \<Rightarrow> ptr \<Rightarrow> ptr BL" where
  "fprintf_loop fd [] format_sym var_iter = bl_mk_null"
| "fprintf_loop fd (c # cs) format_sym var_iter =
     (if c = CHR ''%''
      then (if format_sym then put_or fd ''%'' (fprintf_loop fd cs False var_iter)
            else fprintf_loop fd cs True var_iter)
      else if c = CHR ''s'' \<and> format_sym
      then bindM (bl_list_first var_iter) (\<lambda>v. bindM (bl_ser_naked_sexp v) (\<lambda>buf.
           put_or fd (if buf = [] then ''(null)'' else buf)
             (bindM (bl_list_rest var_iter) (\<lambda>w. fprintf_loop fd cs False w))))
      else if c = CHR ''x'' \<and> format_sym
      then bindM (bl_list_first var_iter) (\<lambda>v. bindM (bl_hexdump v) (\<lambda>buf.
           put_or fd buf (bindM (bl_list_rest var_iter) (\<lambda>w. fprintf_loop fd cs False w))))
      else put_or fd [c] (fprintf_loop fd cs format_sym var_iter))"

definition bl_fprintf :: "runtime \<Rightarrow> ptr \<Rightarrow> ptr \<Rightarrow> ptr BL" where
  "bl_fprintf R ctx params = bindM (bl_eval_cons R ctx params) (\<lambda>ps.
     unless_error (bl_errif_invalid_firstarg ps BL_VAL_TYPE_CPTR)
       (bindM (get_cdr ps) (\<lambda>rest. unless_error (bl_errif_invalid_firstarg rest BL_VAL_TYPE_STRING)
         (bindM (bl_list_first ps) (\<lambda>bl_fd. bindM (bl_list_second ps) (\<lambda>format_str.
          bindM (bl_list_rest ps) (\<lambda>r1. bindM (bl_list_rest r1) (\<lambda>vars.
          bindM (get_cptr bl_fd) (\<lambda>fd. bindM (get_s_val format_str) (\<lambda>x.
          bindM (getsM uninit_bool) (\<lambda>format_sym. fprintf_loop fd x format_sym vars))))))))))) "

text \<open>
  \<open>fgets(buf, maxlen, fd)\<close>: up to \<open>maxlen - 1\<close> characters, ending after a newline; NULL when there is
  nothing to read or no room.
\<close>

fun fgets_len :: "nat \<Rightarrow> string \<Rightarrow> nat" where
  "fgets_len n [] = 0"
| "fgets_len 0 (c # cs) = 0"
| "fgets_len (Suc n) (c # cs) = (if c = LF then 1 else Suc (fgets_len n cs))"

definition stream_gets :: "nat \<Rightarrow> int \<Rightarrow> string option BL" where
  "stream_gets fd maxlen = bindM (get_stream fd) (\<lambda>st.
     if maxlen \<le> 0 then returnM None
     else if st_in st = [] \<and> maxlen > 1
     then bindM (put_c_obj fd (C_stream (st\<lparr>st_eof := True\<rparr>))) (\<lambda>_. returnM None)
     else let n = fgets_len (nat maxlen - 1) (st_in st) in
       bindM (put_c_obj fd (C_stream (st\<lparr>st_in := drop n (st_in st),
         st_eof := (n = length (st_in st) \<and> n < nat maxlen - 1 \<and> (n = 0 \<or> st_in st ! (n - 1) \<noteq> LF))\<rparr>))) (\<lambda>_.
       returnM (Some (take n (st_in st)))))"

definition bl_fgets :: "runtime \<Rightarrow> ptr \<Rightarrow> ptr \<Rightarrow> ptr BL" where
  "bl_fgets R ctx params = bindM (rt_eval R ctx params) (\<lambda>ps.
     unless_error (bl_errif_invalid_fixed_args ps [BL_VAL_TYPE_CPTR, BL_VAL_TYPE_NUMBER])
       (bindM (bl_list_first ps) (\<lambda>bl_fd. bindM (bl_list_second ps) (\<lambda>bl_maxlen.
        bindM (get_cptr bl_fd) (\<lambda>fd. bindM (get_fix_int bl_maxlen) (\<lambda>maxlen. bindM (get_stream fd) (\<lambda>st.
          if st_eof st then static_error eof_error
          else bindM (stream_gets fd maxlen) (\<lambda>z. case z of
              None \<Rightarrow> static_error generic_error | Some x \<Rightarrow> bl_mk_str x))))))))"

text \<open>\<open>readline\<close> prints the prompt and returns the next line that the user types, if any.\<close>

definition readline :: "string \<Rightarrow> string option BL" where
  "readline prompt = bindM (print_out prompt) (\<lambda>_. (\<lambda>s. case input_lines s of
      [] \<Rightarrow> Ret None s | x # xs \<Rightarrow> Ret (Some x) (s\<lparr>input_lines := xs\<rparr>)))"

definition bl_readline :: "runtime \<Rightarrow> ptr \<Rightarrow> ptr \<Rightarrow> ptr BL" where
  "bl_readline R ctx params = bindM (bl_list_len params) (\<lambda>n.
     bindM (if n > 0 then bindM (bl_list_first params) bl_ser_naked_sexp else returnM []) (\<lambda>prompt.
     bindM (readline prompt) (\<lambda>z. case z of None \<Rightarrow> static_error generic_error | Some x \<Rightarrow> bl_mk_str x)))"

definition bl_popen :: "runtime \<Rightarrow> ptr \<Rightarrow> ptr \<Rightarrow> ptr BL" where
  "bl_popen R ctx params = bindM (rt_eval R ctx params) (\<lambda>ps. bindM (bl_list_first ps) (\<lambda>first.
     bindM (bl_list_second ps) (\<lambda>second. bindM (get_s_val first) (\<lambda>cmd. bindM (get_s_val second) (\<lambda>mode.
     bindM (getsM (\<lambda>s. popen_result (os s) cmd mode)) (\<lambda>r. case r of
         None \<Rightarrow> bl_mk_ptr 0
       | Some text \<Rightarrow> bindM (new_c_obj (C_stream (open_stream (Disk cmd mode) text))) bl_mk_ptr))))))"

definition bl_pclose :: "runtime \<Rightarrow> ptr \<Rightarrow> ptr \<Rightarrow> ptr BL" where
  "bl_pclose R ctx params = bindM (rt_eval R ctx params) (\<lambda>ps. bindM (bl_list_first ps) (\<lambda>first.
     bindM (get_cptr first) (\<lambda>fd. bindM (get_stream fd) (\<lambda>st.
     bindM (put_c_obj fd (C_stream (st\<lparr>st_open := False\<rparr>))) (\<lambda>_.
     bindM (record_call (Call_pclose fd)) (\<lambda>_. bl_mk_null))))))"

definition is_std :: "stream_kind \<Rightarrow> c_obj \<Rightarrow> bool" where
  "is_std k x = (case x of C_stream st \<Rightarrow> st_kind st = k | _ \<Rightarrow> False)"

definition std_ptr :: "ptr \<Rightarrow> string \<Rightarrow> stream_kind \<Rightarrow> string \<Rightarrow> unit BL" where
  "std_ptr my_ctx name k doc = bindM (static_c_obj (is_std k) (C_stream (open_stream k []))) (\<lambda>fd.
     bindM (bl_mk_ptr fd) (\<lambda>p. bindM (bl_mk_docstr doc) (\<lambda>d.
     bindM (update p (\<lambda>c. c\<lparr>docstr := d\<rparr>)) (\<lambda>_. bind_sym my_ctx name (returnM p)))))"

definition stdio_func :: "ptr \<Rightarrow> string \<Rightarrow> string \<Rightarrow> unit BL" where
  "stdio_func my_ctx func_name func_doc =
     bind_doc_native my_ctx func_name (N_module (''bl_'' @ func_name)) (bl_mk_docstr func_doc)"

definition stdio_mod_init :: "ptr \<Rightarrow> ptr BL" where
  "stdio_mod_init ctx = bindM (bl_ctx_new ctx) (\<lambda>my_ctx.
     bindM (stdio_func my_ctx ''fopen'' (''(fopen filename mode)'' @ [LF, TAB, TAB] @ '' Opens a file and returns a handle'')) (\<lambda>_.
     bindM (stdio_func my_ctx ''fclose'' (''(fclose handle)'' @ [LF, TAB, TAB] @ '' Closes the file'')) (\<lambda>_.
     bindM (stdio_func my_ctx ''fprintf'' (''(fprintf FD format-string ...)'' @ [LF, TAB, TAB] @
        '' format-string accepts the following format characters:'' @ [LF, TAB, TAB] @
        ''    %s string (or a string representation of the value)'' @ [LF, TAB, TAB] @
        ''    %x converts to hex representation, always has a leading 0x'' @ [LF, TAB, TAB] @
        ''    %% literal % character'' @ [LF, TAB, TAB] @
        '' any other format characters will be ignored'' @ [LF, TAB, TAB] @
        '' if not enough arguments are provided, (null) or 0x00 will be printed in place of the format character'' @ [LF])) (\<lambda>_.
     bindM (stdio_func my_ctx ''fgets'' (''(fgets FD maxlen)'' @ [LF, TAB, TAB] @
        '' Reads a string up to maxlen from the specified file descriptor'')) (\<lambda>_.
     bindM (stdio_func my_ctx ''readline'' (''(readline prompt)'' @ [LF, TAB, TAB] @
        '' Wrapper around the readline library, displays a prompt on stdout and reads a string from the user'')) (\<lambda>_.
     bindM (stdio_func my_ctx ''popen'' (''(popen command mode)'' @ [LF, TAB, TAB] @
        '' Wrapper around popen(3), on success returns a file descriptor'')) (\<lambda>_.
     bindM (stdio_func my_ctx ''pclose'' (''(pclose stream)'' @ [LF, TAB, TAB] @
        '' Closes a stream opened by popen'')) (\<lambda>_.
     bindM (std_ptr my_ctx ''STDIN'' Std_in ''stdin file descriptor'') (\<lambda>_.
     bindM (std_ptr my_ctx ''STDOUT'' Std_out ''stdout file descriptor'') (\<lambda>_.
     bindM (std_ptr my_ctx ''STDERR'' Std_err ''stderr file descriptor'') (\<lambda>_.
     bindM (bind_all my_ctx
       [(''*NAME*'', bl_mk_str ''stdio''), (''*SUMMARY*'', bl_mk_str ''POSIX I/O''),
        (''*DESCRIPTION*'', bl_mk_str ''This module provides an interface to the standard POSIX file I/O functions'')]) (\<lambda>_.
     returnM my_ctx))))))))))))"

section \<open>Effects on the state\<close>

text \<open>Operations on C objects, the call record and the input leave the values alone.\<close>

lemma frame_safe:
  assumes "\<And>s x t. m s = Ret x t \<Longrightarrow> heap t = heap s \<and> next_addr t = next_addr s
      \<and> symbol_table t = symbol_table s \<and> last_sym_id t = last_sym_id s"
  shows "keeps safe_step m"
proof (rule keepsI)
  fix s x t
  assume "m s = Ret x t"
  from assms [OF this] have "wf_store t = wf_store s" "evolves s t" using wf_store_frame by blast+
  then show "safe_step s t" by (simp add: safe_step_def)
qed

lemma c_obj_safe [keeps_intros]:
  "keeps safe_step (new_c_obj x)" "keeps safe_step (get_c_obj k)" "keeps safe_step (put_c_obj k x)"
  "keeps safe_step (record_call y)" "keeps safe_step (readline p)"
  by (rule frame_safe; auto simp: new_c_obj_def get_c_obj_def put_c_obj_def record_call_def readline_def
        print_out_def split: if_splits list.splits)+

lemma static_c_obj_safe [keeps_intros]: "keeps safe_step (static_c_obj P x)"
  unfolding static_c_obj_def by (intro keeps_intros)

lemma bind_doc_native_safe [keeps_intros]:
  "keeps safe_step mk \<Longrightarrow> keeps safe_step (bind_doc_native c x nt mk)"
  unfolding bind_doc_native_def by (intro keeps_intros update_meta_safe) simp_all

lemma bind_list_safe [keeps_intros]:
  "keeps safe_step (bind_all c [])"
  "keeps safe_step mk \<Longrightarrow> keeps safe_step (bind_all c bs) \<Longrightarrow> keeps safe_step (bind_all c ((x, mk) # bs))"
  by (simp_all add: keeps_intros)

lemma stream_safe [keeps_intros]:
  "keeps safe_step (static_error e)" "keeps safe_step (get_stream k)" "keeps safe_step (stream_put k x)"
  "keeps safe_step (stream_gets k n)" "keeps safe_step (bl_hexdump v)"
proof -
  show "keeps safe_step (static_error e)" unfolding static_error_def by (intro keeps_intros)
  show gs: "keeps safe_step (get_stream k)"
    unfolding get_stream_def by (intro keeps_intros) (simp add: keeps_intros split: c_obj.split)
  show "keeps safe_step (stream_put k x)"
    unfolding stream_put_def by (intro keeps_intros gs) (simp add: keeps_intros split: stream_kind.split)
  show "keeps safe_step (stream_gets k n)" unfolding stream_gets_def Let_def by (intro keeps_intros gs)
  show "keeps safe_step (bl_hexdump v)" unfolding bl_hexdump_def by (intro keeps_intros)
qed

lemma put_or_safe [keeps_intros]: "keeps safe_step rest \<Longrightarrow> keeps safe_step (put_or k x rest)"
  unfolding put_or_def by (intro keeps_intros)

lemma fprintf_loop_safe [keeps_intros]: "keeps safe_step (fprintf_loop k x b v)"
  by (induction x arbitrary: b v) (simp_all add: keeps_intros)

lemma stdio_init_safe [keeps_intros]:
  "keeps safe_step (std_ptr c x k d)" "keeps safe_step (stdio_func c x d)"
  unfolding std_ptr_def stdio_func_def by (intro keeps_intros update_meta_safe; simp)+

lemma basic_mod_init_safe [keeps_intros]:
  "keeps safe_step (hello_mod_init c)" "keeps safe_step (error_mod_init c)" "keeps safe_step (os_mod_init c)"
  "keeps safe_step (stdio_mod_init c)"
  unfolding hello_mod_init_def error_mod_init_def os_mod_init_def stdio_mod_init_def
  by (intro bind_list_safe keeps_intros)+

lemmas basic_module_defs = hello_bearlang_def bl_getsym_def bl_exit_def bl_fopen_def bl_fclose_def
  bl_fprintf_def bl_fgets_def bl_readline_def bl_popen_def bl_pclose_def

context safe_runtime
begin

lemma basic_modules_safe [keeps_intros]:
  "keeps safe_step (hello_bearlang R c p)" "keeps safe_step (bl_getsym R c p)" "keeps safe_step (bl_exit R c p)"
  "keeps safe_step (bl_fopen R c p)" "keeps safe_step (bl_fclose R c p)" "keeps safe_step (bl_fprintf R c p)"
  "keeps safe_step (bl_fgets R c p)" "keeps safe_step (bl_readline R c p)" "keeps safe_step (bl_popen R c p)"
  "keeps safe_step (bl_pclose R c p)"
  unfolding basic_module_defs by (intro keeps_intros)+

end

section \<open>More fuel, same answer\<close>

context mono_runtime
begin

lemma basic_modules_mono [mono_intros]:
  "le_M (hello_bearlang R c p) (hello_bearlang R' c p)" "le_M (bl_getsym R c p) (bl_getsym R' c p)"
  "le_M (bl_exit R c p) (bl_exit R' c p)" "le_M (bl_fopen R c p) (bl_fopen R' c p)"
  "le_M (bl_fclose R c p) (bl_fclose R' c p)" "le_M (bl_fprintf R c p) (bl_fprintf R' c p)"
  "le_M (bl_fgets R c p) (bl_fgets R' c p)" "le_M (bl_readline R c p) (bl_readline R' c p)"
  "le_M (bl_popen R c p) (bl_popen R' c p)" "le_M (bl_pclose R c p) (bl_pclose R' c p)"
  unfolding basic_module_defs by (intro mono_intros)+

end

end
