(* ===== verification/BL_Foreign.thy ===== *)
theory BL_Foreign
  imports BL_Modules
begin

text \<open>
  The remaining extension modules: \<open>xml\<close> (\<^verbatim>\<open>stdlib/xml\<close>), \<open>testmod\<close>, the foreign function interface
  \<open>cffi\<close>, the web server \<open>simpleweb\<close> and the Python bridge \<open>py27\<close>; and the tables that connect the names of
  modules, operators and lookup functions with their definitions.
\<close>

section \<open>xml\<close>

definition naked_str :: "runtime \<Rightarrow> ptr \<Rightarrow> ptr \<Rightarrow> ptr BL" where
  "naked_str R ctx e = bindM (rt_eval R ctx e) (\<lambda>v. bindM (bl_ser_naked_sexp v) bl_mk_str)"

text \<open>One parameter of a tag: \<open>(@ name value)\<close> is an attribute, everything else is content.\<close>

definition xml_param :: "runtime \<Rightarrow> ptr \<Rightarrow> ptr \<Rightarrow> ptr \<times> ptr \<Rightarrow> (ptr + ptr \<times> ptr) BL" where
  "xml_param R ctx i acc = (case acc of (ret_list, attr_list) \<Rightarrow>
     bindM (get_car i) (\<lambda>e. bindM (get_type e) (\<lambda>T.
     bindM (if T = BL_VAL_TYPE_CONS
            then bindM (get_car e) (\<lambda>h. bindM (get_type h) (\<lambda>H.
              if H = BL_VAL_TYPE_SYMBOL then bindM (get_s_val h) (\<lambda>x. returnM (x = ''@'')) else returnM False))
            else returnM False) (\<lambda>is_attr.
       if is_attr
       then bindM (get_cdr e) (\<lambda>d. bindM (rt_eval R ctx d) (\<lambda>v. bindM (bl_list_append attr_list v) (\<lambda>q.
            returnM (Inr (ret_list, q)))))
       else bindM (naked_str R ctx e) (\<lambda>v. bindM (bl_list_append ret_list v) (\<lambda>q.
            returnM (Inr (q, attr_list))))))))"

definition xml_attrs :: "ptr \<Rightarrow> string \<Rightarrow> string BL" where
  "xml_attrs L text = (\<lambda>s. bindM (for_cdr (Suc (next_addr s)) (\<lambda>i retval.
       bindM (get_car i) (\<lambda>a. bindM (get_car a) (\<lambda>k. bindM (get_s_val k) (\<lambda>kx.
       bindM (get_cdr a) (\<lambda>d. bindM (get_car d) (\<lambda>v. bindM (get_s_val v) (\<lambda>vx.
         returnM (Inr (retval @ '' '' @ kx @ ''='' @ [DQ] @ vx @ [DQ]))))))))) L text)
     (\<lambda>r. case r of Inl x \<Rightarrow> returnM x | Inr x \<Rightarrow> returnM x) s)"

definition xml_contents :: "ptr \<Rightarrow> string \<Rightarrow> string BL" where
  "xml_contents L text = (\<lambda>s. bindM (for_cdr (Suc (next_addr s)) (\<lambda>i retval.
       bindM (get_car i) (\<lambda>a. bindM (get_s_val a) (\<lambda>x. returnM (Inr (retval @ x))))) L text)
     (\<lambda>r. case r of Inl x \<Rightarrow> returnM x | Inr x \<Rightarrow> returnM x) s)"

definition xml_render :: "string \<Rightarrow> ptr \<Rightarrow> ptr \<Rightarrow> string BL" where
  "xml_render tag ret_list attr_list =
     bindM (if attr_list = NULL
            then returnM (''<'' @ tag @ (if ret_list = NULL then ''/>'' else ''>''))
            else bindM (xml_attrs attr_list (''<'' @ tag)) (\<lambda>x. returnM (x @ ''>''))) (\<lambda>head.
     if ret_list = NULL then returnM head
     else bindM (xml_contents ret_list head) (\<lambda>x. returnM (x @ ''</'' @ tag @ ''>'')))"

definition xml_gen_oper :: "runtime \<Rightarrow> ptr \<Rightarrow> ptr \<Rightarrow> ptr BL" where
  "xml_gen_oper R ctx params = bindM (deref params) (\<lambda>cell. bindM (get_s_val (invoked_sym cell)) (\<lambda>sx.
     if CHR '':'' \<notin> set sx then faultM Bad_pointer
     else let tag = after_last (CHR '':'') sx in
       bindM (bl_mk_str tag) (\<lambda>tag_name. bindM (bl_list_len params) (\<lambda>n.
         if n = 0 then bl_mk_str (''<'' @ tag @ ''/>'')
         else bindM (for_cdr (rt_fuel R) (xml_param R ctx) params (NULL, NULL)) (\<lambda>r. case r of
             Inl v \<Rightarrow> returnM v
           | Inr (ret_list, attr_list) \<Rightarrow> bindM (xml_render tag ret_list attr_list) bl_mk_str)))))"

definition x_get :: "ptr \<Rightarrow> ptr \<Rightarrow> ptr BL" where
  "x_get ctx sm = bl_mk_native_oper (N_module ''xml_gen_oper'')"

definition xml_escape :: "runtime \<Rightarrow> ptr \<Rightarrow> ptr \<Rightarrow> ptr BL" where
  "xml_escape R ctx params = bindM (rt_eval R ctx params) (\<lambda>ps. bindM (bl_list_first ps) (\<lambda>s0.
     bindM (get_s_val s0) (\<lambda>x. bindM (str_replace x ''<'' ''&lt;'') (\<lambda>y. bindM (str_arg y) (\<lambda>y1.
     bindM (str_replace y1 ''>'' ''&gt;'') bl_mk_str_opt)))))"

definition xml_example :: string where
  "xml_example = ''(import xml)'' @ [LF] @ ''(using xml::x)'' @ [LF] @ ''(x::html '' @ [LF] @
     ''     (x::head (x::title '' @ [DQ] @ ''An example'' @ [DQ] @ ''))'' @ [LF] @
     ''     (x::body'' @ [LF] @
     ''         (x::h1 (@ '' @ [CHR 0x27] @ ''id '' @ [DQ] @ ''greeting'' @ [DQ] @ '') '' @ [DQ] @ ''Hi there!'' @ [DQ] @ '')'' @ [LF] @
     ''         (x::p '' @ [DQ] @ ''This is an example.'' @ [DQ] @ ''))'' @ [LF] @ [LF] @
     '' <html>'' @ [LF] @ ''    <head><title>An example</title></head>'' @ [LF] @ ''    <body>'' @ [LF] @
     ''       <h1 id='' @ [DQ] @ ''greeting'' @ [DQ] @ ''>Hi there!</h1>'' @ [LF] @
     ''       <p>This is an example.</p>'' @ [LF] @ ''    </body>'' @ [LF] @ '' </html>'' @ [LF]"

definition xml_mod_init :: "ptr \<Rightarrow> ptr BL" where
  "xml_mod_init ctx = bindM (bl_ctx_new ctx) (\<lambda>my_ctx. bindM (bl_ctx_new ctx) (\<lambda>xml_ctx.
     bindM (ctx_update xml_ctx (\<lambda>c. c\<lparr>ctx_get := Some (Getter ''x_get'')\<rparr>)) (\<lambda>_.
     bindM (bind_all my_ctx
       [(''x'', returnM xml_ctx), (''escape'', bl_mk_native_oper (N_module ''xml_escape'')),
        (''*NAME*'', bl_mk_str ''xml''), (''*SUMMARY*'', bl_mk_str ''tools for generating and parsing XML''),
        (''*DESCRIPTION*'', bl_mk_str ''This module provides tools for converting between s-expressions and XML using SXML style expressions''),
        (''*EXAMPLE*'', bl_mk_str xml_example)]) (\<lambda>_.
     returnM my_ctx))))"

section \<open>testmod\<close>

definition getcptr_bearlang :: "runtime \<Rightarrow> ptr \<Rightarrow> ptr \<Rightarrow> ptr BL" where
  "getcptr_bearlang R ctx params =
     bindM (static_c_obj (\<lambda>x. case x of C_text y \<Rightarrow> y = ''TEST STRING'' | _ \<Rightarrow> False) (C_text ''TEST STRING'')) bl_mk_ptr"

definition testmod_mod_init :: "ptr \<Rightarrow> ptr BL" where
  "testmod_mod_init ctx = bindM (bl_ctx_new ctx) (\<lambda>my_ctx. bindM (bl_ctx_new ctx) (\<lambda>nested_ctx.
     bindM (bl_ctx_new ctx) (\<lambda>nested_ctx2.
     bindM (bind_all my_ctx [(''get_cptr'', bl_mk_native_oper (N_module ''getcptr_bearlang'')),
                             (''nested'', returnM nested_ctx)]) (\<lambda>_.
     bindM (bind_all nested_ctx [(''teststr'', bl_mk_str ''TEST STRING2''), (''nested2'', returnM nested_ctx2)]) (\<lambda>_.
     bindM (bind_all nested_ctx2 [(''teststr2'', bl_mk_str ''TEST STRING3'')]) (\<lambda>_.
     returnM my_ctx))))))"

section \<open>cffi\<close>

definition dlopen_bearlang :: "runtime \<Rightarrow> ptr \<Rightarrow> ptr \<Rightarrow> ptr BL" where
  "dlopen_bearlang R ctx params = bindM (rt_eval R ctx params) (\<lambda>ps. bindM (bl_list_first ps) (\<lambda>libname.
     bindM (get_s_val libname) (\<lambda>x. bindM (getsM (\<lambda>s. dlopen_handle (os s) x)) bl_mk_ptr)))"

text \<open>
  With a second argument, \<open>dlsym\<close> is given the address of the BearLang value as if it were the handle that
  \<open>dlopen\<close> returned.
\<close>

definition dlsym_bearlang :: "runtime \<Rightarrow> ptr \<Rightarrow> ptr \<Rightarrow> ptr BL" where
  "dlsym_bearlang R ctx params = bindM (rt_eval R ctx params) (\<lambda>ps. bindM (bl_list_first ps) (\<lambda>funcname.
     bindM (bl_list_second ps) (\<lambda>libhandle. bindM (get_s_val funcname) (\<lambda>x.
       if libhandle = NULL then bindM (getsM (\<lambda>s. dlsym_addr (os s) 0 x)) bl_mk_ptr
       else faultM Bad_pointer))))"

definition native_oper_ret_str :: "runtime \<Rightarrow> ptr \<Rightarrow> ptr \<Rightarrow> ptr BL" where
  "native_oper_ret_str R ctx params = bl_mk_null"

definition native_oper_ret_null :: "runtime \<Rightarrow> ptr \<Rightarrow> ptr \<Rightarrow> ptr BL" where
  "native_oper_ret_null R ctx params = bl_mk_null"

definition get_ffi :: "ptr \<Rightarrow> ffi_func_t BL" where
  "get_ffi params = bindM (deref params) (\<lambda>cell. bindM (get_c_obj (custom_data cell)) (\<lambda>x. case x of
      C_ffi f \<Rightarrow> returnM f | _ \<Rightarrow> faultM Bad_pointer))"

text \<open>The argument vector: after the first argument every entry is the second one.\<close>

primrec ffi_args :: "nat \<Rightarrow> ptr \<Rightarrow> ptr \<Rightarrow> ptr list BL" where
  "ffi_args 0 params param = returnM []"
| "ffi_args (Suc n) params param = bindM (get_car param) (\<lambda>a. bindM (get_cdr params) (\<lambda>nxt.
     bindM (ffi_args n params nxt) (\<lambda>as. returnM (a # as))))"

definition int_text :: "int \<Rightarrow> string" where
  "int_text i = mpz_get_str i"

text \<open>The result is formatted before the function is called.\<close>

definition native_oper_ret_int :: "runtime \<Rightarrow> ptr \<Rightarrow> ptr \<Rightarrow> ptr BL" where
  "native_oper_ret_int R ctx params = bindM (get_ffi params) (\<lambda>f.
     bindM (ffi_args (arg_count f) params params) (\<lambda>args. bindM (getsM (\<lambda>s. uninit_int (os s))) (\<lambda>rc.
     bindM (record_call (Call_foreign (native_fn f) args)) (\<lambda>_. bl_mk_integer (take 9 (int_text rc))))))"

definition native_oper_ret_ptr :: "runtime \<Rightarrow> ptr \<Rightarrow> ptr \<Rightarrow> ptr BL" where
  "native_oper_ret_ptr R ctx params = bindM (get_ffi params) (\<lambda>f.
     bindM (ffi_args (arg_count f) params params) (\<lambda>args.
     bindM (record_call (Call_foreign (native_fn f) args)) (\<lambda>_.
     bindM (getsM (\<lambda>s. foreign_ptr (os s) (native_fn f))) bl_mk_ptr)))"

text \<open>The loop over the argument types looks at the first type in every round.\<close>

definition ffi_arg_type :: "ptr \<Rightarrow> bl_val_type_t option BL" where
  "ffi_arg_type a = bindM (bl_mk_symbol ''char*'') (\<lambda>k1. if a = k1 then returnM (Some BL_VAL_TYPE_STRING)
     else bindM (bl_mk_symbol ''void*'') (\<lambda>k2. if a = k2 then returnM (Some BL_VAL_TYPE_CPTR)
     else bindM (bl_mk_symbol ''int'') (\<lambda>k3. if a = k3 then returnM (Some BL_VAL_TYPE_NUMBER) else returnM None)))"

primrec ffi_arg_types :: "nat \<Rightarrow> ptr \<Rightarrow> bl_val_type_t option list BL" where
  "ffi_arg_types 0 L = returnM []"
| "ffi_arg_types (Suc n) L = bindM (get_car L) (\<lambda>a. bindM (ffi_arg_type a) (\<lambda>t.
     bindM (ffi_arg_types n L) (\<lambda>ts. returnM (t # ts))))"

definition ffi_ret_type :: "ptr \<Rightarrow> (string \<times> native) option BL" where
  "ffi_ret_type rt = bindM (bl_mk_symbol ''int'') (\<lambda>k1.
     if rt = k1 then returnM (Some (''int'', N_module ''native_oper_ret_int''))
     else bindM (bl_mk_symbol ''void'') (\<lambda>k2. if rt = k2 then returnM (Some (''void'', N_module ''native_oper_ret_null''))
     else bindM (bl_mk_symbol ''char*'') (\<lambda>k3. if rt = k3 then returnM (Some (''char*'', N_module ''native_oper_ret_str''))
     else bindM (bl_mk_symbol ''void*'') (\<lambda>k4. if rt = k4 then returnM (Some (''void*'', N_module ''native_oper_ret_ptr''))
     else returnM None))))"

text \<open>
  \<open>ffi_prep_cif\<close> is told of one argument and so reads the first entry of the type array (NULL when there
  are no arguments, unset for an unknown type) and the return type. The operator that was chosen for the
  return type is replaced by the one for \<open>int\<close>.
\<close>

definition func_bearlang :: "runtime \<Rightarrow> ptr \<Rightarrow> ptr \<Rightarrow> ptr BL" where
  "func_bearlang R ctx params = bindM (bl_list_first params) (\<lambda>retval_type.
     bindM (eval_second R ctx params) (\<lambda>func. bindM (bl_list_third params) (\<lambda>types.
     bindM (get_cptr func) (\<lambda>fn. bindM (bl_list_len types) (\<lambda>arg_len.
     bindM (ffi_arg_types arg_len types) (\<lambda>ats. bindM (ffi_ret_type retval_type) (\<lambda>rt.
     bindM (case rt of Some (n, nt) \<Rightarrow> bl_mk_native_oper nt | None \<Rightarrow> returnM NULL) (\<lambda>_.
       if ats = [] \<or> hd ats = None \<or> rt = None then faultM Bad_pointer
       else bindM (new_c_obj (C_ffi \<lparr>native_fn = fn, arg_count = arg_len, arg_types = ats,
                ret_type = map_option fst rt\<rparr>)) (\<lambda>func_def.
            bindM (bl_mk_native_oper (N_module ''native_oper_ret_int'')) (\<lambda>retval.
            bindM (update retval (\<lambda>c. c\<lparr>custom_data := func_def\<rparr>)) (\<lambda>_. returnM retval)))))))))))"

definition cffi_example :: string where
  "cffi_example = ''This example code shows how to import and call the standard libc function puts:'' @ [LF, LF] @
     ''  (import cffi)'' @ [LF] @ ''  (= cputs   (cffi::dlsym '' @ [DQ] @ ''puts'' @ [DQ] @ ''))'' @ [LF] @
     ''  (= my_puts (cffi::func int cputs (char*))'' @ [LF, LF] @
     ''Now my_puts can be called like any normal function, passing a single parameter of type string and returning a number'' @ [LF, LF] @
     ''dlopen can also be used to import an arbitrary library:'' @ [LF, LF] @
     ''  (= somelib     (cffi::dlopen '' @ [DQ] @ ''somelib.so'' @ [DQ] @ ''))'' @ [LF] @
     ''  (= somefunc    (cffi::dlsym  '' @ [DQ] @ ''somefunc'' @ [DQ] @ '' somelib))'' @ [LF] @
     ''  (= my_somefunc (cffi::func void somefunc ())'' @ [LF, LF] @
     ''Now my_somefunc can be called, in this example there are no parameters accepted by the function'' @ [LF]"

definition cffi_mod_init :: "ptr \<Rightarrow> ptr BL" where
  "cffi_mod_init ctx = bindM (bl_ctx_new ctx) (\<lambda>my_ctx.
     bindM (bind_all my_ctx
       [(''*NAME*'', bl_mk_str ''cffi''), (''*SUMMARY*'', bl_mk_str ''C foreign function interface for BearLang''),
        (''*DESCRIPTION*'', bl_mk_str ''This module allows you to import arbitrary shared object files and call functions in them''),
        (''*EXAMPLE*'', bl_mk_str cffi_example)]) (\<lambda>_.
     bindM (bind_doc_native my_ctx ''dlopen'' (N_module ''dlopen_bearlang'')
       (bl_mk_str ([LF, TAB] @ ''(dlopen filename)'' @ [LF, TAB, TAB] @
         ''Opens a shared object / dynamic library file and returns a pointer to it'' @ [LF]))) (\<lambda>_.
     bindM (bind_doc_native my_ctx ''dlsym'' (N_module ''dlsym_bearlang'')
       (bl_mk_str ([LF, TAB] @ ''(dlsym symbol library)'' @ [LF, TAB, TAB] @
         ''Looks up the specified symbol in the provided library, library must be a pointer returned from dlopen'' @ [LF]))) (\<lambda>_.
     bindM (bind_doc_native my_ctx ''func'' (N_module ''func_bearlang'')
       (bl_mk_str ([LF, TAB] @ ''(func return-type function (param-type ...))'' @ [LF, TAB, TAB] @
         ''Creates a callable BearLang function from the specified function pointer (as returned by dlsym)'' @ [LF, TAB, TAB] @
         ''return-type must be the C type the function returns'' @ [LF, TAB, TAB] @
         ''param-type is the type of the function'' @ [CHR 0x27] @ ''s parameter at that position, optionally an empty list may be provided instead'' @ [LF]))) (\<lambda>_.
     returnM my_ctx)))))"

section \<open>simpleweb\<close>

definition bl_html_response :: "runtime \<Rightarrow> ptr \<Rightarrow> ptr \<Rightarrow> ptr BL" where
  "bl_html_response R ctx params = bindM (rt_eval R ctx params) (\<lambda>ps. bindM (bl_list_first ps) (\<lambda>first.
     bindM (bl_ser_naked_sexp first) (\<lambda>html. bindM (new_c_obj (C_html html)) bl_mk_ptr)))"

text \<open>
  One HTTP request: the handler is called with the method, the address and the body; the text of its response
  is sent. \<open>handle_request\<close> is the part of \<open>ev_handler\<close> before it sends something.
\<close>

definition handle_request :: "runtime \<Rightarrow> ptr \<Rightarrow> string \<times> string \<times> string \<Rightarrow> string BL" where
  "handle_request R handler_func req = (case req of (req_method, uri, body) \<Rightarrow>
     bindM (deref handler_func) (\<lambda>cell. bindM (print_out (''URI: '' @ uri @ [LF])) (\<lambda>_.
     bindM (bl_mk_str req_method) (\<lambda>m. bindM (bl_mk_str uri) (\<lambda>u. bindM (bl_mk_str body) (\<lambda>b.
     bindM (bl_mk_list [handler_func, m, u, b]) (\<lambda>L. bindM (rt_eval R (custom_data cell) L) (\<lambda>resp.
     bindM (get_cptr resp) (\<lambda>k. bindM (get_c_obj k) (\<lambda>x. case x of
         C_html html \<Rightarrow> returnM html
       | _ \<Rightarrow> faultM Bad_union))))))))))"

definition ev_handler :: "runtime \<Rightarrow> ptr \<Rightarrow> string \<times> string \<times> string \<Rightarrow> unit BL" where
  "ev_handler R handler_func req = bindM (handle_request R handler_func req) (\<lambda>html. record_call (Call_send_html html))"

primrec serve_requests :: "runtime \<Rightarrow> ptr \<Rightarrow> (string \<times> string \<times> string) list \<Rightarrow> ptr BL" where
  "serve_requests R h [] = timeoutM"
| "serve_requests R h (r # rs) = bindM (ev_handler R h r) (\<lambda>_. serve_requests R h rs)"

text \<open>\<open>bl_serve\<close> never returns: after the requests that arrive it keeps polling.\<close>

definition bl_serve :: "runtime \<Rightarrow> ptr \<Rightarrow> ptr \<Rightarrow> ptr BL" where
  "bl_serve R ctx params = bindM (rt_eval R ctx params) (\<lambda>ps. bindM (bl_list_first ps) (\<lambda>portnum.
     bindM (bl_list_second ps) (\<lambda>handler_func.
     bindM (update handler_func (\<lambda>c. c\<lparr>custom_data := ctx\<rparr>)) (\<lambda>_.
     bindM (bl_ser_sexp portnum) (\<lambda>port. bindM (record_call (Call_bind port)) (\<lambda>_.
     bindM (getsM (\<lambda>s. http_requests (os s))) (serve_requests R handler_func)))))))"

definition simpleweb_mod_init :: "ptr \<Rightarrow> ptr BL" where
  "simpleweb_mod_init ctx = bindM (bl_ctx_new ctx) (\<lambda>my_ctx.
     bindM (bind_doc_native my_ctx ''html_response'' (N_module ''bl_html_response'')
       (bl_mk_docstr (''(html_response contents)'' @ [LF, TAB, TAB] @
         '' This should be returned from a handler function to return an HTML page''))) (\<lambda>_.
     bindM (bind_doc_native my_ctx ''serve'' (N_module ''bl_serve'')
       (bl_mk_docstr (''(serve portnum handler_func)'' @ [LF, TAB, TAB] @
         '' Start listening for clients on the specified port number, passes incoming requests to handler_func'' @ [LF, TAB, TAB] @
         '' handler_func should accept params (method url body)''))) (\<lambda>_.
     bindM (bind_all my_ctx
       [(''*NAME*'', bl_mk_str ''simpleweb''), (''*SUMMARY*'', bl_mk_str ''Basic webserver implementation''),
        (''*DESCRIPTION*'', bl_mk_str ''This module implements simple webapp support, see the web module for a higher-level interface'')]) (\<lambda>_.
     returnM my_ctx))))"

section \<open>py27\<close>

text \<open>A number is passed as an integer (True), a string as its text, anything else as its printed form.\<close>

definition py_invoke_callable :: "runtime \<Rightarrow> ptr \<Rightarrow> ptr \<Rightarrow> ptr BL" where
  "py_invoke_callable R ctx params = bindM (deref params) (\<lambda>cell. bindM (bl_list_len params) (\<lambda>n. (\<lambda>s.
     bindM (for_cdr (Suc (next_addr s)) (\<lambda>L args. bindM (get_car L) (\<lambda>a. bindM (get_type a) (\<lambda>T.
         bindM (if T = BL_VAL_TYPE_STRING then get_s_val a else bl_ser_sexp a) (\<lambda>x.
         returnM (Inr (args @ [(T = BL_VAL_TYPE_NUMBER, x)])))))) params [])
       (\<lambda>r. case r of Inl v \<Rightarrow> returnM v
          | Inr args \<Rightarrow> bindM (record_call (Call_python (custom_data cell) args)) (\<lambda>_. bl_mk_null)) s)))"

definition py_get :: "ptr \<Rightarrow> ptr \<Rightarrow> ptr BL" where
  "py_get ctx sm = bindM (get_ctx ctx) (\<lambda>c. bindM (get_s_val sm) (\<lambda>sym_name.
     bindM (getsM (\<lambda>s. py_attr (os s) (custom_ctx_data c) sym_name)) (\<lambda>r. case r of
         None \<Rightarrow> returnM NULL
       | Some (Py_str x) \<Rightarrow> bl_mk_str x
       | Some (Py_callable k) \<Rightarrow> bindM (bl_mk_native_oper (N_module ''py_invoke_callable'')) (\<lambda>retval.
           bindM (update retval (\<lambda>v. v\<lparr>custom_data := k\<rparr>)) (\<lambda>_. returnM retval))
       | Some (Py_other k) \<Rightarrow> bl_mk_ptr k)))"

definition py_ctx :: "nat \<Rightarrow> ptr BL" where
  "py_ctx m = bindM (bl_ctx_new NULL) (\<lambda>retval.
     bindM (ctx_update retval (\<lambda>c. c\<lparr>custom_ctx_data := m, ctx_get := Some (Getter ''py_get'')\<rparr>)) (\<lambda>_.
     returnM retval))"

definition py_import :: "runtime \<Rightarrow> ptr \<Rightarrow> ptr \<Rightarrow> ptr BL" where
  "py_import R ctx params = bindM (bl_list_first params) (\<lambda>first. bindM (get_s_val first) (\<lambda>py_name.
     bindM (getsM (\<lambda>s. py_module (os s) py_name)) py_ctx))"

definition py27_mod_init :: "ptr \<Rightarrow> ptr BL" where
  "py27_mod_init ctx = bindM (bl_ctx_new ctx) (\<lambda>my_ctx.
     bindM (bind_doc_native my_ctx ''import'' (N_module ''py_import'')
       (bl_mk_docstr (''(import module)'' @ [LF, TAB, TAB] @
         ''Imports a python module and returns it, does not bind the module to a symbol''))) (\<lambda>_.
     bindM (bind_all my_ctx
       [(''*NAME*'', bl_mk_str ''py27''), (''*SUMMARY*'', bl_mk_str ''Experimental python interop''),
        (''*DESCRIPTION*'', bl_mk_str ''This module implements experimental support for python 2.7 and BearLang interop'')]) (\<lambda>_.
     returnM my_ctx)))"

section \<open>Tables\<close>

definition mod_init :: "string \<Rightarrow> ptr \<Rightarrow> ptr BL" where
  "mod_init name ctx =
     (if name = ''hello'' then hello_mod_init ctx
      else if name = ''error'' then error_mod_init ctx
      else if name = ''os'' then os_mod_init ctx
      else if name = ''stdio'' then stdio_mod_init ctx
      else if name = ''xml'' then xml_mod_init ctx
      else if name = ''testmod'' then testmod_mod_init ctx
      else if name = ''cffi'' then cffi_mod_init ctx
      else if name = ''simpleweb'' then simpleweb_mod_init ctx
      else if name = ''py27'' then py27_mod_init ctx
      else faultM Bad_pointer)"

definition call_getter :: "string \<Rightarrow> ptr \<Rightarrow> ptr \<Rightarrow> ptr BL" where
  "call_getter g ctx key =
     (if g = ''x_get'' then x_get ctx key
      else if g = ''py_get'' then py_get ctx key
      else faultM Bad_pointer)"

definition call_module :: "string \<Rightarrow> runtime \<Rightarrow> ptr \<Rightarrow> ptr \<Rightarrow> ptr BL" where
  "call_module f R ctx params =
     (if f = ''hello_bearlang'' then hello_bearlang R ctx params
      else if f = ''bl_getsym'' then bl_getsym R ctx params
      else if f = ''bl_exit'' then bl_exit R ctx params
      else if f = ''bl_fopen'' then bl_fopen R ctx params
      else if f = ''bl_fclose'' then bl_fclose R ctx params
      else if f = ''bl_fprintf'' then bl_fprintf R ctx params
      else if f = ''bl_fgets'' then bl_fgets R ctx params
      else if f = ''bl_readline'' then bl_readline R ctx params
      else if f = ''bl_popen'' then bl_popen R ctx params
      else if f = ''bl_pclose'' then bl_pclose R ctx params
      else if f = ''xml_gen_oper'' then xml_gen_oper R ctx params
      else if f = ''xml_escape'' then xml_escape R ctx params
      else if f = ''getcptr_bearlang'' then getcptr_bearlang R ctx params
      else if f = ''dlopen_bearlang'' then dlopen_bearlang R ctx params
      else if f = ''dlsym_bearlang'' then dlsym_bearlang R ctx params
      else if f = ''func_bearlang'' then func_bearlang R ctx params
      else if f = ''native_oper_ret_int'' then native_oper_ret_int R ctx params
      else if f = ''native_oper_ret_ptr'' then native_oper_ret_ptr R ctx params
      else if f = ''native_oper_ret_str'' then native_oper_ret_str R ctx params
      else if f = ''native_oper_ret_null'' then native_oper_ret_null R ctx params
      else if f = ''bl_html_response'' then bl_html_response R ctx params
      else if f = ''bl_serve'' then bl_serve R ctx params
      else if f = ''py_invoke_callable'' then py_invoke_callable R ctx params
      else if f = ''py_import'' then py_import R ctx params
      else faultM Bad_pointer)"

section \<open>Effects on the state\<close>

lemma xml_text_safe [keeps_intros]: "keeps safe_step (xml_render t r a)"
proof -
  have "keeps safe_step (xml_attrs l x)" "keeps safe_step (xml_contents l x)" for l x
    unfolding xml_attrs_def xml_contents_def by (rule safe.keeps_run, intro keeps_intros)+
  then show ?thesis unfolding xml_render_def by (intro keeps_intros)
qed

lemma ffi_args_safe [keeps_intros]: "keeps safe_step (ffi_args n p q)"
  by (induction n arbitrary: q) (simp_all only: ffi_args.simps, (intro keeps_intros | assumption)+)

lemma ffi_arg_type_safe [keeps_intros]: "keeps safe_step (ffi_arg_type a)" "keeps safe_step (ffi_ret_type a)"
  unfolding ffi_arg_type_def ffi_ret_type_def by (intro keeps_intros)+

lemma ffi_arg_types_safe [keeps_intros]: "keeps safe_step (ffi_arg_types n L)"
  by (induction n) (simp_all only: ffi_arg_types.simps, (intro keeps_intros | assumption)+)

lemma keeps_c_obj [keeps_intros]:
  "(\<And>x. keeps R (f1 x)) \<Longrightarrow> (\<And>x. keeps R (f2 x)) \<Longrightarrow> (\<And>x. keeps R (f3 x)) \<Longrightarrow> (\<And>x. keeps R (f4 x)) \<Longrightarrow>
   keeps R (case_c_obj f1 f2 f3 f4 z)"
  by (cases z) simp_all

lemma keeps_py_object [keeps_intros]:
  "(\<And>x. keeps R (f1 x)) \<Longrightarrow> (\<And>x. keeps R (f2 x)) \<Longrightarrow> (\<And>x. keeps R (f3 x)) \<Longrightarrow>
   keeps R (case_py_object f1 f2 f3 z)"
  by (cases z) simp_all

lemma get_ffi_safe [keeps_intros]: "keeps safe_step (get_ffi p)"
  unfolding get_ffi_def by (intro keeps_intros)

lemma ctx_meta_safe:
  assumes "\<And>c. vals (f c) = vals c" "\<And>c. keys (f c) = keys c" "\<And>c. vals_count (f c) = vals_count c"
  shows "keeps safe_step (ctx_update p f)"
  by (rule ctx_update_safe) (simp add: ctx_lens_def assms)

lemma py_safe [keeps_intros]: "keeps safe_step (py_ctx m)" "keeps safe_step (py_get c k)"
  unfolding py_ctx_def py_get_def by (intro keeps_intros ctx_meta_safe update_meta_safe; simp)+

lemma foreign_mod_init_safe [keeps_intros]:
  "keeps safe_step (xml_mod_init c)" "keeps safe_step (testmod_mod_init c)" "keeps safe_step (cffi_mod_init c)"
  "keeps safe_step (simpleweb_mod_init c)" "keeps safe_step (py27_mod_init c)"
  unfolding xml_mod_init_def testmod_mod_init_def cffi_mod_init_def simpleweb_mod_init_def py27_mod_init_def
  by (intro bind_list_safe keeps_intros ctx_meta_safe; simp)+

lemma mod_init_safe: "keeps safe_step (mod_init m c)"
  unfolding mod_init_def by (intro keeps_intros)

lemma call_getter_safe: "keeps safe_step (call_getter g c k)"
  unfolding call_getter_def x_get_def by (intro keeps_intros)

lemmas foreign_module_defs =
  xml_gen_oper_def xml_escape_def getcptr_bearlang_def dlopen_bearlang_def dlsym_bearlang_def
  native_oper_ret_str_def native_oper_ret_null_def native_oper_ret_int_def native_oper_ret_ptr_def
  func_bearlang_def bl_html_response_def bl_serve_def py_invoke_callable_def py_import_def

context safe_runtime
begin

lemma naked_str_safe [keeps_intros]: "keeps safe_step (naked_str R c e)"
  unfolding naked_str_def by (intro keeps_intros)

lemma xml_param_safe [keeps_intros]: "keeps safe_step (xml_param R c i x)"
  unfolding xml_param_def by (intro keeps_intros)

lemma serve_requests_safe [keeps_intros]: "keeps safe_step (serve_requests R h rs)"
proof -
  have "keeps safe_step (ev_handler R h r)" for r
    unfolding ev_handler_def handle_request_def by (intro keeps_intros)
  then show ?thesis by (induction rs) (simp_all add: keeps_intros)
qed

lemma py_invoke_safe [keeps_intros]: "keeps safe_step (py_invoke_callable R c p)"
  unfolding py_invoke_callable_def
  by (intro safe.keeps_bind, intro keeps_intros, intro keeps_intros, rule safe.keeps_run) (intro keeps_intros)

lemma foreign_modules_safe [keeps_intros]:
  "keeps safe_step (xml_gen_oper R c p)" "keeps safe_step (xml_escape R c p)"
  "keeps safe_step (getcptr_bearlang R c p)" "keeps safe_step (dlopen_bearlang R c p)"
  "keeps safe_step (dlsym_bearlang R c p)" "keeps safe_step (native_oper_ret_str R c p)"
  "keeps safe_step (native_oper_ret_null R c p)" "keeps safe_step (native_oper_ret_int R c p)"
  "keeps safe_step (native_oper_ret_ptr R c p)" "keeps safe_step (func_bearlang R c p)"
  "keeps safe_step (bl_html_response R c p)" "keeps safe_step (bl_serve R c p)"
  "keeps safe_step (py_import R c p)"
  unfolding foreign_module_defs Let_def by (intro keeps_intros update_meta_safe; simp)+

lemma call_module_safe [keeps_intros]: "keeps safe_step (call_module f R c p)"
  unfolding call_module_def by (intro keeps_intros)

end

section \<open>More fuel, same answer\<close>

lemma le_M_c_obj [mono_intros]:
  "(\<And>x. le_M (f1 x) (g1 x)) \<Longrightarrow> (\<And>x. le_M (f2 x) (g2 x)) \<Longrightarrow> (\<And>x. le_M (f3 x) (g3 x)) \<Longrightarrow>
   (\<And>x. le_M (f4 x) (g4 x)) \<Longrightarrow> le_M (case_c_obj f1 f2 f3 f4 z) (case_c_obj g1 g2 g3 g4 z)"
  by (cases z) simp_all

context mono_runtime
begin

lemma naked_str_mono [mono_intros]: "le_M (naked_str R c e) (naked_str R' c e)"
  unfolding naked_str_def by (intro mono_intros)

lemma xml_param_mono [mono_intros]: "le_M (xml_param R c i x) (xml_param R' c i x)"
  unfolding xml_param_def by (intro mono_intros)

lemma serve_requests_mono [mono_intros]: "le_M (serve_requests R h rs) (serve_requests R' h rs)"
proof -
  have ev: "le_M (ev_handler R h r) (ev_handler R' h r)" for r
    unfolding ev_handler_def handle_request_def by (intro mono_intros)
  show ?thesis
  proof (induction rs)
    case Nil
    show ?case unfolding serve_requests.simps by (rule le_M_refl)
  next
    case (Cons r rs)
    show ?case unfolding serve_requests.simps by (intro mono_intros ev Cons)
  qed
qed

lemma foreign_modules_mono [mono_intros]:
  "le_M (xml_gen_oper R c p) (xml_gen_oper R' c p)" "le_M (xml_escape R c p) (xml_escape R' c p)"
  "le_M (getcptr_bearlang R c p) (getcptr_bearlang R' c p)"
  "le_M (dlopen_bearlang R c p) (dlopen_bearlang R' c p)"
  "le_M (dlsym_bearlang R c p) (dlsym_bearlang R' c p)"
  "le_M (native_oper_ret_str R c p) (native_oper_ret_str R' c p)"
  "le_M (native_oper_ret_null R c p) (native_oper_ret_null R' c p)"
  "le_M (native_oper_ret_int R c p) (native_oper_ret_int R' c p)"
  "le_M (native_oper_ret_ptr R c p) (native_oper_ret_ptr R' c p)"
  "le_M (func_bearlang R c p) (func_bearlang R' c p)"
  "le_M (bl_html_response R c p) (bl_html_response R' c p)"
  "le_M (bl_serve R c p) (bl_serve R' c p)"
  "le_M (py_invoke_callable R c p) (py_invoke_callable R' c p)"
  "le_M (py_import R c p) (py_import R' c p)"
  unfolding foreign_module_defs Let_def by (intro mono_intros)+

lemma call_module_mono [mono_intros]: "le_M (call_module f R c p) (call_module f R' c p)"
  unfolding call_module_def by (intro mono_intros)

end

end
