(* ===== verification/BL_Eval.thy ===== *)
theory BL_Eval
  imports BL_Foreign
begin

text \<open>
  The evaluator (\<^verbatim>\<open>runtime/src/eval.c\<close>): parameter binding, function bodies with their tail-call loop, the
  conditional, and \<open>bl_eval\<close> itself, which closes the cycle of calls between the evaluator, the operators
  and the modules. The argument of \<open>bl_eval\<close> is the fuel: it bounds the depth of the C call stack and the
  length of every loop.
\<close>

section \<open>Functions\<close>

definition bl_set_params :: "runtime \<Rightarrow> ptr \<Rightarrow> ptr \<Rightarrow> ptr \<Rightarrow> unit BL" where
  "bl_set_params R ctx param_names param_vals =
     bindM (for_cdr (rt_fuel R) (\<lambda>argsk_i argsv_i.
         bindM (get_car argsk_i) (\<lambda>k. bindM (get_car argsv_i) (\<lambda>v. bindM (bl_ctx_set ctx k v) (\<lambda>_.
         bindM (get_cdr argsv_i) (\<lambda>d. returnM (if d = NULL then Inl () else Inr d)))))) param_names param_vals)
       (\<lambda>r. returnM ())"

definition bl_eval_if :: "runtime \<Rightarrow> ptr \<Rightarrow> ptr \<Rightarrow> ptr BL" where
  "bl_eval_if R ctx expr = bindM (get_cdr expr) (\<lambda>d. bindM (eval_first R ctx d) (\<lambda>cond.
     bindM (get_type cond) (\<lambda>T.
       if T = BL_VAL_TYPE_ERROR then returnM cond
       else if T \<noteq> BL_VAL_TYPE_BOOL then bl_mk_err BL_ERR_PARSE
       else bindM (get_b_val cond) (\<lambda>b.
         if b then eval_second R ctx d else bindM (bl_list_third d) (rt_eval R ctx)))))"

text \<open>
  What the head of a call in a function body resolves to: the value of a symbol, or the value of the
  symbol at the head of what a conditional returned.
\<close>

definition call_target :: "runtime \<Rightarrow> ptr \<Rightarrow> ptr \<Rightarrow> ptr BL" where
  "call_target R inner e = bindM (get_car e) (\<lambda>h. bindM (get_type h) (\<lambda>H.
     if H = BL_VAL_TYPE_SYMBOL then bl_ctx_get R inner h
     else if H = BL_VAL_TYPE_OPER_IF
     then bindM (bl_eval_if R inner e) (\<lambda>if_result. bindM (get_type if_result) (\<lambda>T.
       if T = BL_VAL_TYPE_CONS
       then bindM (get_car if_result) (\<lambda>rh. bindM (get_type rh) (\<lambda>RH.
         if RH = BL_VAL_TYPE_SYMBOL then bl_ctx_get R inner rh else returnM NULL))
       else returnM NULL))
     else returnM NULL))"

primrec funcbody_loop :: "nat \<Rightarrow> runtime \<Rightarrow> ptr \<Rightarrow> ptr \<Rightarrow> ptr BL" where
  "funcbody_loop 0 R func i = timeoutM"
| "funcbody_loop (Suc n) R func i = bindM (get_car i) (\<lambda>e. bindM (get_type e) (\<lambda>T. bindM (get_func func) (\<lambda>f.
     bindM (if T = BL_VAL_TYPE_CONS then call_target R (inner_closure f) e else returnM NULL) (\<lambda>symval.
       if T = BL_VAL_TYPE_CONS \<and> symval = func
       then bindM (get_cdr e) (\<lambda>d. bindM (rt_eval R (inner_closure f) d) (\<lambda>args.
            bindM (bl_list_len args) (\<lambda>len.
            bindM (if len > 0 then bl_set_params R (inner_closure f) (bl_funcargs_ptr f) args else returnM ()) (\<lambda>_.
            funcbody_loop n R func (bl_func_ptr f)))))
       else bindM (rt_eval R (inner_closure f) e) (\<lambda>retval. bindM (get_cdr i) (\<lambda>j.
            if j \<noteq> NULL then funcbody_loop n R func j else returnM retval))))))"

definition bl_eval_funcbody :: "runtime \<Rightarrow> ptr \<Rightarrow> ptr \<Rightarrow> ptr BL" where
  "bl_eval_funcbody R func i = funcbody_loop (rt_fuel R) R func i"

section \<open>Special forms\<close>

text \<open>\<open>for(i = expr; ...)\<close> evaluating each expression, up to the first error.\<close>

definition eval_body :: "runtime \<Rightarrow> ptr \<Rightarrow> ptr \<Rightarrow> ptr \<Rightarrow> (ptr + ptr) BL" where
  "eval_body R ctx expr retval0 = for_cdr (rt_fuel R) (\<lambda>i retval.
     bindM (get_car i) (\<lambda>e. bindM (rt_eval R ctx e) (\<lambda>v.
       if v \<noteq> NULL
       then bindM (get_type v) (\<lambda>T. returnM (if T = BL_VAL_TYPE_ERROR then Inl v else Inr v))
       else returnM (Inr v)))) expr retval0"

definition or_null :: "ptr \<Rightarrow> ptr BL" where
  "or_null p = (if p = NULL then bl_mk_null else returnM p)"

definition eval_do :: "runtime \<Rightarrow> ptr \<Rightarrow> ptr \<Rightarrow> ptr BL" where
  "eval_do R ctx expr = bindM (eval_body R ctx expr null_val) (\<lambda>r. case r of
      Inl e \<Rightarrow> returnM e | Inr v \<Rightarrow> or_null v)"

primrec while_loop :: "nat \<Rightarrow> runtime \<Rightarrow> ptr \<Rightarrow> ptr \<Rightarrow> ptr \<Rightarrow> ptr BL" where
  "while_loop 0 R ctx cond expr = timeoutM"
| "while_loop (Suc n) R ctx cond expr = bindM (rt_eval R ctx cond) (\<lambda>v. bindM (get_b_val v) (\<lambda>b.
     if b then bindM (get_cdr expr) (\<lambda>d. bindM (bl_list_rest d) (\<lambda>body.
       bindM (eval_body R ctx body null_val) (\<lambda>r. case r of
           Inl e \<Rightarrow> returnM e | Inr _ \<Rightarrow> while_loop n R ctx cond expr)))
     else bl_mk_null))"

definition call_func :: "runtime \<Rightarrow> ptr \<Rightarrow> ptr \<Rightarrow> ptr \<Rightarrow> ptr BL" where
  "call_func R ctx func expr = bindM (get_cdr expr) (\<lambda>d. bindM (rt_eval R ctx d) (\<lambda>args.
     bindM (bl_list_len expr) (\<lambda>n. bindM (get_func func) (\<lambda>f.
     bindM (if n > 1 then bl_set_params R (inner_closure f) (bl_funcargs_ptr f) args else returnM ()) (\<lambda>_.
     bindM (bl_eval_funcbody R func (bl_func_ptr f)) or_null)))))"

definition call_oper :: "runtime \<Rightarrow> ptr \<Rightarrow> ptr \<Rightarrow> ptr BL" where
  "call_oper R oper expr = bindM (get_cdr expr) (\<lambda>args. bindM (get_func oper) (\<lambda>f.
     bindM (bl_ctx_new (lexical_closure f)) (\<lambda>inner.
     bindM (set_func oper (f\<lparr>inner_closure := inner\<rparr>)) (\<lambda>_. bindM (bl_list_len expr) (\<lambda>n.
     bindM (if n > 1 then bl_set_params R inner (bl_funcargs_ptr f) args else returnM ()) (\<lambda>_.
     bindM (ctx_update inner (\<lambda>c. c\<lparr>write_to_parent := True\<rparr>)) (\<lambda>_.
     eval_do R inner (bl_func_ptr f))))))))"

section \<open>Native operators\<close>

text \<open>\<open>quit_cmd\<close> of the interactive interpreter (\<^verbatim>\<open>bli/src/main.c\<close>).\<close>

definition quit_cmd :: "runtime \<Rightarrow> ptr \<Rightarrow> ptr \<Rightarrow> ptr BL" where
  "quit_cmd R ctx params = bindM (print_out (''Goodbye!'' @ [LF])) (\<lambda>_.
     bindM (record_call Call_history_save) (\<lambda>_. exitM 0))"

definition call_native :: "native \<Rightarrow> runtime \<Rightarrow> ptr \<Rightarrow> ptr \<Rightarrow> ptr BL" where
  "call_native nt = (case nt of
      N_profile \<Rightarrow> bl_oper_profile | N_listbuiltins \<Rightarrow> bl_oper_listbuiltins | N_aget \<Rightarrow> bl_oper_aget
    | N_split \<Rightarrow> bl_oper_split | N_startswith \<Rightarrow> bl_oper_startswith | N_pmatch \<Rightarrow> bl_oper_pmatch
    | N_add \<Rightarrow> bl_oper_add | N_sub \<Rightarrow> bl_oper_sub | N_mult \<Rightarrow> bl_oper_mult | N_div \<Rightarrow> bl_oper_div
    | N_mod \<Rightarrow> bl_oper_mod | N_set \<Rightarrow> bl_oper_set | N_fn \<Rightarrow> bl_oper_fn | N_fun \<Rightarrow> bl_oper_fun
    | N_foreach \<Rightarrow> bl_oper_foreach | N_filtered \<Rightarrow> bl_oper_filtered | N_throw \<Rightarrow> bl_oper_throw
    | N_oper \<Rightarrow> bl_oper_oper | N_map \<Rightarrow> bl_oper_map | N_eq \<Rightarrow> bl_oper_eq | N_lt \<Rightarrow> bl_oper_lt
    | N_gt \<Rightarrow> bl_oper_gt | N_print \<Rightarrow> bl_oper_print | N_and \<Rightarrow> bl_oper_and | N_not \<Rightarrow> bl_oper_not
    | N_or \<Rightarrow> bl_oper_or | N_xor \<Rightarrow> bl_oper_xor | N_first \<Rightarrow> bl_oper_first | N_second \<Rightarrow> bl_oper_second
    | N_third \<Rightarrow> bl_oper_third | N_rest \<Rightarrow> bl_oper_rest | N_append \<Rightarrow> bl_oper_append
    | N_prepend \<Rightarrow> bl_oper_prepend | N_reverse \<Rightarrow> bl_oper_reverse | N_include \<Rightarrow> bl_oper_include
    | N_import \<Rightarrow> bl_oper_import | N_isset \<Rightarrow> bl_oper_isset | N_serexp \<Rightarrow> bl_oper_serexp
    | N_inc \<Rightarrow> bl_oper_inc | N_dec \<Rightarrow> bl_oper_dec | N_parse \<Rightarrow> bl_oper_parse | N_eval \<Rightarrow> bl_oper_eval
    | N_try \<Rightarrow> bl_oper_try | N_quote \<Rightarrow> bl_oper_quote | N_using \<Rightarrow> bl_oper_using | N_doc \<Rightarrow> bl_oper_doc
    | N_dir \<Rightarrow> bl_oper_dir | N_mksym \<Rightarrow> bl_oper_mksym | N_ctxget \<Rightarrow> bl_oper_ctxget | N_type \<Rightarrow> bl_oper_type
    | N_quit \<Rightarrow> quit_cmd | N_module f \<Rightarrow> call_module f)"

text \<open>
  The operator is told the symbol it was called by and its custom data through the cell of the parameter
  list; without parameters that cell is \<open>null_val\<close>.
\<close>

definition call_oper_native :: "runtime \<Rightarrow> ptr \<Rightarrow> ptr \<Rightarrow> ptr \<Rightarrow> ptr BL" where
  "call_oper_native R ctx car expr = bindM (get_cdr expr) (\<lambda>d0.
     bindM (if d0 = NULL then bindM bl_mk_null (set_cdr expr) else returnM ()) (\<lambda>_.
     bindM (get_cdr expr) (\<lambda>d. bindM (get_car expr) (\<lambda>a. bindM (deref car) (\<lambda>cell.
     bindM (update d (\<lambda>c. c\<lparr>invoked_sym := a\<rparr>)) (\<lambda>_.
     bindM (update d (\<lambda>c. c\<lparr>custom_data := custom_data cell\<rparr>)) (\<lambda>_.
     bindM (get_native car) (\<lambda>nt. bindM (call_native nt R ctx d) or_null))))))))"

section \<open>Evaluation\<close>

definition eval_call :: "runtime \<Rightarrow> ptr \<Rightarrow> ptr \<Rightarrow> ptr \<Rightarrow> ptr BL" where
  "eval_call R ctx car expr = bindM (get_type car) (\<lambda>C. case C of
      BL_VAL_TYPE_ERROR \<Rightarrow> returnM car
    | BL_VAL_TYPE_OPER_NATIVE \<Rightarrow> call_oper_native R ctx car expr
    | BL_VAL_TYPE_OPER_DO \<Rightarrow> bindM (get_cdr expr) (eval_do R ctx)
    | BL_VAL_TYPE_OPER_IF \<Rightarrow> bindM (bl_eval_if R ctx expr) (\<lambda>e. bindM (get_type e) (\<lambda>T.
        if T = BL_VAL_TYPE_ERROR then returnM e else rt_eval R ctx e))
    | BL_VAL_TYPE_OPER_WHILE \<Rightarrow> bindM (get_cdr expr) (\<lambda>d. bindM (bl_list_first d) (\<lambda>cond.
        while_loop (rt_fuel R) R ctx cond expr))
    | BL_VAL_TYPE_FUNC_BL \<Rightarrow> call_func R ctx car expr
    | BL_VAL_TYPE_OPER_BL \<Rightarrow> call_oper R car expr
    | _ \<Rightarrow> bindM (bl_eval_cons R ctx expr) or_null)"

text \<open>
  One pass through the loop of \<open>bl_eval\<close>. Only the conditional goes round again, with its result as the
  next expression; that is a call of the evaluator here.
\<close>

definition eval_step :: "runtime \<Rightarrow> ptr \<Rightarrow> ptr \<Rightarrow> ptr BL" where
  "eval_step R ctx expr = (if expr = NULL then bl_mk_null
     else bindM (get_type expr) (\<lambda>T. case T of
        BL_VAL_TYPE_ERROR \<Rightarrow> returnM expr
      | BL_VAL_TYPE_CONS \<Rightarrow> bindM (get_car expr) (\<lambda>a.
          if a = NULL then bl_mk_null
          else bindM (get_type a) (\<lambda>A.
            if A = BL_VAL_TYPE_SYMBOL
            then bindM (bl_ctx_get R ctx a) (\<lambda>car.
              if car = NULL then bindM (get_s_val a) bl_err_symnotfound else eval_call R ctx car expr)
            else eval_call R ctx a expr))
      | BL_VAL_TYPE_SYMBOL \<Rightarrow> bindM (bl_ctx_get R ctx expr) (\<lambda>symval.
          if symval = NULL then bindM (get_s_val expr) bl_err_symnotfound else returnM symval)
      | _ \<Rightarrow> returnM expr))"

definition runtime_at :: "nat \<Rightarrow> evaluator \<Rightarrow> runtime" where
  "runtime_at n ev = \<lparr>rt_fuel = n, rt_eval = ev, rt_getter = call_getter, rt_init = mod_init\<rparr>"

primrec bl_eval :: "nat \<Rightarrow> evaluator" where
  "bl_eval 0 = (\<lambda>ctx expr. timeoutM)"
| "bl_eval (Suc n) = eval_step (runtime_at n (bl_eval n))"

declare funcbody_loop.simps [simp del] while_loop.simps [simp del] bl_eval.simps [simp del]

section \<open>Evaluation keeps the state well formed\<close>

lemma or_null_safe [keeps_intros]: "keeps safe_step (or_null p)"
  unfolding or_null_def by (intro keeps_intros)

lemma bl_set_params_safe [keeps_intros]: "keeps safe_step (bl_set_params R c ks vs)"
  unfolding bl_set_params_def by (intro keeps_intros)

context safe_runtime
begin

lemma bl_eval_if_safe [keeps_intros]: "keeps safe_step (bl_eval_if R c e)"
  unfolding bl_eval_if_def by (intro keeps_intros)

lemma call_target_safe [keeps_intros]: "keeps safe_step (call_target R c e)"
  unfolding call_target_def by (intro keeps_intros)

lemma funcbody_loop_safe [keeps_intros]: "keeps safe_step (funcbody_loop n R f i)"
proof (induction n arbitrary: i)
  case 0
  show ?case unfolding funcbody_loop.simps by (intro keeps_intros)
next
  case (Suc n)
  show ?case unfolding funcbody_loop.simps by (intro keeps_intros Suc)
qed

lemma eval_body_safe [keeps_intros]: "keeps safe_step (eval_body R c e v)"
  unfolding eval_body_def by (intro keeps_intros)

lemma eval_do_safe [keeps_intros]: "keeps safe_step (eval_do R c e)"
  unfolding eval_do_def by (intro keeps_intros)

lemma while_loop_safe [keeps_intros]: "keeps safe_step (while_loop n R c k e)"
proof (induction n)
  case 0
  show ?case unfolding while_loop.simps by (intro keeps_intros)
next
  case (Suc n)
  show ?case unfolding while_loop.simps by (intro keeps_intros Suc)
qed

lemma calls_safe [keeps_intros]: "keeps safe_step (call_func R c f e)" "keeps safe_step (call_oper R f e)"
  unfolding call_func_def call_oper_def bl_eval_funcbody_def by (intro keeps_intros ctx_meta_safe; simp)+

lemma call_native_safe [keeps_intros]: "keeps safe_step (call_native nt R c p)"
  unfolding call_native_def quit_cmd_def by (cases nt; simp only: native.case; intro keeps_intros)

lemma call_oper_native_safe [keeps_intros]: "keeps safe_step (call_oper_native R c f e)"
  unfolding call_oper_native_def by (intro keeps_intros update_meta_safe) simp_all

lemma eval_call_safe [keeps_intros]: "keeps safe_step (eval_call R c f e)"
  unfolding eval_call_def by (intro keeps_intros)

lemma eval_step_safe: "keeps safe_step (eval_step R c e)"
  unfolding eval_step_def by (intro keeps_intros)

end

lemma safe_runtime_at: "(\<And>c e. keeps safe_step (ev c e)) \<Longrightarrow> safe_runtime (runtime_at n ev)"
  by unfold_locales (simp_all add: runtime_at_def call_getter_safe mod_init_safe)

text \<open>Every evaluation that returns took a well-formed state to a well-formed state.\<close>

lemma bl_eval_safe [keeps_intros]: "keeps safe_step (bl_eval n c e)"
proof (induction n arbitrary: c e)
  case 0
  show ?case unfolding bl_eval.simps by (rule keeps_stop)
next
  case (Suc n)
  then have "safe_runtime (runtime_at n (bl_eval n))" by (rule safe_runtime_at)
  then show ?case unfolding bl_eval.simps by (rule safe_runtime.eval_step_safe)
qed

interpretation bl_rt: safe_runtime "runtime_at n (bl_eval m)" for n m
  by (rule safe_runtime_at) (rule bl_eval_safe)

section \<open>More fuel, same answer\<close>

lemma bl_set_params_mono [mono_intros]:
  "rt_fuel R \<le> rt_fuel R' \<Longrightarrow> le_M (bl_set_params R c ks vs) (bl_set_params R' c ks vs)"
  unfolding bl_set_params_def by (intro mono_intros)

lemma le_M_val_type [mono_intros]:
  "le_M m1 k1 \<Longrightarrow> le_M m2 k2 \<Longrightarrow> le_M m3 k3 \<Longrightarrow> le_M m4 k4 \<Longrightarrow> le_M m5 k5 \<Longrightarrow> le_M m6 k6 \<Longrightarrow>
   le_M m7 k7 \<Longrightarrow> le_M m8 k8 \<Longrightarrow> le_M m9 k9 \<Longrightarrow> le_M m10 k10 \<Longrightarrow> le_M m11 k11 \<Longrightarrow> le_M m12 k12 \<Longrightarrow>
   le_M m13 k13 \<Longrightarrow> le_M m14 k14 \<Longrightarrow> le_M m15 k15 \<Longrightarrow> le_M m16 k16 \<Longrightarrow> le_M m17 k17 \<Longrightarrow> le_M m18 k18 \<Longrightarrow>
   le_M m19 k19 \<Longrightarrow> le_M m20 k20 \<Longrightarrow> le_M m21 k21 \<Longrightarrow>
   le_M (case_bl_val_type_t m1 m2 m3 m4 m5 m6 m7 m8 m9 m10 m11 m12 m13 m14 m15 m16 m17 m18 m19 m20 m21 T)
     (case_bl_val_type_t k1 k2 k3 k4 k5 k6 k7 k8 k9 k10 k11 k12 k13 k14 k15 k16 k17 k18 k19 k20 k21 T)"
  by (cases T) simp_all

context mono_runtime
begin

lemma bl_eval_if_mono [mono_intros]: "le_M (bl_eval_if R c e) (bl_eval_if R' c e)"
  unfolding bl_eval_if_def by (intro mono_intros)

lemma call_target_mono [mono_intros]: "le_M (call_target R c e) (call_target R' c e)"
  unfolding call_target_def by (intro mono_intros)

lemma funcbody_loop_mono: "n \<le> n' \<Longrightarrow> le_M (funcbody_loop n R f i) (funcbody_loop n' R' f i)"
proof (induction n arbitrary: n' i)
  case 0
  show ?case unfolding funcbody_loop.simps by (rule le_M_timeout)
next
  case (Suc n)
  then obtain m where "n' = Suc m" "n \<le> m" by (cases n') auto
  then show ?case by (simp only: funcbody_loop.simps) (intro mono_intros Suc.IH)
qed

lemma eval_body_mono [mono_intros]: "le_M (eval_body R c e v) (eval_body R' c e v)"
  unfolding eval_body_def by (intro mono_intros)

lemma eval_do_mono [mono_intros]: "le_M (eval_do R c e) (eval_do R' c e)"
  unfolding eval_do_def by (intro mono_intros)

lemma while_loop_mono: "n \<le> n' \<Longrightarrow> le_M (while_loop n R c k e) (while_loop n' R' c k e)"
proof (induction n arbitrary: n')
  case 0
  show ?case unfolding while_loop.simps by (rule le_M_timeout)
next
  case (Suc n)
  then obtain m where "n' = Suc m" "n \<le> m" by (cases n') auto
  then show ?case by (simp only: while_loop.simps) (intro mono_intros Suc.IH)
qed

lemma calls_mono [mono_intros]:
  "le_M (call_func R c f e) (call_func R' c f e)" "le_M (call_oper R f e) (call_oper R' f e)"
  unfolding call_func_def call_oper_def bl_eval_funcbody_def by (intro mono_intros funcbody_loop_mono)+

lemma call_native_mono [mono_intros]: "le_M (call_native nt R c p) (call_native nt R' c p)"
  unfolding call_native_def quit_cmd_def by (cases nt; simp only: native.case; intro mono_intros)

lemma call_oper_native_mono [mono_intros]: "le_M (call_oper_native R c f e) (call_oper_native R' c f e)"
  unfolding call_oper_native_def by (intro mono_intros)

lemma eval_call_mono [mono_intros]: "le_M (eval_call R c f e) (eval_call R' c f e)"
  unfolding eval_call_def by (intro mono_intros while_loop_mono)

lemma eval_step_mono: "le_M (eval_step R c e) (eval_step R' c e)"
  unfolding eval_step_def by (intro mono_intros)

end

lemma bl_eval_Suc_mono: "le_M (bl_eval n c e) (bl_eval (Suc n) c e)"
proof (induction n arbitrary: c e)
  case 0
  show ?case unfolding bl_eval.simps(1) by (rule le_M_timeout)
next
  case (Suc n)
  have "mono_runtime (runtime_at n (bl_eval n)) (runtime_at (Suc n) (bl_eval (Suc n)))"
    by unfold_locales (simp_all add: runtime_at_def Suc)
  then show ?case
    unfolding bl_eval.simps(2) [of n] bl_eval.simps(2) [of "Suc n"] by (rule mono_runtime.eval_step_mono)
qed

lemma bl_eval_mono: "n \<le> n' \<Longrightarrow> le_M (bl_eval n c e) (bl_eval n' c e)"
proof (induction n' arbitrary: n)
  case 0
  then show ?case by simp
next
  case (Suc n')
  show ?case
  proof (cases "n = Suc n'")
    case False
    with Suc.prems have "le_M (bl_eval n c e) (bl_eval n' c e)" by (intro Suc.IH) simp
    then show ?thesis using bl_eval_Suc_mono le_M_trans by blast
  qed simp
qed

interpretation bl_mono: mono_runtime "runtime_at n (bl_eval n)" "runtime_at (Suc n) (bl_eval (Suc n))" for n
  by unfold_locales (simp_all add: runtime_at_def bl_eval_Suc_mono)

text \<open>The answer of the evaluator does not depend on the fuel it was given.\<close>

lemma bl_eval_determined:
  assumes "bl_eval n c e s = r" "r \<noteq> Timeout" "bl_eval m c e s = r'" "r' \<noteq> Timeout"
  shows "r = r'"
proof (cases "n \<le> m")
  case True
  from le_M_D [OF bl_eval_mono [OF this] assms(1,2)] assms(3) show ?thesis by simp
next
  case False
  then have "m \<le> n" by simp
  from le_M_D [OF bl_eval_mono [OF this] assms(3,4)] assms(1) show ?thesis by simp
qed

end
