(* ===== verification/BL_Initial.thy ===== *)
theory BL_Initial
  imports BL_Eval
begin

text \<open>
  The state in which the process starts is well formed, whatever its surroundings are, and every builtin
  operator has its static value there. \<open>bare_os\<close> is the smallest surroundings: no variables, no files, no
  libraries; the concrete runs of the development use it.
\<close>

section \<open>The initial state\<close>

lemma builtin_table_length: "length builtin_table = builtin_count"
  by (simp add: builtin_table_def builtin_count_def)

lemma init_cells_lengths:
  "length static_cells = 7" "length builtin_cells = builtin_count" "length docstr_cells = builtin_count"
  "length init_cells = 7 + 2 * builtin_count"
  by (simp_all add: static_cells_def builtin_cells_def docstr_cells_def init_cells_def builtin_table_length)

lemma init_cells_tags:
  "c \<in> set init_cells \<Longrightarrow> tag_ok (val_type c) (payload c) \<and> val_type c \<noteq> BL_VAL_TYPE_SYMBOL"
  by (auto simp: init_cells_def static_cells_def builtin_cells_def docstr_cells_def builtin_cell_def)

lemma init_heap:
  "heap (init_store env ub) p = Some c \<longleftrightarrow> 0 < p \<and> p \<le> 107 \<and> c = init_cells ! (p - 1)"
  by (auto simp: init_store_def init_cells_lengths builtin_count_def)

lemma init_heap_cell: "heap (init_store env ub) p = Some c \<Longrightarrow> c \<in> set init_cells"
  by (auto simp: init_heap init_cells_lengths builtin_count_def)

lemma init_fields [simp]:
  "next_addr (init_store env ub) = 108" "symbol_table (init_store env ub) = []"
  "last_sym_id (init_store env ub) = 0" "uninit_bool (init_store env ub) = ub" "os (init_store env ub) = env"
  "stdout_buf (init_store env ub) = []" "stderr_buf (init_store env ub) = []"
  by (simp_all add: init_store_def init_cells_lengths builtin_count_def)

lemma init_static: "p \<le> 7 \<Longrightarrow> 0 < p \<Longrightarrow> heap (init_store env ub) p = Some (static_cells ! (p - 1))"
  by (simp add: init_heap init_cells_def nth_append init_cells_lengths)

lemma wf_init: "wf_store (init_store env ub)"
  unfolding wf_store_def
proof (intro conjI)
  show "heap_ok (init_store env ub)"
    by (auto simp: heap_ok_def init_store_def init_cells_lengths builtin_count_def)
  show "tags_ok (init_store env ub)"
    using init_cells_tags init_heap_cell by (auto simp: tags_ok_def)
  show "statics_ok (init_store env ub)"
    by (simp add: statics_ok_def has_type_def init_static static_addr_defs) (simp add: static_cells_def)
  have "\<not> is_symbol (init_store env ub) p x i" for p x i
    using init_cells_tags init_heap_cell by (fastforce simp: is_symbol_def)
  then show "symtab_ok (init_store env ub)" by (simp add: symtab_ok_def)
qed

text \<open>The static operator value of a builtin.\<close>

lemma row_index_bound:
  "nt \<in> fst ` set rows \<Longrightarrow> row_index nt rows < length rows \<and> fst (rows ! row_index nt rows) = nt"
  by (induction rows) (auto, force+)

lemma init_builtin:
  assumes "nt \<in> fst ` set builtin_table"
  shows "\<exists>c. heap (init_store env ub) (native_oper nt) = Some c \<and> val_type c = BL_VAL_TYPE_OPER_NATIVE
    \<and> payload c = U_native nt"
proof -
  let ?i = "row_index nt builtin_table"
  have i: "?i < builtin_count" "fst (builtin_table ! ?i) = nt"
    using row_index_bound [OF assms] by (simp_all add: builtin_table_length)
  have "init_cells ! (7 + ?i) = builtin_cells ! ?i"
    using i(1) by (simp add: init_cells_def nth_append init_cells_lengths)
  also have "\<dots> = builtin_cell ?i nt"
    using i by (simp add: builtin_cells_def builtin_table_length nth_enumerate_eq split_beta)
  finally have "heap (init_store env ub) (native_oper nt) = Some (builtin_cell ?i nt)"
    using i(1) by (simp add: init_heap native_oper_def builtin_count_def)
  then show ?thesis by (simp add: builtin_cell_def)
qed

section \<open>Bare surroundings\<close>

definition bare_os :: os_iface where
  "bare_os = \<lparr>getenv = (\<lambda>x. None), source_text = (\<lambda>x. None), glob_paths = (\<lambda>x. []), dylib = (\<lambda>x. None),
     dlerror_text = (\<lambda>x. []), clock_text = ''0'', freed_text = (\<lambda>x. []), fopen_result = (\<lambda>x y. Inl 2),
     fclose_errno = (\<lambda>x. 0), popen_result = (\<lambda>x y. None), dlopen_handle = (\<lambda>x. 0), dlsym_addr = (\<lambda>x y. 0),
     build_path = (\<lambda>x. ''.''), build_version = ''1'', py_module = (\<lambda>x. 0), py_attr = (\<lambda>x y. None),
     http_requests = [], foreign_ptr = (\<lambda>x. x), uninit_int = 0\<rparr>"

definition bare_store :: store where
  "bare_store = init_store bare_os False"

lemma wf_bare: "wf_store bare_store"
  by (simp add: bare_store_def wf_init)

lemma bare_fields [simp]:
  "next_addr bare_store = 108" "symbol_table bare_store = []" "last_sym_id bare_store = 0"
  "\<not> uninit_bool bare_store" "os bare_store = bare_os" "stdout_buf bare_store = []"
  by (simp_all add: bare_store_def)

end
