(* ===== verification/BL_Scope.thy ===== *)
theory BL_Scope
  imports BL_Initial
begin

text \<open>
  Contexts as scopes. The bindings of a context are a partial map from symbol numbers to values: assigning
  updates the map of one context and nothing else, lookups walk the parents. On top of that contract:
  binding the parameters of a function, and the names that the standard context starts with.
\<close>

section \<open>Bindings\<close>

definition binds :: "store \<Rightarrow> ptr \<Rightarrow> nat \<Rightarrow> ptr option" where
  "binds s ctx i = (case heap s ctx of
      Some c \<Rightarrow> (case payload c of
          U_ctx k \<Rightarrow> if i < length (vals k) \<and> vals k ! i \<noteq> NULL then Some (vals k ! i) else None
        | _ \<Rightarrow> None)
    | None \<Rightarrow> None)"

text \<open>A context that is assigned to directly and has no lookup function of its own.\<close>

definition scope :: "store \<Rightarrow> ptr \<Rightarrow> bool" where
  "scope s ctx \<longleftrightarrow> (\<exists>c k. heap s ctx = Some c \<and> val_type c = BL_VAL_TYPE_CTX \<and> payload c = U_ctx k
     \<and> ctx_lens k \<and> \<not> write_to_parent k \<and> ctx_get k = None)"

definition symbol_no :: "store \<Rightarrow> ptr \<Rightarrow> nat \<Rightarrow> bool" where
  "symbol_no s p i \<longleftrightarrow> (\<exists>x. is_symbol s p x i)"

text \<open>Everything but the context itself stays as it is.\<close>

definition same_but :: "ptr \<Rightarrow> store \<Rightarrow> store \<Rightarrow> bool" where
  "same_but ctx s t \<longleftrightarrow> (\<forall>p. p \<noteq> ctx \<longrightarrow> heap t p = heap s p) \<and> next_addr t = next_addr s
     \<and> symbol_table t = symbol_table s \<and> last_sym_id t = last_sym_id s"

lemma same_but_refl [simp]: "same_but ctx s s"
  and same_but_trans: "same_but ctx s t \<Longrightarrow> same_but ctx t u \<Longrightarrow> same_but ctx s u"
  by (simp_all add: same_but_def)

lemma ctx_store_vals:
  assumes "ctx_lens k"
  shows "i < length (vals (ctx_store i key v k))"
    "vals (ctx_store i key v k) ! i = v"
    "j \<noteq> i \<Longrightarrow> (j < length (vals (ctx_store i key v k)) \<and> vals (ctx_store i key v k) ! j \<noteq> NULL)
        \<longleftrightarrow> (j < length (vals k) \<and> vals k ! j \<noteq> NULL)"
    "j \<noteq> i \<Longrightarrow> j < length (vals k) \<Longrightarrow> vals (ctx_store i key v k) ! j = vals k ! j"
    "write_to_parent (ctx_store i key v k) = write_to_parent k" "parent (ctx_store i key v k) = parent k"
    "ctx_get (ctx_store i key v k) = ctx_get k"
  using assms by (auto simp: ctx_store_def ctx_grow_def ctx_lens_def Let_def nth_append)

text \<open>
  The contract of a scope: an assignment returns the assigned value, updates the map at the symbol's
  number, keeps the scope one, and keeps everything else. Assigning one after the other is then updating
  the map by the list of pairs.
\<close>

locale scope_laws =
  fixes B :: "store \<Rightarrow> ptr \<Rightarrow> nat \<Rightarrow> ptr option"
    and assign :: "ptr \<Rightarrow> ptr \<Rightarrow> ptr \<Rightarrow> ptr BL"
    and ok :: "store \<Rightarrow> ptr \<Rightarrow> bool"
    and key :: "store \<Rightarrow> ptr \<Rightarrow> nat \<Rightarrow> bool"
  assumes assign_law: "ok s c \<Longrightarrow> key s k i \<Longrightarrow> v \<noteq> NULL \<Longrightarrow>
      \<exists>t. assign c k v s = Ret v t \<and> ok t c \<and> B t c = (B s c)(i \<mapsto> v) \<and> same_but c s t"
    and key_kept: "ok s c \<Longrightarrow> same_but c s t \<Longrightarrow> key s k i \<Longrightarrow> key t k i"
    and B_frame: "same_but c s t \<Longrightarrow> c' \<noteq> c \<Longrightarrow> B t c' = B s c'"
begin

primrec assign_all :: "ptr \<Rightarrow> (ptr \<times> ptr) list \<Rightarrow> unit BL" where
  "assign_all c [] = returnM ()"
| "assign_all c (kv # kvs) = bindM (assign c (fst kv) (snd kv)) (\<lambda>_. assign_all c kvs)"

lemma assign_all_law:
  assumes "ok s c" "list_all2 (\<lambda>kv i. key s (fst kv) i \<and> snd kv \<noteq> NULL) kvs is"
  shows "\<exists>t. assign_all c kvs s = Ret () t \<and> ok t c \<and> same_but c s t
    \<and> B t c = (B s c) ++ map_of (rev (zip is (map snd kvs))) \<and> (\<forall>c'. c' \<noteq> c \<longrightarrow> B t c' = B s c')"
  using assms
proof (induction kvs arbitrary: s "is")
  case Nil
  then show ?case by simp
next
  case (Cons kv kvs)
  then obtain i js where i: "is = i # js" "key s (fst kv) i" "snd kv \<noteq> NULL"
      "list_all2 (\<lambda>kv i. key s (fst kv) i \<and> snd kv \<noteq> NULL) kvs js"
    by (auto simp: list_all2_Cons1)
  obtain t where t: "assign c (fst kv) (snd kv) s = Ret (snd kv) t" "ok t c"
      "B t c = (B s c)(i \<mapsto> snd kv)" "same_but c s t"
    using assign_law [OF Cons.prems(1) i(2,3)] by blast
  have "list_all2 (\<lambda>kv i. key t (fst kv) i \<and> snd kv \<noteq> NULL) kvs js"
    using i(4) key_kept [OF Cons.prems(1) t(4)] by (auto elim: list_all2_mono)
  from Cons.IH [OF t(2) this] obtain u where u: "assign_all c kvs t = Ret () u" "ok u c" "same_but c t u"
      "B u c = (B t c) ++ map_of (rev (zip js (map snd kvs)))" "\<forall>c'. c' \<noteq> c \<longrightarrow> B u c' = B t c'" by blast
  have "B u c = (B s c) ++ map_of (rev (zip is (map snd (kv # kvs))))"
    unfolding u(4) t(3) i(1) by (rule ext) (simp add: map_add_def split: option.split)
  moreover have su: "same_but c s u" by (rule same_but_trans [OF t(4) u(3)])
  moreover have "\<forall>c'. c' \<noteq> c \<longrightarrow> B u c' = B s c'" using B_frame [OF su] by blast
  ultimately show ?case using t(1) u(1,2) by simp
qed

end

lemma bl_ctx_set_any:
  assumes "scope s c" "symbol_no s k i"
  shows "\<exists>t. bl_ctx_set c k v s = Ret v t \<and> scope t c \<and> same_but c s t
    \<and> binds t c = (binds s c)(i := (if v = NULL then None else Some v))"
proof -
  obtain d cx where d: "heap s c = Some d" "val_type d = BL_VAL_TYPE_CTX" "payload d = U_ctx cx" "ctx_lens cx"
      "\<not> write_to_parent cx" "ctx_get cx = None"
    using assms(1) by (auto simp: scope_def)
  obtain x e where e: "heap s k = Some e" "payload e = U_str x i"
    using assms(2) by (auto simp: symbol_no_def is_symbol_def)
  let ?cx = "ctx_store i k v cx"
  let ?t = "put_val c (d\<lparr>payload := U_ctx ?cx\<rparr>) s"
  have run: "bl_ctx_set c k v s = Ret v ?t"
    using d e by (simp add: bl_ctx_set_def ctx_update_def)
  have "scope ?t c" using d ctx_store_lens [OF d(4)] by (simp add: scope_def ctx_store_vals [OF d(4)])
  moreover have "binds ?t c = (binds s c)(i := (if v = NULL then None else Some v))"
  proof
    fix j
    show "binds ?t c j = ((binds s c)(i := (if v = NULL then None else Some v))) j"
      using d ctx_store_vals [OF d(4), where key = k and v = v and i = i] by (auto simp: binds_def)
  qed
  moreover have "same_but c s ?t" by (simp add: same_but_def)
  ultimately show ?thesis using run by blast
qed

lemma bl_ctx_set_law:
  assumes "scope s c" "symbol_no s k i" "v \<noteq> NULL"
  shows "\<exists>t. bl_ctx_set c k v s = Ret v t \<and> scope t c \<and> binds t c = (binds s c)(i \<mapsto> v) \<and> same_but c s t"
  using bl_ctx_set_any [OF assms(1,2), of v] assms(3) by auto

interpretation ctxs: scope_laws binds bl_ctx_set scope symbol_no
proof (unfold_locales, goal_cases)
  case (1 s c k i v)
  then show ?case by (rule bl_ctx_set_law)
next
  case (2 s c t k i)
  have "k \<noteq> c" using 2(1,3) by (auto simp: scope_def symbol_no_def is_symbol_def)
  with 2 show ?case by (simp add: same_but_def symbol_no_def is_symbol_def)
next
  case (3 c s t c')
  then show ?case by (intro ext) (simp add: binds_def same_but_def)
qed

section \<open>Lookup\<close>

definition plain_ctx :: "store \<Rightarrow> ptr \<Rightarrow> bl_ctx \<Rightarrow> bool" where
  "plain_ctx s ctx k \<longleftrightarrow> (\<exists>c. heap s ctx = Some c \<and> payload c = U_ctx k) \<and> ctx_lens k \<and> ctx_get k = None"

text \<open>A name that is looked up as it is: neither quoted nor qualified.\<close>

definition plain_name :: "string \<Rightarrow> bool" where
  "plain_name x \<longleftrightarrow> \<not> (x \<noteq> [] \<and> hd x = CHR 0x27) \<and> strstr x ''::'' = None"

definition plain_key :: "store \<Rightarrow> ptr \<Rightarrow> nat \<Rightarrow> bool" where
  "plain_key s p i \<longleftrightarrow> p \<noteq> NULL \<and> (\<exists>x. is_symbol s p x i \<and> plain_name x)"

text \<open>\<open>resolves s i ctx v\<close>: from the context \<open>ctx\<close> the symbol number \<open>i\<close> stands for \<open>v\<close>, NULL when it is unbound.\<close>

inductive resolves :: "store \<Rightarrow> nat \<Rightarrow> ptr \<Rightarrow> ptr \<Rightarrow> bool" for s :: store and i :: nat where
  own: "plain_ctx s ctx k \<Longrightarrow> binds s ctx i = Some v \<Longrightarrow> resolves s i ctx v"
| outer: "plain_ctx s ctx k \<Longrightarrow> binds s ctx i = None \<Longrightarrow> parent k \<noteq> NULL \<Longrightarrow> resolves s i (parent k) v \<Longrightarrow>
    resolves s i ctx v"
| unbound: "plain_ctx s ctx k \<Longrightarrow> binds s ctx i = None \<Longrightarrow> parent k = NULL \<Longrightarrow> resolves s i ctx NULL"

lemma ctx_lookup_step:
  assumes "plain_ctx s ctx k" "plain_key s key i"
  shows "ctx_lookup (Suc n) getter ctx key s = (case binds s ctx i of Some v \<Rightarrow> Ret v s
    | None \<Rightarrow> if parent k \<noteq> NULL then ctx_lookup n getter (parent k) key s else Ret NULL s)"
proof -
  obtain c where c: "heap s ctx = Some c" "payload c = U_ctx k" "ctx_lens k" "ctx_get k = None"
    using assms(1) by (auto simp: plain_ctx_def)
  obtain x e where x: "heap s key = Some e" "val_type e = BL_VAL_TYPE_SYMBOL" "payload e = U_str x i"
      "plain_name x" "key \<noteq> NULL"
    using assms(2) by (auto simp: plain_key_def is_symbol_def)
  show ?thesis
    using c x
    by (auto simp: ctx_lookup.simps binds_def plain_name_def ctx_slot_def ctx_lens_def)
qed

lemma ctx_lookup_resolves:
  "resolves s i ctx v \<Longrightarrow> plain_key s key i \<Longrightarrow> \<exists>n0. \<forall>n \<ge> n0. ctx_lookup n getter ctx key s = Ret v s"
proof (induction rule: resolves.induct)
  case (own ctx k v)
  then show ?case by (intro exI [of _ 1]) (auto simp: ctx_lookup_step dest!: Suc_le_D)
next
  case (outer ctx k v)
  then obtain n0 where "\<forall>n \<ge> n0. ctx_lookup n getter (parent k) key s = Ret v s" by blast
  then have "ctx_lookup n getter ctx key s = Ret v s" if "Suc n0 \<le> n" for n
    using that outer.hyps outer.prems by (cases n) (auto simp: ctx_lookup_step)
  then show ?case by blast
next
  case (unbound ctx k)
  then show ?case by (intro exI [of _ 1]) (auto simp: ctx_lookup_step dest!: Suc_le_D)
qed

lemma plain_ctx_unique: "plain_ctx s ctx k \<Longrightarrow> plain_ctx s ctx l \<Longrightarrow> l = k"
  by (auto simp: plain_ctx_def)

lemma resolves_unique: "resolves s i ctx v \<Longrightarrow> resolves s i ctx w \<Longrightarrow> v = w"
proof (induction arbitrary: w rule: resolves.induct)
  case (own ctx k v)
  from own(3) show ?case by (cases rule: resolves.cases) (use own(2) in simp_all)
next
  case up: (outer ctx k v)
  from up.prems show ?case
  proof (cases rule: resolves.cases)
    case (outer l)
    from plain_ctx_unique [OF up.hyps(1) outer(1)] outer(4) have "resolves s i (parent k) w" by simp
    then show ?thesis by (rule up.IH)
  next
    case (unbound l)
    from plain_ctx_unique [OF up.hyps(1) unbound(2)] unbound(4) up.hyps(3) show ?thesis by simp
  qed (use up.hyps(2) in simp)
next
  case none: (unbound ctx k)
  from none(4) show ?case
  proof (cases rule: resolves.cases)
    case (outer l)
    from plain_ctx_unique [OF none(1) outer(1)] outer(3) none(3) show ?thesis by simp
  qed (use none(2) in simp_all)
qed

section \<open>Function parameters\<close>

lemma is_list_cons_type: "is_list s p cs xs \<Longrightarrow> \<forall>a \<in> set cs. has_type s a BL_VAL_TYPE_CONS"
  by (induction cs arbitrary: p xs) (auto simp: has_type_def)

lemma same_but_list: "same_but c s t \<Longrightarrow> has_type s c BL_VAL_TYPE_CTX \<Longrightarrow> is_list s p cs xs \<Longrightarrow> is_list t p cs xs"
proof -
  assume a: "same_but c s t" "has_type s c BL_VAL_TYPE_CTX" "is_list s p cs xs"
  have "c \<notin> set cs" using a(2,3)
    by (induction cs arbitrary: p xs) (auto simp: has_type_def)
  then show ?thesis using a(1) by (intro is_list_frame [OF a(3)]) (auto simp: same_but_def)
qed

lemma scope_type: "scope s c \<Longrightarrow> has_type s c BL_VAL_TYPE_CTX"
  by (auto simp: scope_def has_type_def)

lemma same_but_heap_ok: "same_but c s t \<Longrightarrow> scope s c \<Longrightarrow> scope t c \<Longrightarrow> heap_ok s \<Longrightarrow> heap_ok t"
proof (rule heap_okI)
  fix p
  assume a: "same_but c s t" "scope s c" "scope t c" "heap_ok s"
  then have "heap s p \<noteq> None \<longleftrightarrow> 0 < p \<and> p < next_addr s" by (simp add: heap_ok_def)
  with a show "heap t p \<noteq> None \<longleftrightarrow> 0 < p \<and> p < next_addr t"
    by (cases "p = c") (auto simp: same_but_def scope_def)
qed (simp add: same_but_def heap_ok_def)

text \<open>
  \<open>bl_set_params\<close> pairs names and values up to the end of the shorter list and assigns them in order.
\<close>

definition params_body :: "ptr \<Rightarrow> ptr \<Rightarrow> ptr \<Rightarrow> (unit + ptr) BL" where
  "params_body ctx argsk_i argsv_i = bindM (get_car argsk_i) (\<lambda>k. bindM (get_car argsv_i) (\<lambda>v.
     bindM (bl_ctx_set ctx k v) (\<lambda>_. bindM (get_cdr argsv_i) (\<lambda>d. returnM (if d = NULL then Inl () else Inr d)))))"

lemma is_list_step:
  assumes "is_list s p cs (x # xs)" "heap_ok s"
  obtains d ds where "cs = p # ds" "get_car p s = Ret x s" "get_cdr p s = Ret d s" "is_list s d ds xs" "p \<noteq> NULL"
proof -
  from assms(1) obtain ds where cs: "cs = p # ds" by (cases cs) auto
  with assms(1) obtain d c where "heap s p = Some c" "payload c = U_cons x d" "is_list s d ds xs" by auto
  with cs that is_list_pos [OF assms] show ?thesis by simp
qed

lemma params_loop:
  assumes "is_list s ks kcs knames" "is_list s vs vcs args" "scope s c" "heap_ok s" "args \<noteq> []"
    "list_all2 (\<lambda>kv i. symbol_no s (fst kv) i \<and> snd kv \<noteq> NULL) (zip knames args) is" "length kcs < n"
  shows "\<exists>r t. for_cdr n (params_body c) ks vs s = Ret r t \<and> ctxs.assign_all c (zip knames args) s = Ret () t"
  using assms
proof (induction knames arbitrary: s ks kcs vs vcs args "is" n)
  case Nil
  then obtain m where "n = Suc m" by (cases n) auto
  with Nil show ?case by (cases kcs) auto
next
  case (Cons k knames)
  then obtain m where n: "n = Suc m" by (cases n) auto
  obtain v ws where args: "args = v # ws" using Cons.prems(5) by (cases args) auto
  obtain kd kcs' where kd: "kcs = ks # kcs'" "get_car ks s = Ret k s" "get_cdr ks s = Ret kd s"
      "is_list s kd kcs' knames" "ks \<noteq> NULL"
    by (rule is_list_step [OF Cons.prems(1,4)])
  obtain vd vcs' where vd: "vcs = vs # vcs'" "get_car vs s = Ret v s"
    by (rule is_list_step [OF Cons.prems(2) [unfolded args] Cons.prems(4)])
  obtain i js where i: "is = i # js" "symbol_no s k i" "v \<noteq> NULL"
      "list_all2 (\<lambda>kv i. symbol_no s (fst kv) i \<and> snd kv \<noteq> NULL) (zip knames ws) js"
    using Cons.prems(6) by (auto simp: list_all2_Cons1 args)
  obtain t where t: "bl_ctx_set c k v s = Ret v t" "scope t c" "same_but c s t"
    using bl_ctx_set_law [OF Cons.prems(3) i(2,3)] by blast
  note ty = scope_type [OF Cons.prems(3)]
  have ok: "heap_ok t" by (rule same_but_heap_ok [OF t(3) Cons.prems(3) t(2) Cons.prems(4)])
  obtain vd' where vd': "get_cdr vs t = Ret vd' t" "is_list t vd' vcs' ws"
    by (rule is_list_step [OF same_but_list [OF t(3) ty Cons.prems(2) [unfolded args]] ok]) (use vd(1) in simp)
  obtain kd' where kd': "get_cdr ks t = Ret kd' t" "is_list t kd' kcs' knames"
    by (rule is_list_step [OF same_but_list [OF t(3) ty Cons.prems(1)] ok]) (use kd(1) in simp)
  have body: "params_body c ks vs s = Ret (if vd' = NULL then Inl () else Inr vd') t"
    using kd(2) vd(2) t(1) vd'(1) by (simp add: params_body_def)
  show ?case
  proof (cases "vd' = NULL")
    case True
    then have "ws = []" using vd'(2) ok by simp
    with True body t(1) kd(5) args show ?thesis by (simp add: n)
  next
    case False
    then have ws: "ws \<noteq> []" using vd'(2) by (cases vcs') auto
    have js: "list_all2 (\<lambda>kv i. symbol_no t (fst kv) i \<and> snd kv \<noteq> NULL) (zip knames ws) js"
      using i(4) ctxs.key_kept [OF Cons.prems(3) t(3)] by (auto elim: list_all2_mono)
    have "length kcs' < m" using Cons.prems(7) kd(1) n by simp
    from Cons.IH [OF kd'(2) vd'(2) t(2) ok ws js this] obtain r u where
      "for_cdr m (params_body c) kd' vd' t = Ret r u" "ctxs.assign_all c (zip knames ws) t = Ret () u" by blast
    with body kd(5) kd'(1) t(1) False args show ?thesis by (simp add: n)
  qed
qed

lemma bl_set_params_run:
  "bl_set_params R c ks vs = bindM (for_cdr (rt_fuel R) (params_body c) ks vs) (\<lambda>r. returnM ())"
  by (simp add: bl_set_params_def params_body_def [abs_def])

section \<open>Allocation only\<close>

text \<open>Reversing a list only allocates: every value stays as it is.\<close>

lemma for_cdr_below:
  assumes "\<And>i x s r t. heap_ok s \<Longrightarrow> body i x s = Ret r t \<Longrightarrow> heap_ok t \<and> same_heap_below s t"
  shows "heap_ok s \<Longrightarrow> for_cdr n body i x s = Ret r t \<Longrightarrow> heap_ok t \<and> same_heap_below s t"
proof (induction n arbitrary: i x s)
  case (Suc n)
  show ?case
  proof (cases "i = NULL")
    case False
    with Suc.prems(2) obtain r1 t1 where r1: "body i x s = Ret r1 t1"
      and rest: "(case r1 of Inl v \<Rightarrow> returnM (Inl v)
        | Inr y \<Rightarrow> bindM (get_cdr i) (\<lambda>j. for_cdr n body j y)) t1 = Ret r t"
      by (auto simp: bindM_eq_Ret_iff)
    have t1: "heap_ok t1" "same_heap_below s t1" using assms [OF Suc.prems(1) r1] by simp_all
    show ?thesis
    proof (cases r1)
      case (Inr y)
      with rest obtain j where "for_cdr n body j y t1 = Ret r t" by (auto dest: read_stateD)
      from Suc.IH [OF t1(1) this] t1(2) show ?thesis by (blast intro: same_heap_below_trans)
    qed (use rest t1 in auto)
  qed (use Suc.prems in auto)
qed simp

lemma bl_list_reverse_below:
  assumes "heap_ok s" "bl_list_reverse p s = Ret q t"
  shows "same_heap_below s t"
proof -
  let ?body = "\<lambda>i retval. bindM (get_car i) (\<lambda>a. bindM (bl_list_prepend retval a) (\<lambda>q. returnM (Inr q)))"
  have body: "heap_ok t \<and> same_heap_below s t"
    if "heap_ok s" "?body i x s = Ret (r :: ptr + ptr) t" for i x s r t
    using that new_val_below [OF that(1)]
    by (auto simp: bl_list_prepend_def bindM_eq_Ret_iff dest!: read_stateD)
  from assms(2) [unfolded bl_list_reverse_def] obtain r t1 where
      r: "for_cdr (Suc (next_addr s)) ?body p NULL s = Ret (r :: ptr + ptr) t1"
      "(case r of Inl x \<Rightarrow> returnM x | Inr x \<Rightarrow> returnM x) t1 = Ret q t"
    by (rule bindM_RetE)
  then have "t = t1" by (cases r) auto
  with for_cdr_below [OF body assms(1) r(1)] show ?thesis by simp
qed


lemma prepend_all_below:
  "heap_ok s \<Longrightarrow> prepend_all bl_list_prepend xs L s = Ret q t \<Longrightarrow> heap_ok t \<and> same_heap_below s t"
proof (induction xs arbitrary: L s)
  case (Cons x xs)
  then obtain p u where "bl_list_prepend L x s = Ret p u" "prepend_all bl_list_prepend xs p u = Ret q t" by auto
  with Cons new_val_below [OF Cons.prems(1)] show ?case
    unfolding bl_list_prepend_def by (meson same_heap_below_trans)
qed simp

text \<open>\<open>makes mk\<close>: the constructor \<open>mk\<close> returns a value from every well-formed state and changes no value.\<close>

definition makes :: "ptr BL \<Rightarrow> bool" where
  "makes mk \<longleftrightarrow> (\<forall>s. wf_store s \<longrightarrow> (\<exists>v t. mk s = Ret v t \<and> v \<noteq> NULL \<and> same_heap_below s t
     \<and> wf_store t \<and> evolves s t))"

lemma makesI:
  assumes "keeps safe_step mk"
    "\<And>s. heap_ok s \<Longrightarrow> \<exists>v t. mk s = Ret v t \<and> v \<noteq> NULL \<and> same_heap_below s t"
  shows "makes mk"
  unfolding makes_def
proof (intro allI impI)
  fix s
  assume wf: "wf_store s"
  then obtain v t where "mk s = Ret v t" "v \<noteq> NULL" "same_heap_below s t"
    using assms(2) [of s] by (auto simp: wf_store_def)
  with safe_run [OF assms(1) wf] show "\<exists>v t. mk s = Ret v t \<and> v \<noteq> NULL \<and> same_heap_below s t
     \<and> wf_store t \<and> evolves s t" by blast
qed

lemma makes_new:
  assumes "tag_ok T u" "T \<noteq> BL_VAL_TYPE_SYMBOL"
  shows "makes (new_val T u)"
proof (rule makesI)
  show "keeps safe_step (new_val T u)" using assms by (rule new_val_safe)
  show "\<exists>v t. new_val T u s = Ret v t \<and> v \<noteq> NULL \<and> same_heap_below s t" if "heap_ok s" for s
    using new_val_below [OF that, of T u] by (auto simp: run_new_val)
qed

lemma makes_return: "v \<noteq> NULL \<Longrightarrow> makes (returnM v)"
  by (rule makesI) (auto intro: safe.keeps_return)

lemma makes_consts: "makes bl_mk_null" "makes (bl_mk_bool b)" "makes (bl_mk_str x)" "makes (bl_mk_type T)"
    "makes (bl_mk_err E)"
  by (auto simp: bl_mk_null_def bl_mk_bool_def bl_mk_str_def bl_mk_type_def bl_mk_err_def
      intro!: makes_return makes_new)

lemma makes_bind:
  assumes "makes m" "\<And>v. makes (f v)"
  shows "makes (bindM m f)"
  unfolding makes_def
proof (intro allI impI)
  fix s
  assume "wf_store s"
  with assms(1) obtain v t where t: "m s = Ret v t" "same_heap_below s t" "wf_store t" "evolves s t"
    unfolding makes_def by blast
  from assms(2) [of v] t(3) obtain w u where "f v t = Ret w u" "w \<noteq> NULL" "same_heap_below t u" "wf_store u"
      "evolves t u" unfolding makes_def by blast
  with t show "\<exists>v t. bindM m f s = Ret v t \<and> v \<noteq> NULL \<and> same_heap_below s t \<and> wf_store t \<and> evolves s t"
    by (auto intro: same_heap_below_trans evolves_trans)
qed

lemma makes_list: "xs \<noteq> [] \<Longrightarrow> makes (bl_mk_list xs)"
proof (rule makesI)
  show "keeps safe_step (bl_mk_list xs)" by (rule list_ops_safe)
  fix s
  assume xs: "xs \<noteq> []" and ok: "heap_ok s"
  obtain q t where q: "bl_mk_list xs s = Ret q t" "heap_ok t" "list_rep t q xs"
    using bl_mk_list_spec [OF ok xs] by blast
  have "q \<noteq> NULL" using q(2,3) xs is_list_NULL [OF q(2)] by (fastforce simp: list_rep_def)
  moreover obtain p u where p: "prepend_all bl_list_prepend xs NULL s = Ret p u" "bl_list_reverse p u = Ret q t"
    using q(1) xs by (auto simp: bl_mk_list_def)
  have "same_heap_below s t"
    using prepend_all_below [OF ok p(1)] bl_list_reverse_below [OF _ p(2)] same_heap_below_trans by blast
  ultimately show "\<exists>v t. bl_mk_list xs s = Ret v t \<and> v \<noteq> NULL \<and> same_heap_below s t" using q(1) by blast
qed

section \<open>The standard context\<close>

text \<open>\<open>bound s ctx nm v\<close>: the symbol named \<open>nm\<close> is interned and the context \<open>ctx\<close> binds it to \<open>v\<close>.\<close>

definition bound :: "store \<Rightarrow> ptr \<Rightarrow> string \<Rightarrow> ptr \<Rightarrow> bool" where
  "bound s ctx nm v \<longleftrightarrow> (\<exists>k i. map_of (symbol_table s) nm = Some k \<and> is_symbol s k nm i \<and> binds s ctx i = Some v)"

lemma below_scope: "same_heap_below s t \<Longrightarrow> scope s c \<Longrightarrow> scope t c"
  unfolding scope_def same_heap_below_def by blast

lemma below_binds: "same_heap_below s t \<Longrightarrow> scope s c \<Longrightarrow> binds t c = binds s c"
  by (rule ext) (auto simp: scope_def same_heap_below_def binds_def)

lemma below_bound:
  assumes "same_heap_below s t" "evolves s t" "scope s c" "length nm < 31" "bound s c nm v"
  shows "bound t c nm v"
  using assms below_binds [OF assms(1,3)] evolves_symbol [OF assms(2)]
  unfolding bound_def evolves_def by metis

lemma mk_symbol_below: "heap_ok s \<Longrightarrow> bl_mk_symbol x s = Ret p t \<Longrightarrow> same_heap_below s t"
  using heap_okD(3) [of s] by (cases rule: bl_mk_symbol_cases [of s x]) (auto simp: same_heap_below_def)

text \<open>Assigning to one name keeps the bindings of the others.\<close>

lemma set_bound:
  assumes wf: "wf_store s" and sc: "scope s c" and k: "map_of (symbol_table s) nm = Some k" "is_symbol s k nm i"
  shows "\<exists>t. bl_ctx_set c k v s = Ret v t \<and> wf_store t \<and> scope t c \<and> evolves s t
    \<and> (v \<noteq> NULL \<longrightarrow> bound t c nm v) \<and> (\<forall>nm' w. nm' \<noteq> nm \<longrightarrow> bound s c nm' w \<longrightarrow> bound t c nm' w)"
proof -
  obtain t where t: "bl_ctx_set c k v s = Ret v t" "scope t c" "same_but c s t"
      "binds t c = (binds s c)(i := (if v = NULL then None else Some v))"
    using bl_ctx_set_any [OF sc, of k i v] k(2) by (auto simp: symbol_no_def)
  have wf': "wf_store t" "evolves s t" using safe_run [OF bl_ctx_set_safe wf t(1)] by simp_all
  have tab: "symbol_table t = symbol_table s" using t(3) by (simp add: same_but_def)
  have "bound t c nm v" if "v \<noteq> NULL"
    using that k t(4) tab evolves_symbol [OF wf'(2)] by (auto simp: bound_def)
  moreover have "bound t c nm' w" if other: "nm' \<noteq> nm" "bound s c nm' w" for nm' w
  proof -
    obtain k' i' where k': "map_of (symbol_table s) nm' = Some k'" "is_symbol s k' nm' i'" "binds s c i' = Some w"
      using other(2) by (auto simp: bound_def)
    have "i' \<noteq> i" using symbol_id_unique [OF wf k(2)] k'(2) other(1) by blast
    with k' t(4) tab evolves_symbol [OF wf'(2)] show ?thesis by (auto simp: bound_def)
  qed
  ultimately show ?thesis using t(1,2) wf' by blast
qed

lemma bind_sym_bound:
  assumes wf: "wf_store s" and sc: "scope s c" and nm: "length nm < 31" and mk: "makes mk"
  shows "\<exists>v t s1 s2. bind_sym c nm mk s = Ret () t \<and> wf_store t \<and> scope t c \<and> evolves s t \<and> mk s1 = Ret v s2
    \<and> bound t c nm v \<and> (\<forall>nm' w. nm' \<noteq> nm \<longrightarrow> length nm' < 31 \<longrightarrow> bound s c nm' w \<longrightarrow> bound t c nm' w)"
proof -
  have ok: "heap_ok s" using wf by (simp add: wf_store_def)
  obtain k s1 where s1: "bl_mk_symbol nm s = Ret k s1" using bl_mk_symbol_total by blast
  have wf1: "wf_store s1" "evolves s s1" using safe_run [OF bl_mk_symbol_safe wf s1] by simp_all
  obtain i where i: "is_symbol s1 k nm i" "map_of (symbol_table s1) nm = Some k"
    using bl_mk_symbol_result [OF wf nm s1] by blast
  obtain v s2 where s2: "mk s1 = Ret v s2" "v \<noteq> NULL" "same_heap_below s1 s2" "wf_store s2" "evolves s1 s2"
    using mk wf1(1) unfolding makes_def by blast
  have below: "same_heap_below s s2"
    using mk_symbol_below [OF ok s1] s2(3) same_heap_below_trans by blast
  have sc2: "scope s2 c" using below_scope [OF below sc] .
  have i2: "is_symbol s2 k nm i" "map_of (symbol_table s2) nm = Some k"
    using evolves_symbol [OF s2(5) i(1)] i(2) s2(5) nm by (auto simp: evolves_def)
  obtain t where t: "bl_ctx_set c k v s2 = Ret v t" "wf_store t" "scope t c" "evolves s2 t"
      "bound t c nm v" "\<forall>nm' w. nm' \<noteq> nm \<longrightarrow> bound s2 c nm' w \<longrightarrow> bound t c nm' w"
    using set_bound [OF s2(4) sc2 i2(2,1), of v] s2(2) by blast
  have ev: "evolves s s2" using wf1(2) s2(5) evolves_trans by blast
  have "bind_sym c nm mk s = Ret () t" using s1 s2(1) t(1) by (simp add: bind_sym_def)
  with t s2(1) ev evolves_trans [OF ev t(4)] below_bound [OF below ev sc] show ?thesis by blast
qed

lemma bind_all_bound:
  assumes "wf_store s" "scope s c" "list_all (\<lambda>b. length (fst b) < 31 \<and> makes (snd b)) bs" "distinct (map fst bs)"
  shows "\<exists>t. bind_all c bs s = Ret () t \<and> wf_store t \<and> scope t c \<and> evolves s t
    \<and> (\<forall>nm mk. (nm, mk) \<in> set bs \<longrightarrow> (\<exists>v s1 s2. mk s1 = Ret v s2 \<and> bound t c nm v))
    \<and> (\<forall>nm w. nm \<notin> fst ` set bs \<longrightarrow> length nm < 31 \<longrightarrow> bound s c nm w \<longrightarrow> bound t c nm w)"
  using assms
proof (induction bs arbitrary: s)
  case Nil
  then show ?case by simp
next
  case (Cons b bs)
  obtain nm mk where b: "b = (nm, mk)" by (cases b)
  have nm: "length nm < 31" "makes mk" using Cons.prems(3) b by simp_all
  obtain v t s1 s2 where t: "bind_sym c nm mk s = Ret () t" "wf_store t" "scope t c" "evolves s t" "mk s1 = Ret v s2"
      "bound t c nm v" "\<forall>nm' w. nm' \<noteq> nm \<longrightarrow> length nm' < 31 \<longrightarrow> bound s c nm' w \<longrightarrow> bound t c nm' w"
    using bind_sym_bound [OF Cons.prems(1,2) nm] by blast
  obtain u where u: "bind_all c bs t = Ret () u" "wf_store u" "scope u c" "evolves t u"
      "\<forall>nm mk. (nm, mk) \<in> set bs \<longrightarrow> (\<exists>v s1 s2. mk s1 = Ret v s2 \<and> bound u c nm v)"
      "\<forall>nm w. nm \<notin> fst ` set bs \<longrightarrow> length nm < 31 \<longrightarrow> bound t c nm w \<longrightarrow> bound u c nm w"
    using Cons.IH [OF t(2,3)] Cons.prems(3,4) by auto
  have "nm \<notin> fst ` set bs" using Cons.prems(4) b by simp
  then have first: "bound u c nm v" using u(6) nm(1) t(6) by blast
  have "bind_all c (b # bs) s = Ret () u" using t(1) u(1) by (simp add: b)
  moreover have "\<exists>v s1 s2. mk' s1 = Ret v s2 \<and> bound u c nm' v" if "(nm', mk') \<in> set (b # bs)" for nm' mk'
    using that u(5) first t(5) b by auto
  moreover have "bound u c nm' w" if "nm' \<notin> fst ` set (b # bs)" "length nm' < 31" "bound s c nm' w" for nm' w
    using that u(6) t(7) b by auto
  ultimately show ?case using u(2,3) evolves_trans [OF t(4) u(4)] by blast
qed

text \<open>All names that the standard context binds after the search path, in order.\<close>

definition std_bindings :: "(string \<times> ptr BL) list" where
  "std_bindings = [(''*VERSION*'', bindM (getsM (\<lambda>s. build_version (os s))) bl_mk_str), (''None'', bl_mk_null)]
     @ map (\<lambda>(nt, nm, doc). (nm, returnM (native_oper nt))) builtin_table
     @ [(''car'', returnM (native_oper N_first)), (''cdr'', returnM (native_oper N_rest)),
        (''=='', returnM (native_oper N_eq)), (''True'', bl_mk_bool True), (''False'', bl_mk_bool False)]
     @ map (\<lambda>(nm, T). (''TYPE_'' @ nm, bl_mk_type T)) type_table
     @ map (\<lambda>(nm, T). (''ERR_'' @ nm, bl_mk_err T)) err_table"

lemma bind_all_append: "bind_all c (xs @ ys) = bindM (bind_all c xs) (\<lambda>_. bind_all c ys)"
  by (induction xs) (simp_all add: bindM_assoc)

definition bind_path :: "ptr \<Rightarrow> unit BL" where
  "bind_path retval = bindM (getsM (\<lambda>s. getenv (os s) ''BEARLANGPATH'')) (\<lambda>path_env.
     case path_env of
         Some x \<Rightarrow> bindM (append_strs (split_colon [] x) NULL) (\<lambda>path_val.
                     bind_sym retval ''*PATH*'' (returnM path_val))
       | None \<Rightarrow> bind_sym retval ''*PATH*'' default_path)"

lemma bl_ctx_new_std_bindings:
  "bl_ctx_new_std = bindM (bl_ctx_new NULL) (\<lambda>retval. bindM (bind_path retval) (\<lambda>_.
     bindM (bind_all retval std_bindings) (\<lambda>_. returnM retval)))"
  by (simp add: bl_ctx_new_std_def bind_path_def std_bindings_def bind_all_append bindM_assoc)

lemma native_oper_pos: "0 < native_oper nt"
  by (simp add: native_oper_def)

lemma makes_gets: "(\<And>x. makes (g x)) \<Longrightarrow> makes (bindM (getsM f) g)"
  unfolding makes_def by simp

lemma default_path_makes: "makes default_path"
  unfolding default_path_def by (intro makes_gets makes_bind makes_consts makes_list) simp

lemma std_bindings_ok: "list_all (\<lambda>b. length (fst b) < 31 \<and> makes (snd b)) std_bindings"
proof -
  have "list_all (\<lambda>n. length n < 31) (map fst std_bindings)"
    by (simp add: std_bindings_def builtin_table_def type_table_def err_table_def)
  moreover have "list_all (\<lambda>b. makes (snd b)) std_bindings"
    by (auto simp: std_bindings_def list_all_iff native_oper_pos intro!: makes_gets makes_return makes_consts)
  ultimately show ?thesis by (auto simp: list_all_iff)
qed

lemma std_bindings_distinct: "distinct (map fst std_bindings)"
  by (simp add: std_bindings_def builtin_table_def type_table_def err_table_def)

lemma scope_kept_append:
  assumes "is_list s L cs xs" "wf_store s" "scope s c"
  shows "\<exists>q ds ys t. append_strs zs L s = Ret q t \<and> wf_store t \<and> scope t c \<and> is_list t q ds ys"
  using assms
proof (induction zs arbitrary: s L cs xs)
  case Nil
  then show ?case by auto
next
  case (Cons z zs)
  obtain p s1 where p: "bl_mk_str z s = Ret p s1" "same_heap_below s s1" "wf_store s1"
    using makes_consts(3) [of z] Cons.prems(2) unfolding makes_def by blast
  have l1: "is_list s1 L cs xs" "scope s1 c" "heap_ok s1"
    using same_heap_below_list [OF p(2) Cons.prems(1)] below_scope [OF p(2) Cons.prems(3)] p(3)
    by (simp_all add: wf_store_def)
  obtain q t where t: "bl_list_append L p s1 = Ret q t" "is_list t q (cs @ [next_addr s1]) (xs @ [p])"
      "\<And>a c. heap s1 a = Some c \<Longrightarrow> cs = [] \<or> a \<noteq> last cs \<Longrightarrow> heap t a = Some c"
    by (rule bl_list_append_spec [OF l1(1,3), of p]) blast
  have wf: "wf_store t" using safe_run [OF list_ops_safe(7) p(3) t(1)] by simp
  have "cs = [] \<or> c \<noteq> last cs"
    using scope_type [OF l1(2)] is_list_cons_type [OF l1(1)] last_in_set [of cs]
    by (fastforce simp: has_type_def)
  then have "scope t c" using t(3) l1(2) unfolding scope_def by blast
  from Cons.IH [OF t(2) wf this] p(1) t(1) show ?case by auto
qed

lemma bind_path_scope:
  assumes "wf_store s" "scope s c"
  shows "\<exists>t. bind_path c s = Ret () t \<and> wf_store t \<and> scope t c"
proof (cases "getenv (os s) ''BEARLANGPATH''")
  case None
  with bind_sym_bound [OF assms, of "''*PATH*''" default_path] default_path_makes show ?thesis
    by (auto simp: bind_path_def)
next
  case (Some x)
  obtain q t where t: "append_strs (split_colon [] x) NULL s = Ret q t" "wf_store t" "scope t c"
    using scope_kept_append [of s NULL "[]" "[]" c "split_colon [] x"] assms by auto
  obtain k u where u: "bl_mk_symbol ''*PATH*'' t = Ret k u" using bl_mk_symbol_total by blast
  have wf: "wf_store u" using safe_run [OF bl_mk_symbol_safe t(2) u] by simp
  have sc: "scope u c" using below_scope [OF mk_symbol_below [OF _ u] t(3)] t(2) by (simp add: wf_store_def)
  obtain i where "is_symbol u k ''*PATH*'' i" "map_of (symbol_table u) ''*PATH*'' = Some k"
    using bl_mk_symbol_result [OF t(2) _ u] by auto
  from set_bound [OF wf sc this(2,1), of q] obtain v where
    "bl_ctx_set c k q u = Ret q v" "wf_store v" "scope v c" by blast
  with Some t(1) u show ?thesis by (simp add: bind_path_def bind_sym_def)
qed

lemma bl_ctx_new_scope:
  "\<exists>t. bl_ctx_new NULL s = Ret (next_addr s) t \<and> scope t (next_addr s)"
  by (auto simp: bl_ctx_new_def run_new_val scope_def ctx_lens_def)

lemma bl_ctx_new_std_bound:
  assumes "wf_store s"
  shows "\<exists>ctx t. bl_ctx_new_std s = Ret ctx t \<and> wf_store t \<and> scope t ctx
    \<and> (\<forall>nm mk. (nm, mk) \<in> set std_bindings \<longrightarrow> (\<exists>v s1 s2. mk s1 = Ret v s2 \<and> bound t ctx nm v))"
proof -
  let ?c = "next_addr s"
  obtain t where t: "bl_ctx_new NULL s = Ret ?c t" "scope t ?c" using bl_ctx_new_scope by blast
  have wf: "wf_store t" using safe_run [OF bl_ctx_new_safe assms t(1)] by simp
  obtain u where u: "bind_path ?c t = Ret () u" "wf_store u" "scope u ?c"
    using bind_path_scope [OF wf t(2)] by blast
  from bind_all_bound [OF u(2,3) std_bindings_ok std_bindings_distinct] t(1) u(1) show ?thesis
    by (auto simp: bl_ctx_new_std_bindings)
qed

text \<open>A bound name is found by \<open>bl_ctx_get\<close>.\<close>

lemma scope_plain: "scope s c \<Longrightarrow> \<exists>k. plain_ctx s c k"
  by (auto simp: scope_def plain_ctx_def)

lemma bound_lookup:
  assumes "wf_store s" "scope s ctx" "bound s ctx nm v" "plain_name nm" "0 < n"
  shows "\<exists>k. bl_mk_symbol nm s = Ret k s \<and> ctx_lookup n getter ctx k s = Ret v s"
proof -
  obtain k i where k: "map_of (symbol_table s) nm = Some k" "is_symbol s k nm i" "binds s ctx i = Some v"
    using assms(3) by (auto simp: bound_def)
  have "k \<noteq> NULL" using k(2) assms(1) by (auto simp: is_symbol_def wf_store_def dest: heap_okD(1))
  with k(2) assms(4) have key: "plain_key s k i" by (auto simp: plain_key_def)
  obtain cx where cx: "plain_ctx s ctx cx" using scope_plain [OF assms(2)] by blast
  obtain m where "n = Suc m" using assms(5) by (cases n) auto
  with ctx_lookup_step [OF cx key, of m getter] k(1,3) show ?thesis by (simp add: bl_mk_symbol_def)
qed

end
