(* ===== verification/BL_Sexp.thy ===== *)
theory BL_Sexp
  imports BL_Printer
begin

text \<open>
  Expression trees (\<open>sexp\<close>) as the abstract values that structures in the heap represent, and printing:
  the text that \<open>bl_ser_sexp\<close> gives for a structure is the text of the tree it represents. Decimal numbers
  are printed and read back first.
\<close>

section \<open>Decimal numbers\<close>

lemma nat_digits_ne [simp]: "nat_digits n \<noteq> []"
  by (subst nat_digits.simps) simp

lemma nat_digits_chars: "c \<in> set (nat_digits n) \<Longrightarrow> \<exists>d < 10. c = digit_char d"
proof (induction n rule: nat_digits.induct)
  case (1 n)
  show ?case
  proof (cases "n < 10")
    case True
    with "1.prems" show ?thesis by (subst (asm) nat_digits.simps) auto
  next
    case False
    with "1.prems" have "c \<in> set (nat_digits (n div 10)) \<or> c = digit_char (n mod 10)"
      by (subst (asm) nat_digits.simps) auto
    with "1.IH" [OF False] show ?thesis by (auto intro: exI [of _ "n mod 10"])
  qed
qed

lemma digits_value_snoc:
  "d < 10 \<Longrightarrow> digits_value acc (xs @ [digit_char d]) = map_option (\<lambda>v. 10 * v + d) (digits_value acc xs)"
  by (induction acc xs rule: digits_value.induct) (auto split: option.splits)

lemma digits_value_nat_digits: "digits_value 0 (nat_digits n) = Some n"
proof (induction n rule: nat_digits.induct)
  case (1 n)
  show ?case
  proof (cases "n < 10")
    case True
    then have "nat_digits n = [digit_char n]" by (subst nat_digits.simps) simp
    with True show ?thesis by simp
  next
    case False
    then have "nat_digits n = nat_digits (n div 10) @ [digit_char (n mod 10)]"
      by (subst nat_digits.simps) simp
    with "1.IH" [OF False] show ?thesis by (simp add: digits_value_snoc)
  qed
qed

lemma zero_value: "digit_value (CHR ''0'') = Some 0" "\<not> isspace (CHR ''0'')"
  by (simp_all add: digit_value_def isspace_def)

lemma digits_value_leading:
  "digits_value 0 (dropWhile (\<lambda>c. c = CHR ''0'' \<or> isspace c) xs) = digits_value 0 xs"
  by (induction xs) (auto simp: zero_value)

lemma digit_char_not_minus: "d < 10 \<Longrightarrow> digit_char d \<noteq> CHR ''-''"
  using of_char_digit_char [of d] by auto

lemma nat_digits_Cons: obtains d cs where "nat_digits n = digit_char d # cs" "d < 10"
  using nat_digits_chars [of "hd (nat_digits n)" n] by (cases "nat_digits n") auto

lemma mpz_get_set: "mpz_set_str (mpz_get_str i) = Some i"
proof (cases "i < 0")
  case True
  obtain d cs where d: "nat_digits (nat (- i)) = digit_char d # cs" "d < 10" by (rule nat_digits_Cons)
  have "digits_value 0 (dropWhile (\<lambda>c. c = CHR ''0'' \<or> isspace c) (digit_char d # cs)) = Some (nat (- i))"
    unfolding digits_value_leading d(1) [symmetric] by (rule digits_value_nat_digits)
  with True d show ?thesis
    by (simp add: mpz_get_str_def mpz_set_str_def Let_def isspace_def [of "CHR ''-''"] del: dropWhile.simps)
      (simp add: isspace_def)
next
  case False
  obtain d cs where d: "nat_digits (nat i) = digit_char d # cs" "d < 10" by (rule nat_digits_Cons)
  have "digits_value 0 (dropWhile (\<lambda>c. c = CHR ''0'' \<or> isspace c) (digit_char d # cs)) = Some (nat i)"
    unfolding digits_value_leading d(1) [symmetric] by (rule digits_value_nat_digits)
  moreover have "dropWhile isspace (digit_char d # cs) = digit_char d # cs" using d(2) by simp
  ultimately show ?thesis
    using False d digit_char_not_minus [OF d(2)]
    by (simp add: mpz_get_str_def mpz_set_str_def Let_def del: dropWhile.simps)
qed

section \<open>Expression trees\<close>

datatype sexp = S_num int | S_sym string | S_str string | S_if | S_list "sexp list"

text \<open>\<open>rep s p t\<close>: the structure at \<open>p\<close> represents the tree \<open>t\<close>.\<close>

definition cell_is :: "store \<Rightarrow> ptr \<Rightarrow> bl_val_type_t \<Rightarrow> bl_union \<Rightarrow> bool" where
  "cell_is s p T u \<longleftrightarrow> (\<exists>c. heap s p = Some c \<and> val_type c = T \<and> payload c = u)"

fun rep :: "store \<Rightarrow> ptr \<Rightarrow> sexp \<Rightarrow> bool"
  and reps :: "store \<Rightarrow> ptr list \<Rightarrow> sexp list \<Rightarrow> bool" where
  "rep s p (S_num i) \<longleftrightarrow> cell_is s p BL_VAL_TYPE_NUMBER (U_num i)"
| "rep s p (S_sym x) \<longleftrightarrow> (\<exists>i. cell_is s p BL_VAL_TYPE_SYMBOL (U_str x i))"
| "rep s p (S_str x) \<longleftrightarrow> (\<exists>i. cell_is s p BL_VAL_TYPE_STRING (U_str x i))"
| "rep s p S_if \<longleftrightarrow> (\<exists>u. cell_is s p BL_VAL_TYPE_OPER_IF u)"
| "rep s p (S_list ts) \<longleftrightarrow> (if ts = [] then cell_is s p BL_VAL_TYPE_CONS (U_cons NULL NULL)
     else \<exists>cs xs. is_list s p cs xs \<and> reps s xs ts)"
| "reps s xs [] \<longleftrightarrow> xs = []"
| "reps s xs (t # ts) \<longleftrightarrow> (\<exists>x ys. xs = x # ys \<and> rep s x t \<and> reps s ys ts)"

lemma reps_length: "reps s xs ts \<Longrightarrow> length xs = length ts"
  by (induction ts arbitrary: xs) auto

lemma reps_append: "reps s xs ts \<Longrightarrow> rep s p t \<Longrightarrow> reps s (xs @ [p]) (ts @ [t])"
  by (induction ts arbitrary: xs) auto

text \<open>The text of a tree.\<close>

fun show_sexp :: "sexp \<Rightarrow> string" and show_rest :: "sexp list \<Rightarrow> string" where
  "show_sexp (S_num i) = mpz_get_str i"
| "show_sexp (S_sym x) = x"
| "show_sexp (S_str x) = DQ # x @ [DQ]"
| "show_sexp S_if = ''if''"
| "show_sexp (S_list ts) = ''('' @ (case ts of [] \<Rightarrow> [] | t # us \<Rightarrow> show_sexp t @ show_rest us) @ '')''"
| "show_rest [] = []"
| "show_rest (t # ts) = '' '' @ show_sexp t @ show_rest ts"

fun height :: "sexp \<Rightarrow> nat" and heights :: "sexp list \<Rightarrow> nat" where
  "height (S_num i) = 0"
| "height (S_sym x) = 0"
| "height (S_str x) = 0"
| "height S_if = 0"
| "height (S_list ts) = Suc (heights ts)"
| "heights [] = 0"
| "heights (t # ts) = max (height t) (heights ts)"

lemma heights_mem: "t \<in> set ts \<Longrightarrow> height t \<le> heights ts"
  by (induction ts) auto

section \<open>Printing\<close>

lemma rep_nonnull: "heap_ok s \<Longrightarrow> rep s p t \<Longrightarrow> p \<noteq> NULL"
proof (cases t)
  case (S_list ts)
  assume "heap_ok s" "rep s p t"
  moreover have "p \<noteq> NULL" if "is_list s p cs xs" "reps s xs ts" "ts \<noteq> []" for cs xs
    using that is_list_pos [OF that(1) \<open>heap_ok s\<close>] is_list_length [OF that(1)] reps_length [OF that(2)]
    by (cases cs) auto
  ultimately show ?thesis
    using S_list by (cases "ts = []") (auto simp: cell_is_def dest: heap_okD(1))
qed (auto simp: cell_is_def dest: heap_okD(1))

lemma rep_head: "heap_ok s \<Longrightarrow> is_list s p cs xs \<Longrightarrow> reps s xs ts \<Longrightarrow> ts \<noteq> [] \<Longrightarrow>
    \<exists>c d. heap s p = Some c \<and> val_type c = BL_VAL_TYPE_CONS \<and> payload c = U_cons (hd xs) d
      \<and> hd xs \<noteq> NULL \<and> p \<noteq> NULL"
  by (cases ts; cases cs) (auto dest: rep_nonnull heap_okD(1))

text \<open>The loop over the elements of a list.\<close>

lemma ser_elems_spec:
  assumes "heap_ok s" "is_list s p cs xs" "reps s xs ts" "ts \<noteq> []"
    and ser: "\<And>x t. t \<in> set ts \<Longrightarrow> rep s x t \<Longrightarrow> ser x s = Ret (show_sexp t) s"
  shows "ser_elems ser p s = Ret (show_sexp (S_list ts)) s"
proof -
  let ?body = "\<lambda>L retval. bindM (get_car L) (\<lambda>x. bindM (ser x) (\<lambda>newval. returnM (Inr (retval @ newval @ '' ''))))"
  let ?txt = "\<lambda>us. concat (map (\<lambda>u. show_sexp u @ '' '') us)"
  let ?Inv = "\<lambda>t retval ys. t = s \<and> (\<exists>us vs. ts = us @ vs \<and> reps s ys vs \<and> retval = ''('' @ ?txt us)"
  have "\<exists>z t. for_cdr (Suc (next_addr s)) ?body p ''('' s = Ret (Inr z :: string + string) t \<and> heap_ok t
      \<and> ?Inv t z ([] :: ptr list) \<and> lists_kept s t"
  proof (rule for_cdr_list [OF assms(2,1)])
    show "length cs < Suc (next_addr s)" using is_list_bound [OF assms(2,1)] by simp
    show "?Inv s ''('' xs" using assms(3) by (auto intro: exI [of _ "[]"])
  next
    fix s1 x i y and ys :: "ptr list"
    assume ok: "heap_ok s1" and inv: "?Inv s1 x (y # ys)" and car: "get_car i s1 = Ret y s1"
    from inv obtain us v vs where h: "s1 = s" "ts = us @ v # vs" "rep s y v" "reps s ys vs" "x = ''('' @ ?txt us"
      by (auto split: if_splits) (metis reps.elims(2) list.distinct(1) list.inject)
    have "ser y s = Ret (show_sexp v) s" using ser h by simp
    then have "?body i x s1 = Ret (Inr (x @ show_sexp v @ '' '') :: string + string) s1"
      using car h(1) by simp
    moreover have "?Inv s1 (x @ show_sexp v @ '' '') ys"
      using h by (auto intro: exI [of _ "us @ [v]"])
    ultimately show "\<exists>z t. ?body i x s1 = Ret (Inr z :: string + string) t \<and> heap_ok t \<and> ?Inv t z ys \<and> lists_kept s1 t"
      using ok by auto
  qed
  then obtain z where z: "for_cdr (Suc (next_addr s)) ?body p ''('' s = Ret (Inr z :: string + string) s"
      "z = ''('' @ ?txt ts"
    by (auto dest: reps_length)
  have "?txt (t # us) = show_sexp t @ show_rest us @ '' ''" for t us
    by (induction us arbitrary: t) simp_all
  with z assms(4) show ?thesis
    by (cases ts) (simp_all add: ser_elems_def run_bindM butlast_append del: for_cdr.simps)
qed

lemma ser_atom_rep:
  assumes "heap_ok s" "rep s p t" "height t = 0"
  shows "ser_val (Suc n) p s = Ret (show_sexp t) s"
  using assms(2,3) rep_nonnull [OF assms(1,2)] by (cases t) (auto simp: ser_val.simps cell_is_def)

lemma ser_val_rep:
  assumes "heap_ok s"
  shows "rep s p t \<Longrightarrow> height t < n \<Longrightarrow> ser_val n p s = Ret (show_sexp t) s"
proof (induction t arbitrary: p n)
  case (S_list ts)
  then obtain m where n: "n = Suc m" "heights ts < m" by (cases n) auto
  show ?case
  proof (cases "ts = []")
    case True
    with S_list.prems rep_nonnull [OF assms S_list.prems(1)] show ?thesis
      by (auto simp: n ser_val.simps cell_is_def)
  next
    case False
    with S_list.prems(1) obtain cs xs where xs: "is_list s p cs xs" "reps s xs ts" by auto
    obtain c d where c: "heap s p = Some c" "val_type c = BL_VAL_TYPE_CONS" "payload c = U_cons (hd xs) d"
        "hd xs \<noteq> NULL" "p \<noteq> NULL"
      using rep_head [OF assms xs False] by blast
    have "ser_elems (ser_val m) p s = Ret (show_sexp (S_list ts)) s"
    proof (rule ser_elems_spec [OF assms xs False])
      show "ser_val m x s = Ret (show_sexp t) s" if "t \<in> set ts" "rep s x t" for x t
        using S_list.IH [OF that] heights_mem [OF that(1)] n(2) by simp
    qed
    with c show ?thesis by (simp add: n(1) ser_val.simps)
  qed
next
  case (S_num x)
  then show ?case using ser_atom_rep [OF assms S_num(1)] by (cases n) simp_all
next
  case (S_sym x)
  then show ?case using ser_atom_rep [OF assms S_sym(1)] by (cases n) simp_all
next
  case (S_str x)
  then show ?case using ser_atom_rep [OF assms S_str(1)] by (cases n) simp_all
next
  case S_if
  then show ?case using ser_atom_rep [OF assms S_if(1)] by (cases n) simp_all
qed

text \<open>
  The nesting of a represented tree is bounded by the number of addresses: the structures along a path
  into it lie at different addresses, since a structure represents one tree only.
\<close>

lemma reps_unique:
  assumes "\<And>p t u. t \<in> set ts \<Longrightarrow> rep s p t \<Longrightarrow> rep s p u \<Longrightarrow> t = u"
  shows "reps s xs ts \<Longrightarrow> reps s xs us \<Longrightarrow> ts = us"
  using assms
proof (induction ts arbitrary: xs us)
  case Nil
  then show ?case by (cases us) auto
next
  case (Cons t ts)
  then obtain u vs where us: "us = u # vs" by (cases us) auto
  with Cons.prems(1,2) obtain x ys where "rep s x t" "rep s x u" "reps s ys ts" "reps s ys vs" by auto
  moreover have "ts = vs" if "reps s ys ts" "reps s ys vs" for ys
    using Cons.IH [OF that] Cons.prems(3) by auto
  ultimately show ?case using us Cons.prems(3) by auto
qed

fun sexp_tag :: "sexp \<Rightarrow> bl_val_type_t" where
  "sexp_tag (S_num i) = BL_VAL_TYPE_NUMBER"
| "sexp_tag (S_sym x) = BL_VAL_TYPE_SYMBOL"
| "sexp_tag (S_str x) = BL_VAL_TYPE_STRING"
| "sexp_tag S_if = BL_VAL_TYPE_OPER_IF"
| "sexp_tag (S_list ts) = BL_VAL_TYPE_CONS"

lemma rep_cell: "rep s p t \<Longrightarrow> \<exists>c. heap s p = Some c \<and> val_type c = sexp_tag t"
proof (cases t)
  case (S_list ts)
  assume r: "rep s p t"
  show ?thesis
  proof (cases "ts = []")
    case False
    with r S_list obtain cs xs where "is_list s p cs xs" "reps s xs ts" by auto
    with False S_list show ?thesis by (cases ts; cases cs) auto
  qed (use r S_list in \<open>auto simp: cell_is_def\<close>)
qed (auto simp: cell_is_def)

lemma rep_tag_unique: "rep s p t \<Longrightarrow> rep s p u \<Longrightarrow> sexp_tag t = sexp_tag u"
  by (drule rep_cell, drule rep_cell) (auto simp del: rep.simps)

lemma rep_atom_unique: "rep s p t \<Longrightarrow> rep s p u \<Longrightarrow> height t = 0 \<Longrightarrow> t = u"
  using rep_tag_unique [of s p t u] by (cases t; cases u) (auto simp: cell_is_def)

lemma rep_unique:
  assumes "heap_ok s"
  shows "rep s p t \<Longrightarrow> rep s p u \<Longrightarrow> t = u"
proof (induction t arbitrary: p u)
  case (S_list ts)
  obtain us where u: "u = S_list us"
    using rep_tag_unique [OF S_list.prems] by (cases u) auto
  show ?case
  proof (cases "ts = [] \<or> us = []")
    case True
    with S_list.prems u rep_head [OF assms] show ?thesis
      by (cases "ts = []"; cases "us = []") (fastforce simp: cell_is_def)+
  next
    case False
    with S_list.prems u obtain cs xs ds ys where
      l: "is_list s p cs xs" "reps s xs ts" "is_list s p ds ys" "reps s ys us" by auto
    have "xs = ys" using is_list_unique [OF l(1,3) assms] by simp
    with l(2,4) S_list.IH have "ts = us" by (blast intro: reps_unique)
    with u show ?thesis by simp
  qed
qed (simp_all add: rep_atom_unique del: rep.simps)

lemma rep_dom: "rep s p t \<Longrightarrow> heap_ok s \<Longrightarrow> p \<in> {0<..<next_addr s}"
  using rep_cell heap_okD(1) by fastforce

lemma reps_mem: "reps s xs ts \<Longrightarrow> t \<in> set ts \<Longrightarrow> \<exists>x. rep s x t"
  by (induction ts arbitrary: xs) auto

lemma heights_attained: "ts \<noteq> [] \<Longrightarrow> \<exists>t \<in> set ts. height t = heights ts"
proof (induction ts)
  case (Cons t ts)
  show ?case
  proof (cases "heights ts \<le> height t")
    case False
    then have "ts \<noteq> []" by auto
    with Cons.IH False show ?thesis by auto
  qed simp
qed simp

lemma height_size: "t \<in> set ts \<Longrightarrow> size t < size (S_list ts)"
  by (induction ts) auto

text \<open>\<open>A\<close> are the addresses of the structures that enclose the one at \<open>p\<close>.\<close>

definition encloses :: "store \<Rightarrow> ptr set \<Rightarrow> sexp \<Rightarrow> bool" where
  "encloses s A t \<longleftrightarrow> A \<subseteq> {0<..<next_addr s} \<and> (\<forall>a \<in> A. \<exists>u. rep s a u \<and> size t < size u)"

lemma enclosed_new:
  assumes "heap_ok s" "rep s p t" "encloses s A t"
  shows "p \<notin> A"
proof
  assume "p \<in> A"
  with assms(3) obtain u where "rep s p u" "size t < size u" by (auto simp: encloses_def)
  with rep_unique [OF assms(1,2)] show False by blast
qed

lemma enclosed_card:
  assumes "heap_ok s" "rep s p t" "encloses s A t"
  shows "card (insert p A) = Suc (card A)" "Suc (card A) < next_addr s"
proof -
  have A: "A \<subseteq> {0<..<next_addr s}" using assms(3) by (simp add: encloses_def)
  then have "finite A" using finite_subset by blast
  with enclosed_new [OF assms] show c: "card (insert p A) = Suc (card A)" by simp
  have "insert p A \<subseteq> {0<..<next_addr s}" using rep_dom [OF assms(2,1)] A by auto
  then have "card (insert p A) \<le> card {0<..<next_addr s}" by (rule card_mono [rotated]) simp
  with c show "Suc (card A) < next_addr s" using heap_ok_next [OF assms(1)] by simp
qed

lemma encloses_step:
  assumes "heap_ok s" "rep s p (S_list ts)" "encloses s A (S_list ts)" "t \<in> set ts"
  shows "encloses s (insert p A) t"
  using rep_dom [OF assms(2,1)] assms(2,3) height_size [OF assms(4)]
  unfolding encloses_def by (metis insert_iff insert_subset less_trans)

lemma height_bound_path:
  assumes "heap_ok s" "rep s p t" "encloses s A t"
  shows "card A + height t < next_addr s"
  using assms(2,3)
proof (induction t arbitrary: p A)
  case (S_list ts)
  note new = enclosed_card [OF assms(1) S_list.prems]
  show ?case
  proof (cases "ts = []")
    case False
    obtain t where t: "t \<in> set ts" "height t = heights ts" using heights_attained [OF False] by blast
    from False S_list.prems(1) obtain x where x: "rep s x t" using reps_mem t(1) by fastforce
    from S_list.IH [OF t(1) x encloses_step [OF assms(1) S_list.prems t(1)]] t(2) new
    show ?thesis by simp
  qed (use new in simp)
qed (use enclosed_card [OF assms(1)] in \<open>fastforce simp del: rep.simps\<close>)+

lemma height_bound: "heap_ok s \<Longrightarrow> rep s p t \<Longrightarrow> height t < next_addr s"
  using height_bound_path [of s p t "{}"] by (simp add: encloses_def del: rep.simps)

lemma bl_ser_sexp_rep:
  assumes "heap_ok s" "rep s p t"
  shows "bl_ser_sexp p s = Ret (show_sexp t) s"
  using ser_val_rep [OF assms] height_bound [OF assms] by (simp add: bl_ser_sexp_def)

end
