(* ===== verification/BL_Roundtrip.thy ===== *)
theory BL_Roundtrip
  imports BL_Sexp
begin

text \<open>
  Reading is inverse to printing. The text of an expression tree is scanned token by token, and the reader
  builds a structure that represents the tree. While a list is being built its last cell is still
  written, so the representation of what was read so far is kept in the state without those cells.
\<close>

section \<open>Scanning printed text\<close>

lemma longest_keep:
  assumes "\<And>m a trim k. (m, a, trim) \<in> set rs \<Longrightarrow> m s = Some k \<Longrightarrow> k \<le> n"
  shows "longest rs s (Some (n, x)) = Some (n, x)"
  using assms
proof (induction rs)
  case (Cons r rs)
  obtain m a trim where r: "r = (m, a, trim)" by (cases r)
  have "\<not> n < k" if "m s = Some k" for k using Cons.prems [of m a trim k] that r by auto
  with Cons.IH Cons.prems r show ?case by (cases x) (auto split: option.splits)
qed simp

lemma longest_pick:
  assumes "\<And>m a trim k. (m, a, trim) \<in> set pre \<Longrightarrow> m s = Some k \<Longrightarrow> k < n"
    and "\<And>k x. best = Some (k, x) \<Longrightarrow> k < n" and "m s = Some n"
    and "\<And>m a trim k. (m, a, trim) \<in> set post \<Longrightarrow> m s = Some k \<Longrightarrow> k \<le> n"
  shows "longest (pre @ (m, a, trim) # post) s best = Some (n, a, trim)"
  using assms(1,2)
proof (induction pre arbitrary: best)
  case Nil
  have "longest ([] @ (m, a, trim) # post) s best = longest post s (Some (n, a, trim))"
    using Nil.prems(2) assms(3) by (cases best) auto
  then show ?case by (simp add: longest_keep [OF assms(4)])
next
  case (Cons r pre)
  obtain m1 a1 t1 where r: "r = (m1, a1, t1)" by (cases r)
  have m1: "k < n" if "m1 s = Some k" for k using Cons.prems(1) [of m1 a1 t1 k] that r by simp
  show ?case
    unfolding r append_Cons longest.simps
  proof (rule Cons.IH)
    fix k x
    assume "(case m1 s of None \<Rightarrow> best | Some k \<Rightarrow> (case best of None \<Rightarrow> Some (k, a1, t1)
        | Some (j, _) \<Rightarrow> if j < k then Some (k, a1, t1) else best)) = Some (k, x)"
    with m1 Cons.prems(2) show "k < n" by (auto split: option.splits if_splits)
  qed (use Cons.prems(1) in auto)
qed

text \<open>What follows a printed expression: nothing, a space or a closing parenthesis.\<close>

definition stops :: "string \<Rightarrow> bool" where
  "stops r \<longleftrightarrow> r = [] \<or> hd r = CHR '' '' \<or> hd r = CHR '')''"

lemma stops_simps [simp]: "stops []" "stops (CHR '' '' # r)" "stops (CHR '')'' # r)"
  by (simp_all add: stops_def)

lemma takeWhile_stop:
  "stops r \<Longrightarrow> \<not> P (CHR '' '') \<Longrightarrow> \<not> P (CHR '')'') \<Longrightarrow> takeWhile P (x @ r) = takeWhile P x"
proof (induction x)
  case Nil
  then show ?case by (cases r) (auto simp: stops_def)
qed simp

lemma class_stops:
  "\<not> is_digit (CHR '' '')" "\<not> is_digit (CHR '')'')" "\<not> is_symchar (CHR '' '')" "\<not> is_symchar (CHR '')'')"
  by (simp_all add: is_digit_def is_symchar_def is_alpha_def)

lemma m_symbol_text:
  "stops r \<Longrightarrow> x \<noteq> [] \<Longrightarrow> list_all is_symchar x \<Longrightarrow> m_symbol (x @ r) = Some (length x)"
  by (simp add: m_symbol_def takeWhile_stop [where x = x] class_stops list.pred_set
      takeWhile_eq_all_conv [THEN iffD2] del: takeWhile_append2)

lemma m_number_text: "stops r \<Longrightarrow> m_number (x @ r) = m_number x"
proof -
  assume r: "stops r"
  let ?d = "length (takeWhile (\<lambda>c. c = CHR ''-'') x)"
  have "takeWhile (\<lambda>c. c = CHR ''-'') (x @ r) = takeWhile (\<lambda>c. c = CHR ''-'') x"
    using r by (rule takeWhile_stop) simp_all
  moreover have "drop ?d (x @ r) = drop ?d x @ r" using length_takeWhile_le [of _ x] by simp
  moreover have "takeWhile is_digit (drop ?d x @ r) = takeWhile is_digit (drop ?d x)"
    using r class_stops by (intro takeWhile_stop)
  ultimately show ?thesis by (simp only: m_number_def Let_def)
qed

lemma m_lit_text:
  assumes "stops r" "list_all is_symchar w" "m_lit w (x @ r) = Some k"
  shows "k = length w \<and> prefixb w x"
proof -
  from assms(3) have k: "k = length w" "prefixb w (x @ r)" by (auto simp: m_lit_def split: if_splits)
  from k(2) obtain zs where zs: "x @ r = w @ zs" by (auto simp: prefixb_iff)
  then have "prefixb w x"
  proof (cases "length w \<le> length x")
    case True
    with zs show ?thesis by (metis append_eq_append_conv_if append_take_drop_id prefixb_iff)
  next
    case False
    with zs obtain us where us: "w = x @ us" "r = us @ zs" "us \<noteq> []"
      by (auto simp: append_eq_append_conv2)
    then have "is_symchar (hd r)" using assms(2) by (cases us) auto
    with us assms(1) class_stops show ?thesis by (auto simp: stops_def)
  qed
  with k show ?thesis by simp
qed

text \<open>The rule that matches each kind of printed text.\<close>

lemmas pattern_defs = m_docstr_def m_string_def m_white_def m_comment_def m_lit_def m_number_def
  m_symbol_def m_quoted_def is_white_def is_symchar_def is_alpha_def is_digit_def

lemma lex_punctuation:
  "lex_match (CHR ''('' # r) = Some (1, Give BL_TOKEN_LPAREN, 0)"
  "lex_match (CHR '')'' # r) = Some (1, Give BL_TOKEN_RPAREN, 0)"
  "lex_match (CHR '' '' # r) = Some (1, Skip, 0)"
  by (simp_all add: lex_match_def lex_rules_def pattern_defs)

lemma quote_patterns:
  assumes "c \<noteq> DQ"
  shows "m_docstr (c # cs) = None" "m_string (c # cs) = None"
  using assms by (simp_all add: m_docstr_def m_string_def)

lemma symchar_patterns:
  assumes "is_symchar c"
  shows "m_docstr (c # cs) = None" "m_string (c # cs) = None" "m_white (c # cs) = None"
    "m_comment (c # cs) = None" "m_lit ''('' (c # cs) = None" "m_lit '')'' (c # cs) = None"
    "m_quoted (c # cs) = None"
  using assms
  by (auto simp: m_docstr_def m_string_def m_white_def m_comment_def m_lit_def m_quoted_def is_white_def
      is_symchar_def is_alpha_def is_digit_def)

lemma keyword_symchars: "list_all is_symchar ''if''" "list_all is_symchar ''do''" "list_all is_symchar ''while''"
  by (simp_all add: is_symchar_def is_alpha_def)

text \<open>A symbol that the scanner gives back: not a number, not a keyword.\<close>

definition plain_symbol :: "string \<Rightarrow> bool" where
  "plain_symbol x \<longleftrightarrow> x \<noteq> [] \<and> list_all is_symchar x \<and> m_number x \<noteq> Some (length x)
     \<and> x \<notin> {''if'', ''do'', ''while''} \<and> length x < 31"

lemma prefixb_less: "prefixb w x \<Longrightarrow> w \<noteq> x \<Longrightarrow> length w < length x"
  by (auto simp: prefixb_iff)

lemma lex_symbol:
  assumes "plain_symbol x" "stops r"
  shows "lex_match (x @ r) = Some (length x, Give BL_TOKEN_SYMBOL, 0)"
proof -
  from assms(1) obtain c cs where x: "x = c # cs" "is_symchar c" by (cases x) (auto simp: plain_symbol_def)
  note none = symchar_patterns [OF x(2), of "cs @ r", folded append_Cons x(1)]
  have num: "k < length x" if "m_number (x @ r) = Some k" for k
    using that assms m_bounds(6) [of x k] m_number_text [OF assms(2), of x]
    by (auto simp: plain_symbol_def le_less)
  have lit: "k < length x" if "m_lit w (x @ r) = Some k" "w \<in> {''if'', ''do'', ''while''}" for w k
    using m_lit_text [OF assms(2) _ that(1)] that(2) assms(1) keyword_symchars prefixb_less [of w x]
    by (auto simp: plain_symbol_def)
  have "longest (butlast lex_rules @ (m_symbol, Give BL_TOKEN_SYMBOL, 0) # []) (x @ r) None
      = Some (length x, Give BL_TOKEN_SYMBOL, 0)"
  proof (rule longest_pick)
    show "m_symbol (x @ r) = Some (length x)"
      using assms m_symbol_text by (simp add: plain_symbol_def)
  qed (use none num lit in \<open>auto simp: lex_rules_def\<close>)
  moreover have "butlast lex_rules @ (m_symbol, Give BL_TOKEN_SYMBOL, 0) # [] = lex_rules"
    by (simp add: lex_rules_def)
  ultimately show ?thesis by (simp only: lex_match_def)
qed

lemma lex_if:
  assumes "stops r"
  shows "lex_match (''if'' @ r) = Some (2, Give BL_TOKEN_IF, 0)"
proof -
  have "is_symchar (CHR ''i'')" using keyword_symchars(1) by simp
  note none = symchar_patterns [OF this, of "CHR ''f'' # r"]
  have lit: "m_lit ''if'' (CHR ''i'' # CHR ''f'' # r) = Some 2" "m_lit ''do'' (CHR ''i'' # CHR ''f'' # r) = None"
    "m_lit ''while'' (CHR ''i'' # CHR ''f'' # r) = None"
    by (simp_all add: m_lit_def)
  have num: "m_number (CHR ''i'' # CHR ''f'' # r) = None" by (simp add: m_number_def is_digit_def)
  have "m_symbol (CHR ''i'' # CHR ''f'' # r) = Some 2"
    using m_symbol_text [OF assms _ keyword_symchars(1)] by simp
  with none lit num show ?thesis by (simp add: lex_match_def lex_rules_def)
qed

lemma nat_digits_digit: "c \<in> set (nat_digits n) \<Longrightarrow> is_digit c"
  using nat_digits_chars [of c n] by (auto simp: is_digit_def of_char_digit_char)

lemma is_digit_minus: "\<not> is_digit (CHR ''-'')"
  by (simp add: is_digit_def)

lemma nat_digits_takeWhile [simp]:
  "takeWhile (\<lambda>c. c = CHR ''-'') (nat_digits n) = []" "takeWhile is_digit (nat_digits n) = nat_digits n"
  using nat_digits_digit [of "hd (nat_digits n)" n] is_digit_minus
  by (cases "nat_digits n") (auto simp: takeWhile_eq_all_conv nat_digits_digit)

lemma m_number_get_str: "m_number (mpz_get_str i) = Some (length (mpz_get_str i))"
  by (simp add: mpz_get_str_def m_number_def)

lemma mpz_get_str_symchars: "list_all is_symchar (mpz_get_str i)" "mpz_get_str i \<noteq> []"
  using nat_digits_digit by (auto simp: mpz_get_str_def list.pred_set is_symchar_def)

lemma mpz_get_str_not_letter: "c = CHR ''i'' \<or> c = CHR ''d'' \<or> c = CHR ''w'' \<Longrightarrow> c \<notin> set (mpz_get_str i)"
proof
  assume c: "c = CHR ''i'' \<or> c = CHR ''d'' \<or> c = CHR ''w''" and "c \<in> set (mpz_get_str i)"
  then have "is_digit c" using nat_digits_digit by (auto simp: mpz_get_str_def split: if_splits)
  with c show False by (auto simp: is_digit_def)
qed

lemma lex_number:
  assumes "stops r"
  shows "lex_match (mpz_get_str i @ r) = Some (length (mpz_get_str i), Give BL_TOKEN_INTEGER, 0)"
proof -
  obtain c cs where x: "mpz_get_str i = c # cs" "is_symchar c"
    using mpz_get_str_symchars [of i] by (cases "mpz_get_str i") auto
  note none = symchar_patterns [OF x(2), of "cs @ r", folded append_Cons x(1)]
  have c: "c \<notin> {CHR ''i'', CHR ''d'', CHR ''w''}" using mpz_get_str_not_letter [of c i] x(1) by auto
  have lit: "m_lit w (mpz_get_str i @ r) = None" if "w \<in> {''if'', ''do'', ''while''}" for w
    using that c by (auto simp: m_lit_def x(1))
  have num: "m_number (mpz_get_str i @ r) = Some (length (mpz_get_str i))"
    by (simp add: m_number_text [OF assms] m_number_get_str)
  have "m_symbol (mpz_get_str i @ r) = Some (length (mpz_get_str i))"
    using mpz_get_str_symchars assms by (intro m_symbol_text)
  then show ?thesis using none lit num by (simp add: lex_match_def lex_rules_def)
qed

text \<open>A string without quotes and backslashes needs no escapes.\<close>

definition plain_string :: "string \<Rightarrow> bool" where
  "plain_string x \<longleftrightarrow> DQ \<notin> set x \<and> BS \<notin> set x"

lemma body_len_plain: "plain_string x \<Longrightarrow> body_len (x @ DQ # r) = Some (length x)"
  by (induction x) (auto simp: plain_string_def)

lemma unescape_plain: "plain_string x \<Longrightarrow> unescape False x = x"
  by (induction x) (auto simp: plain_string_def)

lemma lex_string:
  assumes "plain_string x" "stops r"
  shows "lex_match (DQ # x @ DQ # r) = Some (length x + 2, Give BL_TOKEN_STRING, 1)"
proof -
  have "m_docstr (DQ # x @ DQ # r) = None"
    using assms by (cases x; cases r) (auto simp: m_docstr_def plain_string_def stops_def)
  moreover have "m_string (DQ # x @ DQ # r) = Some (length x + 2)"
    using body_len_plain [OF assms(1)] by (simp add: m_string_def)
  ultimately show ?thesis
    by (simp add: lex_match_def lex_rules_def)
      (simp add: m_white_def is_white_def m_comment_def m_lit_def m_number_def m_quoted_def m_symbol_def
        is_symchar_def is_alpha_def is_digit_def)
qed

text \<open>\<open>yields sc tok x r\<close>: the scanner's next token is \<open>tok\<close> with text \<open>x\<close>, and \<open>r\<close> is left.\<close>

definition yields :: "scanner \<Rightarrow> bl_token_type_t \<Rightarrow> string \<Rightarrow> string \<Rightarrow> bool" where
  "yields sc tok x r \<longleftrightarrow> (\<exists>sc'. yylex sc = ([], Some (tok, x, sc')) \<and> scan_rest sc' = r)"

lemma yylex_step:
  assumes "lex_match (scan_rest sc) = Some (k, a, trim)"
  shows "yylex sc = (case a of Skip \<Rightarrow> yylex (scan_take k sc)
     | Give tok \<Rightarrow> ([], Some (tok, take (k - 2 * trim) (drop trim (scan_rest sc)), scan_take k sc)))"
proof -
  have k: "0 < k" "k \<le> length (scan_rest sc)" using lex_match_bound [OF assms] by auto
  then obtain c cs where sc: "scan_rest sc = c # cs" by (cases "scan_rest sc") auto
  then have len: "length (scan_rest sc) = Suc (length cs)" by simp
  have "length (scan_rest (scan_take k sc)) \<le> length cs" using k sc by (simp add: scan_take_def)
  from yylex_loop_enough [OF this] assms sc show ?thesis
    by (cases a) (simp_all add: yylex_def len)
qed

lemma yields_give:
  assumes "scan_rest sc = y @ r" "lex_match (y @ r) = Some (length y, Give tok, trim)"
    "x = take (length y - 2 * trim) (drop trim y)" "2 * trim \<le> length y"
  shows "yields sc tok x r"
  using yylex_step [of sc] assms by (simp add: yields_def scan_take_def)

lemma yields_space: "scan_rest sc = CHR '' '' # y \<Longrightarrow> (\<And>sc. scan_rest sc = y \<Longrightarrow> yields sc tok x r) \<Longrightarrow> yields sc tok x r"
  using yylex_step [of sc] lex_punctuation(3) [of y] by (simp add: yields_def scan_take_def)

lemma yields_punctuation:
  "scan_rest sc = CHR ''('' # r \<Longrightarrow> yields sc BL_TOKEN_LPAREN ''('' r"
  "scan_rest sc = CHR '')'' # r \<Longrightarrow> yields sc BL_TOKEN_RPAREN '')'' r"
  by (rule yields_give [where trim = 0], simp, simp add: lex_punctuation, simp, simp)+

lemma yields_atoms:
  assumes "stops r"
  shows "scan_rest sc = mpz_get_str i @ r \<Longrightarrow> yields sc BL_TOKEN_INTEGER (mpz_get_str i) r"
    "plain_symbol x \<Longrightarrow> scan_rest sc = x @ r \<Longrightarrow> yields sc BL_TOKEN_SYMBOL x r"
    "scan_rest sc = ''if'' @ r \<Longrightarrow> yields sc BL_TOKEN_IF ''if'' r"
    "plain_string x \<Longrightarrow> scan_rest sc = DQ # x @ DQ # r \<Longrightarrow> yields sc BL_TOKEN_STRING x r"
proof -
  show "scan_rest sc = mpz_get_str i @ r \<Longrightarrow> yields sc BL_TOKEN_INTEGER (mpz_get_str i) r"
    using lex_number [OF assms] by (intro yields_give) auto
  show "plain_symbol x \<Longrightarrow> scan_rest sc = x @ r \<Longrightarrow> yields sc BL_TOKEN_SYMBOL x r"
    using lex_symbol [OF _ assms] by (intro yields_give) auto
  show "scan_rest sc = ''if'' @ r \<Longrightarrow> yields sc BL_TOKEN_IF ''if'' r"
    using lex_if [OF assms] by (intro yields_give) auto
  show "plain_string x \<Longrightarrow> scan_rest sc = DQ # x @ DQ # r \<Longrightarrow> yields sc BL_TOKEN_STRING x r"
    using lex_string [OF _ assms, of x] yields_give [of sc "DQ # x @ [DQ]" r] by simp
qed

section \<open>Reading printed text\<close>

text \<open>
  \<open>cells_le s t\<close>: every value of \<open>s\<close> is in \<open>t\<close> with the same tag and contents. \<open>without s A\<close> is the state
  without the values at \<open>A\<close>: a structure that is represented there does not use them, so they may still
  be written while a list is being built.
\<close>

definition cells_le :: "store \<Rightarrow> store \<Rightarrow> bool" where
  "cells_le s t \<longleftrightarrow> (\<forall>p c. heap s p = Some c \<longrightarrow>
     (\<exists>d. heap t p = Some d \<and> val_type d = val_type c \<and> payload d = payload c))"

definition without :: "store \<Rightarrow> ptr set \<Rightarrow> store" where
  "without s A = s\<lparr>heap := (\<lambda>p. if p \<in> A then None else heap s p)\<rparr>"

lemma heap_without [simp]: "heap (without s A) p = (if p \<in> A then None else heap s p)"
  by (simp add: without_def)

lemma without_empty [simp]: "without s {} = s"
  by (simp add: without_def)

lemma cells_le_refl [simp]: "cells_le s s"
  by (simp add: cells_le_def)

lemma cells_leD:
  "cells_le s t \<Longrightarrow> heap s p = Some c \<Longrightarrow> \<exists>d. heap t p = Some d \<and> val_type d = val_type c \<and> payload d = payload c"
  by (simp add: cells_le_def)

lemma cells_le_trans:
  assumes "cells_le s t" "cells_le t u"
  shows "cells_le s u"
  unfolding cells_le_def
proof (intro allI impI)
  fix p c
  assume "heap s p = Some c"
  then obtain d where d: "heap t p = Some d" "val_type d = val_type c" "payload d = payload c"
    using cells_leD [OF assms(1)] by blast
  with cells_leD [OF assms(2) d(1)]
  show "\<exists>d. heap u p = Some d \<and> val_type d = val_type c \<and> payload d = payload c" by auto
qed

lemma cells_le_without: "A \<subseteq> B \<Longrightarrow> cells_le (without s A) t \<Longrightarrow> cells_le (without s B) (without t B)"
  unfolding cells_le_def by (auto split: if_splits) (metis subsetD)

lemma cells_le_antimono: "A \<subseteq> B \<Longrightarrow> cells_le (without s B) (without s A)"
  by (fastforce simp: cells_le_def)

lemma cells_le_drop: "cells_le (without s A) s"
  by (auto simp: cells_le_def)

lemma cell_is_mono: "cells_le s t \<Longrightarrow> cell_is s p T u \<Longrightarrow> cell_is t p T u"
  unfolding cell_is_def by (auto dest: cells_leD)

lemma is_list_mono: "cells_le s t \<Longrightarrow> is_list s p cs xs \<Longrightarrow> is_list t p cs xs"
proof (induction cs arbitrary: p xs)
  case (Cons a cs)
  then obtain x ys d c where c: "xs = x # ys" "p = a" "heap s a = Some c" "val_type c = BL_VAL_TYPE_CONS"
    "payload c = U_cons x d" "is_list s d cs ys" by auto
  with cells_leD [OF Cons.prems(1) c(3)] Cons.IH [OF Cons.prems(1) c(6)] show ?case by auto
qed simp

lemma reps_transfer:
  "(\<And>x t. t \<in> set us \<Longrightarrow> rep s x t \<Longrightarrow> rep s' x t) \<Longrightarrow> reps s xs us \<Longrightarrow> reps s' xs us"
  by (induction us arbitrary: xs) fastforce+

lemma rep_mono:
  assumes "cells_le s t"
  shows "rep s p u \<Longrightarrow> rep t p u"
proof (induction u arbitrary: p)
  case (S_list ts)
  then show ?case
    using cell_is_mono [OF assms] is_list_mono [OF assms] reps_transfer [of ts s t]
    by (cases "ts = []") (auto, metis)
qed (use cell_is_mono [OF assms] in auto)

lemma reps_mono: "cells_le s t \<Longrightarrow> reps s xs us \<Longrightarrow> reps t xs us"
  by (rule reps_transfer [OF rep_mono])

lemma is_list_without: "is_list s p cs xs \<Longrightarrow> set cs \<inter> A = {} \<Longrightarrow> is_list (without s A) p cs xs"
  by (induction cs arbitrary: p xs) auto

text \<open>The effect of allocation, of a changed line number and of a write to one cell.\<close>

lemma cells_le_alloc:
  "heap_ok s \<Longrightarrow> cells_le s (s\<lparr>heap := (heap s)(next_addr s \<mapsto> c), next_addr := k\<rparr>)"
  using heap_okD(3) [of s] by (auto simp: cells_le_def)

lemma set_line_cells: "set_line p n s = Ret x t \<Longrightarrow> cells_le s t \<and> uninit_bool t = uninit_bool s"
  by (auto simp: set_line_def update_def cells_le_def)

lemma cells_le_put: "cells_le (without s {p}) (put_val p c s)"
  by (auto simp: cells_le_def)

text \<open>The trees whose text is read back: plain symbols and strings, and numbers, \<open>if\<close> and lists of such.\<close>

fun printable :: "sexp \<Rightarrow> bool" where
  "printable (S_num i) \<longleftrightarrow> True"
| "printable (S_sym x) \<longleftrightarrow> plain_symbol x"
| "printable (S_str x) \<longleftrightarrow> plain_string x"
| "printable S_if \<longleftrightarrow> True"
| "printable (S_list ts) \<longleftrightarrow> list_all printable ts"

text \<open>
  \<open>can_read s A\<close>: the state is well formed, the flag that \<open>unescape\<close> starts with happens to be false, and
  \<open>A\<close> are cells of lists under construction. \<open>did_read\<close> says what holds of the state afterwards.
\<close>

definition can_read :: "store \<Rightarrow> ptr set \<Rightarrow> bool" where
  "can_read s A \<longleftrightarrow> wf_store s \<and> \<not> uninit_bool s \<and> (\<forall>a \<in> A. has_type s a BL_VAL_TYPE_CONS)"

definition did_read :: "store \<Rightarrow> ptr set \<Rightarrow> ptr set \<Rightarrow> store \<Rightarrow> bool" where
  "did_read s A W t \<longleftrightarrow> can_read t A \<and> cells_le (without s W) t \<and> next_addr s \<le> next_addr t"

definition form_reads :: "nat \<Rightarrow> sexp \<Rightarrow> bool" where
  "form_reads n t \<longleftrightarrow> (\<forall>sc s A sp r. can_read s A \<longrightarrow> sp \<in> {[], '' ''} \<longrightarrow>
     scan_rest sc = sp @ show_sexp t @ r \<longrightarrow> stops r \<longrightarrow> 2 * length (scan_rest sc) + 1 \<le> n \<longrightarrow>
     (\<exists>p sc' u. read_form n sc s = Ret (p, sc') u \<and> scan_rest sc' = r \<and> rep (without u A) p t \<and> did_read s A {} u))"

definition list_reads :: "nat \<Rightarrow> sexp list \<Rightarrow> bool" where
  "list_reads n ts \<longleftrightarrow> (\<forall>sc s A r. can_read s A \<longrightarrow>
     ''('' @ scan_rest sc = show_sexp (S_list ts) @ r \<longrightarrow> 2 * length (scan_rest sc) + 2 \<le> n \<longrightarrow>
     (\<exists>p sc' u. read_list n sc s = Ret (p, sc') u \<and> scan_rest sc' = r \<and> rep (without u A) p (S_list ts)
        \<and> did_read s A {} u))"

definition items_reads :: "nat \<Rightarrow> sexp list \<Rightarrow> bool" where
  "items_reads n ts \<longleftrightarrow> (\<forall>sc s A r p cs xs us. can_read s A \<longrightarrow> is_list s p cs xs \<longrightarrow> cs \<noteq> [] \<longrightarrow>
     set cs \<inter> A = {} \<longrightarrow> reps (without s (A \<union> set cs)) xs us \<longrightarrow>
     scan_rest sc = show_rest ts @ '')'' @ r \<longrightarrow> 2 * length (scan_rest sc) + 2 \<le> n \<longrightarrow>
     (\<exists>sc' u cs' ys. read_items n p (last cs) sc s = Ret (p, sc') u \<and> scan_rest sc' = r
        \<and> is_list u p cs' ys \<and> set cs' \<inter> A = {} \<and> reps (without u A) ys (us @ ts)
        \<and> did_read s A {last cs} u))"

lemma form_readsE:
  assumes "form_reads n t" "can_read s A" "sp \<in> {[], '' ''}" "scan_rest sc = sp @ show_sexp t @ r" "stops r"
    "2 * length (scan_rest sc) + 1 \<le> n"
  obtains p sc' u where "read_form n sc s = Ret (p, sc') u" "scan_rest sc' = r" "rep (without u A) p t"
    "did_read s A {} u"
  using assms unfolding form_reads_def by blast

lemma items_readsE:
  assumes "items_reads n ts" "can_read s A" "is_list s p cs xs" "cs \<noteq> []" "set cs \<inter> A = {}"
    "reps (without s (A \<union> set cs)) xs us" "scan_rest sc = show_rest ts @ CHR '')'' # r"
    "2 * length (scan_rest sc) + 2 \<le> n"
  obtains sc' u cs' ys where "read_items n p (last cs) sc s = Ret (p, sc') u" "scan_rest sc' = r"
    "is_list u p cs' ys" "set cs' \<inter> A = {}" "reps (without u A) ys (us @ ts)" "did_read s A {last cs} u"
  using assms unfolding items_reads_def by (metis append_Cons append_Nil)

text \<open>Every run of the reader keeps the part of \<open>can_read\<close> that the transition invariant covers.\<close>

lemma can_read_step:
  assumes "can_read s A" "keeps safe_step m" "m s = Ret x t" "uninit_bool t = uninit_bool s"
    "cells_le (without s W) t"
  shows "did_read s A W t"
  using assms safe_run [OF assms(2) _ assms(3)] evolves_type
  by (auto simp: can_read_def did_read_def evolves_def)

lemma did_read_trans:
  assumes "did_read s A W t" "did_read t A W' u" "W' \<subseteq> W \<union> {next_addr s..}" "heap_ok s"
  shows "did_read s A W u"
proof -
  have "cells_le (without s W) u"
    unfolding cells_le_def
  proof (intro allI impI)
    fix p c
    assume c: "heap (without s W) p = Some c"
    with assms(1) obtain d where d: "heap t p = Some d" "val_type d = val_type c" "payload d = payload c"
      by (auto simp: did_read_def dest: cells_leD)
    from c have "p \<notin> W" "p < next_addr s" using heap_okD(1) [OF assms(4), of p] by (auto split: if_splits)
    with assms(3) have "p \<notin> W'" by auto
    with d(1) have "heap (without t W') p = Some d" by simp
    then obtain e where "heap u p = Some e" "val_type e = val_type d" "payload e = payload d"
      using assms(2) unfolding did_read_def by (meson cells_leD)
    with d show "\<exists>d. heap u p = Some d \<and> val_type d = val_type c \<and> payload d = payload c" by auto
  qed
  with assms show ?thesis by (auto simp: did_read_def)
qed

lemma did_read_subset: "did_read s A W t \<Longrightarrow> B \<subseteq> A \<Longrightarrow> did_read s B W t"
  by (auto simp: did_read_def can_read_def)

lemma can_read_subset: "can_read s A \<Longrightarrow> B \<subseteq> A \<Longrightarrow> can_read s B"
  by (auto simp: can_read_def)

lemma can_read_ok: "can_read s A \<Longrightarrow> heap_ok s" "can_read s A \<Longrightarrow> wf_store s"
  by (simp_all add: can_read_def wf_store_def)

lemma can_read_old: "can_read s A \<Longrightarrow> a \<in> A \<Longrightarrow> a < next_addr s"
  using heap_okD(1) [OF can_read_ok(1)] by (fastforce simp: can_read_def has_type_def)

lemma print_out_Nil [simp]: "print_out [] s = Ret () s"
  by (simp add: print_out_def)

text \<open>A token: what its action returns gets the line number and is the result.\<close>

lemma line_reads:
  assumes "act s = Ret (p, sc2) t" "rep (without t A) p u" "did_read s A {} t" "heap_ok s"
  shows "\<exists>p sc' v. bindM act (\<lambda>(retval, sc2). bindM (set_line retval (scan_line sc2)) (\<lambda>_. returnM (retval, sc2))) s
      = Ret (p, sc') v \<and> scan_rest sc' = scan_rest sc2 \<and> rep (without v A) p u \<and> did_read s A {} v"
proof -
  have can: "can_read t A" using assms(3) by (simp add: did_read_def)
  have "allocated t p" using rep_cell [OF assms(2)] by (auto simp: allocated_def split: if_splits)
  then obtain v where v: "set_line p (scan_line sc2) t = Ret () v" using set_line_total by blast
  have le: "cells_le t v" "uninit_bool v = uninit_bool t" using set_line_cells [OF v] by simp_all
  have "did_read t A {} v" using can_read_step [OF can set_line_safe v le(2)] le(1) by simp
  moreover have "rep (without v A) p u"
    using rep_mono [OF cells_le_without [of "{}" A t v] assms(2)] le(1) by simp
  moreover have "did_read s A {} v" using did_read_trans [OF assms(3) \<open>did_read t A {} v\<close> _ assms(4)] by simp
  ultimately show ?thesis using assms(1) v by auto
qed

lemma rep_without_atom:
  assumes "can_read t A" "height u = 0" "rep t p u"
  shows "rep (without t A) p u"
proof -
  have "p \<notin> A"
    using assms(1) rep_cell [OF assms(3)] assms(2) by (cases u) (auto simp: can_read_def has_type_def)
  with assms(2,3) show ?thesis by (cases u) (auto simp: cell_is_def)
qed

lemma form_reads_atom:
  assumes "can_read s A" "yylex sc = ([], Some (tok, x, sc1))"
    and act: "\<And>n. read_form (Suc n) sc = bindM (print_out []) (\<lambda>_. bindM (bindM act (\<lambda>p. returnM (p, sc1)))
        (\<lambda>(retval, sc2). bindM (set_line retval (scan_line sc2)) (\<lambda>_. returnM (retval, sc2))))"
    and run: "act s = Ret p t" "keeps safe_step act" "uninit_bool t = uninit_bool s" "cells_le s t"
    and u: "height u = 0" "rep t p u"
  shows "\<exists>p sc' v. read_form (Suc n) sc s = Ret (p, sc') v \<and> scan_rest sc' = scan_rest sc1
      \<and> rep (without v A) p u \<and> did_read s A {} v"
proof -
  have did: "did_read s A {} t" using can_read_step [OF assms(1) run(2,1,3)] run(4) by simp
  then have "rep (without t A) p u" using rep_without_atom u by (auto simp: did_read_def)
  then show ?thesis
    using line_reads [of "bindM act (\<lambda>p. returnM (p, sc1))" s p sc1 t A u] run(1) did can_read_ok(1) [OF assms(1)]
    by (simp add: act)
qed

lemma bl_mk_symbol_cells: "heap_ok s \<Longrightarrow> bl_mk_symbol x s = Ret p t \<Longrightarrow> cells_le s t \<and> uninit_bool t = uninit_bool s"
  using heap_okD(3) [of s] by (cases rule: bl_mk_symbol_cases [of s x]) (auto simp: cells_le_def)

lemma new_val_cells: "heap_ok s \<Longrightarrow> new_val T u s = Ret p t \<Longrightarrow> cells_le s t \<and> uninit_bool t = uninit_bool s
    \<and> cell_is t p T u"
  using cells_le_alloc by (auto simp: run_new_val cell_is_def)

text \<open>The text of a tree, with or without a space before it, is scanned as its first token.\<close>

lemma yields_prefixed:
  assumes "sp \<in> {[], '' ''}" "scan_rest sc = sp @ y" "\<And>sc. scan_rest sc = y \<Longrightarrow> yields sc tok x r"
  obtains sc1 where "yylex sc = ([], Some (tok, x, sc1))" "scan_rest sc1 = r"
proof -
  have "yields sc tok x r" using assms(1,2) assms(3) yields_space [of sc y tok x r] by auto
  then show ?thesis using that by (auto simp: yields_def)
qed

lemma atom_reads:
  assumes "printable t" "height t = 0"
  shows "form_reads n t"
  unfolding form_reads_def
proof (intro allI impI)
  fix sc :: scanner and s A sp r
  assume can: "can_read s A" and sp: "sp \<in> {[], '' ''}" and sc: "scan_rest sc = sp @ show_sexp t @ r"
    and r: "stops r" and n: "2 * length (scan_rest sc) + 1 \<le> n"
  have ok: "heap_ok s" "wf_store s" using can_read_ok [OF can] by simp_all
  from n obtain m where m: "n = Suc m" by (cases n) auto
  show "\<exists>p sc' u. read_form n sc s = Ret (p, sc') u \<and> scan_rest sc' = r \<and> rep (without u A) p t \<and> did_read s A {} u"
  proof (cases t)
    case (S_num i)
    obtain sc1 where lx: "yylex sc = ([], Some (BL_TOKEN_INTEGER, mpz_get_str i, sc1))" "scan_rest sc1 = r"
      by (rule yields_prefixed [OF sp sc]) (use yields_atoms(1) [OF r] S_num in auto)
    obtain p u where run: "bl_mk_integer (mpz_get_str i) s = Ret p u" "cells_le s u" "uninit_bool u = uninit_bool s"
        "cell_is u p BL_VAL_TYPE_NUMBER (U_num i)"
      using new_val_cells [OF ok(1)] by (auto simp: bl_mk_integer_def mpz_get_set run_new_val)
    show ?thesis
      using form_reads_atom [OF can lx(1) _ run(1) mk_safe(1) run(3,2), of t] S_num run(4) lx
      by (simp add: m read_form.simps)
  next
    case (S_sym x)
    with assms(1) have x: "plain_symbol x" by simp
    obtain sc1 where lx: "yylex sc = ([], Some (BL_TOKEN_SYMBOL, x, sc1))" "scan_rest sc1 = r"
      by (rule yields_prefixed [OF sp sc]) (use yields_atoms(2) [OF r x] S_sym in auto)
    obtain p u where run: "bl_mk_symbol x s = Ret p u" using bl_mk_symbol_total by blast
    have "\<exists>i. cell_is u p BL_VAL_TYPE_SYMBOL (U_str x i)"
      using bl_mk_symbol_result(1) [OF ok(2) _ run] x by (auto simp: plain_symbol_def is_symbol_def cell_is_def)
    then show ?thesis
      using form_reads_atom [OF can lx(1) _ run bl_mk_symbol_safe, of t] bl_mk_symbol_cells [OF ok(1) run] S_sym lx
      by (simp add: m read_form.simps)
  next
    case (S_str x)
    with assms(1) have x: "plain_string x" by simp
    obtain sc1 where lx: "yylex sc = ([], Some (BL_TOKEN_STRING, x, sc1))" "scan_rest sc1 = r"
      by (rule yields_prefixed [OF sp sc]) (use yields_atoms(4) [OF r x] S_str in auto)
    let ?act = "bindM (getsM uninit_bool) (\<lambda>slash. bl_mk_str (unescape slash x))"
    obtain p u where run: "?act s = Ret p u" "cells_le s u" "uninit_bool u = uninit_bool s"
        "cell_is u p BL_VAL_TYPE_STRING (U_str x 0)"
      using new_val_cells [OF ok(1)] can unescape_plain [OF x]
      by (auto simp: bl_mk_str_def run_new_val can_read_def)
    have safe: "keeps safe_step ?act" by (intro keeps_intros)
    show ?thesis
      using form_reads_atom [OF can lx(1) _ run(1) safe run(3,2), of t] S_str run(4) lx
      by (auto simp: m read_form.simps bindM_assoc)
  next
    case S_if
    obtain sc1 where lx: "yylex sc = ([], Some (BL_TOKEN_IF, ''if'', sc1))" "scan_rest sc1 = r"
      by (rule yields_prefixed [OF sp sc]) (use yields_atoms(3) [OF r] S_if in auto)
    have "rep s if_oper_val t" using ok(2) S_if by (auto simp: wf_store_def statics_ok_def has_type_def cell_is_def)
    then have "rep (without s A) if_oper_val t" using rep_without_atom [OF can, of t] S_if by simp
    moreover have "did_read s A {} s" using can by (simp add: did_read_def)
    ultimately show ?thesis
      using line_reads [of "returnM (if_oper_val, sc1)" s if_oper_val sc1 s A t] ok(1) lx
      by (simp add: m read_form.simps)
  qed (use assms(2) in simp)
qed

text \<open>The closing parenthesis.\<close>

lemma close_reads:
  assumes "can_read s A" "scan_rest sc = CHR '')'' # r"
  shows "\<exists>sc' u. read_form (Suc n) sc s = Ret (end_list_val, sc') u \<and> scan_rest sc' = r
      \<and> did_read s A {} u \<and> has_type u end_list_val BL_VAL_TYPE_LIST_END"
proof -
  obtain sc1 where lx: "yylex sc = ([], Some (BL_TOKEN_RPAREN, '')'', sc1))" "scan_rest sc1 = r"
    using yields_punctuation(2) [OF assms(2)] by (auto simp: yields_def)
  have ty: "has_type s end_list_val BL_VAL_TYPE_LIST_END"
    using assms(1) by (simp add: can_read_def wf_store_def statics_ok_def)
  from ty have "allocated s end_list_val" by (auto simp: has_type_def allocated_def)
  then obtain v where v: "set_line end_list_val (scan_line sc1) s = Ret () v" using set_line_total by blast
  have le: "cells_le s v" "uninit_bool v = uninit_bool s" using set_line_cells [OF v] by simp_all
  then have "did_read s A {} v" using can_read_step [OF assms(1) set_line_safe v] by simp
  moreover have "has_type v end_list_val BL_VAL_TYPE_LIST_END"
    using ty cells_leD [OF le(1)] unfolding has_type_def by metis
  ultimately show ?thesis using lx v by (auto simp: read_form.simps)
qed

text \<open>A list: the opening parenthesis was consumed.\<close>

lemma form_reads_list:
  assumes "list_reads n ts"
  shows "form_reads (Suc n) (S_list ts)"
  unfolding form_reads_def
proof (intro allI impI)
  fix sc :: scanner and s A sp r
  assume can: "can_read s A" and sp: "sp \<in> {[], '' ''}" and sc: "scan_rest sc = sp @ show_sexp (S_list ts) @ r"
    and r: "stops r" and n: "2 * length (scan_rest sc) + 1 \<le> Suc n"
  define y where "y = tl (show_sexp (S_list ts) @ r)"
  then have y: "show_sexp (S_list ts) @ r = CHR ''('' # y" by simp
  obtain sc1 where lx: "yylex sc = ([], Some (BL_TOKEN_LPAREN, ''('', sc1))" "scan_rest sc1 = y"
    by (rule yields_prefixed [OF sp, of sc "CHR ''('' # y"]) (use sc y yields_punctuation(1) in auto)
  obtain p sc2 u where u: "read_list n sc1 s = Ret (p, sc2) u" "scan_rest sc2 = r"
      "rep (without u A) p (S_list ts)" "did_read s A {} u"
  proof -
    have "2 * length (scan_rest sc1) + 2 \<le> n" using lx(2) n by (simp add: sc y del: show_sexp.simps)
    moreover have "''('' @ scan_rest sc1 = show_sexp (S_list ts) @ r" using lx(2) y by simp
    ultimately show ?thesis using that assms can unfolding list_reads_def by blast
  qed
  then show "\<exists>p sc' u. read_form (Suc n) sc s = Ret (p, sc') u \<and> scan_rest sc' = r
      \<and> rep (without u A) p (S_list ts) \<and> did_read s A {} u"
    using line_reads [where act = "read_list n sc1", OF u(1,3,4) can_read_ok(1) [OF can]] lx by (simp add: read_form.simps del: rep.simps)
qed

text \<open>The writes that build a list.\<close>

lemma set_pair_reads:
  assumes "can_read s A" "heap s p = Some c" "payload c = U_cons a d"
  shows "set_car p x s = Ret () (put_val p (c\<lparr>payload := U_cons x d\<rparr>) s)"
    "did_read s A {p} (put_val p (c\<lparr>payload := U_cons x d\<rparr>) s)"
    "set_cdr p x s = Ret () (put_val p (c\<lparr>payload := U_cons a x\<rparr>) s)"
    "did_read s A {p} (put_val p (c\<lparr>payload := U_cons a x\<rparr>) s)"
proof -
  show car: "set_car p x s = Ret () (put_val p (c\<lparr>payload := U_cons x d\<rparr>) s)"
    and cdr: "set_cdr p x s = Ret () (put_val p (c\<lparr>payload := U_cons a x\<rparr>) s)"
    using assms by simp_all
  show "did_read s A {p} (put_val p (c\<lparr>payload := U_cons x d\<rparr>) s)"
    using can_read_step [OF assms(1) set_pair_safe(1) car] cells_le_put by simp
  show "did_read s A {p} (put_val p (c\<lparr>payload := U_cons a x\<rparr>) s)"
    using can_read_step [OF assms(1) set_pair_safe(2) cdr] cells_le_put by simp
qed

lemma new_cons_reads:
  assumes "can_read s A"
  obtains t where "new_val BL_VAL_TYPE_CONS (U_cons a d) s = Ret (next_addr s) t"
    "heap t (next_addr s) = Some (fresh_val BL_VAL_TYPE_CONS (U_cons a d))"
    "did_read s A {} t" "can_read t (insert (next_addr s) A)" "cells_le s t"
proof -
  obtain t where t: "new_val BL_VAL_TYPE_CONS (U_cons a d) s = Ret (next_addr s) t"
      "heap t (next_addr s) = Some (fresh_val BL_VAL_TYPE_CONS (U_cons a d))"
    by (auto simp: run_new_val)
  have le: "cells_le s t" "uninit_bool t = uninit_bool s"
    using new_val_cells [OF can_read_ok(1) [OF assms] t(1)] by simp_all
  then have "did_read s A {} t" using can_read_step [OF assms new_cons_safe t(1)] by simp
  with t le that show ?thesis by (auto simp: did_read_def can_read_def has_type_def)
qed

lemma is_list_conses: "is_list s p cs xs \<Longrightarrow> a \<in> set cs \<Longrightarrow> has_type s a BL_VAL_TYPE_CONS"
  by (induction cs arbitrary: p xs) (auto simp: has_type_def)

lemma is_list_last:
  "is_list s p cs xs \<Longrightarrow> cs \<noteq> [] \<Longrightarrow> \<exists>c. heap s (last cs) = Some c \<and> payload c = U_cons (last xs) NULL"
proof (induction cs arbitrary: p xs)
  case (Cons a cs)
  then obtain x ys d c where c: "xs = x # ys" "heap s a = Some c" "payload c = U_cons x d" "is_list s d cs ys"
    by auto
  then have "ys = [] \<longleftrightarrow> cs = []" using is_list_length by fastforce
  with Cons.IH [OF c(4)] c show ?case by (cases "cs = []") auto
qed simp

text \<open>The tail of a list.\<close>

lemma did_read_weaken: "did_read s A {} t \<Longrightarrow> did_read s A W t"
  unfolding did_read_def using cells_le_trans [OF cells_le_drop [of s W]] by auto

lemma items_reads_nil: "items_reads n []"
  unfolding items_reads_def
proof (intro allI impI)
  fix sc :: scanner and s A r p cs xs us
  assume can: "can_read s A" and l: "is_list s p cs xs" "cs \<noteq> []" "set cs \<inter> A = {}"
    and us: "reps (without s (A \<union> set cs)) xs us"
    and sc: "scan_rest sc = show_rest [] @ '')'' @ r" and n: "2 * length (scan_rest sc) + 2 \<le> n"
  from n sc obtain m where m: "n = Suc (Suc m)" by (cases n; cases "n - 1") auto
  obtain sc' u where u: "read_form (Suc m) sc s = Ret (end_list_val, sc') u" "scan_rest sc' = r"
      "did_read s A {} u" "has_type u end_list_val BL_VAL_TYPE_LIST_END"
    using close_reads [OF can, of sc r m] sc by auto
  have le: "cells_le s u" using u(3) by (simp add: did_read_def)
  then have "cells_le (without s (A \<union> set cs)) (without u A)"
    using cells_le_trans [OF cells_le_antimono cells_le_without [of "{}" A s u]] by simp
  then have "reps (without u A) xs (us @ [])" using reps_mono us by simp
  moreover have "read_items n p (last cs) sc s = Ret (p, sc') u"
    using u by (auto simp: m read_items.simps has_type_def)
  ultimately show "\<exists>sc' u cs' ys. read_items n p (last cs) sc s = Ret (p, sc') u \<and> scan_rest sc' = r
      \<and> is_list u p cs' ys \<and> set cs' \<inter> A = {} \<and> reps (without u A) ys (us @ []) \<and> did_read s A {last cs} u"
    using u(2) is_list_mono [OF le l(1)] l(3) did_read_weaken [OF u(3)] by blast
qed

text \<open>Attaching one more element behind the last cell.\<close>

lemma attach_reads:
  assumes can: "can_read s A" and l: "is_list s p cs xs" "cs \<noteq> []" "set cs \<inter> A = {}"
    and us: "reps (without s (A \<union> set cs)) xs us" and e: "rep (without s (A \<union> set cs)) e v"
  obtains c t u where "new_val BL_VAL_TYPE_CONS (U_cons e NULL) s = Ret c t" "set_cdr (last cs) c t = Ret () u"
    "did_read s A {last cs} u" "is_list u p (cs @ [c]) (xs @ [e])" "set (cs @ [c]) \<inter> A = {}"
    "reps (without u (A \<union> set (cs @ [c]))) (xs @ [e]) (us @ [v])" "next_addr s \<le> c"
proof -
  let ?c = "next_addr s"
  have ok: "heap_ok s" using can_read_ok [OF can] by simp
  obtain t where t: "new_val BL_VAL_TYPE_CONS (U_cons e NULL) s = Ret ?c t"
      "heap t ?c = Some (fresh_val BL_VAL_TYPE_CONS (U_cons e NULL))" "did_read s A {} t" "cells_le s t"
    using new_cons_reads [OF can] by blast
  have lt: "is_list t p cs xs" by (rule is_list_mono [OF t(4) l(1)])
  obtain d where d: "heap t (last cs) = Some d" "payload d = U_cons (last xs) NULL"
    using is_list_last [OF lt l(2)] by blast
  define u where "u = put_val (last cs) (d\<lparr>payload := U_cons (last xs) ?c\<rparr>) t"
  have can_t: "can_read t A" using t(3) by (simp add: did_read_def)
  note w = set_pair_reads(3,4) [OF can_t d, of ?c, folded u_def]
  have new: "?c \<notin> set cs" using is_list_dom [OF l(1)] heap_okD(3) [OF ok] by auto
  then have last: "last cs \<noteq> ?c" using l(2) last_in_set by metis
  have "is_list u p (cs @ [?c]) (xs @ [e])"
    by (rule is_list_snoc [OF lt l(2) is_list_distinct [OF l(1) ok] _ d(1)]) (use last t(2) in \<open>auto simp: u_def\<close>)
  moreover have "cells_le (without s (A \<union> set cs)) (without u (A \<union> set (cs @ [?c])))"
    using t(4) l(2) heap_okD(3) [OF ok] last_in_set [OF l(2)] by (auto simp: cells_le_def u_def)
  then have "reps (without u (A \<union> set (cs @ [?c]))) (xs @ [e]) (us @ [v])"
    using reps_mono [OF _ us] rep_mono [OF _ e] reps_append by blast
  moreover have "set (cs @ [?c]) \<inter> A = {}" using l(3) can_read_old [OF can] by auto
  moreover have "did_read s A {last cs} u"
    by (rule did_read_trans [OF did_read_weaken [OF t(3)] w(2) _ ok]) simp
  ultimately show ?thesis using that t(1) w(1) by blast
qed

lemma rep_result:
  assumes "rep (without t A) e v" "heap_ok t"
  shows "e \<noteq> NULL" "\<exists>c. heap t e = Some c \<and> val_type c \<noteq> BL_VAL_TYPE_LIST_END"
proof -
  obtain c where "heap t e = Some c" "val_type c = sexp_tag v"
    using rep_cell [OF assms(1)] by (auto split: if_splits)
  then show "e \<noteq> NULL" "\<exists>c. heap t e = Some c \<and> val_type c \<noteq> BL_VAL_TYPE_LIST_END"
    using heap_okD(1) [OF assms(2)] by (auto intro: sexp_tag.elims [of v "val_type c"])
qed

lemma stops_rest [simp]: "stops (show_rest ts @ CHR '')'' # r)"
  by (cases ts) simp_all

lemma items_reads_cons:
  assumes "form_reads n v" "items_reads n ts"
  shows "items_reads (Suc n) (v # ts)"
  unfolding items_reads_def
proof (intro allI impI)
  fix sc :: scanner and s A r p cs xs us
  assume can: "can_read s A" and l: "is_list s p cs xs" "cs \<noteq> []" "set cs \<inter> A = {}"
    and us: "reps (without s (A \<union> set cs)) xs us"
    and sc: "scan_rest sc = show_rest (v # ts) @ '')'' @ r" and n: "2 * length (scan_rest sc) + 2 \<le> Suc n"
  let ?B = "A \<union> set cs"
  have canB: "can_read s ?B" using can is_list_conses [OF l(1)] by (auto simp: can_read_def)
  have "scan_rest sc = '' '' @ show_sexp v @ show_rest ts @ CHR '')'' # r" using sc by simp
  then obtain e sc1 t where t: "read_form n sc s = Ret (e, sc1) t"
      "scan_rest sc1 = show_rest ts @ CHR '')'' # r" "rep (without t ?B) e v" "did_read s ?B {} t"
    by (rule form_readsE [OF assms(1) canB, rotated]) (use n in auto)
  have le: "cells_le s t" and can_t: "can_read t A" using t(4) by (auto simp: did_read_def can_read_def)
  have ok: "heap_ok t" using can_read_ok [OF can_t] by simp
  have us_t: "reps (without t ?B) xs us"
    using reps_mono [OF cells_le_without [of "{}" ?B s t] us] le by simp
  obtain c t1 t2 where b: "new_val BL_VAL_TYPE_CONS (U_cons e NULL) t = Ret c t1" "set_cdr (last cs) c t1 = Ret () t2"
    "did_read t A {last cs} t2" "is_list t2 p (cs @ [c]) (xs @ [e])" "set (cs @ [c]) \<inter> A = {}"
    "reps (without t2 (A \<union> set (cs @ [c]))) (xs @ [e]) (us @ [v])" "next_addr t \<le> c"
    by (rule attach_reads [OF can_t is_list_mono [OF le l(1)] l(2,3) us_t t(3)])
  have can2: "can_read t2 A" using b(3) by (simp add: did_read_def)
  have n2: "2 * length (scan_rest sc1) + 2 \<le> n" using n sc t(2) by simp
  obtain sc' u cs' ys where
    u: "read_items n p c sc1 t2 = Ret (p, sc') u" "scan_rest sc' = r" "is_list u p cs' ys" "set cs' \<inter> A = {}"
      "reps (without u A) ys (us @ v # ts)" "did_read t2 A {c} u"
    by (rule items_readsE [OF assms(2) can2 b(4) _ b(5,6) t(2) n2]) auto
  have "did_read s A {last cs} t"
    using did_read_weaken [OF did_read_subset [OF t(4)]] by simp
  from did_read_trans [OF this b(3) _ can_read_ok(1) [OF can]] have "did_read s A {last cs} t2" by simp
  from did_read_trans [OF this u(6) _ can_read_ok(1) [OF can]] b(7) t(4)
  have "did_read s A {last cs} u" by (simp add: did_read_def)
  moreover have "read_items (Suc n) p (last cs) sc s = Ret (p, sc') u"
    using rep_result [OF t(3) ok] t(1) b(1,2) u(1) by (auto simp: read_items.simps)
  ultimately show "\<exists>sc' u cs' ys. read_items (Suc n) p (last cs) sc s = Ret (p, sc') u \<and> scan_rest sc' = r
      \<and> is_list u p cs' ys \<and> set cs' \<inter> A = {} \<and> reps (without u A) ys (us @ v # ts) \<and> did_read s A {last cs} u"
    using u by blast
qed

lemma mk_list_cell: "bl_mk_val BL_VAL_TYPE_CONS = new_val BL_VAL_TYPE_CONS (U_cons NULL NULL)"
  by (simp add: bl_mk_val_def zero_payload_def)

lemma list_reads_nil: "list_reads n []"
  unfolding list_reads_def
proof (intro allI impI)
  fix sc :: scanner and s A r
  assume can: "can_read s A" and sc: "''('' @ scan_rest sc = show_sexp (S_list []) @ r"
    and n: "2 * length (scan_rest sc) + 2 \<le> n"
  let ?p = "next_addr s"
  have ok: "heap_ok s" using can_read_ok [OF can] by simp
  from n sc obtain m where m: "n = Suc (Suc m)" by (cases n; cases "n - 1") auto
  obtain s1 where s1: "new_val BL_VAL_TYPE_CONS (U_cons NULL NULL) s = Ret ?p s1"
      "heap s1 ?p = Some (fresh_val BL_VAL_TYPE_CONS (U_cons NULL NULL))" "did_read s A {} s1"
    by (rule new_cons_reads [OF can, of NULL NULL], rule that)
  obtain sc' t where t: "read_form (Suc m) sc s1 = Ret (end_list_val, sc') t" "scan_rest sc' = r"
      "did_read s1 A {} t" "has_type t end_list_val BL_VAL_TYPE_LIST_END"
    using close_reads [of s1 A sc r m] s1(3) sc by (auto simp: did_read_def)
  obtain c where c: "heap t ?p = Some c" "val_type c = BL_VAL_TYPE_CONS" "payload c = U_cons NULL NULL"
    using t(3) cells_leD s1(2) by (fastforce simp: did_read_def)
  obtain e where e: "heap t end_list_val = Some e" "val_type e = BL_VAL_TYPE_LIST_END"
    using t(4) by (auto simp: has_type_def)
  have ne: "end_list_val \<noteq> ?p" using c e by auto
  have can_t: "can_read t A" using t(3) by (simp add: did_read_def)
  define u where "u = put_val ?p (c\<lparr>payload := U_cons NULL NULL\<rparr>) t"
  have "read_list n sc s = Ret (?p, sc') u"
    using s1(1) t(1) c e ne by (simp add: m read_list.simps mk_list_cell u_def put_val_def)
  moreover have "rep (without u A) ?p (S_list [])"
    using can_read_old [OF can, of ?p] c by (auto simp: cell_is_def u_def)
  moreover have "did_read s A {} t" by (rule did_read_trans [OF s1(3) t(3) _ ok]) simp
  then have "did_read s A {} u"
    using did_read_trans [OF _ set_pair_reads(2) [OF can_t c(1,3)] _ ok, of "{}" NULL] by (simp add: u_def)
  ultimately show "\<exists>p sc' u. read_list n sc s = Ret (p, sc') u \<and> scan_rest sc' = r
      \<and> rep (without u A) p (S_list []) \<and> did_read s A {} u"
    using t(2) by blast
qed

text \<open>The cell of a list whose first element was just read.\<close>

lemma first_cell_reads:
  assumes can: "can_read s A" and p: "heap s p = Some c" "val_type c = BL_VAL_TYPE_CONS" "payload c = U_cons a d"
    and e: "rep (without s (insert p A)) e v"
  obtains t u where "set_car p e s = Ret () t" "set_cdr p NULL t = Ret () u" "did_read s A {p} u"
    "is_list u p [p] [e]" "rep (without u (insert p A)) e v"
proof -
  let ?t = "put_val p (c\<lparr>payload := U_cons e d\<rparr>) s"
  let ?u = "put_val p (c\<lparr>payload := U_cons e NULL\<rparr>) ?t"
  note t = set_pair_reads(1,2) [OF can p(1,3), of e]
  have can_t: "can_read ?t A" using t(2) by (simp add: did_read_def)
  have u: "set_cdr p NULL ?t = Ret () ?u" "did_read ?t A {p} ?u"
    using set_pair_reads(3,4) [OF can_t, of p "c\<lparr>payload := U_cons e d\<rparr>" e d NULL] by simp_all
  have "cells_le (without s (insert p A)) (without ?u (insert p A))" by (auto simp: cells_le_def)
  then have "rep (without ?u (insert p A)) e v" using rep_mono e by blast
  moreover have "did_read s A {p} ?u"
    using did_read_trans [OF t(2) u(2) _ can_read_ok(1) [OF can]] by simp
  ultimately show ?thesis using that [OF t(1) u(1)] p by simp
qed

lemma list_reads_cons:
  assumes "form_reads n v" "items_reads n ts" "printable v"
  shows "list_reads (Suc n) (v # ts)"
  unfolding list_reads_def
proof (intro allI impI)
  fix sc :: scanner and s A r
  assume can: "can_read s A" and sc: "''('' @ scan_rest sc = show_sexp (S_list (v # ts)) @ r"
    and n: "2 * length (scan_rest sc) + 2 \<le> Suc n"
  let ?p = "next_addr s"
  have ok: "heap_ok s" using can_read_ok [OF can] by simp
  obtain s1 where s1: "new_val BL_VAL_TYPE_CONS (U_cons NULL NULL) s = Ret ?p s1"
      "heap s1 ?p = Some (fresh_val BL_VAL_TYPE_CONS (U_cons NULL NULL))" "did_read s A {} s1"
      "can_read s1 (insert ?p A)"
    using new_cons_reads [OF can] by blast
  have "scan_rest sc = [] @ show_sexp v @ show_rest ts @ CHR '')'' # r" using sc by simp
  then obtain e sc1 t where t: "read_form n sc s1 = Ret (e, sc1) t"
      "scan_rest sc1 = show_rest ts @ CHR '')'' # r" "rep (without t (insert ?p A)) e v"
      "did_read s1 (insert ?p A) {} t"
    by (rule form_readsE [OF assms(1) s1(4), rotated]) (use n in auto)
  obtain c where c: "heap t ?p = Some c" "val_type c = BL_VAL_TYPE_CONS" "payload c = U_cons NULL NULL"
    using t(4) cells_leD s1(2) by (fastforce simp: did_read_def)
  have can_t: "can_read t A" using t(4) by (auto simp: did_read_def can_read_def)
  obtain t1 t2 where b: "set_car ?p e t = Ret () t1" "set_cdr ?p NULL t1 = Ret () t2" "did_read t A {?p} t2"
      "is_list t2 ?p [?p] [e]" "rep (without t2 (insert ?p A)) e v"
    by (rule first_cell_reads [OF can_t c t(3)])
  have can2: "can_read t2 A" using b(3) by (simp add: did_read_def)
  have A: "set [?p] \<inter> A = {}" using can_read_old [OF can, of ?p] by auto
  have r1: "reps (without t2 (A \<union> set [?p])) [e] [v]" using b(5) by simp
  have pos: "Suc 0 \<le> length (show_sexp v)" unfolding Suc_le_eq using assms(3) mpz_get_str_symchars by (cases v) (auto simp: plain_symbol_def)
  have "length (scan_rest sc) = length (show_sexp v) + length (scan_rest sc1)" using sc t(2) by simp
  with n pos have n2: "2 * length (scan_rest sc1) + 2 \<le> n" by linarith
  obtain sc' u cs' ys where
    u: "read_items n ?p ?p sc1 t2 = Ret (?p, sc') u" "scan_rest sc' = r" "is_list u ?p cs' ys" "set cs' \<inter> A = {}"
      "reps (without u A) ys (v # ts)" "did_read t2 A {?p} u"
    by (rule items_readsE [OF assms(2) can2 b(4) _ A r1 t(2) n2]) auto
  have "did_read s1 A {} t" by (rule did_read_subset [OF t(4)]) blast
  from did_read_trans [OF s1(3) this _ ok] have "did_read s A {} t" by simp
  from did_read_trans [OF this b(3) _ ok] have "did_read s A {} t2" by simp
  from did_read_trans [OF this u(6) _ ok] have "did_read s A {} u" by simp
  moreover have "rep (without u A) ?p (S_list (v # ts))"
    using is_list_without [OF u(3,4)] u(5) by auto
  moreover obtain d where "heap t2 e = Some d" "val_type d \<noteq> BL_VAL_TYPE_LIST_END" "e \<noteq> NULL"
    using rep_result [OF b(5) can_read_ok(1) [OF can2]] by blast
  then have "read_list (Suc n) sc s = Ret (?p, sc') u"
    using s1(1) t(1) b(1,2) u(1) by (simp add: read_list.simps mk_list_cell)
  ultimately show "\<exists>p sc' u. read_list (Suc n) sc s = Ret (p, sc') u \<and> scan_rest sc' = r
      \<and> rep (without u A) p (S_list (v # ts)) \<and> did_read s A {} u"
    using u(2) by blast
qed

text \<open>All three together, by induction on the fuel.\<close>

lemma reads_all:
  "printable t \<Longrightarrow> form_reads n t" "list_all printable ts \<Longrightarrow> list_reads n ts"
  "list_all printable ts \<Longrightarrow> items_reads n ts"
proof (induction n arbitrary: t ts)
  case 0
  { case 1 then show ?case by (simp add: form_reads_def) next
    case 2 then show ?case by (simp add: list_reads_def) next
    case 3 then show ?case by (simp add: items_reads_def) }
next
  case (Suc n)
  { case 1
    then show ?case
    proof (cases t)
      case (S_list ts)
      with 1 Suc(2) show ?thesis by (auto intro: form_reads_list)
    qed (use atom_reads in auto)
  next
    case 2
    then show ?case by (cases ts) (auto intro: list_reads_nil list_reads_cons Suc(1,3))
  next
    case 3
    then show ?case by (cases ts) (auto intro: items_reads_nil items_reads_cons Suc(1,3)) }
qed

lemma bl_parse_sexp_show:
  assumes "wf_store s" "\<not> uninit_bool s" "printable t"
  shows "\<exists>p u. bl_parse_sexp (show_sexp t) s = Ret p u \<and> rep u p t \<and> wf_store u \<and> cells_le s u
    \<and> \<not> uninit_bool u"
proof -
  have can: "can_read s {}" using assms by (simp add: can_read_def)
  obtain p sc u where r: "read_form (2 * length (show_sexp t) + 1) (scan_string (show_sexp t)) s = Ret (p, sc) u"
      "rep (without u {}) p t" "did_read s {} {} u"
    by (rule form_readsE [OF reads_all(1) [OF assms(3)] can, of "[]" "scan_string (show_sexp t)" "[]"
          "2 * length (show_sexp t) + 1"]) (auto simp: scan_string_def)
  have "wf_store u" "cells_le s u" "\<not> uninit_bool u" using r(3) by (simp_all add: did_read_def can_read_def)
  moreover have "p \<noteq> NULL" using r(2) rep_nonnull [of u p t] \<open>wf_store u\<close> by (simp add: wf_store_def)
  ultimately show ?thesis using r(1,2) by (simp add: bl_parse_sexp_def)
qed

end
