(* ===== verification/BL_Data_Props.thy ===== *)
theory BL_Data_Props
  imports BL_Scope BL_Roundtrip
begin

text \<open>
  What the data layer of the runtime promises: reading and printing, the scanner, symbols, memory, lists,
  strings, numbers and the checks of argument lists.
\<close>

section \<open>Reading and printing\<close>

text \<open>A sample expression for the concrete runs: \<open>(+ 1 ("a" if -20) ())\<close>.\<close>

definition sample_sexp :: sexp where
  "sample_sexp = S_list [S_sym ''+'', S_num 1, S_list [S_str ''a'', S_if, S_num (-20)], S_list []]"

lemma sample_printable: "printable sample_sexp"
  by (simp add: sample_sexp_def plain_symbol_def plain_string_def m_number_def is_symchar_def is_digit_def)

lemma sample_exists: "\<exists>p s. rep s p sample_sexp \<and> wf_store s \<and> \<not> uninit_bool s"
  using bl_parse_sexp_show [OF wf_bare _ sample_printable] by auto



text \<open>
  Reading the text of an expression tree and printing what was read gives the text back: nothing is
  lost or added, and every value that existed before still has its tag and its contents.
\<close>

theorem parse_print_roundtrip:
  assumes "wf_store s" "\<not> uninit_bool s" "printable t"
  shows "\<exists>p u. bl_parse_sexp (show_sexp t) s = Ret p u \<and> bl_ser_sexp p u = Ret (show_sexp t) u \<and> cells_le s u"
proof -
  obtain p u where u: "bl_parse_sexp (show_sexp t) s = Ret p u" "rep u p t" "wf_store u" "cells_le s u"
    using bl_parse_sexp_show [OF assms] by blast
  moreover have "bl_ser_sexp p u = Ret (show_sexp t) u"
    using u(2,3) by (intro bl_ser_sexp_rep) (simp_all add: wf_store_def)
  ultimately show ?thesis by blast
qed

lemma sample_text: "show_sexp sample_sexp = ''(+ 1 ('' @ [DQ, CHR ''a'', DQ] @ '' if -20) ())''"
  by code_simp

lemma parse_print_roundtrip_witness:
  "\<exists>p u. bl_parse_sexp (''(+ 1 ('' @ [DQ, CHR ''a'', DQ] @ '' if -20) ())'') bare_store = Ret p u
     \<and> bl_ser_sexp p u = Ret (''(+ 1 ('' @ [DQ, CHR ''a'', DQ] @ '' if -20) ())'') u \<and> cells_le bare_store u"
  using parse_print_roundtrip [OF wf_bare _ sample_printable] by (simp only: sample_text) simp

text \<open>
  C8. The reader answers on every text: in a well-formed state \<open>bl_parse_sexp\<close> returns an allocated value
  without a fault and without running out of fuel, and leaves a well-formed state in which every value
  that existed before has kept its tag.
\<close>

theorem parse_sexp_answers:
  assumes "wf_store s"
  shows "\<exists>p t. bl_parse_sexp x s = Ret p t \<and> allocated t p \<and> wf_store t \<and> evolves s t"
  using bl_parse_sexp_total [OF assms] safe_run [OF parse_safe(1) assms] by blast

lemma parse_sexp_answers_witness:
  "\<exists>p t. bl_parse_sexp ''(1 (2'' bare_store = Ret p t \<and> allocated t p \<and> wf_store t \<and> evolves bare_store t"
  by (rule parse_sexp_answers [OF wf_bare])

text \<open>
  \<open>bl_parse_file\<close> answers on the contents of every file, with a list of forms.
\<close>

theorem parse_file_answers:
  assumes "wf_store s"
  shows "\<exists>p t. bl_parse_file x s = Ret p t \<and> has_type t p BL_VAL_TYPE_CONS \<and> wf_store t \<and> evolves s t"
  using bl_parse_file_total [OF assms] safe_run [OF parse_safe(2) assms] by blast

lemma parse_file_answers_witness:
  "\<exists>p t. bl_parse_file ''(print 1) )'' bare_store = Ret p t \<and> has_type t p BL_VAL_TYPE_CONS
     \<and> wf_store t \<and> evolves bare_store t"
  by (rule parse_file_answers [OF wf_bare])

text \<open>
  The scanner ends: as many rounds as there are characters always suffice, more rounds change nothing,
  and every token that is returned has consumed input.
\<close>

theorem yylex_progress:
  "(length (scan_rest sc) \<le> n \<longrightarrow> yylex_loop n sc [] = yylex sc)
   \<and> (\<forall>tok text sc'. snd (yylex sc) = Some (tok, text, sc') \<longrightarrow> length (scan_rest sc') < length (scan_rest sc))"
  using yylex_loop_enough [of sc n "[]"] yylex_consumes [of sc "fst (yylex sc)"]
  by (cases "yylex sc") (auto simp: yylex_def)

lemma yylex_progress_witness:
  "yylex_loop 100 (scan_string '' (if'') [] = yylex (scan_string '' (if'')"
  using yylex_progress [of "scan_string '' (if''" 100] by (simp add: scan_string_def)

text \<open>
  Printing leaves the program state alone: expressions, error messages, strings without quotes and
  joined lists are computed from any state, well formed or not, without a change.
\<close>

theorem printing_is_pure:
  "keeps (=) (bl_ser_sexp p) \<and> keeps (=) (bl_errmsg p) \<and> keeps (=) (bl_ser_naked_sexp p) \<and> keeps (=) (join_str p sep)"
  using print_same by blast

section \<open>Symbols\<close>

text \<open>
  C10. Symbols are interned: two names that fit the table's key get the same pointer exactly when they are
  equal, and whatever the program does in between, asking for a name again gives the same pointer.
\<close>

theorem symbols_interned:
  assumes "wf_store s" "length x < 31" "length y < 31" "bl_mk_symbol x s = Ret p t" "evolves t t'" "wf_store t'"
    "bl_mk_symbol y t' = Ret q u"
  shows "(p = q \<longleftrightarrow> x = y) \<and> (\<exists>i. is_symbol u p x i)"
proof -
  obtain i where i: "is_symbol t p x i" using bl_mk_symbol_result(1) [OF assms(1,2,4)] by blast
  have ev: "evolves t' u" "wf_store u" using safe_run [OF bl_mk_symbol_safe assms(6,7)] by simp_all
  have p: "is_symbol u p x i" using i assms(5) ev(1) evolves_symbol by blast
  obtain j where q: "is_symbol u q y j" using bl_mk_symbol_result(1) [OF assms(6,3,7)] by blast
  have "p = q \<longleftrightarrow> x = y"
    using p q symbol_unique [OF ev(2)] assms(2) by (auto simp: is_symbol_def)
  with p show ?thesis by blast
qed

lemma symbols_interned_witness:
  "\<exists>p t q u. bl_mk_symbol ''x'' bare_store = Ret p t \<and> bl_mk_symbol ''y'' t = Ret q u \<and> p \<noteq> q"
proof -
  obtain p t where t: "bl_mk_symbol ''x'' bare_store = Ret p t" using bl_mk_symbol_total by blast
  obtain q u where u: "bl_mk_symbol ''y'' t = Ret q u" using bl_mk_symbol_total by blast
  have "wf_store t" using safe_run [OF bl_mk_symbol_safe wf_bare t] by simp
  from symbols_interned [OF wf_bare _ _ t evolves_refl this u] t u show ?thesis by auto
qed

text \<open>
  A name of 32 characters or more is never found again: the table holds its first 31 characters only,
  so every request makes another symbol, with another number, although the name is the same.
\<close>

theorem long_symbols_not_interned:
  assumes "wf_store s" "31 < length x"
  shows "\<exists>p t q u. bl_mk_symbol x s = Ret p t \<and> bl_mk_symbol x t = Ret q u \<and> p \<noteq> q
    \<and> (\<exists>i j. i \<noteq> j \<and> is_symbol u p x i \<and> is_symbol u q x j)"
proof -
  have none: "map_of (symbol_table t) x = None" if "wf_store t" for t
  proof (rule ccontr)
    assume "map_of (symbol_table t) x \<noteq> None"
    then obtain p where "(x, p) \<in> set (symbol_table t)" by (auto dest: map_of_SomeD)
    with that obtain y where "x = take 31 y" unfolding wf_store_def symtab_ok_def by blast
    with assms(2) show False by simp
  qed
  obtain p t where t: "bl_mk_symbol x s = Ret p t" "is_symbol t p x (last_sym_id s)"
    using none [OF assms(1)] by (cases rule: bl_mk_symbol_cases [of s x]) (auto simp: is_symbol_def)
  have wf: "wf_store t" using safe_run [OF bl_mk_symbol_safe assms(1) t(1)] by simp
  obtain q u where u: "bl_mk_symbol x t = Ret q u" "is_symbol u q x (last_sym_id t)"
    using none [OF wf] by (cases rule: bl_mk_symbol_cases [of t x]) (auto simp: is_symbol_def)
  have ev: "evolves t u" "wf_store u" using safe_run [OF bl_mk_symbol_safe wf u(1)] by simp_all
  have lt: "last_sym_id s < last_sym_id t" using t(2) wf unfolding wf_store_def symtab_ok_def by blast
  have p: "is_symbol u p x (last_sym_id s)" using evolves_symbol [OF ev(1) t(2)] .
  then have "p \<noteq> q" using u(2) lt by (auto simp: is_symbol_def)
  with t u p lt show ?thesis by (metis less_irrefl)
qed

lemma long_symbols_not_interned_witness:
  "\<exists>p t q u. bl_mk_symbol (replicate 32 (CHR ''a'')) bare_store = Ret p t
     \<and> bl_mk_symbol (replicate 32 (CHR ''a'')) t = Ret q u \<and> p \<noteq> q"
  using long_symbols_not_interned [OF wf_bare, of "replicate 32 (CHR ''a'')"] by auto

section \<open>Memory\<close>

text \<open>
  The value pool never hands out an address twice: any number of single allocations from the state
  the process starts in gives different addresses, also across the start of a new pool.
\<close>

theorem pool_addresses_distinct:
  "distinct (fst (fresh_allocator.alloc_many (bl_alloc_vals 1) n init_pools))"
  by (rule pools.alloc_many_distinct)
    (simp add: pools_ok_def init_pools_def POOL_DEFAULT_SIZE_def)

text \<open>
  The pool is overrun by one value: the request that follows the first \<open>POOL_DEFAULT_SIZE - 1\<close> ones is
  answered with the index \<open>POOL_DEFAULT_SIZE\<close>, one past the end of the array of that size.
\<close>

lemma pool_count:
  "n \<le> POOL_DEFAULT_SIZE \<Longrightarrow>
     (((\<lambda>ps. snd (bl_alloc_vals 1 ps)) ^^ n) init_pools) = init_pools\<lparr>last_alloc := n\<rparr>"
  by (induction n) (auto simp: bl_alloc_vals_def init_pools_def POOL_DEFAULT_SIZE_def)

theorem pool_overrun:
  "fst (bl_alloc_vals 1 (((\<lambda>ps. snd (bl_alloc_vals 1 ps)) ^^ (POOL_DEFAULT_SIZE - 1)) init_pools))
     = (0, val_pool_size init_pools)"
  using pool_count [of "POOL_DEFAULT_SIZE - 1"]
  by (simp add: bl_alloc_vals_def init_pools_def) (simp add: POOL_DEFAULT_SIZE_def)

section \<open>Lists\<close>

text \<open>
  \<open>bl_mk_list\<close> builds a list of the given values in order, \<open>bl_list_len\<close> counts them, and
  \<open>bl_list_reverse\<close> builds the reverse without touching the first list.
\<close>

theorem list_build_reverse:
  assumes "heap_ok s" "xs \<noteq> []" "NULL \<notin> set xs"
  shows "\<exists>q t r u. bl_mk_list xs s = Ret q t \<and> bl_list_len q t = Ret (length xs) t
    \<and> bl_list_reverse q t = Ret r u \<and> list_rep u r (rev xs) \<and> list_rep u q xs \<and> heap_ok u"
proof -
  obtain q t where t: "bl_mk_list xs s = Ret q t" "heap_ok t" "list_rep t q xs"
    using bl_mk_list_spec [OF assms(1,2)] by blast
  then obtain cs where cs: "is_list t q cs xs" by (auto simp: list_rep_def)
  have "hd xs \<noteq> NULL" using assms(2,3) by (cases xs) auto
  then have "bl_list_len q t = Ret (length xs) t" using bl_list_len_spec [OF cs t(2)] by blast
  moreover obtain r u where "bl_list_reverse q t = Ret r u" "heap_ok u" "list_rep u r (rev xs)" "list_rep u q xs"
    using bl_list.reverse_rep [OF t(2,3)] t(3) by blast
  ultimately show ?thesis using t(1) by blast
qed

lemma list_build_reverse_witness:
  "\<exists>q t r u. bl_mk_list [1, 2, 3] bare_store = Ret q t \<and> bl_list_len q t = Ret 3 t
    \<and> bl_list_reverse q t = Ret r u \<and> list_rep u r [3, 2, 1] \<and> list_rep u q [1, 2, 3]"
  using list_build_reverse [of bare_store "[1, 2, 3]"] wf_bare by (auto simp: wf_store_def)

text \<open>
  \<open>bl_list_append\<close> works in place: the pointer that was passed in is returned and now stands for the
  longer list, so every other holder of it sees the new element; the cells before the last are kept.
\<close>

theorem append_in_place:
  assumes "is_list s p cs xs" "heap_ok s" "cs \<noteq> []"
  shows "\<exists>t. bl_list_append p v s = Ret p t \<and> list_rep t p (xs @ [v])
    \<and> (\<forall>a c. heap s a = Some c \<longrightarrow> a \<noteq> last cs \<longrightarrow> heap t a = Some c)"
  by (rule bl_list_append_spec [OF assms(1,2), of v]) (use assms(3) in \<open>auto simp: list_rep_def\<close>)

lemma append_in_place_witness:
  "\<exists>q t u. bl_mk_list [1, 2] bare_store = Ret q t \<and> bl_list_append q 3 t = Ret q u \<and> list_rep u q [1, 2, 3]"
proof -
  obtain q t where t: "bl_mk_list [1, 2] bare_store = Ret q t" "heap_ok t" "list_rep t q [1, 2]"
    using bl_mk_list_spec [of bare_store "[1, 2]"] wf_bare by (auto simp: wf_store_def)
  then obtain cs where cs: "is_list t q cs [1, 2]" by (auto simp: list_rep_def)
  then have "cs \<noteq> []" by auto
  from append_in_place [OF cs t(2) this, of 3] t(1) show ?thesis by auto
qed

section \<open>Strings and numbers\<close>

text \<open>
  C29. Splitting a string at a separator gives a list of strings in order, none of which contains the
  separator, that put together with the separator between them are the string again, or the string
  less a separator at its very end.
\<close>

theorem split_pieces_rejoin:
  assumes "heap_ok s" "sep \<noteq> []" "length sep < length x"
  shows "\<exists>q t rs ps. split_str x sep s = Ret q t \<and> list_rep t q rs \<and> list_all2 (is_str t) rs ps
    \<and> (x = intercalate sep ps \<or> x = intercalate sep ps @ sep) \<and> (\<forall>y \<in> set ps. strstr y sep = None)"
proof -
  obtain ps where ps: "split_pieces (Suc (length x)) x sep = Some ps"
    using split_pieces_enough [OF assms(2)] by blast
  have "x \<noteq> []" using assms(3) by auto
  with split_pieces_join [OF ps assms(2)]
  have join: "x = intercalate sep ps \<or> x = intercalate sep ps @ sep" "\<forall>y \<in> set ps. strstr y sep = None"
    by (auto split: if_splits)
  obtain q t ds rs where t: "build_strs ps NULL s = Ret q t" "heap_ok t" "is_list t q ds rs"
      "list_all2 (is_str t) rs (rev ps)"
    using build_strs_spec [OF assms(1), of NULL "[]" "[]" "[]" ps] by auto
  obtain r u where u: "bl_list_reverse q t = Ret r u" "list_rep u r (rev rs)"
  proof -
    have "list_rep t q rs" using t(3) by (auto simp: list_rep_def)
    from bl_list.reverse_rep [OF t(2) this] that show ?thesis by blast
  qed
  have "list_all2 (is_str u) (rev rs) ps"
    unfolding list_all2_rev1
    by (rule list_all2_mono [OF t(4)]) (rule same_heap_below_str [OF bl_list_reverse_below [OF t(2) u(1)]])
  moreover have "split_str x sep s = Ret r u"
    using assms(3) \<open>x \<noteq> []\<close> ps t(1) u(1) by (simp add: split_str_def)
  ultimately show ?thesis using u(2) join by blast
qed

lemma split_pieces_rejoin_witness:
  "\<exists>q t rs ps. split_str ''a::b'' ''::'' bare_store = Ret q t \<and> list_rep t q rs \<and> list_all2 (is_str t) rs ps
    \<and> (''a::b'' = intercalate ''::'' ps \<or> ''a::b'' = intercalate ''::'' ps @ ''::'')"
  using split_pieces_rejoin [of bare_store "''::''" "''a::b''"] wf_bare by (auto simp: wf_store_def)

text \<open>
  C30. Splitting a non-empty string at the empty separator never returns: whatever the bound, the loop is
  still running.
\<close>

theorem split_empty_separator_diverges:
  assumes "x \<noteq> []"
  shows "split_str x [] s = Timeout \<and> (\<forall>n. split_pieces n x [] = None)"
  using assms split_pieces_empty_sep by (simp add: split_str_def del: split_pieces.simps)

lemma split_empty_separator_diverges_witness: "split_str ''ab'' [] bare_store = Timeout"
  using split_empty_separator_diverges [of "''ab''" bare_store] by simp

text \<open>
  An integer's decimal text is read back as that integer, by \<open>mpz_set_str\<close> and by the constructor of
  number values.
\<close>

theorem integer_text_roundtrip:
  "mpz_set_str (mpz_get_str i) = Some i
   \<and> (\<exists>p t. bl_mk_integer (mpz_get_str i) s = Ret p t \<and> get_i_val p t = Ret i t \<and> stderr_buf t = stderr_buf s)"
  by (simp add: mpz_get_set bl_mk_integer_def run_new_val)

text \<open>
  Division rounds towards zero and the remainder of \<open>mpz_mod\<close> is never negative: quotient and truncated
  remainder recombine to the dividend, and \<open>mpz_mod\<close> is the mathematical remainder by the divisor's magnitude.
\<close>

theorem division_spec:
  assumes "d \<noteq> 0"
  shows "mpz_tdiv_q n d * d + mpz_tdiv_r n d = n \<and> \<bar>mpz_tdiv_r n d\<bar> < \<bar>d\<bar>
    \<and> (mpz_tdiv_r n d = 0 \<or> (mpz_tdiv_r n d < 0 \<longleftrightarrow> n < 0)) \<and> mpz_mod n d = n mod \<bar>d\<bar>"
proof (intro conjI)
  have split: "\<bar>n\<bar> div \<bar>d\<bar> * \<bar>d\<bar> + \<bar>n\<bar> mod \<bar>d\<bar> = \<bar>n\<bar>" by simp
  have r: "0 \<le> \<bar>n\<bar> mod \<bar>d\<bar>" "\<bar>n\<bar> mod \<bar>d\<bar> < \<bar>d\<bar>" using assms by simp_all
  show "mpz_tdiv_q n d * d + mpz_tdiv_r n d = n"
  proof -
    define q r where "q = \<bar>n\<bar> div \<bar>d\<bar>" and "r = \<bar>n\<bar> mod \<bar>d\<bar>"
    with split have "q * \<bar>d\<bar> + r = \<bar>n\<bar>" by simp
    then show ?thesis
      unfolding mpz_tdiv_q_def mpz_tdiv_r_def q_def [symmetric] r_def [symmetric]
      by (auto simp: abs_if split: if_splits)
  qed
  show "\<bar>mpz_tdiv_r n d\<bar> < \<bar>d\<bar>" "mpz_tdiv_r n d = 0 \<or> (mpz_tdiv_r n d < 0 \<longleftrightarrow> n < 0)"
    using r by (auto simp: mpz_tdiv_r_def)
  show "mpz_mod n d = n mod \<bar>d\<bar>"
  proof (cases "n < 0")
    case True
    then have "\<bar>n\<bar> = - n" by simp
    moreover have "(- n) mod \<bar>d\<bar> = (if n mod \<bar>d\<bar> = 0 then 0 else \<bar>d\<bar> - n mod \<bar>d\<bar>)"
      by (rule zmod_zminus1_eq_if)
    ultimately show ?thesis
      using True assms pos_mod_bound [of "\<bar>d\<bar>" n] by (simp add: mpz_mod_def mpz_tdiv_r_def Let_def)
  qed (use r in \<open>simp add: mpz_mod_def mpz_tdiv_r_def Let_def\<close>)
qed

lemma division_spec_witness: "mpz_tdiv_q (-7) 2 * 2 + mpz_tdiv_r (-7) 2 = -7 \<and> mpz_mod (-7) 2 = (-7) mod 2"
  using division_spec [of 2 "-7"] by simp

section \<open>Argument checks\<close>

text \<open>
  The check of the number of arguments accepts exactly the numbers between its bounds; otherwise the
  error says whether there are too few or too many, the bounds and the number that was given.
\<close>

theorem arg_count_check:
  assumes "heap_ok s" "arg_list s p xs Ts"
  shows "if mn \<le> length xs \<and> length xs \<le> mx then bl_errif_invalid_len p mn mx s = Ret NULL s
    else \<exists>r t. bl_errif_invalid_len p mn mx s = Ret r t \<and> r \<noteq> NULL \<and> same_heap_below s t \<and> is_error t r (zero_err\<lparr>
       err_type := (if length xs < mn then BL_ERR_INSUFFICIENT_ARGS else BL_ERR_TOOMANY_ARGS),
       min_args := mn, max_args := mx, provided_args := length xs\<rparr>)"
  using errif_invalid_len_ok [OF assms, of mn mx] errif_invalid_len_error [OF assms, of mn mx]
    arg_list_len(3) [OF assms] by (auto simp: not_le)

lemma sample_args: "\<exists>p s. heap_ok s \<and> arg_list s p [2, 3] [BL_VAL_TYPE_BOOL, BL_VAL_TYPE_BOOL]"
proof -
  have ok: "heap_ok bare_store" using wf_bare by (simp add: wf_store_def)
  obtain q t where t: "bl_mk_list [2, 3] bare_store = Ret q t" "heap_ok t" "list_rep t q [2, 3]"
    using bl_mk_list_spec [OF ok, of "[2, 3]"] by auto
  have "q \<noteq> NULL" using t(2,3) is_list_NULL [OF t(2)] by (fastforce simp: list_rep_def)
  have "statics_ok t" using safe_run [OF list_ops_safe(10) wf_bare t(1)] by (simp add: wf_store_def)
  then have "has_type t 2 BL_VAL_TYPE_BOOL" "has_type t 3 BL_VAL_TYPE_BOOL"
    by (auto simp: statics_ok_def has_type_def true_val_def false_val_def)
  with t \<open>q \<noteq> NULL\<close> show ?thesis by (auto simp: arg_list_def)
qed

lemma arg_count_check_witness:
  "\<exists>p s. arg_list s p [2, 3] [BL_VAL_TYPE_BOOL, BL_VAL_TYPE_BOOL] \<and> bl_errif_invalid_len p 1 2 s = Ret NULL s"
proof -
  obtain p s where "heap_ok s" "arg_list s p [2, 3] [BL_VAL_TYPE_BOOL, BL_VAL_TYPE_BOOL]"
    using sample_args by blast
  with arg_count_check [OF this, of 1 2] show ?thesis by auto
qed

text \<open>
  The check of argument types accepts exactly the argument lists of the expected length and types,
  \<open>BL_VAL_TYPE_ANY\<close> standing for any type. When the length is right and a type is not, the error lists the
  expected types and the given ones; when the length is wrong the error is that of the count.
\<close>

theorem arg_types_check:
  assumes "heap_ok s" "arg_list s p xs Ts"
  shows "if types_match Es Ts then bl_errif_invalid_fixed_args p Es s = Ret NULL s
    else \<exists>r t. bl_errif_invalid_fixed_args p Es s = Ret r t \<and> r \<noteq> NULL \<and> (\<exists>e. is_error t r e
       \<and> (if length Es = length xs
          then err_type e = BL_ERR_INVALID_ARGTYPE \<and> expected_types e = Some Es \<and> provided_types e = Some Ts
          else err_type e = (if length xs < length Es then BL_ERR_INSUFFICIENT_ARGS else BL_ERR_TOOMANY_ARGS)
            \<and> provided_args e = length xs))"
proof (cases "length Es = length Ts")
  case True
  with errif_invalid_fixed_args_ok [OF assms] errif_invalid_fixed_args_type_error [OF assms True]
    arg_list_len(3) [OF assms] show ?thesis by fastforce
next
  case False
  then have "\<not> types_match Es Ts" by (auto simp: types_match_def dest: list_all2_lengthD)
  moreover obtain r t where "bl_errif_invalid_len p (length Es) (length Es) s = Ret r t" "r \<noteq> NULL"
      "is_error t r (zero_err\<lparr>
       err_type := (if length Ts < length Es then BL_ERR_INSUFFICIENT_ARGS else BL_ERR_TOOMANY_ARGS),
       min_args := length Es, max_args := length Es, provided_args := length Ts\<rparr>)"
    using errif_invalid_len_error [OF assms, of "length Es" "length Es"] False by (auto simp: linorder_neq_iff)
  ultimately show ?thesis
    using False arg_list_len(3) [OF assms] by (fastforce simp: bl_errif_invalid_fixed_args_def)
qed

lemma arg_types_check_witness:
  "\<exists>p s. arg_list s p [2, 3] [BL_VAL_TYPE_BOOL, BL_VAL_TYPE_BOOL]
     \<and> bl_errif_invalid_fixed_args p [BL_VAL_TYPE_BOOL, BL_VAL_TYPE_ANY] s = Ret NULL s"
proof -
  obtain p s where "heap_ok s" "arg_list s p [2, 3] [BL_VAL_TYPE_BOOL, BL_VAL_TYPE_BOOL]"
    using sample_args by blast
  with arg_types_check [OF this, of "[BL_VAL_TYPE_BOOL, BL_VAL_TYPE_ANY]"] show ?thesis
    by (auto simp: types_match_def)
qed

end
