(* ===== verification/BL_Eval_Props.thy ===== *)
theory BL_Eval_Props
  imports BL_Data_Props
begin

text \<open>
  What the evaluator and the builtin operators promise: the state stays well formed, the fuel does not
  matter, scoping, the evaluation of literals and argument lists, arithmetic, comparison and logic, the
  special forms and error handling.
\<close>

section \<open>The state and the fuel\<close>

lemma eval_value: "bl_eval (Suc n) ctx true_val bare_store = Ret true_val bare_store"
proof -
  obtain c where "heap bare_store true_val = Some c" "val_type c = BL_VAL_TYPE_BOOL"
    using wf_bare by (auto simp: wf_store_def statics_ok_def)
  then show ?thesis by (simp add: bl_eval.simps eval_step_def)
qed

text \<open>
  C2. Evaluation keeps the program state well formed: tags fit their unions, static values are intact,
  the symbol table is consistent, no value ever changes its tag and symbols, booleans, operators, types
  and pointers never change at all. This covers every builtin, module operator, import and user function
  that the evaluation runs.
\<close>

theorem eval_keeps_state:
  assumes "wf_store s" "bl_eval n ctx e s = Ret v t"
  shows "wf_store t \<and> evolves s t"
  by (rule safe_run [OF bl_eval_safe assms])

lemma eval_keeps_state_witness:
  "bl_eval 1 NULL true_val bare_store = Ret true_val bare_store \<and> wf_store bare_store \<and> evolves bare_store bare_store"
  using eval_keeps_state [OF wf_bare eval_value [of 0 NULL]] eval_value [of 0 NULL] by simp

text \<open>
  C9. The outcome of an evaluation does not depend on the fuel: two runs that both end, with a value, a
  fault or an exit, end alike, and a run that ended still ends so with more fuel.
\<close>

theorem eval_fuel_independent:
  assumes "bl_eval n ctx e s \<noteq> Timeout"
  shows "(n \<le> m \<longrightarrow> bl_eval m ctx e s = bl_eval n ctx e s)
    \<and> (bl_eval m ctx e s \<noteq> Timeout \<longrightarrow> bl_eval m ctx e s = bl_eval n ctx e s)"
  using le_M_D [OF bl_eval_mono [of n m ctx e] refl assms] bl_eval_determined [OF refl assms refl, of m] by metis

lemma eval_fuel_independent_witness: "bl_eval 7 NULL true_val bare_store = bl_eval 1 NULL true_val bare_store"
proof -
  have "bl_eval 1 NULL true_val bare_store \<noteq> Timeout" using eval_value [of 0 NULL] by simp
  from eval_fuel_independent [OF this, of 7] show ?thesis by simp
qed

text \<open>
  The evaluator never returns NULL. \<open>gives m\<close>: in a well-formed state, what \<open>m\<close> returns is not NULL.
\<close>

definition gives :: "ptr BL \<Rightarrow> bool" where
  "gives m \<longleftrightarrow> (\<forall>s v t. wf_store s \<longrightarrow> m s = Ret v t \<longrightarrow> v \<noteq> NULL)"

named_theorems gives_intros \<open>introduction rules for computations that never return NULL\<close>

lemma gives_basic [gives_intros]:
  "p \<noteq> NULL \<Longrightarrow> gives (returnM p)" "gives bl_mk_null" "gives (or_null p)" "gives (faultM f)" "gives timeoutM"
  "gives (new_val T u)" "gives (bl_mk_err E)" "gives (bl_err_symnotfound x)"
  by (auto simp: gives_def or_null_def bl_mk_null_def run_new_val bl_mk_err_def bl_err_symnotfound_def
      wf_store_def heap_ok_next)

lemma gives_bind [gives_intros]: "keeps safe_step m \<Longrightarrow> (\<And>x. gives (f x)) \<Longrightarrow> gives (bindM m f)"
  unfolding gives_def using safe_run [of m] by (metis bindM_eq_Ret_iff)

lemma gives_if [gives_intros]: "(b \<Longrightarrow> gives m) \<Longrightarrow> (\<not> b \<Longrightarrow> gives k) \<Longrightarrow> gives (if b then m else k)"
  by simp

lemma gives_after_read: "(\<And>T. p \<noteq> NULL \<Longrightarrow> gives (f T)) \<Longrightarrow> gives (bindM (get_type p) f)"
proof -
  assume f: "\<And>T. p \<noteq> NULL \<Longrightarrow> gives (f T)"
  have "v \<noteq> NULL" if "wf_store s" "bindM (get_type p) f s = Ret v t" for s v t
  proof -
    from that(2) obtain c where "heap s p = Some c" "f (val_type c) s = Ret v t" by auto
    with f that(1) show ?thesis unfolding gives_def by (metis heap_okD(1) neq0_conv wf_store_def)
  qed
  then show ?thesis by (simp add: gives_def)
qed

lemma gives_sum [gives_intros]:
  "(\<And>x. gives (g x)) \<Longrightarrow> (\<And>x. gives (f x)) \<Longrightarrow> gives (case z of Inl x \<Rightarrow> g x | Inr x \<Rightarrow> f x)"
  by (cases z) simp_all

lemma for_cdr_Inl:
  assumes "\<And>i x s v t. body i x s = Ret (Inl v) t \<Longrightarrow> P v"
  shows "for_cdr n body i x s = Ret (Inl v) t \<Longrightarrow> P v"
  by (induction n arbitrary: i x s) (auto split: if_splits sum.splits dest!: assms)

lemma eval_body_Inl: "eval_body R c e r s = Ret (Inl v) t \<Longrightarrow> v \<noteq> NULL"
  unfolding eval_body_def by (erule for_cdr_Inl [rotated]) (auto split: if_splits)

lemma gives_body:
  assumes "keeps safe_step (eval_body R c e r)" "\<And>v. gives (f (Inr v))" "\<And>v. v \<noteq> NULL \<Longrightarrow> gives (f (Inl v))"
  shows "gives (bindM (eval_body R c e r) f)"
  unfolding gives_def
proof (intro allI impI)
  fix s v t
  assume wf: "wf_store s" and "bindM (eval_body R c e r) f s = Ret v t"
  then obtain x u where x: "eval_body R c e r s = Ret x u" "f x u = Ret v t" by auto
  have "wf_store u" using safe_run [OF assms(1) wf x(1)] by simp
  with x assms(2,3) eval_body_Inl [of R c e r s] show "v \<noteq> NULL" unfolding gives_def by (cases x) blast+
qed

context safe_runtime
begin

lemma eval_do_gives [gives_intros]: "gives (eval_do R c e)"
  unfolding eval_do_def by (rule gives_body) (auto intro: keeps_intros gives_intros)

lemma while_loop_gives [gives_intros]: "gives (while_loop n R c k e)"
proof (induction n)
  case (Suc n)
  have body: "gives (bindM (eval_body R c b null_val) (\<lambda>r. case r of Inl e \<Rightarrow> returnM e | Inr _ \<Rightarrow> while_loop n R c k e))"
    for b by (rule gives_body) (auto intro: keeps_intros gives_intros Suc)
  show ?case
    unfolding while_loop.simps
    by (intro body gives_if gives_basic reads_safe [THEN gives_bind] list_ops_safe(2) [THEN gives_bind]
        eval_safe [THEN gives_bind])
qed (simp only: while_loop.simps gives_basic)

lemma calls_give [gives_intros]:
  "gives (call_func R c f e)" "gives (call_oper R f e)" "gives (call_oper_native R c f e)"
  unfolding call_func_def call_oper_def call_oper_native_def bl_eval_funcbody_def
  by (intro gives_intros keeps_intros ctx_meta_safe update_meta_safe; simp)+

lemma eval_call_gives:
  assumes "\<And>c e. gives (rt_eval R c e)"
  shows "gives (eval_call R c f e)"
proof -
  have if_gives: "gives (bindM (bl_eval_if R c e) (\<lambda>e. bindM (get_type e) (\<lambda>T.
        if T = BL_VAL_TYPE_ERROR then returnM e else rt_eval R c e)))"
    by (rule gives_bind [OF bl_eval_if_safe]) (intro gives_after_read gives_intros assms)
  show ?thesis
    unfolding eval_call_def
  proof (rule gives_after_read)
    fix T
    assume "f \<noteq> NULL"
    then show "gives (case T of
      BL_VAL_TYPE_ERROR \<Rightarrow> returnM f
    | BL_VAL_TYPE_OPER_NATIVE \<Rightarrow> call_oper_native R c f e
    | BL_VAL_TYPE_OPER_DO \<Rightarrow> bindM (get_cdr e) (eval_do R c)
    | BL_VAL_TYPE_OPER_IF \<Rightarrow> bindM (bl_eval_if R c e) (\<lambda>e. bindM (get_type e) (\<lambda>T.
        if T = BL_VAL_TYPE_ERROR then returnM e else rt_eval R c e))
    | BL_VAL_TYPE_OPER_WHILE \<Rightarrow> bindM (get_cdr e) (\<lambda>d. bindM (bl_list_first d) (\<lambda>cond.
        while_loop (rt_fuel R) R c cond e))
    | BL_VAL_TYPE_FUNC_BL \<Rightarrow> call_func R c f e
    | BL_VAL_TYPE_OPER_BL \<Rightarrow> call_oper R f e
    | _ \<Rightarrow> bindM (bl_eval_cons R c e) or_null)"
      by (cases T; simp only: bl_val_type_t.case) (intro if_gives gives_intros keeps_intros; simp)+
  qed
qed

lemma eval_step_gives:
  assumes "\<And>c e. gives (rt_eval R c e)"
  shows "gives (eval_step R c e)"
proof -
  have look: "gives (bindM (bl_ctx_get R c a) (\<lambda>v. if v = NULL then bindM (get_s_val a) bl_err_symnotfound else f v))"
    if "\<And>v. v \<noteq> NULL \<Longrightarrow> gives (f v)" for a f
    by (intro gives_intros keeps_intros that)
  show ?thesis
    unfolding eval_step_def
  proof (intro gives_if gives_basic(2))
    assume e: "e \<noteq> NULL"
    show "gives (bindM (get_type e) (\<lambda>T. case T of
        BL_VAL_TYPE_ERROR \<Rightarrow> returnM e
      | BL_VAL_TYPE_CONS \<Rightarrow> bindM (get_car e) (\<lambda>a.
          if a = NULL then bl_mk_null
          else bindM (get_type a) (\<lambda>A.
            if A = BL_VAL_TYPE_SYMBOL
            then bindM (bl_ctx_get R c a) (\<lambda>car.
              if car = NULL then bindM (get_s_val a) bl_err_symnotfound else eval_call R c car e)
            else eval_call R c a e))
      | BL_VAL_TYPE_SYMBOL \<Rightarrow> bindM (bl_ctx_get R c e) (\<lambda>symval.
          if symval = NULL then bindM (get_s_val e) bl_err_symnotfound else returnM symval)
      | _ \<Rightarrow> returnM e))"
    proof (rule gives_bind [OF reads_safe(1)])
      fix T
      show "gives (case T of
        BL_VAL_TYPE_ERROR \<Rightarrow> returnM e
      | BL_VAL_TYPE_CONS \<Rightarrow> bindM (get_car e) (\<lambda>a.
          if a = NULL then bl_mk_null
          else bindM (get_type a) (\<lambda>A.
            if A = BL_VAL_TYPE_SYMBOL
            then bindM (bl_ctx_get R c a) (\<lambda>car.
              if car = NULL then bindM (get_s_val a) bl_err_symnotfound else eval_call R c car e)
            else eval_call R c a e))
      | BL_VAL_TYPE_SYMBOL \<Rightarrow> bindM (bl_ctx_get R c e) (\<lambda>symval.
          if symval = NULL then bindM (get_s_val e) bl_err_symnotfound else returnM symval)
      | _ \<Rightarrow> returnM e)"
        using e
        by (cases T; simp only: bl_val_type_t.case)
          (intro look eval_call_gives assms gives_intros keeps_intros; simp)+
    qed
  qed
qed

end

lemma bl_eval_gives: "gives (bl_eval n c e)"
proof (induction n arbitrary: c e)
  case (Suc n)
  then show ?case
    unfolding bl_eval.simps by (intro bl_rt.eval_step_gives) (simp add: runtime_at_def)
qed (simp only: bl_eval.simps gives_basic)

text \<open>
  C31. The evaluator never returns NULL: where an operator or a body gives no value, the result is None.
\<close>

theorem eval_never_null:
  assumes "wf_store s" "bl_eval n ctx e s = Ret v t"
  shows "v \<noteq> NULL"
  using bl_eval_gives assms unfolding gives_def by blast

lemma eval_never_null_witness: "bl_eval 1 NULL true_val bare_store = Ret true_val bare_store \<and> true_val \<noteq> NULL"
  using eval_never_null [OF wf_bare eval_value [of 0 NULL]] eval_value [of 0 NULL] by simp

section \<open>Scopes\<close>

text \<open>A context without bindings and a symbol, for the concrete runs.\<close>

lemma sample_scope:
  "\<exists>s c k i. wf_store s \<and> scope s c \<and> is_symbol s k ''x'' i \<and> plain_key s k i \<and> resolves s i c NULL"
proof -
  obtain k s where s: "bl_mk_symbol ''x'' bare_store = Ret k s" using bl_mk_symbol_total by blast
  have wf: "wf_store s" using safe_run [OF bl_mk_symbol_safe wf_bare s] by simp
  obtain i where i: "is_symbol s k ''x'' i" using bl_mk_symbol_result(1) [OF wf_bare _ s] by auto
  let ?c = "next_addr s"
  obtain t where t: "bl_ctx_new NULL s = Ret ?c t" "scope t ?c" using bl_ctx_new_scope by blast
  have wft: "wf_store t" "evolves s t" using safe_run [OF bl_ctx_new_safe wf t(1)] by simp_all
  have it: "is_symbol t k ''x'' i" using evolves_symbol [OF wft(2) i] .
  then have "k \<noteq> NULL" using wft(1) by (auto simp: is_symbol_def wf_store_def dest: heap_okD(1))
  with it have key: "plain_key t k i" by (auto simp: plain_key_def plain_name_def)
  obtain kk where kk: "plain_ctx t ?c kk" "parent kk = NULL" "binds t ?c i = None"
    using t(1) by (auto simp: bl_ctx_new_def run_new_val plain_ctx_def binds_def ctx_lens_def nth_replicate zero_ctx_def)
  have "resolves t i ?c NULL" using resolves.unbound [OF kk(1,3,2)] .
  with wft(1) t(2) it key show ?thesis by blast
qed

text \<open>
  C3. Assigning to a symbol refines updating a map: the context's bindings change at the symbol's number
  and nowhere else, and no other context changes.
\<close>

theorem assignment_updates_map:
  assumes "scope s c" "symbol_no s k i" "v \<noteq> NULL"
  shows "\<exists>t. bl_ctx_set c k v s = Ret v t \<and> scope t c \<and> binds t c = (binds s c)(i \<mapsto> v)
    \<and> (\<forall>c'. c' \<noteq> c \<longrightarrow> binds t c' = binds s c')"
  using ctxs.assign_law [OF assms] ctxs.B_frame by blast

lemma assignment_updates_map_witness:
  "\<exists>s c k i t. is_symbol s k ''x'' i \<and> bl_ctx_set c k true_val s = Ret true_val t \<and> binds t c i = Some true_val"
proof -
  obtain s c k i where "scope s c" "is_symbol s k ''x'' i" using sample_scope by blast
  with assignment_updates_map [of s c k i true_val] show ?thesis by (fastforce simp: symbol_no_def)
qed

text \<open>
  C17. Lookup follows the chain of parents: with enough fuel \<open>bl_ctx_get\<close> returns the value of the innermost
  context that binds the symbol, or NULL when none does, and that value is unique.
\<close>

theorem lookup_follows_parents:
  assumes "resolves s i ctx v" "plain_key s key i"
  shows "(\<exists>n0. \<forall>n \<ge> n0. bl_ctx_get (runtime_at n ev) ctx key s = Ret v s) \<and> (\<forall>w. resolves s i ctx w \<longrightarrow> w = v)"
  using ctx_lookup_resolves [OF assms] resolves_unique [OF assms(1)]
  by (auto simp: bl_ctx_get_def runtime_at_def)

lemma lookup_follows_parents_witness:
  "\<exists>s c k n. bl_ctx_get (runtime_at n (bl_eval 0)) c k s = Ret NULL s"
proof -
  obtain s c k i where "resolves s i c NULL" "plain_key s k i" using sample_scope by blast
  with lookup_follows_parents [OF this, of "bl_eval 0"] show ?thesis by blast
qed

text \<open>
  C18. A symbol evaluates to what it resolves to; an unbound one to an error that names it.
\<close>

theorem symbol_evaluation:
  assumes "wf_store s" "is_symbol s key x i" "plain_name x" "resolves s i ctx v"
  shows "\<exists>n0. \<forall>n \<ge> n0. if v \<noteq> NULL then bl_eval n ctx key s = Ret v s
     else \<exists>p t. bl_eval n ctx key s = Ret p t \<and> is_error t p (zero_err\<lparr>err_type := BL_ERR_SYMBOL_NOTFOUND, symbol_name := Some x\<rparr>)"
proof -
  obtain c where c: "heap s key = Some c" "val_type c = BL_VAL_TYPE_SYMBOL" "payload c = U_str x i"
    using assms(2) by (auto simp: is_symbol_def)
  have ok: "heap_ok s" using assms(1) by (simp add: wf_store_def)
  have "key \<noteq> NULL" using heap_okD(1) [OF ok c(1)] by simp
  with assms(2,3) have "plain_key s key i" by (auto simp: plain_key_def)
  then obtain n0 where n0: "\<forall>n \<ge> n0. ctx_lookup n call_getter ctx key s = Ret v s"
    using ctx_lookup_resolves [OF assms(4), of key call_getter] by blast
  obtain p t where err: "bl_err_symnotfound x s = Ret p t"
      "is_error t p (zero_err\<lparr>err_type := BL_ERR_SYMBOL_NOTFOUND, symbol_name := Some x\<rparr>)"
    unfolding bl_err_symnotfound_def using new_error_spec [OF ok] by blast
  have "if v \<noteq> NULL then bl_eval n ctx key s = Ret v s
     else \<exists>p t. bl_eval n ctx key s = Ret p t \<and> is_error t p (zero_err\<lparr>err_type := BL_ERR_SYMBOL_NOTFOUND, symbol_name := Some x\<rparr>)"
    if "n \<ge> Suc n0" for n
  proof -
    from that obtain m where "n = Suc m" "m \<ge> n0" by (cases n) auto
    with c n0 \<open>key \<noteq> NULL\<close> err show ?thesis
      by (auto simp: bl_eval.simps eval_step_def bl_ctx_get_def runtime_at_def)
  qed
  then show ?thesis by blast
qed

lemma symbol_evaluation_witness:
  "\<exists>s c k n p t. bl_eval n c k s = Ret p t \<and> is_error t p (zero_err\<lparr>err_type := BL_ERR_SYMBOL_NOTFOUND, symbol_name := Some ''x''\<rparr>)"
proof -
  obtain s c k i where "wf_store s" "is_symbol s k ''x'' i" "resolves s i c NULL" using sample_scope by blast
  with symbol_evaluation [of s k "''x''" i c NULL] show ?thesis by (fastforce simp: plain_name_def)
qed

text \<open>
  C19. Calling a function binds its parameters: names and values are paired in order up to the end of the
  shorter list, a name that occurs twice gets the later value, and nothing else is bound.
\<close>

theorem parameters_bound:
  assumes "is_list s ks kcs knames" "is_list s vs vcs args" "scope s c" "heap_ok s" "args \<noteq> []"
    "list_all2 (\<lambda>kv i. symbol_no s (fst kv) i \<and> snd kv \<noteq> NULL) (zip knames args) is" "length kcs < rt_fuel R"
  shows "\<exists>t. bl_set_params R c ks vs s = Ret () t
    \<and> binds t c = binds s c ++ map_of (rev (zip is (map snd (zip knames args))))
    \<and> (\<forall>c'. c' \<noteq> c \<longrightarrow> binds t c' = binds s c')"
proof -
  obtain r t where "for_cdr (rt_fuel R) (params_body c) ks vs s = Ret r t"
      "ctxs.assign_all c (zip knames args) s = Ret () t"
    using params_loop [OF assms] by blast
  with ctxs.assign_all_law [OF assms(3,6)] show ?thesis by (auto simp: bl_set_params_run)
qed

lemma parameters_bound_witness:
  "\<exists>s c ks vs k i t. is_symbol s k ''x'' i \<and> list_rep s ks [k] \<and> list_rep s vs [true_val]
     \<and> bl_set_params (runtime_at 2 (bl_eval 0)) c ks vs s = Ret () t \<and> binds t c i = Some true_val"
proof -
  obtain s c k i where s: "wf_store s" "scope s c" "is_symbol s k ''x'' i" using sample_scope by blast
  obtain ks s1 where s1: "bl_mk_list [k] s = Ret ks s1" "same_heap_below s s1" "wf_store s1"
    using makes_list [of "[k]"] s(1) unfolding makes_def by blast
  obtain vs s2 where s2: "bl_mk_list [true_val] s1 = Ret vs s2" "same_heap_below s1 s2" "wf_store s2"
    using makes_list [of "[true_val]"] s1(3) unfolding makes_def by blast
  have ok: "heap_ok s" "heap_ok s1" "heap_ok s2" using s(1) s1(3) s2(3) by (simp_all add: wf_store_def)
  obtain kcs where "is_list s1 ks kcs [k]"
    using bl_mk_list_spec [OF ok(1), of "[k]"] s1(1) by (auto simp: list_rep_def)
  then have k2: "is_list s2 ks kcs [k]" by (rule same_heap_below_list [OF s2(2)])
  obtain vcs where v2: "is_list s2 vs vcs [true_val]"
    using bl_mk_list_spec [OF ok(2), of "[true_val]"] s2(1) by (auto simp: list_rep_def)
  have sc: "scope s2 c" and sym: "is_symbol s2 k ''x'' i"
    using below_scope s(2,3) s1(2) s2(2) unfolding is_symbol_def same_heap_below_def by blast+
  have "length kcs < rt_fuel (runtime_at 2 (bl_eval 0))"
    using is_list_length [OF k2] by (simp add: runtime_at_def)
  from parameters_bound [OF k2 v2 sc ok(3) _ _ this, of "[i]"] sym k2 v2 show ?thesis
    by (fastforce simp: symbol_no_def list_rep_def)
qed

definition plain_names :: "string list" where
  "plain_names = ''None'' # ''True'' # ''False'' # map (\<lambda>(nt, nm, doc). nm) builtin_table"

lemma plain_names_plain: "list_all plain_name plain_names"
  by (simp add: plain_names_def builtin_table_def plain_name_def)

lemma std_binding_builtin:
  assumes "(nt, nm, doc) \<in> set builtin_table"
  shows "(nm, returnM (native_oper nt)) \<in> set std_bindings" "nm \<in> set plain_names"
proof -
  have "(nm, returnM (native_oper nt) :: ptr BL) \<in> (\<lambda>(nt, nm, doc). (nm, returnM (native_oper nt))) ` set builtin_table"
    using assms by (rule rev_image_eqI) simp
  then show "(nm, returnM (native_oper nt)) \<in> set std_bindings" unfolding std_bindings_def by simp
  have "nm \<in> (\<lambda>(nt, nm, doc). nm) ` set builtin_table" using assms by (rule rev_image_eqI) simp
  then show "nm \<in> set plain_names" unfolding plain_names_def by simp
qed

lemma std_binding_consts:
  "(''None'', returnM null_val) \<in> set std_bindings" "(''True'', returnM true_val) \<in> set std_bindings"
  "(''False'', returnM false_val) \<in> set std_bindings"
proof -
  have "bl_mk_null = returnM null_val" "bl_mk_bool True = returnM true_val" "bl_mk_bool False = returnM false_val"
    by (simp_all add: bl_mk_null_def bl_mk_bool_def)
  then show "(''None'', returnM null_val) \<in> set std_bindings" "(''True'', returnM true_val) \<in> set std_bindings"
    "(''False'', returnM false_val) \<in> set std_bindings"
    unfolding std_bindings_def set_append list.set by (simp_all only: Un_iff insert_iff simp_thms)
qed

text \<open>
  C20. A new standard context is complete: creating it always succeeds, and every builtin of the table,
  \<open>True\<close>, \<open>False\<close> and \<open>None\<close> are found in it by their names.
\<close>

theorem standard_context_complete:
  assumes "wf_store s" "0 < n"
  shows "\<exists>ctx t. bl_ctx_new_std s = Ret ctx t \<and> wf_store t
    \<and> (\<forall>(nt, nm, doc) \<in> set builtin_table. \<exists>k. bl_mk_symbol nm t = Ret k t
          \<and> bl_ctx_get (runtime_at n ev) ctx k t = Ret (native_oper nt) t)
    \<and> (\<forall>(nm, v) \<in> {(''None'', null_val), (''True'', true_val), (''False'', false_val)}.
          \<exists>k. bl_mk_symbol nm t = Ret k t \<and> bl_ctx_get (runtime_at n ev) ctx k t = Ret v t)"
proof -
  obtain ctx t where t: "bl_ctx_new_std s = Ret ctx t" "wf_store t" "scope t ctx"
      and all: "\<And>nm mk. (nm, mk) \<in> set std_bindings \<Longrightarrow> \<exists>v s1 s2. mk s1 = Ret v s2 \<and> bound t ctx nm v"
    using bl_ctx_new_std_bound [OF assms(1)] by blast
  have look: "\<exists>k. bl_mk_symbol nm t = Ret k t \<and> bl_ctx_get (runtime_at n ev) ctx k t = Ret v t"
    if "(nm, returnM v) \<in> set std_bindings" "nm \<in> set plain_names" for nm v
  proof -
    have "bound t ctx nm v" using all [OF that(1)] by auto
    moreover have "plain_name nm" using plain_names_plain that(2) by (simp add: list_all_iff)
    ultimately show ?thesis
      using bound_lookup [OF t(2,3) _ _ assms(2)] by (simp add: bl_ctx_get_def runtime_at_def)
  qed
  have "\<exists>k. bl_mk_symbol nm t = Ret k t \<and> bl_ctx_get (runtime_at n ev) ctx k t = Ret (native_oper nt) t"
    if "(nt, nm, doc) \<in> set builtin_table" for nt nm doc
    by (rule look [OF std_binding_builtin [OF that]])
  moreover have "\<exists>k. bl_mk_symbol nm t = Ret k t \<and> bl_ctx_get (runtime_at n ev) ctx k t = Ret v t"
    if "(nm, v) \<in> {(''None'', null_val), (''True'', true_val), (''False'', false_val)}" for nm v
    using that look [OF std_binding_consts(1)] look [OF std_binding_consts(2)] look [OF std_binding_consts(3)]
    by (auto simp: plain_names_def)
  ultimately show ?thesis using t(1,2) by blast
qed

lemma standard_context_complete_witness:
  "\<exists>ctx t k. bl_ctx_new_std bare_store = Ret ctx t \<and> bl_mk_symbol ''True'' t = Ret k t
     \<and> bl_ctx_get (runtime_at 1 (bl_eval 0)) ctx k t = Ret true_val t"
  using standard_context_complete [OF wf_bare, of 1 "bl_eval 0"] by fastforce

end
