(* ===== verification/BL_Oper_Props.thy ===== *)
theory BL_Oper_Props
  imports BL_Eval_Props
begin

text \<open>
  What the builtin operators compute on literal arguments: arithmetic, comparison and logic, the special
  forms and the handling of errors.
\<close>

section \<open>Literals and argument lists\<close>

text \<open>Values that evaluate to themselves and, at the head of a list, do not make it a call.\<close>

definition datum :: "store \<Rightarrow> ptr \<Rightarrow> bool" where
  "datum s x \<longleftrightarrow> (\<exists>c. heap s x = Some c \<and>
     val_type c \<in> {BL_VAL_TYPE_NUMBER, BL_VAL_TYPE_STRING, BL_VAL_TYPE_BOOL, BL_VAL_TYPE_NULL})"

definition number :: "store \<Rightarrow> ptr \<Rightarrow> int \<Rightarrow> bool" where
  "number s x i \<longleftrightarrow> (\<exists>c. heap s x = Some c \<and> val_type c = BL_VAL_TYPE_NUMBER \<and> payload c = U_num i)"

definition boolean :: "store \<Rightarrow> ptr \<Rightarrow> bool \<Rightarrow> bool" where
  "boolean s x b \<longleftrightarrow> (\<exists>c. heap s x = Some c \<and> val_type c = BL_VAL_TYPE_BOOL \<and> payload c = U_bool b)"

lemma number_datum: "number s x i \<Longrightarrow> datum s x" and boolean_datum: "boolean s x b \<Longrightarrow> datum s x"
  by (auto simp: number_def boolean_def datum_def)

lemma number_reads: "number s x i \<Longrightarrow> get_i_val x s = Ret i s" "number s x i \<Longrightarrow> get_type x s = Ret BL_VAL_TYPE_NUMBER s"
  by (auto simp: number_def)

lemma boolean_reads: "boolean s x b \<Longrightarrow> get_b_val x s = Ret b s" "boolean s x b \<Longrightarrow> get_type x s = Ret BL_VAL_TYPE_BOOL s"
  by (auto simp: boolean_def)

lemma below_datum: "same_heap_below s t \<Longrightarrow> datum s x \<Longrightarrow> datum t x"
  and below_number: "same_heap_below s t \<Longrightarrow> number s x i \<Longrightarrow> number t x i"
  and below_boolean: "same_heap_below s t \<Longrightarrow> boolean s x b \<Longrightarrow> boolean t x b"
  unfolding datum_def number_def boolean_def same_heap_below_def by blast+

lemma datum_pos: "heap_ok s \<Longrightarrow> datum s x \<Longrightarrow> x \<noteq> NULL"
  by (auto simp: datum_def dest: heap_okD(1))

lemma eval_datum: "heap_ok s \<Longrightarrow> datum s x \<Longrightarrow> bl_eval (Suc n) ctx x s = Ret x s"
  using datum_pos [of s x] by (auto simp: datum_def bl_eval.simps eval_step_def)

text \<open>The runtime that the operators see when at least one more level of evaluation is left.\<close>

abbreviation rt :: "nat \<Rightarrow> runtime" where
  "rt n \<equiv> runtime_at (Suc n) (bl_eval (Suc n))"

lemma rt_sel [simp]: "rt_eval (runtime_at n ev) = ev" "rt_fuel (runtime_at n ev) = n"
  by (simp_all add: runtime_at_def)

definition cons_body :: "runtime \<Rightarrow> ptr \<Rightarrow> ptr \<Rightarrow> ptr \<times> ptr \<Rightarrow> (ptr + ptr \<times> ptr) BL" where
  "cons_body R ctx i acc = (case acc of (L_start, L) \<Rightarrow>
     bindM (get_car i) (\<lambda>a. bindM (rt_eval R ctx a) (\<lambda>retval. bindM (get_type retval) (\<lambda>T.
           if T = BL_VAL_TYPE_ERROR then returnM (Inl retval)
           else bindM (new_val BL_VAL_TYPE_CONS (U_cons retval NULL)) (\<lambda>c.
             if L = NULL then returnM (Inr (c, c))
             else bindM (set_cdr L c) (\<lambda>_. returnM (Inr (L_start, c))))))))"

lemma bl_eval_cons_body:
  "bl_eval_cons R ctx expr = (if expr = NULL then bl_mk_null
     else bindM (for_cdr (rt_fuel R) (cons_body R ctx) expr (NULL, NULL))
       (\<lambda>r. case r of Inl e \<Rightarrow> returnM e | Inr (L_start, L) \<Rightarrow> if L_start = NULL then bl_mk_null else returnM L_start))"
  unfolding bl_eval_cons_def cons_body_def [abs_def] by (simp add: case_prod_unfold)

text \<open>One element: its value is put into a new last cell.\<close>

lemma cons_body_datum:
  assumes ok: "heap_ok s" and car: "get_car i s = Ret x s" and x: "datum s x"
    and acc: "if ds = [] then L = NULL \<and> xs = [] else is_list s L0 ds xs \<and> L = last ds"
    and new: "set ds \<inter> dom (heap s0) = {}" and below: "same_heap_below s0 s"
  shows "\<exists>t q es. cons_body (runtime_at k (bl_eval (Suc n))) ctx i (L0, L) s = Ret (Inr (q, last es)) t \<and> heap_ok t
    \<and> is_list t q es (xs @ [x]) \<and> es \<noteq> [] \<and> set es \<inter> dom (heap s0) = {} \<and> same_heap_below s0 t"
proof -
  let ?c = "next_addr s"
  obtain t where t: "new_val BL_VAL_TYPE_CONS (U_cons x NULL) s = Ret ?c t" by (simp add: run_new_val)
  have t': "heap_ok t" "same_heap_below s t" "heap t ?c = Some (fresh_val BL_VAL_TYPE_CONS (U_cons x NULL))"
    using new_val_below [OF ok t] by simp_all
  have ty: "\<exists>c. heap s x = Some c \<and> val_type c \<noteq> BL_VAL_TYPE_ERROR" using x by (auto simp: datum_def)
  have fresh: "?c \<notin> dom (heap s0)"
    using heap_okD(3) [OF ok] below by (auto simp: same_heap_below_def)
  have below_t: "same_heap_below s0 t" using below t'(2) same_heap_below_trans by blast
  show ?thesis
  proof (cases "ds = []")
    case True
    have "cons_body (runtime_at k (bl_eval (Suc n))) ctx i (L0, L) s = Ret (Inr (?c, last [?c])) t"
      using True acc car eval_datum [OF ok x] ty t by (auto simp: cons_body_def)
    moreover have "is_list t ?c [?c] (xs @ [x])" using t'(3) True acc by simp
    ultimately show ?thesis using t'(1) below_t fresh by (intro exI conjI) (assumption | simp)+
  next
    case False
    with acc have l: "is_list s L0 ds xs" "L = last ds" by simp_all
    note lt = same_heap_below_list [OF t'(2) l(1)]
    obtain d where d: "heap t L = Some d" "payload d = U_cons (last xs) NULL"
      using is_list_last [OF lt False] l(2) by blast
    let ?u = "put_val L (d\<lparr>payload := U_cons (last xs) ?c\<rparr>) t"
    have "L \<in> dom (heap s)" using is_list_dom [OF l(1)] l(2) last_in_set [OF False] by blast
    then have ne: "L \<noteq> ?c" using heap_okD(3) [OF ok] by (metis domIff)
    have L0: "L \<noteq> NULL" using heap_okD(1) [OF t'(1) d(1)] by simp
    have run: "cons_body (runtime_at k (bl_eval (Suc n))) ctx i (L0, L) s = Ret (Inr (L0, last (ds @ [?c]))) ?u"
      using car eval_datum [OF ok x] ty t d L0 by (auto simp: cons_body_def)
    have "is_list ?u L0 (ds @ [?c]) (xs @ [x])"
      by (rule is_list_snoc [OF lt False is_list_distinct [OF lt t'(1)] _ d(1) [unfolded l(2)]])
        (use ne t'(3) l(2) in auto)
    moreover have "same_heap_below s0 ?u"
      using below_t new last_in_set [OF False] l(2) by (auto simp: same_heap_below_def)
    moreover have "heap_ok ?u" using t'(1) d(1) by (auto simp: heap_ok_def)
    ultimately show ?thesis using run new fresh by (intro exI [of _ ?u] exI [of _ L0] exI [of _ "ds @ [?c]"]) auto
  qed
qed

lemma cons_loop_data:
  assumes "is_list s0 p cs ys" "heap_ok s" "same_heap_below s0 s" "\<And>y. y \<in> set ys \<Longrightarrow> datum s0 y"
    "if ds = [] then L = NULL \<and> xs = [] else is_list s L0 ds xs \<and> L = last ds"
    "set ds \<inter> dom (heap s0) = {}" "length cs < k" "ds \<noteq> [] \<or> ys \<noteq> []"
  shows "\<exists>t q L' es. for_cdr k (cons_body (runtime_at j (bl_eval (Suc n))) ctx) p (L0, L) s = Ret (Inr (q, L')) t
    \<and> heap_ok t \<and> is_list t q es (xs @ ys) \<and> same_heap_below s0 t \<and> q \<noteq> NULL"
  using assms
proof (induction ys arbitrary: p cs s ds L L0 xs k)
  case Nil
  then obtain m where "k = Suc m" by (cases k) auto
  with Nil show ?case
    using is_list_pos [of s L0 ds xs] by (cases cs) auto
next
  case (Cons y ys)
  then obtain m where k: "k = Suc m" by (cases k) auto
  have ok0: "heap s0 NULL = None"
    using heap_okD(2) [OF Cons.prems(2)] Cons.prems(3) by (cases "heap s0 NULL") (auto simp: same_heap_below_def)
  obtain d c ds' where d: "cs = p # ds'" "heap s0 p = Some c" "payload c = U_cons y d" "is_list s0 d ds' ys"
    using Cons.prems(1) by (cases cs) auto
  have p: "p \<noteq> NULL" using d(2) ok0 by (metis option.distinct(1))
  have cell: "heap s p = Some c" using d(2) Cons.prems(3) by (simp add: same_heap_below_def)
  have y: "datum s y" using Cons.prems(4) below_datum [OF Cons.prems(3)] by simp
  obtain t q es where t: "cons_body (runtime_at j (bl_eval (Suc n))) ctx p (L0, L) s = Ret (Inr (q, last es)) t"
      "heap_ok t" "is_list t q es (xs @ [y])" "es \<noteq> []" "set es \<inter> dom (heap s0) = {}" "same_heap_below s0 t"
    using cons_body_datum [OF Cons.prems(2) _ y Cons.prems(5,6,3), of p j n ctx] cell d(3) by auto
  have "get_cdr p t = Ret d t" using t(6) d(2,3) by (auto simp: same_heap_below_def)
  moreover have "\<exists>t' q' L' es'. for_cdr m (cons_body (runtime_at j (bl_eval (Suc n))) ctx) d (q, last es) t = Ret (Inr (q', L')) t'
    \<and> heap_ok t' \<and> is_list t' q' es' ((xs @ [y]) @ ys) \<and> same_heap_below s0 t' \<and> q' \<noteq> NULL"
    by (rule Cons.IH [OF d(4) t(2,6)]) (use Cons.prems(4,7) t d(1) k in auto)
  ultimately show ?case using t(1) p by (auto simp: k)
qed

text \<open>A list of literals evaluates to a new list of the same values.\<close>

lemma eval_cons_data:
  assumes "is_list s p cs ys" "heap_ok s" "\<And>y. y \<in> set ys \<Longrightarrow> datum s y" "length ys < k" "ys \<noteq> []"
  shows "\<exists>t q. bl_eval_cons (runtime_at k (bl_eval (Suc n))) ctx p s = Ret q t \<and> heap_ok t \<and> list_rep t q ys
    \<and> same_heap_below s t \<and> q \<noteq> NULL"
proof -
  obtain t q L es where "for_cdr k (cons_body (runtime_at k (bl_eval (Suc n))) ctx) p (NULL, NULL) s = Ret (Inr (q, L)) t"
      "heap_ok t" "is_list t q es ys" "same_heap_below s t" "q \<noteq> NULL"
    using cons_loop_data [OF assms(1,2) same_heap_below_refl assms(3), of "[]" NULL "[]" NULL k k n ctx]
      assms(4,5) is_list_length [OF assms(1)] by auto
  moreover have "p \<noteq> NULL" using assms(1,2,5) by (cases cs) (auto dest: heap_okD(1))
  ultimately show ?thesis by (auto simp: bl_eval_cons_body list_rep_def)
qed

lemma eval_data:
  assumes "is_list s p cs ys" "heap_ok s" "\<And>y. y \<in> set ys \<Longrightarrow> datum s y" "length ys < Suc n" "ys \<noteq> []"
  shows "\<exists>t q. bl_eval (Suc (Suc n)) ctx p s = Ret q t \<and> heap_ok t \<and> list_rep t q ys \<and> same_heap_below s t"
proof -
  obtain y zs where ys: "ys = y # zs" using assms(5) by (cases ys) auto
  obtain d ds where d: "cs = p # ds" "get_car p s = Ret y s" "p \<noteq> NULL"
    using is_list_step [OF assms(1) [unfolded ys] assms(2)] by metis
  obtain c where c: "heap s p = Some c" "val_type c = BL_VAL_TYPE_CONS" using assms(1) d(1) by auto
  have y: "datum s y" using assms(3) ys by simp
  then obtain e where e: "heap s y = Some e"
      "val_type e \<in> {BL_VAL_TYPE_NUMBER, BL_VAL_TYPE_STRING, BL_VAL_TYPE_BOOL, BL_VAL_TYPE_NULL}"
    by (auto simp: datum_def)
  obtain t q where t: "bl_eval_cons (rt n) ctx p s = Ret q t" "heap_ok t" "list_rep t q ys" "same_heap_below s t" "q \<noteq> NULL"
    using eval_cons_data [OF assms(1,2,3,4,5)] by blast
  have "bl_eval (Suc (Suc n)) ctx p s = bindM (bl_eval_cons (rt n) ctx p) or_null s"
    using c d e datum_pos [OF assms(2) y]
    by (auto simp: bl_eval.simps(2) [of "Suc n"] eval_step_def eval_call_def)
  with t show ?thesis by (simp add: or_null_def)
qed

section \<open>Arithmetic\<close>

lemma pair_reads:
  assumes "list_rep s p [a, b]" "heap_ok s"
  shows "bl_list_first p s = Ret a s" "bl_list_second p s = Ret b s" "p \<noteq> NULL"
proof -
  obtain cs where cs: "is_list s p cs [a, b]" using assms(1) by (auto simp: list_rep_def)
  obtain d ds where d: "get_car p s = Ret a s" "get_cdr p s = Ret d s" "is_list s d ds [b]" "p \<noteq> NULL"
    by (rule is_list_step [OF cs assms(2)])
  obtain e es where e: "get_car d s = Ret b s" "d \<noteq> NULL" by (rule is_list_step [OF d(3) assms(2)])
  show "bl_list_first p s = Ret a s" "bl_list_second p s = Ret b s" "p \<noteq> NULL"
    using d e by (simp_all add: bl_list_first_def bl_list_second_def bl_list_rest_def)
qed

lemma below_list_rep: "same_heap_below s t \<Longrightarrow> list_rep s p xs \<Longrightarrow> list_rep t p xs"
  unfolding list_rep_def using same_heap_below_list by blast

lemma pair_evals:
  assumes "list_rep s p [a, b]" "heap_ok s" "datum s a" "datum s b"
  shows "eval_first (rt n) ctx p s = Ret a s" "eval_second (rt n) ctx p s = Ret b s"
  using pair_reads [OF assms(1,2)] eval_datum [OF assms(2)] assms(3,4)
  by (simp_all add: eval_first_def eval_second_def)

lemma pair_params:
  assumes "list_rep s p [a, b]" "heap_ok s" "datum s a" "datum s b" "3 \<le> n"
  shows "\<exists>t q. bl_eval (Suc n) ctx p s = Ret q t \<and> heap_ok t \<and> list_rep t q [a, b] \<and> same_heap_below s t"
    "\<exists>t q. bl_eval_cons (rt n) ctx p s = Ret q t \<and> heap_ok t \<and> list_rep t q [a, b] \<and> same_heap_below s t"
proof -
  obtain cs where cs: "is_list s p cs [a, b]" using assms(1) by (auto simp: list_rep_def)
  obtain m where m: "n = Suc m" "2 \<le> m" using assms(5) by (cases n) auto
  show "\<exists>t q. bl_eval (Suc n) ctx p s = Ret q t \<and> heap_ok t \<and> list_rep t q [a, b] \<and> same_heap_below s t"
    using eval_data [OF cs assms(2), of m ctx] assms(3,4) m by auto
  show "\<exists>t q. bl_eval_cons (rt n) ctx p s = Ret q t \<and> heap_ok t \<and> list_rep t q [a, b] \<and> same_heap_below s t"
    using eval_cons_data [OF cs assms(2), of "Suc n" n ctx] assms(3,4,5) by auto
qed

lemma pair_checked:
  assumes "list_rep t q [a, b]" "heap_ok t" "number t a i" "number t b j"
  shows "bl_errif_invalid_fixed_args q [BL_VAL_TYPE_NUMBER, BL_VAL_TYPE_NUMBER] t = Ret NULL t"
proof (rule errif_invalid_fixed_args_ok [OF assms(2)])
  show "arg_list t q [a, b] [BL_VAL_TYPE_NUMBER, BL_VAL_TYPE_NUMBER]"
    using assms pair_reads(3) [OF assms(1,2)] by (auto simp: arg_list_def number_def has_type_def)
qed (simp add: types_match_def)

text \<open>The fresh number into which an operator writes its result.\<close>

lemma fresh_number:
  assumes "heap_ok t"
  obtains r u where "bl_mk_val BL_VAL_TYPE_NUMBER t = Ret r u" "heap_ok u" "same_heap_below t u"
    "\<forall>v. \<exists>w. set_i_val r v u = Ret () w \<and> number w r v \<and> same_heap_below t w \<and> heap_ok w"
proof -
  let ?r = "next_addr t"
  obtain u where u: "new_val BL_VAL_TYPE_NUMBER (U_num 0) t = Ret ?r u" by (simp add: run_new_val)
  have u': "heap_ok u" "same_heap_below t u" "heap u ?r = Some (fresh_val BL_VAL_TYPE_NUMBER (U_num 0))"
    using new_val_below [OF assms u] by simp_all
  have "\<exists>w. set_i_val ?r v u = Ret () w \<and> number w ?r v \<and> same_heap_below t w \<and> heap_ok w" for v
  proof -
    let ?w = "put_val ?r ((fresh_val BL_VAL_TYPE_NUMBER (U_num 0))\<lparr>payload := U_num v\<rparr>) u"
    have "set_i_val ?r v u = Ret () ?w" using u'(3) by (simp add: set_i_val_def)
    moreover have "same_heap_below t ?w"
      using u'(2) heap_okD(3) [OF assms] by (auto simp: same_heap_below_def)
    moreover have "heap_ok ?w" using u'(1,3) by (auto simp: heap_ok_def)
    ultimately show ?thesis by (auto simp: number_def)
  qed
  then show ?thesis using that [of ?r u] u u'(1,2) by (simp add: bl_mk_val_def zero_payload_def)
qed

text \<open>
  \<open>operands s t q a b i j\<close>: in the state \<open>t\<close>, reached from \<open>s\<close> by allocation only, \<open>q\<close> is a list of the two
  numbers; \<open>result\<close> describes the outcome of an operator that writes one new number.
\<close>

definition operands :: "store \<Rightarrow> store \<Rightarrow> ptr \<Rightarrow> ptr \<Rightarrow> ptr \<Rightarrow> int \<Rightarrow> int \<Rightarrow> bool" where
  "operands s t q a b i j \<longleftrightarrow> heap_ok t \<and> same_heap_below s t \<and> list_rep t q [a, b] \<and> number t a i \<and> number t b j"

definition result :: "store \<Rightarrow> (store, ptr) outcome \<Rightarrow> int \<Rightarrow> bool" where
  "result s m v \<longleftrightarrow> (\<exists>r t. m = Ret r t \<and> number t r v \<and> same_heap_below s t)"

lemma operands_below:
  "operands s t q a b i j \<Longrightarrow> heap_ok u \<Longrightarrow> same_heap_below t u \<Longrightarrow> operands s u q a b i j"
  unfolding operands_def using same_heap_below_trans below_list_rep below_number by blast

lemma operands_reads:
  assumes "operands s t q a b i j"
  shows "bl_list_first q t = Ret a t" "bl_list_second q t = Ret b t" "get_i_val a t = Ret i t" "get_i_val b t = Ret j t"
    "eval_first (rt n) ctx q t = Ret a t" "eval_second (rt n) ctx q t = Ret b t"
    "bl_errif_invalid_fixed_args q [BL_VAL_TYPE_NUMBER, BL_VAL_TYPE_NUMBER] t = Ret NULL t"
proof -
  have o: "heap_ok t" "list_rep t q [a, b]" "number t a i" "number t b j" using assms by (simp_all add: operands_def)
  show "bl_list_first q t = Ret a t" "bl_list_second q t = Ret b t" using pair_reads [OF o(2,1)] by simp_all
  show "get_i_val a t = Ret i t" "get_i_val b t = Ret j t" using number_reads o(3,4) by blast+
  show "eval_first (rt n) ctx q t = Ret a t" "eval_second (rt n) ctx q t = Ret b t"
    using pair_evals [OF o(2,1) o(3,4) [THEN number_datum]] by blast+
  show "bl_errif_invalid_fixed_args q [BL_VAL_TYPE_NUMBER, BL_VAL_TYPE_NUMBER] t = Ret NULL t"
    by (rule pair_checked [OF o(2,1,3,4)])
qed

lemma operands_fresh:
  assumes "operands s t q a b i j"
  obtains r u where "bl_mk_val BL_VAL_TYPE_NUMBER t = Ret r u" "operands s u q a b i j"
    "\<forall>v. \<exists>w. set_i_val r v u = Ret () w \<and> number w r v \<and> same_heap_below s w"
proof -
  have o: "heap_ok t" "same_heap_below s t" using assms by (simp_all add: operands_def)
  obtain r u where u: "bl_mk_val BL_VAL_TYPE_NUMBER t = Ret r u" "heap_ok u" "same_heap_below t u"
      "\<forall>v. \<exists>w. set_i_val r v u = Ret () w \<and> number w r v \<and> same_heap_below t w \<and> heap_ok w"
    by (rule fresh_number [OF o(1)])
  have "\<forall>v. \<exists>w. set_i_val r v u = Ret () w \<and> number w r v \<and> same_heap_below s w"
    using u(4) same_heap_below_trans [OF o(2)] by blast
  with that u(1) operands_below [OF assms u(2,3)] show ?thesis by blast
qed

lemma operands_evaluated:
  assumes "operands s s params a b i j" "3 \<le> n"
  shows "\<exists>t q. bl_eval (Suc n) ctx params s = Ret q t \<and> operands s t q a b i j"
    "\<exists>t q. bl_eval_cons (rt n) ctx params s = Ret q t \<and> operands s t q a b i j"
proof -
  have o: "heap_ok s" "list_rep s params [a, b]" "number s a i" "number s b j"
    using assms(1) by (simp_all add: operands_def)
  note ev = pair_params [OF o(2,1) o(3,4) [THEN number_datum] assms(2)]
  show "\<exists>t q. bl_eval (Suc n) ctx params s = Ret q t \<and> operands s t q a b i j"
    "\<exists>t q. bl_eval_cons (rt n) ctx params s = Ret q t \<and> operands s t q a b i j"
    using ev [of ctx] below_number o(3,4) unfolding operands_def by blast+
qed

lemma sub_mult_result:
  assumes "operands s s params a b i j" "3 \<le> n"
  shows "result s (bl_oper_sub (rt n) ctx params s) (i - j)" "result s (bl_oper_mult (rt n) ctx params s) (i * j)"
proof -
  obtain t q where t: "bl_eval (Suc n) ctx params s = Ret q t" "operands s t q a b i j"
    using operands_evaluated(1) [OF assms] by blast
  obtain r u where u: "bl_mk_val BL_VAL_TYPE_NUMBER t = Ret r u" "operands s u q a b i j"
      "\<forall>v. \<exists>w. set_i_val r v u = Ret () w \<and> number w r v \<and> same_heap_below s w"
    by (rule operands_fresh [OF t(2)])
  obtain w where "set_i_val r (i - j) u = Ret () w" "number w r (i - j)" "same_heap_below s w" using u(3) by blast
  then show "result s (bl_oper_sub (rt n) ctx params s) (i - j)"
    using t(1) operands_reads(7) [OF t(2)] u(1) operands_reads [OF u(2)]
    by (simp add: bl_oper_sub_def unless_error_def result_def)
  obtain w where "set_i_val r (i * j) u = Ret () w" "number w r (i * j)" "same_heap_below s w" using u(3) by blast
  then show "result s (bl_oper_mult (rt n) ctx params s) (i * j)"
    using t(1) operands_reads(7) [OF t(2)] u(1) operands_reads [OF u(2)]
    by (simp add: bl_oper_mult_def unless_error_def result_def)
qed

lemma div_result:
  assumes "operands s s params a b i j" "3 \<le> n"
  shows "if j = 0 then \<exists>r t. bl_oper_div (rt n) ctx params s = Ret r t \<and> is_error t r (zero_err\<lparr>err_type := BL_ERR_DIVIDE_BY_ZERO\<rparr>)
    else result s (bl_oper_div (rt n) ctx params s) (mpz_tdiv_q i j)"
proof -
  obtain t q where t: "bl_eval_cons (rt n) ctx params s = Ret q t" "operands s t q a b i j"
    using operands_evaluated(2) [OF assms] by blast
  obtain r u where u: "bl_mk_val BL_VAL_TYPE_NUMBER t = Ret r u" "operands s u q a b i j"
      "\<forall>v. \<exists>w. set_i_val r v u = Ret () w \<and> number w r v \<and> same_heap_below s w"
    by (rule operands_fresh [OF t(2)])
  obtain w where w: "set_i_val r (mpz_tdiv_q i j) u = Ret () w" "number w r (mpz_tdiv_q i j)" "same_heap_below s w"
    using u(3) by blast
  obtain e v where e: "bl_err_divzero u = Ret e v" "is_error v e (zero_err\<lparr>err_type := BL_ERR_DIVIDE_BY_ZERO\<rparr>)"
    unfolding bl_err_divzero_def using new_error_spec u(2) by (metis operands_def)
  note run = t(1) operands_reads(7) [OF t(2)] u(1) operands_reads [OF u(2)]
  show ?thesis
    using run w e by (auto simp: bl_oper_div_def unless_error_def result_def)
qed

lemma mod_result:
  assumes "operands s s params a b i j"
  shows "if j = 0 then bl_oper_mod (rt n) ctx params s = Fault Div_by_zero
    else result s (bl_oper_mod (rt n) ctx params s) (mpz_mod i j)"
proof -
  obtain r u where u: "bl_mk_val BL_VAL_TYPE_NUMBER s = Ret r u" "operands s u params a b i j"
      "\<forall>v. \<exists>w. set_i_val r v u = Ret () w \<and> number w r v \<and> same_heap_below s w"
    by (rule operands_fresh [OF assms])
  obtain w where "set_i_val r (mpz_mod i j) u = Ret () w" "number w r (mpz_mod i j)" "same_heap_below s w"
    using u(3) by blast
  with u(1) operands_reads [OF u(2)] show ?thesis by (simp add: bl_oper_mod_def result_def)
qed

text \<open>
  C32. Subtraction, multiplication, division and remainder of two number literals: the result is a new
  number and no existing value changes. A zero divisor gives an error value in a division, but stops the
  process in a remainder.
\<close>

theorem arithmetic_operators:
  assumes "operands s s params a b i j" "3 \<le> n"
  shows "result s (bl_oper_sub (rt n) ctx params s) (i - j) \<and> result s (bl_oper_mult (rt n) ctx params s) (i * j)
    \<and> (if j = 0
       then (\<exists>r t. bl_oper_div (rt n) ctx params s = Ret r t \<and> is_error t r (zero_err\<lparr>err_type := BL_ERR_DIVIDE_BY_ZERO\<rparr>))
         \<and> bl_oper_mod (rt n) ctx params s = Fault Div_by_zero
       else result s (bl_oper_div (rt n) ctx params s) (mpz_tdiv_q i j)
         \<and> result s (bl_oper_mod (rt n) ctx params s) (mpz_mod i j))"
  using sub_mult_result [OF assms] div_result [OF assms] mod_result [OF assms(1)] by (simp split: if_splits)

lemma sample_operands: "\<exists>s p a b. operands s s p a b 7 2"
proof -
  have ok: "heap_ok bare_store" using wf_bare by (simp add: wf_store_def)
  obtain a s1 where a: "new_val BL_VAL_TYPE_NUMBER (U_num 7) bare_store = Ret a s1" by (simp add: run_new_val)
  note a' = new_val_below [OF ok a]
  obtain b s2 where b: "new_val BL_VAL_TYPE_NUMBER (U_num 2) s1 = Ret b s2" by (simp add: run_new_val)
  have b': "heap_ok s2" "same_heap_below s1 s2" "heap s2 b = Some (fresh_val BL_VAL_TYPE_NUMBER (U_num 2))"
    using new_val_below [OF _ b] a' by simp_all
  have nums: "number s2 a 7" "number s2 b 2"
    using a' b'(2,3) by (auto simp: number_def same_heap_below_def)
  obtain p s3 where p: "bl_list_prepend NULL b s2 = Ret p s3" "heap_ok s3" "list_rep s3 p [b]" "same_heap_below s2 s3"
    using bl_list_prepend_spec [OF b'(1), of NULL "[]" "[]" b]
    unfolding list_rep_def same_heap_below_def by (metis is_list.simps(1))
  obtain q s4 where q: "heap_ok s4" "list_rep s4 q [a, b]" "same_heap_below s3 s4"
    using p(2,3) bl_list_prepend_spec [OF p(2), of p _ "[b]" a]
    unfolding list_rep_def same_heap_below_def by metis
  have "number s4 a 7" "number s4 b 2"
    using nums p(4) q(3) below_number same_heap_below_trans by blast+
  with q show ?thesis unfolding operands_def by (blast intro: same_heap_below_refl)
qed

lemma arithmetic_operators_witness:
  "\<exists>s p a b. operands s s p a b 7 2 \<and> result s (bl_oper_sub (rt 3) NULL p s) 5
     \<and> result s (bl_oper_div (rt 3) NULL p s) 3"
proof -
  obtain s p a b where o: "operands s s p a b 7 2" using sample_operands by blast
  from arithmetic_operators [OF o, of 3 NULL] have "result s (bl_oper_sub (rt 3) NULL p s) 5"
      "result s (bl_oper_div (rt 3) NULL p s) 3"
    by (simp_all add: mpz_tdiv_q_def)
  with o show ?thesis by blast
qed

section \<open>Comparison and logic\<close>

text \<open>
  Numbers are compared as integers, and a comparison leaves the state alone.
\<close>

theorem number_comparison:
  assumes "operands s s params a b i j"
  shows "bl_oper_lt (rt n) ctx params s = Ret (if i < j then true_val else false_val) s
    \<and> bl_oper_gt (rt n) ctx params s = Ret (if i > j then true_val else false_val) s
    \<and> bl_oper_eq (rt n) ctx params s = Ret (if i = j then true_val else false_val) s"
proof -
  have ty: "get_type a s = Ret BL_VAL_TYPE_NUMBER s" "get_type b s = Ret BL_VAL_TYPE_NUMBER s"
    using assms number_reads(2) by (auto simp: operands_def simp del: get_type_eq_Ret)
  with operands_reads [OF assms] show ?thesis
    by (simp add: bl_oper_lt_def bl_oper_gt_def bl_oper_eq_def bl_mk_bool_def del: get_type_eq_Ret)
qed

lemma number_comparison_witness:
  "\<exists>s p a b. operands s s p a b 7 2 \<and> bl_oper_lt (rt 0) NULL p s = Ret false_val s"
  using sample_operands number_comparison [of _ _ _ _ 7 2 0 NULL] by fastforce

text \<open>Two booleans as literal arguments.\<close>

definition booleans :: "store \<Rightarrow> ptr \<Rightarrow> ptr \<Rightarrow> ptr \<Rightarrow> bool \<Rightarrow> bool \<Rightarrow> bool" where
  "booleans s p a b x y \<longleftrightarrow> heap_ok s \<and> list_rep s p [a, b] \<and> boolean s a x \<and> boolean s b y"

lemma booleans_reads:
  assumes "booleans s p a b x y"
  shows "eval_first (rt n) ctx p s = Ret a s" "eval_second (rt n) ctx p s = Ret b s"
    "get_b_val a s = Ret x s" "get_b_val b s = Ret y s" "get_i_val a s = Ret 0 s" "get_i_val b s = Ret 0 s"
    "get_type a s = Ret BL_VAL_TYPE_BOOL s" "get_type b s = Ret BL_VAL_TYPE_BOOL s"
proof -
  have o: "heap_ok s" "list_rep s p [a, b]" "boolean s a x" "boolean s b y" using assms by (simp_all add: booleans_def)
  show "eval_first (rt n) ctx p s = Ret a s" "eval_second (rt n) ctx p s = Ret b s"
    using pair_evals [OF o(2,1) o(3,4) [THEN boolean_datum]] by blast+
  show "get_b_val a s = Ret x s" "get_b_val b s = Ret y s" "get_i_val a s = Ret 0 s" "get_i_val b s = Ret 0 s"
    "get_type a s = Ret BL_VAL_TYPE_BOOL s" "get_type b s = Ret BL_VAL_TYPE_BOOL s"
    using o(3,4) by (auto simp: boolean_def union_i_val_def)
qed

lemma sample_booleans: "\<exists>s p. booleans s p true_val false_val True False"
proof -
  obtain p s where s: "bl_mk_list [true_val, false_val] bare_store = Ret p s" "same_heap_below bare_store s" "wf_store s"
    using makes_list [of "[true_val, false_val]"] wf_bare unfolding makes_def by blast
  have "heap_ok bare_store" using wf_bare by (simp add: wf_store_def)
  from bl_mk_list_spec [OF this, of "[true_val, false_val]"] s(1) have "list_rep s p [true_val, false_val]" by auto
  with s(3) show ?thesis by (auto simp: booleans_def wf_store_def statics_ok_def boolean_def)
qed

text \<open>
  The logical operators compute their truth tables on booleans.
\<close>

theorem logic_operators:
  assumes "booleans s p a b x y"
  shows "bl_oper_and (rt n) ctx p s = Ret (if x \<and> y then true_val else false_val) s
    \<and> bl_oper_or (rt n) ctx p s = Ret (if x \<or> y then true_val else false_val) s
    \<and> bl_oper_xor (rt n) ctx p s = Ret (if x \<noteq> y then true_val else false_val) s
    \<and> bl_oper_not (rt n) ctx p s = Ret (if x then false_val else true_val) s"
  using booleans_reads [OF assms]
  by (simp add: bl_oper_and_def bl_oper_or_def bl_oper_xor_def bl_oper_not_def bl_mk_bool_def del: get_type_eq_Ret)

lemma logic_operators_witness: "\<exists>s p. bl_oper_and (rt 0) NULL p s = Ret false_val s"
  using sample_booleans logic_operators [of _ _ true_val false_val True False 0 NULL] by fastforce

text \<open>
  Equality of booleans is always true: values that are neither types nor strings are compared through
  the integer member of the union, which is zero in both.
\<close>

theorem boolean_equality_vacuous:
  assumes "booleans s p a b x y"
  shows "bl_oper_eq (rt n) ctx p s = Ret true_val s"
  using booleans_reads [OF assms] by (simp add: bl_oper_eq_def bl_mk_bool_def del: get_type_eq_Ret)

lemma boolean_equality_vacuous_witness:
  "\<exists>s p. booleans s p true_val false_val True False \<and> bl_oper_eq (rt 0) NULL p s = Ret true_val s"
  using sample_booleans boolean_equality_vacuous by blast

section \<open>Special forms\<close>

lemma list_rep_step:
  assumes "list_rep s p (x # xs)" "heap_ok s"
  obtains d where "get_car p s = Ret x s" "get_cdr p s = Ret d s" "list_rep s d xs" "p \<noteq> NULL"
    "get_type p s = Ret BL_VAL_TYPE_CONS s"
proof -
  obtain cs where cs: "is_list s p cs (x # xs)" using assms(1) by (auto simp: list_rep_def)
  obtain d ds where d: "cs = p # ds" "get_car p s = Ret x s" "get_cdr p s = Ret d s" "is_list s d ds xs" "p \<noteq> NULL"
    by (rule is_list_step [OF cs assms(2)])
  moreover have "get_type p s = Ret BL_VAL_TYPE_CONS s" using cs d(1) by auto
  ultimately show ?thesis using that by (auto simp: list_rep_def simp del: get_type_eq_Ret)
qed

text \<open>
  C33. The conditional evaluates its condition once and then only the chosen branch; a condition that is
  an error is the result, and one that is not a boolean gives a parse error.
\<close>

theorem conditional_branches:
  assumes "heap_ok s" "list_rep s expr [h, c, a, b]" "rt_eval R ctx c s = Ret v t"
    "heap_ok t" "list_rep t expr [h, c, a, b]" "get_cdr expr t = Ret d t" "get_cdr expr s = Ret d s"
  shows "(boolean t v x \<longrightarrow> bl_eval_if R ctx expr s = rt_eval R ctx (if x then a else b) t)
    \<and> (has_type t v BL_VAL_TYPE_ERROR \<longrightarrow> bl_eval_if R ctx expr s = Ret v t)
    \<and> (has_type t v T \<and> T \<notin> {BL_VAL_TYPE_ERROR, BL_VAL_TYPE_BOOL} \<longrightarrow>
        (\<exists>e u. bl_eval_if R ctx expr s = Ret e u \<and> is_error u e (zero_err\<lparr>err_type := BL_ERR_PARSE\<rparr>)))"
proof -
  obtain d1 where d1: "get_cdr expr s = Ret d1 s" "list_rep s d1 [c, a, b]"
    by (rule list_rep_step [OF assms(2,1)])
  have "list_rep s d [c, a, b]" using d1 assms(7) by simp
  from list_rep_step [OF this assms(1)] have c: "get_car d s = Ret c s" "d \<noteq> NULL" by metis+
  obtain d2 where d2: "get_cdr expr t = Ret d2 t" "list_rep t d2 [c, a, b]"
    by (rule list_rep_step [OF assms(5,4)])
  have "list_rep t d [c, a, b]" using d2 assms(6) by simp
  then obtain d3 where d3: "get_cdr d t = Ret d3 t" "list_rep t d3 [a, b]"
    by (rule list_rep_step [OF _ assms(4)])
  obtain d4 where d4: "get_car d3 t = Ret a t" "get_cdr d3 t = Ret d4 t" "list_rep t d4 [b]" "d3 \<noteq> NULL"
    by (rule list_rep_step [OF d3(2) assms(4)])
  obtain d5 where d5: "get_car d4 t = Ret b t" "d4 \<noteq> NULL" by (rule list_rep_step [OF d4(3) assms(4)])
  have cond: "eval_first R ctx d s = Ret v t"
    using c assms(3) by (simp add: eval_first_def bl_list_first_def)
  have second: "bl_list_second d t = Ret a t" and third: "bl_list_third d t = Ret b t"
    using c(2) d3(1) d4 d5 by (simp_all add: bl_list_second_def bl_list_third_def bl_list_rest_def bl_list_first_def)
  obtain e u where e: "bl_mk_err BL_ERR_PARSE t = Ret e u" "is_error u e (zero_err\<lparr>err_type := BL_ERR_PARSE\<rparr>)"
    unfolding bl_mk_err_def using new_error_spec [OF assms(4)] by blast
  have "bl_eval_if R ctx expr s = Ret v t" if "has_type t v BL_VAL_TYPE_ERROR"
    using that assms(7) cond by (auto simp: bl_eval_if_def has_type_def)
  moreover have "bl_eval_if R ctx expr s = rt_eval R ctx (if x then a else b) t" if "boolean t v x"
    using boolean_reads [OF that] assms(7) cond second third
    by (simp add: bl_eval_if_def eval_second_def del: get_type_eq_Ret)
  moreover have "bl_eval_if R ctx expr s = Ret e u" if "has_type t v T" "T \<notin> {BL_VAL_TYPE_ERROR, BL_VAL_TYPE_BOOL}"
    using that assms(7) cond e(1) by (auto simp: bl_eval_if_def has_type_def)
  ultimately show ?thesis using e(2) by blast
qed

text \<open>A list of static values in a state that grew from the initial one.\<close>

lemma sample_list:
  assumes "xs \<noteq> []"
  obtains p s where "wf_store s" "heap_ok s" "list_rep s p xs" "boolean s true_val True" "boolean s false_val False"
    "datum s null_val" "has_type s while_oper_val BL_VAL_TYPE_OPER_WHILE"
proof -
  obtain p s where s: "bl_mk_list xs bare_store = Ret p s" "wf_store s"
    using makes_list [OF assms] wf_bare unfolding makes_def by blast
  have "heap_ok bare_store" using wf_bare by (simp add: wf_store_def)
  from bl_mk_list_spec [OF this assms] s(1) have "list_rep s p xs" by auto
  moreover have "boolean s true_val True" "boolean s false_val False" "datum s null_val"
      "has_type s while_oper_val BL_VAL_TYPE_OPER_WHILE" "heap_ok s"
    using s(2) by (auto simp: wf_store_def statics_ok_def boolean_def datum_def has_type_def)
  ultimately show ?thesis using that s(2) by blast
qed

lemma conditional_branches_witness:
  "\<exists>s p. list_rep s p [if_oper_val, true_val, null_val, false_val] \<and> bl_eval_if (rt 0) NULL p s = Ret null_val s"
proof -
  obtain p s where s: "heap_ok s" "list_rep s p [if_oper_val, true_val, null_val, false_val]"
      "boolean s true_val True" "datum s null_val"
    by (rule sample_list [of "[if_oper_val, true_val, null_val, false_val]"]) auto
  obtain d where d: "get_cdr p s = Ret d s" by (rule list_rep_step [OF s(2,1)])
  have ev: "rt_eval (rt 0) NULL true_val s = Ret true_val s" using eval_datum [OF s(1) boolean_datum [OF s(3)]] by simp
  from conditional_branches [OF s(1,2) ev s(1,2) d d, of True] s(2,3) eval_datum [OF s(1,4)] show ?thesis by auto
qed

text \<open>
  A loop whose condition is the constant \<open>True\<close> and whose body is empty never ends: no amount of fuel
  gives an outcome. With the constant \<open>False\<close> it ends at once with None.
\<close>

lemma while_run:
  assumes "heap_ok s" "list_rep s expr [while_oper_val, c]" "has_type s while_oper_val BL_VAL_TYPE_OPER_WHILE"
    "boolean s c b"
  shows "bl_eval (Suc (Suc n)) ctx expr s = (if b then while_loop (Suc n) (rt n) ctx c expr s else Ret null_val s)"
    "while_loop (Suc m) (rt n) ctx c expr s = (if b then while_loop m (rt n) ctx c expr s else Ret null_val s)"
proof -
  obtain d where d: "get_car expr s = Ret while_oper_val s" "get_cdr expr s = Ret d s" "list_rep s d [c]" "expr \<noteq> NULL"
      "get_type expr s = Ret BL_VAL_TYPE_CONS s"
    by (rule list_rep_step [OF assms(2,1)])
  obtain d2 where d2: "get_car d s = Ret c s" "get_cdr d s = Ret d2 s" "list_rep s d2 []" "d \<noteq> NULL"
    by (rule list_rep_step [OF d(3) assms(1)])
  have d20: "d2 = NULL" using d2(3) by (auto simp: list_rep_def) (metis is_list.elims(2) list.distinct(1))
  have ev: "bl_eval (Suc n) ctx c s = Ret c s" by (rule eval_datum [OF assms(1) boolean_datum [OF assms(4)]])
  have body: "eval_body (rt n) ctx NULL null_val s = Ret (Inr null_val) s" by (simp add: eval_body_def)
  show loop: "while_loop (Suc m) (rt n) ctx c expr s = (if b then while_loop m (rt n) ctx c expr s else Ret null_val s)" for m
    using ev boolean_reads(1) [OF assms(4)] d(2) d2(2,4) d20 body
    by (simp add: while_loop.simps bl_list_rest_def bl_mk_null_def del: get_type_eq_Ret)
  obtain w where w: "heap s while_oper_val = Some w" "val_type w = BL_VAL_TYPE_OPER_WHILE"
    using assms(3) by (auto simp: has_type_def)
  have "bl_eval (Suc (Suc n)) ctx expr s = while_loop (Suc n) (rt n) ctx c expr s"
    using d d2(1,4) w
    by (simp add: bl_eval.simps(2) [of "Suc n"] eval_step_def eval_call_def bl_list_first_def del: get_type_eq_Ret)
  with loop [of n] show "bl_eval (Suc (Suc n)) ctx expr s
      = (if b then while_loop (Suc n) (rt n) ctx c expr s else Ret null_val s)" by simp
qed

theorem constant_loops:
  assumes "heap_ok s" "list_rep s expr [while_oper_val, c]" "has_type s while_oper_val BL_VAL_TYPE_OPER_WHILE"
    "boolean s c b"
  shows "if b then \<forall>n. bl_eval n ctx expr s = Timeout else \<forall>n \<ge> 2. bl_eval n ctx expr s = Ret null_val s"
proof (cases b)
  case True
  have loop: "while_loop m (rt n) ctx c expr s = Timeout" for m n
    by (induction m) (use while_run(2) [OF assms] True in \<open>simp_all add: while_loop.simps(1)\<close>)
  have late: "bl_eval (Suc (Suc n)) ctx expr s = Timeout" for n
    using while_run(1) [OF assms] True loop by simp
  have "bl_eval n ctx expr s = Timeout" for n
  proof (rule ccontr)
    assume "bl_eval n ctx expr s \<noteq> Timeout"
    then have "bl_eval (Suc (Suc n)) ctx expr s = bl_eval n ctx expr s"
      using le_M_D [OF bl_eval_mono [of n "Suc (Suc n)" ctx expr] refl] by simp
    with late \<open>bl_eval n ctx expr s \<noteq> Timeout\<close> show False by simp
  qed
  with True show ?thesis by simp
next
  case False
  have "bl_eval n ctx expr s = Ret null_val s" if "2 \<le> n" for n
  proof -
    from that obtain m where "n = Suc (Suc m)" by (metis Suc_le_D numeral_2_eq_2 Suc_le_mono)
    with while_run(1) [OF assms] False show ?thesis by simp
  qed
  with False show ?thesis by simp
qed

lemma constant_loops_witness:
  "\<exists>s p. list_rep s p [while_oper_val, true_val] \<and> (\<forall>n. bl_eval n NULL p s = Timeout)"
proof -
  obtain p s where s: "heap_ok s" "list_rep s p [while_oper_val, true_val]" "boolean s true_val True"
      "has_type s while_oper_val BL_VAL_TYPE_OPER_WHILE"
    by (rule sample_list [of "[while_oper_val, true_val]"]) auto
  from constant_loops [OF s(1,2,4,3), of NULL] s(2) show ?thesis by auto
qed

end
