(* ===== verification/BL_Repl.thy ===== *)
theory BL_Repl
  imports BL_Eval
begin

text \<open>
  The interpreter \<open>bli\<close> (\<^verbatim>\<open>bli/src/main.c\<close>) and \<open>bl_init\<close> (\<^verbatim>\<open>runtime/src/init.c\<close>): running a file, the
  interactive loop, and the hooks that offer completions. The line editor is outside code; the lines it
  delivers are the \<open>input_lines\<close> of the state.
\<close>

section \<open>Start\<close>

text \<open>\<open>bl_init\<close> sets up the collector and GMP's allocation functions; memory is not part of the model.\<close>

definition bl_init :: "int BL" where
  "bl_init = returnM 0"

section \<open>Running a file\<close>

definition run_file :: "nat \<Rightarrow> string \<Rightarrow> string list \<Rightarrow> unit BL" where
  "run_file n filename argv = (let R = runtime_at n (bl_eval n) in
     bindM bl_ctx_new_std (\<lambda>STDLIB_CTX. bindM (bl_ctx_new STDLIB_CTX) (\<lambda>FILE_CTX.
     bindM (bind_sym FILE_CTX ''*MAINFILE*'' (bl_mk_str (basename_of filename))) (\<lambda>_.
     bindM (bind_sym FILE_CTX ''*FILENAME*'' (bl_mk_str (basename_of filename))) (\<lambda>_.
     bindM (append_strs argv NULL) (\<lambda>argv_cons.
     bindM (bind_sym FILE_CTX ''*ARGV*'' (returnM argv_cons)) (\<lambda>_.
     bindM (with_source filename (bl_eval_file R FILE_CTX)) (\<lambda>retval. bindM (get_type retval) (\<lambda>T.
       if T = BL_VAL_TYPE_ERROR
       then bindM (bl_errmsg retval) (\<lambda>msg.
            print_err (''Error occurred in '' @ filename @ '': '' @ msg @ [LF]))
       else returnM ())))))))))"

section \<open>Completion\<close>

text \<open>
  \<open>strncmp(prefix + bp, name, len - bp) == 0\<close>: the rest of the prefix is a prefix of the name. The loops
  run up to and including \<open>vals_count\<close>, one past the end of the arrays.
\<close>

definition names_match :: "string \<Rightarrow> nat \<Rightarrow> string \<Rightarrow> bool" where
  "names_match pre bp name = prefixb (drop bp pre) name"

primrec completions :: "string \<Rightarrow> nat \<Rightarrow> bl_ctx \<Rightarrow> nat list \<Rightarrow> string list BL" where
  "completions pre bp c [] = returnM []"
| "completions pre bp c (i # is) = bindM (ctx_slot c i) (\<lambda>v.
     if v = NULL then completions pre bp c is
     else bindM (ctx_key c i) (\<lambda>k. bindM (get_s_val k) (\<lambda>name.
       bindM (completions pre bp c is) (\<lambda>rest.
       returnM (if names_match pre bp name then name # rest else rest)))))"

definition completion_hook :: "string \<Rightarrow> nat \<Rightarrow> ptr \<Rightarrow> string list BL" where
  "completion_hook pre bp ctx = bindM (get_ctx ctx) (\<lambda>c.
     bindM (completions pre bp c [0..<Suc (vals_count c)]) (\<lambda>own.
       if parent c \<noteq> NULL
       then bindM (get_ctx (parent c)) (\<lambda>d. bindM (completions pre bp d [0..<Suc (vals_count d)]) (\<lambda>more.
            returnM (own @ more)))
       else returnM own))"

primrec hints :: "bool \<Rightarrow> string \<Rightarrow> nat \<Rightarrow> bl_ctx \<Rightarrow> nat list \<Rightarrow> string list BL" where
  "hints docs pre bp c [] = returnM []"
| "hints docs pre bp c (i # is) = bindM (ctx_slot c i) (\<lambda>v.
     if v = NULL then hints docs pre bp c is
     else bindM (ctx_key c i) (\<lambda>k. bindM (get_s_val k) (\<lambda>name.
       if names_match pre bp name
       then bindM (deref v) (\<lambda>cell.
            bindM (if docs \<and> docstr cell \<noteq> NULL
                   then bindM (get_s_val (docstr cell)) (\<lambda>d. returnM (drop (length pre) d))
                   else returnM (drop (length pre - bp) name)) (\<lambda>h.
            bindM (hints docs pre bp c is) (\<lambda>rest. returnM (h # rest))))
       else hints docs pre bp c is)))"

definition hint_hook :: "string \<Rightarrow> nat \<Rightarrow> ptr \<Rightarrow> string list BL" where
  "hint_hook pre bp ctx = (if length pre > bp
     then bindM (get_ctx ctx) (\<lambda>c. bindM (hints False pre bp c [0..<Suc (vals_count c)]) (\<lambda>own.
       if parent c \<noteq> NULL
       then bindM (get_ctx (parent c)) (\<lambda>d. bindM (hints True pre bp d [0..<Suc (vals_count d)]) (\<lambda>more.
            returnM (own @ more)))
       else returnM own))
     else returnM [])"

section \<open>The interactive loop\<close>

text \<open>\<open>rl_gets\<close>: the next line, or NULL at the end of the input.\<close>

definition rl_gets :: "string option BL" where
  "rl_gets = bindM (readline ''>>> '') (\<lambda>z. case z of
      None \<Rightarrow> bindM (print_out [LF]) (\<lambda>_. returnM None) | Some x \<Rightarrow> returnM (Some x))"

definition repl_step :: "nat \<Rightarrow> ptr \<Rightarrow> string option \<Rightarrow> unit BL" where
  "repl_step n REPL_CTX z = (case z of
      None \<Rightarrow> print_out ([LF] @ ''Type (quit) to quit'' @ [LF])
    | Some input_line \<Rightarrow> bindM (bl_parse_sexp input_line) (\<lambda>expr. bindM (bl_eval n REPL_CTX expr) (\<lambda>result.
        bindM (get_type result) (\<lambda>T.
          if T = BL_VAL_TYPE_NULL then print_out [LF]
          else if T = BL_VAL_TYPE_ERROR
          then bindM (bl_errmsg result) (\<lambda>msg. print_out (''Error occurred:'' @ [LF] @ msg @ [LF]))
          else bindM (bl_ser_sexp result) (\<lambda>x. print_out (x @ [LF]))))))"

text \<open>\<open>for(;;)\<close>: the first argument bounds the rounds.\<close>

primrec repl_loop :: "nat \<Rightarrow> nat \<Rightarrow> ptr \<Rightarrow> unit BL" where
  "repl_loop 0 n ctx = timeoutM"
| "repl_loop (Suc k) n ctx = bindM rl_gets (\<lambda>z. bindM (repl_step n ctx z) (\<lambda>_. repl_loop k n ctx))"

definition repl_init :: "nat \<Rightarrow> ptr BL" where
  "repl_init n = bindM bl_ctx_new_std (\<lambda>STDLIB_CTX. bindM (bl_ctx_new STDLIB_CTX) (\<lambda>REPL_CTX.
     bindM (bind_sym REPL_CTX ''*MAINFILE*'' (bl_mk_str [])) (\<lambda>_.
     bindM (bind_sym REPL_CTX ''*FILENAME*'' (bl_mk_str [])) (\<lambda>_.
     bindM (bind_sym REPL_CTX ''quit'' (bl_mk_native_oper N_quit)) (\<lambda>_.
     bindM (bl_parse_sexp ''(import bldoc)'') (\<lambda>e1. bindM (bl_eval n REPL_CTX e1) (\<lambda>_.
     bindM (bl_parse_sexp ''(using bldoc::help)'') (\<lambda>e2. bindM (bl_eval n REPL_CTX e2) (\<lambda>_.
     returnM REPL_CTX)))))))))"

definition bli_main :: "nat \<Rightarrow> nat \<Rightarrow> string list \<Rightarrow> int BL" where
  "bli_main n k argv = bindM bl_init (\<lambda>_.
     if length argv \<ge> 2 then bindM (run_file n (argv ! 1) (tl argv)) (\<lambda>_. returnM 0)
     else bindM (getsM (\<lambda>s. build_version (os s))) (\<lambda>v.
          bindM (print_out (''BearLang Version '' @ v @ [LF, LF])) (\<lambda>_.
          bindM (repl_init n) (\<lambda>ctx. bindM (repl_loop k n ctx) (\<lambda>_. returnM 0)))))"

section \<open>Effects on the state\<close>

lemma completions_safe [keeps_intros]:
  "keeps safe_step (completions pre bp c is)" "keeps safe_step (hints docs pre bp c is)"
proof -
  show "keeps safe_step (completions pre bp c is)"
    by (induction "is") (simp_all only: completions.simps, (intro keeps_intros | assumption)+)
  show "keeps safe_step (hints docs pre bp c is)"
    by (induction "is") (simp_all only: hints.simps, (intro keeps_intros | assumption)+)
qed

lemma hooks_safe: "keeps safe_step (completion_hook pre bp c)" "keeps safe_step (hint_hook pre bp c)"
  unfolding completion_hook_def hint_hook_def by (intro keeps_intros)+

lemma run_file_safe [keeps_intros]: "keeps safe_step (run_file n x argv)"
  unfolding run_file_def Let_def by (intro keeps_intros bl_rt.bl_eval_file_safe)

lemma repl_step_safe [keeps_intros]: "keeps safe_step (repl_step n c z)"
  unfolding repl_step_def by (intro keeps_intros)

lemma repl_init_safe [keeps_intros]: "keeps safe_step (repl_init n)"
  unfolding repl_init_def by (intro keeps_intros)

text \<open>Reading the arrays of a context at their length is an access out of bounds.\<close>

lemma get_s_val_cases: "(\<exists>x. get_s_val p s = Ret x s) \<or> (\<exists>e. get_s_val p s = Fault e)"
proof (cases "heap s p")
  case None
  then show ?thesis by (simp add: get_s_val_def get_payload_def run_bindM deref_def)
next
  case (Some c)
  then show ?thesis by (cases "payload c") (simp_all add: union_s_val_def)
qed

lemma completions_past_end:
  assumes "length (vals c) \<in> set is"
  shows "\<exists>e. completions pre bp c is s = Fault e"
  using assms
proof (induction "is")
  case (Cons i "is")
  show ?case
  proof (cases "i < length (vals c)")
    case True
    with Cons obtain e where e: "completions pre bp c is s = Fault e" by auto
    have slot: "ctx_slot c i s = Ret (vals c ! i) s" using True by (simp add: ctx_slot_def)
    show ?thesis
    proof (cases "vals c ! i = NULL \<or> \<not> i < length (keys c)")
      case True
      with slot e show ?thesis by (cases "vals c ! i = NULL") (simp_all add: ctx_key_def run_bindM)
    next
      case False
      then have key: "ctx_key c i s = Ret (keys c ! i) s" by (simp add: ctx_key_def)
      from get_s_val_cases [of "keys c ! i" s] show ?thesis
        using False slot key e by (elim disjE exE) (simp_all add: run_bindM)
    qed
  qed (simp add: ctx_slot_def run_bindM)
qed simp

lemma completion_hook_fault:
  assumes "wf_store s" "has_type s ctx BL_VAL_TYPE_CTX"
  shows "\<exists>e. completion_hook pre bp ctx s = Fault e"
proof -
  from assms(2) obtain c where c: "heap s ctx = Some c" "val_type c = BL_VAL_TYPE_CTX"
    by (auto simp: has_type_def)
  with assms(1) have "tag_ok BL_VAL_TYPE_CTX (payload c)" unfolding wf_store_def tags_ok_def by force
  then obtain k where k: "payload c = U_ctx k" "length (vals k) = vals_count k"
    by (auto split: bl_union.splits)
  have "length (vals k) \<in> set [0..<Suc (vals_count k)]" using k(2) by simp
  then obtain e where "completions pre bp k [0..<Suc (vals_count k)] s = Fault e"
    using completions_past_end by blast
  with c k(1) show ?thesis by (simp add: completion_hook_def run_bindM del: upt_Suc)
qed

end
