(* ===== verification/BL_Compiler.thy ===== *)
theory BL_Compiler
  imports BL_Repl
begin

text \<open>
  The compiler \<open>blc\<close> (\<^verbatim>\<open>blc/src/main.c\<close>), which translates the functions of a source file into C text.
  Each function returns the text that it writes to the output file. The traversal of an expression
  only reads the heap; as in the printer, a depth of \<open>next_addr\<close> is enough for values that are not
  circular.
\<close>

section \<open>Expressions\<close>

text \<open>\<open>%d\<close> of a \<open>char\<close>, which is signed.\<close>

definition char_int :: "char \<Rightarrow> int" where
  "char_int c = (let n = of_char c :: int in if n < 128 then n else n - 256)"

definition compile_string :: "string \<Rightarrow> string" where
  "compile_string s = ''(char[]){'' @ concat (map (\<lambda>c. mpz_get_str (char_int c) @ '','') s) @ ''0}''"

definition cons_text :: "string \<Rightarrow> string \<Rightarrow> string" where
  "cons_text a d = ''&(bl_val_t) {.type = BL_VAL_TYPE_CONS, .car='' @ a @ '', .cdr='' @ d @ ''}''"

definition cons_with :: "(ptr \<Rightarrow> string BL) \<Rightarrow> ptr \<Rightarrow> string BL" where
  "cons_with atom L = bindM (get_car L) (\<lambda>a. bindM (atom a) (\<lambda>x. bindM (get_cdr L) (\<lambda>d.
     bindM (atom d) (\<lambda>y. returnM (cons_text x y)))))"

primrec atom_text :: "nat \<Rightarrow> ptr \<Rightarrow> string BL" where
  "atom_text 0 E = timeoutM"
| "atom_text (Suc n) E = (if E = NULL then returnM ''NULL''
     else bindM (get_type E) (\<lambda>T. case T of
        BL_VAL_TYPE_CONS \<Rightarrow> cons_with (atom_text n) E
      | BL_VAL_TYPE_NULL \<Rightarrow> returnM ''NULL''
      | BL_VAL_TYPE_SYMBOL \<Rightarrow> bindM (bl_ser_sexp E) (\<lambda>x. returnM (''bl_mk_symbol('' @ [DQ] @ x @ [DQ] @ '')''))
      | BL_VAL_TYPE_NUMBER \<Rightarrow> bindM (bl_ser_sexp E) (\<lambda>x. returnM (''bl_mk_integer('' @ [DQ] @ x @ [DQ]))
      | BL_VAL_TYPE_OPER_DO \<Rightarrow> returnM ''&(bl_val_t) {.type = BL_VAL_TYPE_OPER_DO}''
      | BL_VAL_TYPE_OPER_IF \<Rightarrow> returnM ''&(bl_val_t) {.type = BL_VAL_TYPE_OPER_IF}''
      | BL_VAL_TYPE_OPER_WHILE \<Rightarrow> returnM ''&(bl_val_t) {.type = BL_VAL_TYPE_OPER_WHILE}''
      | BL_VAL_TYPE_BOOL \<Rightarrow> bindM (get_b_val E) (\<lambda>b.
          returnM (if b then ''&(bl_val_t) {.type = BL_VAL_TYPE_BOOL, .b_val=true}''
                   else ''&(bl_val_t) {.type = BL_VAL_TYPE_BOOL, .b_val=false}''))
      | BL_VAL_TYPE_STRING \<Rightarrow> bindM (get_s_val E) (\<lambda>x.
          returnM (''&(bl_val_t) {.type=BL_VAL_TYPE_STRING, .s_val='' @ compile_string x @ ''}''))
      | _ \<Rightarrow> returnM []))"

definition compile_atom :: "ptr \<Rightarrow> string BL" where
  "compile_atom E = (\<lambda>s. atom_text (Suc (next_addr s)) E s)"

definition compile_cons :: "ptr \<Rightarrow> string BL" where
  "compile_cons L = cons_with compile_atom L"

definition line_directive :: "nat \<Rightarrow> string \<Rightarrow> string" where
  "line_directive n infile = [LF] @ ''#line '' @ nat_digits n @ '' '' @ [DQ] @ infile @ [DQ, LF]"

definition compile_expr :: "string \<Rightarrow> ptr \<Rightarrow> string BL" where
  "compile_expr infile expr = bindM (deref expr) (\<lambda>cell. bindM (compile_cons expr) (\<lambda>x.
     returnM (line_directive (line_num cell) infile @ ''retval = bl_eval(ctx,'' @ x @ '');'' @ [LF])))"

section \<open>Functions and files\<close>

text \<open>With \<open>-v\<close> every expression of the body is also printed to the standard error.\<close>

definition compile_body :: "bool \<Rightarrow> string \<Rightarrow> ptr \<Rightarrow> string BL" where
  "compile_body verbose infile body = (\<lambda>s. bindM (for_cdr (Suc (next_addr s)) (\<lambda>L text.
       bindM (get_car L) (\<lambda>e.
       bindM (if verbose then bindM (bl_ser_sexp e) (\<lambda>x. print_err (x @ [LF])) else returnM ()) (\<lambda>_.
       bindM (compile_expr infile e) (\<lambda>x. returnM (Inr (text @ x)))))) body [])
     (\<lambda>r. case r of Inl x \<Rightarrow> returnM x | Inr x \<Rightarrow> returnM x) s)"

definition compile_fun :: "bool \<Rightarrow> string \<Rightarrow> ptr \<Rightarrow> string BL" where
  "compile_fun verbose infile fun_expr = bindM (bl_list_rest fun_expr) (\<lambda>params.
     bindM (bl_list_first params) (\<lambda>fun_name. bindM (bl_list_second params) (\<lambda>args.
     bindM (bl_list_rest params) (\<lambda>r1. bindM (bl_list_rest r1) (\<lambda>body0.
     bindM (get_car body0) (\<lambda>b. bindM (get_type b) (\<lambda>T.
     bindM (if T = BL_VAL_TYPE_DOCSTRING then get_cdr body0 else returnM body0) (\<lambda>body.
     bindM (get_car fun_expr) (\<lambda>head. bindM (deref head) (\<lambda>cell. bindM (get_s_val fun_name) (\<lambda>name.
     bindM (compile_body verbose infile body) (\<lambda>text.
     returnM (line_directive (line_num cell) infile @
       ''bl_val_t* bl_'' @ name @ ''(bl_val_t* ctx, bl_val_t* params) {'' @
       ''params = bl_eval(ctx,params);'' @ ''bl_val_t* retval = NULL;'' @ text @ ''return retval;'' @ ''}'')))))))))))))"

text \<open>
  \<open>compile_file\<close>: the text of the output file. Top-level assignments are skipped, functions are compiled,
  and anything else stops the compilation with a message.
\<close>

definition compile_toplevel :: "bool \<Rightarrow> string \<Rightarrow> ptr \<Rightarrow> ptr \<Rightarrow> ptr \<Rightarrow> string \<Rightarrow> (string + string) BL" where
  "compile_toplevel verbose infile set_oper fun_oper L text = bindM (get_car L) (\<lambda>expr.
     bindM (get_car expr) (\<lambda>head.
       if head = set_oper then returnM (Inr text)
       else if head = fun_oper
       then bindM (compile_fun verbose infile expr) (\<lambda>x. returnM (Inr (text @ x)))
       else bindM (bl_ser_sexp expr) (\<lambda>x.
            bindM (print_err (''Can not compile toplevel expression '' @ x @ [LF])) (\<lambda>_. returnM (Inl text)))))"

definition compile_forms :: "bool \<Rightarrow> string \<Rightarrow> ptr \<Rightarrow> string BL" where
  "compile_forms verbose infile parsed_file =
     bindM (bl_mk_symbol ''='') (\<lambda>set_oper. bindM (bl_mk_symbol ''fun'') (\<lambda>fun_oper. (\<lambda>s.
     bindM (for_cdr (Suc (next_addr s)) (compile_toplevel verbose infile set_oper fun_oper) parsed_file
              (''#include <bearlang/bearlang.h>'' @ [LF]))
       (\<lambda>r. case r of Inl x \<Rightarrow> returnM x | Inr x \<Rightarrow> returnM x) s)))"

definition compile_file :: "bool \<Rightarrow> string \<Rightarrow> string BL" where
  "compile_file verbose infile = bindM (getsM (\<lambda>s. source_text (os s) infile)) (\<lambda>z. case z of
      None \<Rightarrow> faultM Bad_pointer
    | Some contents \<Rightarrow> bindM (bl_parse_file contents) (\<lambda>parsed_file. bindM (get_type parsed_file) (\<lambda>T.
        if T = BL_VAL_TYPE_ERROR
        then bindM (bl_errmsg parsed_file) (\<lambda>msg.
             bindM (print_err (''Error occurred in '' @ infile @ '': '' @ msg @ [LF])) (\<lambda>_. returnM []))
        else compile_forms verbose infile parsed_file)))"

section \<open>The command line\<close>

text \<open>
  \<open>getopt(argc, argv, "i:o:lv")\<close>: options may be joined after one dash, the value of \<open>i\<close> and \<open>o\<close> is the rest
  of the word or the next word, other words are passed over. An unknown option or a missing value is an
  error.
\<close>

record blc_options =
  input_filename :: "string option"
  output_filename :: "string option"
  verbose :: bool
  build_lib :: bool

datatype opt_result = Options blc_options | Bad_params

fun getopt_word :: "string \<Rightarrow> string list \<Rightarrow> blc_options \<Rightarrow> (blc_options \<times> string list) option" where
  "getopt_word [] rest opts = Some (opts, rest)"
| "getopt_word (c # cs) rest opts =
     (if c = CHR ''v'' then getopt_word cs rest (opts\<lparr>verbose := True\<rparr>)
      else if c = CHR ''l'' then getopt_word cs rest (opts\<lparr>build_lib := True\<rparr>)
      else if c = CHR ''i'' \<or> c = CHR ''o''
      then (case (if cs \<noteq> [] then Some (cs, rest) else case rest of [] \<Rightarrow> None | w # ws \<Rightarrow> Some (w, ws)) of
              None \<Rightarrow> None
            | Some (w, ws) \<Rightarrow> Some (if c = CHR ''i'' then opts\<lparr>input_filename := Some w\<rparr>
                                  else opts\<lparr>output_filename := Some w\<rparr>, ws))
      else None)"

lemma getopt_word_rest: "getopt_word w rest opts = Some (opts', ws) \<Longrightarrow> length ws \<le> length rest"
  by (induction w rest opts rule: getopt_word.induct) (auto split: if_splits list.splits)

function getopt_all :: "string list \<Rightarrow> blc_options \<Rightarrow> opt_result" where
  "getopt_all [] opts = Options opts"
| "getopt_all (w # ws) opts =
     (if w = ''--'' then Options opts
      else if length w < 2 \<or> hd w \<noteq> CHR ''-'' then getopt_all ws opts
      else case getopt_word (tl w) ws opts of
             None \<Rightarrow> Bad_params | Some (opts', rest) \<Rightarrow> getopt_all rest opts')"
  by pat_completeness auto
termination
  by (relation "measure (\<lambda>(ws, opts). length ws)") (auto dest!: getopt_word_rest)

definition no_options :: blc_options where
  "no_options = \<lparr>input_filename = None, output_filename = None, verbose = False, build_lib = False\<rparr>"

definition print_usage :: "string \<Rightarrow> unit BL" where
  "print_usage exe_name = print_err (''usage: '' @ exe_name @ '' -i filename -o output_file [-v] [-l]'' @ [LF])"

definition usage_exit :: "string \<Rightarrow> 'a BL" where
  "usage_exit exe_name = bindM (print_usage exe_name) (\<lambda>_. exitM 1)"

text \<open>\<open>main\<close>: the name of the output file and its text.\<close>

definition blc_main :: "string list \<Rightarrow> (string \<times> string) BL" where
  "blc_main argv = (case argv of
      [] \<Rightarrow> faultM Bad_pointer
    | exe_name # args \<Rightarrow> (case getopt_all args no_options of
        Bad_params \<Rightarrow> usage_exit exe_name
      | Options opts \<Rightarrow> (case input_filename opts of
          None \<Rightarrow> usage_exit exe_name
        | Some infile \<Rightarrow> (case output_filename opts of
            None \<Rightarrow> usage_exit exe_name
          | Some outfile \<Rightarrow> bindM (compile_file (verbose opts) infile) (\<lambda>text. returnM (outfile, text))))))"

section \<open>Compiled programs\<close>

text \<open>
  \<open>main\<close> of the stub (\<^verbatim>\<open>blc/stub/stub.c\<close>) that a compiled program is linked with; \<open>bl_main\<close> is the code
  that the compiler generated.
\<close>

definition stub_main :: "(ptr \<Rightarrow> ptr \<Rightarrow> ptr BL) \<Rightarrow> string list \<Rightarrow> int BL" where
  "stub_main bl_main argv = bindM bl_init (\<lambda>_. bindM bl_ctx_new_std (\<lambda>ctx.
     case argv of [] \<Rightarrow> faultM Bad_pointer | exe_name # args \<Rightarrow>
       bindM (bind_sym ctx ''*MAINFILE*'' (bl_mk_str exe_name)) (\<lambda>_.
       bindM (bind_sym ctx ''*FILENAME*'' (bl_mk_str exe_name)) (\<lambda>_.
       bindM (bl_main ctx NULL) (\<lambda>_. returnM 0)))))"

lemma stub_main_safe:
  "(\<And>ctx params. keeps safe_step (bl_main ctx params)) \<Longrightarrow> keeps safe_step (stub_main bl_main argv)"
  unfolding stub_main_def bl_init_def by (intro keeps_intros)

declare atom_text.simps [simp del]

end
