(* ===== verification/BL_Uthash.thy ===== *)
theory BL_Uthash
  imports BL_Values "HOL-Library.Word" "HOL-Library.Multiset"
begin

text \<open>
  The hash table behind the symbols: the macros of \<^verbatim>\<open>include/bearlang/uthash.h\<close> that \<open>bl_mk_symbol\<close> uses, on
  32-bit words. The chain of a bucket (\<open>hh_next\<close>, \<open>hh_prev\<close>) and the list of all elements in the order of
  insertion (\<open>next\<close>, \<open>prev\<close>, \<open>tail\<close>) are lists. The rest of the development sees the symbol table as an
  association list; here it is shown that the hash table answers alike.
\<close>

unbundle bit_operations_syntax

section \<open>The hash function\<close>

type_synonym u32 = "32 word"

text \<open>\<open>HASH_JEN_MIX\<close>: each line subtracts the other two registers and mixes in a shifted one.\<close>

definition jen_right :: "nat \<Rightarrow> u32 \<Rightarrow> u32 \<Rightarrow> u32 \<Rightarrow> u32" where
  "jen_right n x y z = (x - y - z) XOR drop_bit n z"

definition jen_left :: "nat \<Rightarrow> u32 \<Rightarrow> u32 \<Rightarrow> u32 \<Rightarrow> u32" where
  "jen_left n x y z = (x - y - z) XOR push_bit n z"

definition HASH_JEN_MIX :: "u32 \<times> u32 \<times> u32 \<Rightarrow> u32 \<times> u32 \<times> u32" where
  "HASH_JEN_MIX = (\<lambda>(a, b, c).
     let a = jen_right 13 a b c; b = jen_left 8 b c a; c = jen_right 13 c a b;
         a = jen_right 12 a b c; b = jen_left 16 b c a; c = jen_right 5 c a b;
         a = jen_right 3 a b c; b = jen_left 10 b c a; c = jen_right 15 c a b
     in (a, b, c))"

text \<open>A byte of the key at an offset, shifted, and nothing beyond its end.\<close>

definition key_byte :: "string \<Rightarrow> nat \<Rightarrow> nat \<Rightarrow> u32" where
  "key_byte key i n = (if i < length key then push_bit n (of_char (key ! i)) else 0)"

definition key_word :: "string \<Rightarrow> nat \<Rightarrow> u32" where
  "key_word key i = key_byte key i 0 + key_byte key (i + 1) 8 + key_byte key (i + 2) 16 + key_byte key (i + 3) 24"

function jen_loop :: "string \<Rightarrow> u32 \<times> u32 \<times> u32 \<Rightarrow> string \<times> u32 \<times> u32 \<times> u32" where
  "jen_loop key (i, j, h) = (if length key \<ge> 12
     then jen_loop (drop 12 key) (HASH_JEN_MIX (i + key_word key 0, j + key_word key 4, h + key_word key 8))
     else (key, i, j, h))"
  by pat_completeness auto
termination
  by (relation "measure (\<lambda>(key, r). length key)") auto

text \<open>
  The switch at the end falls through from the number of bytes left, so every byte that is left is added;
  the last word leaves its lowest byte to the length of the key.
\<close>

definition HASH_JEN :: "string \<Rightarrow> u32 \<Rightarrow> u32" where
  "HASH_JEN key keylen =
     (case jen_loop (take (unat keylen) key) (0x9e3779b9, 0x9e3779b9, 0xfeedbeef) of (rest, i, j, h) \<Rightarrow>
      case HASH_JEN_MIX (i + key_word rest 0, j + key_word rest 4,
             h + keylen + key_byte rest 8 8 + key_byte rest 9 16 + key_byte rest 10 24) of (a, b, hashv) \<Rightarrow> hashv)"

section \<open>Tables\<close>

text \<open>A \<open>UT_hash_handle\<close> with the symbol of the element that it is part of.\<close>

record ut_handle =
  hh_key :: string
  hh_keylen :: u32
  hh_hashv :: u32
  hh_sym :: ptr

record ut_bucket =
  hh_head :: "ut_handle list"
  bkt_count :: u32
  expand_mult :: u32

record ut_table =
  buckets :: "ut_bucket list"
  num_buckets :: u32
  log2_num_buckets :: u32
  num_items :: u32
  app_order :: "ut_handle list"
  ideal_chain_maxlen :: u32
  nonideal_items :: u32
  ineff_expands :: u32
  noexpand :: bool

text \<open>
  The allocator decides by the number of bytes whether it serves a request; when it does not,
  \<open>uthash_fatal\<close> ends the process. A division by an ideal chain length of zero is a fault, and so is the
  removal of an element that the table does not hold.
\<close>

datatype ut_error = UT_fatal | UT_div_zero | UT_foreign

definition HASH_INITIAL_NUM_BUCKETS :: nat where
  "HASH_INITIAL_NUM_BUCKETS = 128"

definition HASH_INITIAL_NUM_BUCKETS_LOG2 :: nat where
  "HASH_INITIAL_NUM_BUCKETS_LOG2 = 7"

definition HASH_BKT_CAPACITY_THRESH :: u32 where
  "HASH_BKT_CAPACITY_THRESH = 10"

definition sizeof_bucket :: nat where
  "sizeof_bucket = 16"

definition sizeof_table :: nat where
  "sizeof_table = 64"

definition no_items :: ut_bucket where
  "no_items = \<lparr>hh_head = [], bkt_count = 0, expand_mult = 0\<rparr>"

definition HASH_TO_BKT :: "u32 \<Rightarrow> u32 \<Rightarrow> nat" where
  "HASH_TO_BKT hashv num_bkts = unat (hashv AND (num_bkts - 1))"

definition HASH_MAKE_TABLE :: "(nat \<Rightarrow> bool) \<Rightarrow> ut_handle \<Rightarrow> ut_error + ut_table" where
  "HASH_MAKE_TABLE mem add =
     (if \<not> mem sizeof_table \<or> \<not> mem (HASH_INITIAL_NUM_BUCKETS * sizeof_bucket) then Inl UT_fatal
      else Inr \<lparr>buckets = replicate HASH_INITIAL_NUM_BUCKETS no_items,
             num_buckets = of_nat HASH_INITIAL_NUM_BUCKETS,
             log2_num_buckets = of_nat HASH_INITIAL_NUM_BUCKETS_LOG2, num_items = 0, app_order = [add],
             ideal_chain_maxlen = 0, nonideal_items = 0, ineff_expands = 0, noexpand = False\<rparr>)"

section \<open>Expansion\<close>

text \<open>One element is moved to the front of its new bucket.\<close>

definition expand_item :: "u32 \<Rightarrow> u32 \<Rightarrow> ut_handle \<Rightarrow> ut_bucket list \<times> u32 \<Rightarrow> ut_bucket list \<times> u32" where
  "expand_item ideal nb thh st = (case st of (bs, nonideal) \<Rightarrow>
     let i = HASH_TO_BKT (hh_hashv thh) nb; b = bs ! i; n = bkt_count b + 1 in
     (bs[i := b\<lparr>hh_head := thh # hh_head b, bkt_count := n,
                expand_mult := (if n > ideal then n div ideal else expand_mult b)\<rparr>],
      if n > ideal then nonideal + 1 else nonideal))"

definition chained :: "ut_bucket list \<Rightarrow> ut_handle list" where
  "chained bs = concat (map hh_head bs)"

definition ideal_length :: "ut_table \<Rightarrow> u32" where
  "ideal_length tbl = drop_bit (unat (log2_num_buckets tbl + 1)) (num_items tbl)
     + (if num_items tbl AND (num_buckets tbl * 2 - 1) \<noteq> 0 then 1 else 0)"

definition HASH_EXPAND_BUCKETS :: "(nat \<Rightarrow> bool) \<Rightarrow> ut_table \<Rightarrow> ut_error + ut_table" where
  "HASH_EXPAND_BUCKETS mem tbl =
     (if \<not> mem (2 * unat (num_buckets tbl) * sizeof_bucket) then Inl UT_fatal
      else let ideal = ideal_length tbl; items = chained (buckets tbl)
      in if ideal = 0 \<and> items \<noteq> [] then Inl UT_div_zero
      else case fold (expand_item ideal (num_buckets tbl * 2)) items
                  (replicate (2 * unat (num_buckets tbl)) no_items, 0) of (bs, nonideal) \<Rightarrow>
        let ineff = (if nonideal > drop_bit 1 (num_items tbl) then ineff_expands tbl + 1 else 0)
        in Inr (tbl\<lparr>buckets := bs, num_buckets := num_buckets tbl * 2,
             log2_num_buckets := log2_num_buckets tbl + 1, ideal_chain_maxlen := ideal,
             nonideal_items := nonideal, ineff_expands := ineff,
             noexpand := (if ineff > 1 then True else noexpand tbl)\<rparr>))"

section \<open>Adding and finding\<close>

definition HASH_ADD_TO_BKT :: "(nat \<Rightarrow> bool) \<Rightarrow> nat \<Rightarrow> ut_handle \<Rightarrow> ut_table \<Rightarrow> ut_error + ut_table" where
  "HASH_ADD_TO_BKT mem i add tbl =
     (let b = buckets tbl ! i; n = bkt_count b + 1;
          tbl' = tbl\<lparr>buckets := (buckets tbl)[i := b\<lparr>hh_head := add # hh_head b, bkt_count := n\<rparr>]\<rparr>
      in if n \<ge> (expand_mult b + 1) * HASH_BKT_CAPACITY_THRESH \<and> \<not> noexpand tbl
         then HASH_EXPAND_BUCKETS mem tbl' else Inr tbl')"

definition HASH_ADD_TO_TABLE :: "(nat \<Rightarrow> bool) \<Rightarrow> ut_handle \<Rightarrow> ut_table \<Rightarrow> ut_error + ut_table" where
  "HASH_ADD_TO_TABLE mem add tbl =
     HASH_ADD_TO_BKT mem (HASH_TO_BKT (hh_hashv add) (num_buckets tbl)) add (tbl\<lparr>num_items := num_items tbl + 1\<rparr>)"

definition HASH_APPEND_LIST :: "ut_handle \<Rightarrow> ut_table \<Rightarrow> ut_table" where
  "HASH_APPEND_LIST add tbl = tbl\<lparr>app_order := app_order tbl @ [add]\<rparr>"

text \<open>An empty table is the head NULL.\<close>

definition HASH_ADD_KEYPTR :: "(nat \<Rightarrow> bool) \<Rightarrow> string \<Rightarrow> u32 \<Rightarrow> ptr \<Rightarrow> ut_table option \<Rightarrow> ut_error + ut_table option" where
  "HASH_ADD_KEYPTR mem key keylen elm head =
     (let add = \<lparr>hh_key = key, hh_keylen = keylen, hh_hashv = HASH_JEN key keylen, hh_sym = elm\<rparr>
      in case (case head of None \<Rightarrow> HASH_MAKE_TABLE mem add | Some tbl \<Rightarrow> Inr (HASH_APPEND_LIST add tbl)) of
           Inl e \<Rightarrow> Inl e
         | Inr tbl \<Rightarrow> (case HASH_ADD_TO_TABLE mem add tbl of Inl e \<Rightarrow> Inl e | Inr tbl' \<Rightarrow> Inr (Some tbl')))"

definition HASH_ADD_STR :: "(nat \<Rightarrow> bool) \<Rightarrow> string \<Rightarrow> ptr \<Rightarrow> ut_table option \<Rightarrow> ut_error + ut_table option" where
  "HASH_ADD_STR mem key elm head = HASH_ADD_KEYPTR mem key (of_nat (length key)) elm head"

primrec HASH_FIND_IN_BKT :: "ut_handle list \<Rightarrow> string \<Rightarrow> u32 \<Rightarrow> u32 \<Rightarrow> ut_handle option" where
  "HASH_FIND_IN_BKT [] key keylen hashv = None"
| "HASH_FIND_IN_BKT (out # rest) key keylen hashv =
     (if hh_hashv out = hashv \<and> hh_keylen out = keylen
         \<and> take (unat keylen) (hh_key out) = take (unat keylen) key
      then Some out else HASH_FIND_IN_BKT rest key keylen hashv)"

definition HASH_FIND :: "ut_table option \<Rightarrow> string \<Rightarrow> u32 \<Rightarrow> ut_handle option" where
  "HASH_FIND head key keylen = (let hashv = HASH_JEN key keylen in case head of None \<Rightarrow> None
     | Some tbl \<Rightarrow> HASH_FIND_IN_BKT (hh_head (buckets tbl ! HASH_TO_BKT hashv (num_buckets tbl))) key keylen hashv)"

definition HASH_FIND_STR :: "ut_table option \<Rightarrow> string \<Rightarrow> ut_handle option" where
  "HASH_FIND_STR head findstr = HASH_FIND head findstr (of_nat (length findstr))"

text \<open>
  \<open>HASH_FSCK\<close>, the check that a debug build runs after every addition: each bucket holds as many elements
  as it counts, and the buckets and the list in the order of insertion as many as the table counts.
\<close>

definition HASH_FSCK :: "ut_table option \<Rightarrow> bool" where
  "HASH_FSCK head = (case head of None \<Rightarrow> True | Some tbl \<Rightarrow>
     list_all (\<lambda>b. bkt_count b = of_nat (length (hh_head b))) (take (unat (num_buckets tbl)) (buckets tbl))
     \<and> of_nat (length (chained (take (unat (num_buckets tbl)) (buckets tbl)))) = num_items tbl
     \<and> of_nat (length (app_order tbl)) = num_items tbl)"

section \<open>The invariant\<close>

text \<open>
  Every element lies in the bucket that its hash value selects, and every bucket counts its elements; the
  counters may wrap around.
\<close>

definition placed :: "u32 \<Rightarrow> ut_bucket list \<Rightarrow> bool" where
  "placed nb bs \<longleftrightarrow> (\<forall>i < length bs. bkt_count (bs ! i) = of_nat (length (hh_head (bs ! i)))
     \<and> (\<forall>h \<in> set (hh_head (bs ! i)). HASH_TO_BKT (hh_hashv h) nb = i))"

definition handle_ok :: "ut_handle \<Rightarrow> bool" where
  "handle_ok h \<longleftrightarrow> length (hh_key h) < 2 ^ 32 \<and> hh_keylen h = of_nat (length (hh_key h))
     \<and> hh_hashv h = HASH_JEN (hh_key h) (hh_keylen h)"

definition ut_ok :: "ut_table \<Rightarrow> bool" where
  "ut_ok tbl \<longleftrightarrow> (\<exists>k \<le> 31. log2_num_buckets tbl = of_nat k \<and> num_buckets tbl = 2 ^ k \<and> length (buckets tbl) = 2 ^ k)
     \<and> placed (num_buckets tbl) (buckets tbl) \<and> mset (chained (buckets tbl)) = mset (app_order tbl)
     \<and> num_items tbl = of_nat (length (app_order tbl)) \<and> list_all handle_ok (app_order tbl)"

lemma HASH_TO_BKT_less: "HASH_TO_BKT h (2 ^ k) < 2 ^ k"
proof -
  have "h AND (2 ^ k - 1) = take_bit k h" by (simp add: take_bit_eq_mask mask_eq_exp_minus_1)
  then show ?thesis by (simp add: HASH_TO_BKT_def unsigned_take_bit_eq)
qed

lemma unat_two_power:
  assumes "k \<le> 31"
  shows "unat (2 ^ k :: u32) = 2 ^ k"
proof -
  have "(2 :: nat) ^ k < 2 ^ 32" by (rule power_strict_increasing) (use assms in simp_all)
  then show ?thesis using unat_of_nat [of "2 ^ k", where 'a = 32] by simp
qed

lemma chained_update:
  "i < length bs \<Longrightarrow> mset (chained (bs[i := b])) + mset (hh_head (bs ! i)) = mset (chained bs) + mset (hh_head b)"
proof (induction bs arbitrary: i)
  case (Cons c bs)
  then show ?case by (cases i) (auto simp: chained_def ac_simps)
qed simp

lemma placed_push:
  assumes "placed nb bs" "HASH_TO_BKT (hh_hashv h) nb = i" "i < length bs"
    and b: "hh_head b = h # hh_head (bs ! i)" "bkt_count b = bkt_count (bs ! i) + 1"
  shows "placed nb (bs[i := b])" "mset (chained (bs[i := b])) = add_mset h (mset (chained bs))"
proof -
  show "placed nb (bs[i := b])" using assms by (auto simp: placed_def nth_list_update)
  show "mset (chained (bs[i := b])) = add_mset h (mset (chained bs))"
    using chained_update [OF assms(3), of b] b(1) by simp
qed

lemma placed_empty: "placed nb (replicate n no_items)" "chained (replicate n no_items) = []"
  by (auto simp: placed_def no_items_def chained_def)

text \<open>Moving all elements keeps them and puts each into its bucket.\<close>

lemma expand_items:
  assumes "placed nb bs" "\<forall>h. HASH_TO_BKT h nb < length bs"
    "fold (expand_item ideal nb) hs (bs, n) = (cs, m)"
  shows "placed nb cs \<and> length cs = length bs \<and> mset (chained cs) = mset hs + mset (chained bs)"
  using assms
proof (induction hs arbitrary: bs n)
  case (Cons h hs)
  let ?i = "HASH_TO_BKT (hh_hashv h) nb"
  obtain b n' where b: "expand_item ideal nb h (bs, n) = (bs[?i := b], n')"
      "hh_head b = h # hh_head (bs ! ?i)" "bkt_count b = bkt_count (bs ! ?i) + 1"
    by (auto simp: expand_item_def Let_def)
  note p = placed_push [OF Cons.prems(1) refl _ b(2,3)]
  have "placed nb cs \<and> length cs = length (bs[?i := b]) \<and> mset (chained cs) = mset hs + mset (chained (bs[?i := b]))"
    by (rule Cons.IH) (use Cons.prems p b(1) in auto)
  with p(2) Cons.prems(2) show ?case by simp
qed simp

text \<open>The ideal length of the chains is zero only when the counter of the elements is.\<close>

lemma ideal_nonzero:
  fixes n :: u32
  assumes "n \<noteq> 0" "k \<le> 31"
  shows "drop_bit (Suc k) n + (if n AND (2 ^ Suc k - 1) \<noteq> 0 then 1 else 0) \<noteq> 0"
proof
  let ?d = "drop_bit (Suc k) n"
  assume z: "?d + (if n AND (2 ^ Suc k - 1) \<noteq> 0 then 1 else 0) = 0"
  have m: "n AND (2 ^ Suc k - 1) = take_bit (Suc k) n" by (simp add: take_bit_eq_mask mask_eq_exp_minus_1)
  have "unat ?d = unat n div 2 ^ Suc k" unfolding unat_drop_bit_eq by (rule drop_bit_eq_div)
  also have "\<dots> \<le> unat n div 2" by (rule div_le_mono2) simp_all
  also have "\<dots> < 2 ^ 31" using unsigned_less [where w = n and 'a = nat] by simp
  finally have "unat ?d < 2 ^ 31" .
  then have "?d \<noteq> - 1" by (auto simp: unsigned_minus_1_eq_mask mask_numeral)
  then have "?d + 1 \<noteq> 0" by (metis add_eq_0_iff2)
  with z m have "?d = 0" "take_bit (Suc k) n = 0" by (auto split: if_splits)
  then have "n = 0" by (metis bits_ident add_0 push_bit_of_0)
  with assms(1) show False by simp
qed

section \<open>Adding keeps the invariant\<close>

text \<open>No allocation of 64 gigabytes succeeds; a larger array of buckets could not be indexed by 32 bits.\<close>

definition bounded_memory :: "(nat \<Rightarrow> bool) \<Rightarrow> bool" where
  "bounded_memory mem \<longleftrightarrow> (\<forall>n. mem n \<longrightarrow> n < 2 ^ 36)"

lemma u32_nonzero:
  assumes "0 < n" "n < 2 ^ 32"
  shows "(of_nat n :: u32) \<noteq> 0"
proof
  assume "(of_nat n :: u32) = 0"
  then have "n mod 2 ^ 32 = 0" using unat_of_nat [of n, where 'a = 32] by simp
  with assms show False by simp
qed

lemma expand_numbers:
  assumes "k \<le> 31" "log2_num_buckets tbl = of_nat k" "num_buckets tbl = 2 ^ k" "num_items tbl \<noteq> 0"
  shows "num_buckets tbl * 2 = 2 ^ Suc k" "2 * unat (num_buckets tbl) = 2 ^ Suc k"
    "log2_num_buckets tbl + 1 = of_nat (Suc k)" "ideal_length tbl \<noteq> 0"
    "bounded_memory mem \<Longrightarrow> mem (2 * unat (num_buckets tbl) * sizeof_bucket) \<Longrightarrow> Suc k \<le> 31"
proof -
  show nb: "num_buckets tbl * 2 = 2 ^ Suc k" by (simp add: assms(3))
  show len: "2 * unat (num_buckets tbl) = 2 ^ Suc k" using assms(3) unat_two_power [OF assms(1)] by simp
  show log2: "log2_num_buckets tbl + 1 = of_nat (Suc k)" by (simp add: assms(2) ac_simps)
  have "unat (of_nat (Suc k) :: u32) = Suc k" using assms(1) unat_of_nat [of "Suc k", where 'a = 32] by simp
  then show "ideal_length tbl \<noteq> 0"
    using ideal_nonzero [OF assms(4,1)] by (simp only: ideal_length_def log2 nb) simp
  assume "bounded_memory mem" "mem (2 * unat (num_buckets tbl) * sizeof_bucket)"
  then have "2 ^ Suc k * 16 < (2 :: nat) ^ 36" unfolding len bounded_memory_def sizeof_bucket_def by blast
  then have "(2 :: nat) ^ Suc k < 2 ^ 32" by simp
  then have "Suc k < 32" by (rule power_less_imp_less_exp [rotated]) simp
  then show "Suc k \<le> 31" by simp
qed

lemma expand_ok:
  assumes ok: "ut_ok tbl" and mem: "bounded_memory mem"
    and items: "app_order tbl \<noteq> []" "length (app_order tbl) < 2 ^ 32"
  shows "HASH_EXPAND_BUCKETS mem tbl = Inl UT_fatal
    \<or> (\<exists>tbl'. HASH_EXPAND_BUCKETS mem tbl = Inr tbl' \<and> ut_ok tbl' \<and> app_order tbl' = app_order tbl)"
proof (cases "mem (2 * unat (num_buckets tbl) * sizeof_bucket)")
  case True
  obtain k where k: "k \<le> 31" "log2_num_buckets tbl = of_nat k" "num_buckets tbl = 2 ^ k"
    using ok by (auto simp: ut_ok_def)
  have rest: "mset (chained (buckets tbl)) = mset (app_order tbl)" "num_items tbl = of_nat (length (app_order tbl))"
      "list_all handle_ok (app_order tbl)"
    using ok by (auto simp: ut_ok_def)
  have n0: "num_items tbl \<noteq> 0" using u32_nonzero items unfolding rest(2) by blast
  note num = expand_numbers [OF k n0]
  obtain bs m where fold: "fold (expand_item (ideal_length tbl) (num_buckets tbl * 2)) (chained (buckets tbl))
      (replicate (2 * unat (num_buckets tbl)) no_items, 0) = (bs, m)" by fastforce
  have range: "\<forall>h. HASH_TO_BKT h (num_buckets tbl * 2) < length (replicate (2 * unat (num_buckets tbl)) no_items)"
    using HASH_TO_BKT_less unfolding num(1,2) length_replicate by blast
  have bs: "placed (2 ^ Suc k) bs" "length bs = 2 ^ Suc k" "mset (chained bs) = mset (app_order tbl)"
    using expand_items [OF placed_empty(1) range fold] rest(1) placed_empty(2) unfolding num(1,2) by simp_all
  obtain tbl' where run: "HASH_EXPAND_BUCKETS mem tbl = Inr tbl'" "buckets tbl' = bs" "num_buckets tbl' = 2 ^ Suc k"
      "log2_num_buckets tbl' = of_nat (Suc k)" "app_order tbl' = app_order tbl" "num_items tbl' = num_items tbl"
    using True num(4) fold unfolding HASH_EXPAND_BUCKETS_def Let_def num(1,3) by simp
  have "ut_ok tbl'"
    unfolding ut_ok_def run using bs rest num(5) [OF mem True] by blast
  with run(1,5) show ?thesis by blast
qed (simp add: HASH_EXPAND_BUCKETS_def)

lemma add_to_table_ok:
  assumes ok: "ut_ok tbl" "handle_ok add" and mem: "bounded_memory mem" and len: "Suc (length (app_order tbl)) < 2 ^ 32"
  shows "HASH_ADD_TO_TABLE mem add (HASH_APPEND_LIST add tbl) = Inl UT_fatal
    \<or> (\<exists>tbl'. HASH_ADD_TO_TABLE mem add (HASH_APPEND_LIST add tbl) = Inr tbl' \<and> ut_ok tbl'
         \<and> app_order tbl' = app_order tbl @ [add])"
proof -
  let ?i = "HASH_TO_BKT (hh_hashv add) (num_buckets tbl)"
  let ?b = "(buckets tbl ! ?i)\<lparr>hh_head := add # hh_head (buckets tbl ! ?i), bkt_count := bkt_count (buckets tbl ! ?i) + 1\<rparr>"
  let ?t = "tbl\<lparr>app_order := app_order tbl @ [add], num_items := num_items tbl + 1, buckets := (buckets tbl)[?i := ?b]\<rparr>"
  obtain k where k: "k \<le> 31" "log2_num_buckets tbl = of_nat k" "num_buckets tbl = 2 ^ k" "length (buckets tbl) = 2 ^ k"
    using ok(1) by (auto simp: ut_ok_def)
  have rest: "placed (num_buckets tbl) (buckets tbl)" "mset (chained (buckets tbl)) = mset (app_order tbl)"
      "num_items tbl = of_nat (length (app_order tbl))" "list_all handle_ok (app_order tbl)"
    using ok(1) by (auto simp: ut_ok_def)
  have i: "?i < length (buckets tbl)" using HASH_TO_BKT_less k(3,4) by metis
  have "placed (num_buckets tbl) ((buckets tbl)[?i := ?b])"
      "mset (chained ((buckets tbl)[?i := ?b])) = add_mset add (mset (chained (buckets tbl)))"
    by (rule placed_push [OF rest(1) refl i]; simp)+
  then have t: "ut_ok ?t" using k rest ok(2) by (auto simp: ut_ok_def)
  have run: "HASH_ADD_TO_TABLE mem add (HASH_APPEND_LIST add tbl) = HASH_EXPAND_BUCKETS mem ?t
      \<or> HASH_ADD_TO_TABLE mem add (HASH_APPEND_LIST add tbl) = Inr ?t"
    by (simp add: HASH_ADD_TO_TABLE_def HASH_APPEND_LIST_def HASH_ADD_TO_BKT_def Let_def)
  moreover have "HASH_EXPAND_BUCKETS mem ?t = Inl UT_fatal
    \<or> (\<exists>tbl'. HASH_EXPAND_BUCKETS mem ?t = Inr tbl' \<and> ut_ok tbl' \<and> app_order tbl' = app_order ?t)"
    by (rule expand_ok [OF t mem]) (use len in simp_all)
  ultimately show ?thesis using t by auto
qed

lemma make_table_ok:
  "HASH_MAKE_TABLE mem add = Inl UT_fatal
   \<or> (\<exists>tbl. HASH_MAKE_TABLE mem add = Inr (HASH_APPEND_LIST add tbl) \<and> ut_ok tbl \<and> app_order tbl = [])"
proof -
  let ?t = "\<lparr>buckets = replicate HASH_INITIAL_NUM_BUCKETS no_items, num_buckets = of_nat HASH_INITIAL_NUM_BUCKETS,
     log2_num_buckets = of_nat HASH_INITIAL_NUM_BUCKETS_LOG2, num_items = 0, app_order = [],
     ideal_chain_maxlen = 0, nonideal_items = 0, ineff_expands = 0, noexpand = False\<rparr>"
  have "ut_ok ?t"
    using placed_empty by (auto simp: ut_ok_def HASH_INITIAL_NUM_BUCKETS_def HASH_INITIAL_NUM_BUCKETS_LOG2_def
        intro: exI [of _ "7 :: nat"])
  then show ?thesis unfolding HASH_MAKE_TABLE_def HASH_APPEND_LIST_def by (intro disjCI exI [of _ ?t]) auto
qed

text \<open>
  \<open>holds head tab\<close>: the table is well formed and its elements are the entries of the association list, the
  newest first there and last in the table.
\<close>

definition entry :: "ut_handle \<Rightarrow> string \<times> ptr" where
  "entry h = (hh_key h, hh_sym h)"

definition holds :: "ut_table option \<Rightarrow> (string \<times> ptr) list \<Rightarrow> bool" where
  "holds head tab \<longleftrightarrow> (case head of None \<Rightarrow> tab = [] | Some tbl \<Rightarrow> ut_ok tbl \<and> map entry (app_order tbl) = rev tab)"

lemma add_str_holds:
  assumes "holds head tab" "bounded_memory mem" "length key < 2 ^ 32" "Suc (length tab) < 2 ^ 32"
  shows "HASH_ADD_STR mem key p head = Inl UT_fatal
    \<or> (\<exists>head'. HASH_ADD_STR mem key p head = Inr head' \<and> holds head' ((key, p) # tab))"
proof -
  let ?n = "of_nat (length key) :: u32"
  let ?h = "\<lparr>hh_key = key, hh_keylen = ?n, hh_hashv = HASH_JEN key ?n, hh_sym = p\<rparr>"
  let ?start = "case head of None \<Rightarrow> HASH_MAKE_TABLE mem ?h | Some tbl \<Rightarrow> Inr (HASH_APPEND_LIST ?h tbl)"
  have h: "handle_ok ?h" using assms(3) by (simp add: handle_ok_def)
  have start: "?start = Inl UT_fatal \<or> (\<exists>tbl. ?start = Inr (HASH_APPEND_LIST ?h tbl) \<and> ut_ok tbl \<and> map entry (app_order tbl) = rev tab)"
    using assms(1) make_table_ok [of mem ?h] by (auto simp: holds_def split: option.splits)
  have run: "HASH_ADD_STR mem key p head = (case ?start of Inl e \<Rightarrow> Inl e | Inr tbl \<Rightarrow>
      (case HASH_ADD_TO_TABLE mem ?h tbl of Inl e \<Rightarrow> Inl e | Inr tbl' \<Rightarrow> Inr (Some tbl')))"
    by (simp add: HASH_ADD_STR_def HASH_ADD_KEYPTR_def Let_def)
  from start show ?thesis
  proof (elim disjE exE conjE)
    fix tbl assume tbl: "?start = Inr (HASH_APPEND_LIST ?h tbl)" "ut_ok tbl" "map entry (app_order tbl) = rev tab"
    have "length (app_order tbl) = length tab" using arg_cong [OF tbl(3), of length] by simp
    then have len: "Suc (length (app_order tbl)) < 2 ^ 32" using assms(4) by simp
    show ?thesis
      unfolding run tbl(1) using add_to_table_ok [OF tbl(2) h assms(2) len] tbl(3) by (auto simp: holds_def entry_def)
  qed (simp add: run)
qed

section \<open>Finding\<close>

lemma find_in_bkt:
  assumes "\<forall>h \<in> set hs. handle_ok h" "length key < 2 ^ 32"
  shows "HASH_FIND_IN_BKT hs key (of_nat (length key)) (HASH_JEN key (of_nat (length key)))
    = find (\<lambda>h. hh_key h = key) hs"
  using assms(1)
proof (induction hs)
  case (Cons h hs)
  have len: "unat (of_nat (length key) :: u32) = length key"
    using assms(2) unat_of_nat [of "length key", where 'a = 32] by simp
  have h: "length (hh_key h) < 2 ^ 32" "hh_keylen h = of_nat (length (hh_key h))" "hh_hashv h = HASH_JEN (hh_key h) (hh_keylen h)"
    using Cons.prems by (simp_all add: handle_ok_def)
  have "length (hh_key h) = length key" if "hh_keylen h = of_nat (length key)"
    using that h(1,2) len unat_of_nat [of "length (hh_key h)", where 'a = 32] by simp
  then have "hh_hashv h = HASH_JEN key (of_nat (length key)) \<and> hh_keylen h = of_nat (length key)
      \<and> take (length key) (hh_key h) = key \<longleftrightarrow> hh_key h = key"
    using h(2,3) by (metis take_all order_refl)
  with Cons len show ?case by simp
qed simp

text \<open>An element is found exactly when one with the key was added.\<close>

lemma find_str_holds:
  assumes "holds head tab" "length key < 2 ^ 32"
  shows "case HASH_FIND_STR head key of None \<Rightarrow> key \<notin> fst ` set tab | Some h \<Rightarrow> (key, hh_sym h) \<in> set tab"
proof (cases head)
  case None
  with assms show ?thesis by (simp add: holds_def HASH_FIND_STR_def HASH_FIND_def)
next
  case (Some tbl)
  let ?hashv = "HASH_JEN key (of_nat (length key))"
  let ?i = "HASH_TO_BKT ?hashv (num_buckets tbl)"
  let ?hs = "hh_head (buckets tbl ! ?i)"
  have ok: "ut_ok tbl" and tab: "map entry (app_order tbl) = rev tab" using assms(1) Some by (simp_all add: holds_def)
  obtain k where "num_buckets tbl = 2 ^ k" "length (buckets tbl) = 2 ^ k" using ok by (auto simp: ut_ok_def)
  then have i: "?i < length (buckets tbl)" using HASH_TO_BKT_less by metis
  have all: "set (chained (buckets tbl)) = set (app_order tbl)" "list_all handle_ok (app_order tbl)"
      "placed (num_buckets tbl) (buckets tbl)"
    using ok mset_eq_setD unfolding ut_ok_def by blast+
  have "set ?hs \<subseteq> set (chained (buckets tbl))" using nth_mem [OF i] unfolding chained_def by auto
  then have sub: "set ?hs \<subseteq> set (app_order tbl)" unfolding all(1) .
  have entries: "set tab = entry ` set (app_order tbl)" using arg_cong [OF tab, of set] by simp
  have here: "h \<in> set ?hs" if "h \<in> set (app_order tbl)" "hh_key h = key" for h
  proof -
    have "h \<in> set (chained (buckets tbl))" using that(1) all(1) by simp
    then obtain b where "b \<in> set (buckets tbl)" "h \<in> set (hh_head b)" by (auto simp: chained_def)
    then obtain j where j: "j < length (buckets tbl)" "h \<in> set (hh_head (buckets tbl ! j))" by (metis in_set_conv_nth)
    have "handle_ok h" using that(1) all(2) by (simp add: list_all_iff)
    then have "hh_hashv h = ?hashv" using that(2) by (simp add: handle_ok_def)
    moreover have "HASH_TO_BKT (hh_hashv h) (num_buckets tbl) = j" using all(3) j by (simp add: placed_def)
    ultimately have "?i = j" by simp
    with j(2) show ?thesis by (simp only:)
  qed
  have handles: "\<forall>h \<in> set ?hs. handle_ok h" using sub all(2) unfolding list_all_iff by blast
  have f: "HASH_FIND_STR head key = find (\<lambda>h. hh_key h = key) ?hs"
    unfolding HASH_FIND_STR_def HASH_FIND_def Some Let_def option.case
    by (rule find_in_bkt [OF handles assms(2)])
  show ?thesis
  proof (cases "find (\<lambda>h. hh_key h = key) ?hs")
    case None
    have "key \<noteq> fst e" if "e \<in> set tab" for e
    proof -
      from that have "e \<in> entry ` set (app_order tbl)" unfolding entries .
      then obtain h where "h \<in> set (app_order tbl)" "e = entry h" by (rule imageE)
      with here [of h] None show ?thesis by (auto simp: find_None_iff entry_def)
    qed
    then show ?thesis unfolding f None by auto
  next
    case (Some h)
    then have "h \<in> set ?hs" "hh_key h = key" unfolding find_Some_iff by auto
    then have "(key, hh_sym h) \<in> set tab" using sub entries by (auto simp: entry_def)
    then show ?thesis by (simp only: f Some option.case)
  qed
qed

lemma holds_fsck:
  assumes "holds head tab"
  shows "HASH_FSCK head"
proof (cases head)
  case (Some tbl)
  then have ok: "ut_ok tbl" using assms by (simp add: holds_def)
  then obtain k where k: "k \<le> 31" "num_buckets tbl = 2 ^ k" "length (buckets tbl) = 2 ^ k" by (auto simp: ut_ok_def)
  then have t: "take (unat (num_buckets tbl)) (buckets tbl) = buckets tbl" using unat_two_power by simp
  have "length (chained (buckets tbl)) = length (app_order tbl)" using ok by (auto simp: ut_ok_def dest: mset_eq_length)
  moreover have "\<forall>b \<in> set (buckets tbl). bkt_count b = of_nat (length (hh_head b))"
    using ok by (auto simp: ut_ok_def placed_def in_set_conv_nth)
  ultimately show ?thesis using ok by (simp add: HASH_FSCK_def Some t ut_ok_def list_all_iff)
qed (simp add: HASH_FSCK_def)

section \<open>Symbols through the hash table\<close>

text \<open>\<open>bl_mk_symbol\<close> over a table with a lookup and an addition, and a sequence of such calls.\<close>

definition mk_symbol_with :: "('t \<Rightarrow> string \<Rightarrow> ptr option) \<Rightarrow> (string \<Rightarrow> ptr \<Rightarrow> 't \<Rightarrow> ut_error + 't) \<Rightarrow>
    string \<Rightarrow> store \<times> 't \<Rightarrow> ut_error + ptr \<times> store \<times> 't" where
  "mk_symbol_with look put name st = (case st of (s, T) \<Rightarrow> case look T name of
      Some p \<Rightarrow> Inr (p, s, T)
    | None \<Rightarrow> (case alloc_val (fresh_val BL_VAL_TYPE_SYMBOL (U_str name (last_sym_id s))) s of (p, t) \<Rightarrow>
        case put (sym_key name) p T of Inl e \<Rightarrow> Inl e
          | Inr T' \<Rightarrow> Inr (p, t\<lparr>last_sym_id := Suc (last_sym_id s)\<rparr>, T')))"

primrec mk_symbols_with :: "('t \<Rightarrow> string \<Rightarrow> ptr option) \<Rightarrow> (string \<Rightarrow> ptr \<Rightarrow> 't \<Rightarrow> ut_error + 't) \<Rightarrow>
    string list \<Rightarrow> store \<times> 't \<Rightarrow> ut_error + ptr list \<times> store \<times> 't" where
  "mk_symbols_with look put [] st = Inr ([], st)"
| "mk_symbols_with look put (x # xs) st = (case mk_symbol_with look put x st of Inl e \<Rightarrow> Inl e
     | Inr (p, st') \<Rightarrow> (case mk_symbols_with look put xs st' of Inl e \<Rightarrow> Inl e | Inr (ps, r) \<Rightarrow> Inr (p # ps, r)))"

primrec mk_symbols :: "string list \<Rightarrow> ptr list BL" where
  "mk_symbols [] = returnM []"
| "mk_symbols (x # xs) = bindM (bl_mk_symbol x) (\<lambda>p. bindM (mk_symbols xs) (\<lambda>ps. returnM (p # ps)))"

definition hash_look :: "ut_table option \<Rightarrow> string \<Rightarrow> ptr option" where
  "hash_look head x = map_option hh_sym (HASH_FIND_STR head x)"

definition mk_symbols_hashed :: "(nat \<Rightarrow> bool) \<Rightarrow> string list \<Rightarrow> store \<times> ut_table option
    \<Rightarrow> ut_error + ptr list \<times> store \<times> ut_table option" where
  "mk_symbols_hashed mem = mk_symbols_with hash_look (HASH_ADD_STR mem)"

text \<open>
  The state without its association list. A key has at most one entry unless it has 31 characters: names
  are cut to that length, so longer names with a common beginning share one key.
\<close>

definition without_table :: "store \<Rightarrow> store" where
  "without_table s = s\<lparr>symbol_table := []\<rparr>"

definition unique_keys :: "(string \<times> ptr) list \<Rightarrow> bool" where
  "unique_keys tab \<longleftrightarrow> (\<forall>x p q. length x \<noteq> 31 \<longrightarrow> (x, p) \<in> set tab \<longrightarrow> (x, q) \<in> set tab \<longrightarrow> p = q)"

lemma unique_keys_add:
  assumes "unique_keys tab" "map_of tab x = None"
  shows "unique_keys ((sym_key x, p) # tab)"
proof (cases "length x < 31")
  case True
  then have "sym_key x = x" by (simp add: sym_key_def)
  moreover have "(x, q) \<notin> set tab" for q using assms(2) by (metis map_of_eq_None_iff fst_conv image_eqI)
  ultimately show ?thesis using assms(1) unfolding unique_keys_def by (metis Pair_inject set_ConsD)
next
  case False
  then have "length (sym_key x) = 31" by (simp add: sym_key_def)
  with assms(1) show ?thesis by (auto simp: unique_keys_def)
qed

text \<open>
  What \<open>bl_mk_symbol\<close> needs of its table: a key that is found was added with that symbol, one that is not
  found was not added, and an addition that returns has added its entry.
\<close>

locale symbol_table_laws =
  fixes look :: "'t \<Rightarrow> string \<Rightarrow> ptr option"
    and put :: "string \<Rightarrow> ptr \<Rightarrow> 't \<Rightarrow> ut_error + 't"
    and repr :: "'t \<Rightarrow> (string \<times> ptr) list \<Rightarrow> bool"
  assumes look_law: "repr T tab \<Longrightarrow> length x < 2 ^ 32 \<Longrightarrow>
      case look T x of None \<Rightarrow> x \<notin> fst ` set tab | Some p \<Rightarrow> (x, p) \<in> set tab"
    and put_law: "repr T tab \<Longrightarrow> length x < 2 ^ 32 \<Longrightarrow> Suc (length tab) < 2 ^ 32 \<Longrightarrow>
      put x p T = Inl UT_fatal \<or> (\<exists>T'. put x p T = Inr T' \<and> repr T' ((x, p) # tab))"
begin

text \<open>Where a key has at most one entry, the table answers as the association list does.\<close>

lemma look_map_of:
  assumes "repr T tab" "length x < 2 ^ 32" "\<forall>p q. (x, p) \<in> set tab \<longrightarrow> (x, q) \<in> set tab \<longrightarrow> p = q"
  shows "look T x = map_of tab x"
proof (cases "look T x")
  case None
  then have "x \<notin> fst ` set tab" using look_law [OF assms(1,2)] by simp
  with None show ?thesis by (metis map_of_eq_None_iff)
next
  case (Some p)
  then have p: "(x, p) \<in> set tab" using look_law [OF assms(1,2)] by simp
  then obtain q where q: "map_of tab x = Some q" by (metis weak_map_of_SomeI)
  with p map_of_SomeD [OF q] assms(3) Some show ?thesis by simp
qed

lemma mk_symbol_sim:
  assumes T: "repr T (symbol_table s)" and un: "unique_keys (symbol_table s)" and x: "length x \<noteq> 31" "length x < 2 ^ 32"
    and len: "Suc (length (symbol_table s)) < 2 ^ 32"
  shows "mk_symbol_with look put x (without_table s, T) = Inl UT_fatal
    \<or> (\<exists>p t T'. bl_mk_symbol x s = Ret p t \<and> mk_symbol_with look put x (without_table s, T) = Inr (p, without_table t, T')
         \<and> repr T' (symbol_table t) \<and> unique_keys (symbol_table t) \<and> length (symbol_table t) \<le> Suc (length (symbol_table s)))"
proof -
  have look: "look T x = map_of (symbol_table s) x"
    by (rule look_map_of [OF T x(2)]) (use un x(1) in \<open>auto simp: unique_keys_def\<close>)
  show ?thesis
  proof (cases rule: bl_mk_symbol_cases [of s x])
    case (found p)
    then have "mk_symbol_with look put x (without_table s, T) = Inr (p, without_table s, T)"
      by (simp add: mk_symbol_with_def look)
    with found T un show ?thesis by auto
  next
    case new
    have "length (sym_key x) < 2 ^ 32" by (simp add: sym_key_def)
    from put_law [OF T this len, of "next_addr s"] show ?thesis
      using new unique_keys_add [OF un new(1), of "next_addr s"]
      by (elim disjE exE conjE) (auto simp: mk_symbol_with_def look alloc_val_def without_table_def sym_key_def)
  qed
qed

lemma mk_symbols_sim:
  assumes "repr T (symbol_table s)" "unique_keys (symbol_table s)"
    "\<forall>x \<in> set xs. length x \<noteq> 31 \<and> length x < 2 ^ 32" "length (symbol_table s) + length xs < 2 ^ 32"
  shows "mk_symbols_with look put xs (without_table s, T) = Inl UT_fatal
    \<or> (\<exists>ps t T'. mk_symbols xs s = Ret ps t \<and> mk_symbols_with look put xs (without_table s, T) = Inr (ps, without_table t, T')
         \<and> repr T' (symbol_table t))"
  using assms
proof (induction xs arbitrary: s T)
  case (Cons x xs)
  from mk_symbol_sim [OF Cons.prems(1,2), of x] Cons.prems(3,4)
  consider "mk_symbol_with look put x (without_table s, T) = Inl UT_fatal"
    | p t T' where "bl_mk_symbol x s = Ret p t" "mk_symbol_with look put x (without_table s, T) = Inr (p, without_table t, T')"
        "repr T' (symbol_table t)" "unique_keys (symbol_table t)" "length (symbol_table t) \<le> Suc (length (symbol_table s))"
    by (auto simp del: numeral_eq_one_iff)
  then show ?case
  proof cases
    case 2
    have "length (symbol_table t) + length xs < 2 ^ 32" using 2(5) Cons.prems(4) by simp
    with Cons.IH [OF 2(3,4)] Cons.prems(3) 2(1,2) show ?thesis by (fastforce simp: run_bindM)
  qed simp
qed simp

end

text \<open>The hash table keeps these laws; \<open>mem\<close> is the allocator cut off at its bound.\<close>

lemma bounded_cut: "bounded_memory (\<lambda>n. mem n \<and> n < 2 ^ 36)" and cut_bounded: "bounded_memory mem \<Longrightarrow> (\<lambda>n. mem n \<and> n < 2 ^ 36) = mem"
  by (auto simp: bounded_memory_def)

interpretation uthash: symbol_table_laws hash_look "HASH_ADD_STR (\<lambda>n. mem n \<and> n < 2 ^ 36)" holds for mem
proof
  fix T :: "ut_table option" and tab :: "(string \<times> ptr) list" and x :: string and p :: ptr
  assume T: "holds T tab" and x: "length x < 2 ^ 32"
  show "case hash_look T x of None \<Rightarrow> x \<notin> fst ` set tab | Some p \<Rightarrow> (x, p) \<in> set tab"
    using find_str_holds [OF T x] by (simp add: hash_look_def split: option.splits)
  assume "Suc (length tab) < 2 ^ 32"
  from add_str_holds [OF T bounded_cut x this]
  show "HASH_ADD_STR (\<lambda>n. mem n \<and> n < 2 ^ 36) x p T = Inl UT_fatal
      \<or> (\<exists>T'. HASH_ADD_STR (\<lambda>n. mem n \<and> n < 2 ^ 36) x p T = Inr T' \<and> holds T' ((x, p) # tab))" .
qed

section \<open>The mixing of the hash function\<close>

text \<open>The steps of \<open>HASH_JEN_MIX\<close> taken back one by one.\<close>

definition jen_unright :: "nat \<Rightarrow> u32 \<Rightarrow> u32 \<Rightarrow> u32 \<Rightarrow> u32" where
  "jen_unright n x y z = (x XOR drop_bit n z) + z + y"

definition jen_unleft :: "nat \<Rightarrow> u32 \<Rightarrow> u32 \<Rightarrow> u32 \<Rightarrow> u32" where
  "jen_unleft n x y z = (x XOR push_bit n z) + z + y"

definition jen_unmix :: "u32 \<times> u32 \<times> u32 \<Rightarrow> u32 \<times> u32 \<times> u32" where
  "jen_unmix = (\<lambda>(a, b, c).
     let c = jen_unright 15 c a b; b = jen_unleft 10 b c a; a = jen_unright 3 a b c;
         c = jen_unright 5 c a b; b = jen_unleft 16 b c a; a = jen_unright 12 a b c;
         c = jen_unright 13 c a b; b = jen_unleft 8 b c a; a = jen_unright 13 a b c
     in (a, b, c))"

lemma jen_steps [simp]:
  "jen_unright n (jen_right n x y z) y z = x" "jen_right n (jen_unright n x y z) y z = x"
  "jen_unleft n (jen_left n x y z) y z = x" "jen_left n (jen_unleft n x y z) y z = x"
  by (simp_all add: jen_unright_def jen_right_def jen_unleft_def jen_left_def xor.assoc)

text \<open>The mixing is three rounds of three steps, and each round is undone by its own inverse.\<close>

definition jen_round :: "nat \<Rightarrow> nat \<Rightarrow> nat \<Rightarrow> u32 \<times> u32 \<times> u32 \<Rightarrow> u32 \<times> u32 \<times> u32" where
  "jen_round l m n = (\<lambda>(a, b, c).
     let a = jen_right l a b c; b = jen_left m b c a; c = jen_right n c a b in (a, b, c))"

definition jen_unround :: "nat \<Rightarrow> nat \<Rightarrow> nat \<Rightarrow> u32 \<times> u32 \<times> u32 \<Rightarrow> u32 \<times> u32 \<times> u32" where
  "jen_unround l m n = (\<lambda>(a, b, c).
     let c = jen_unright n c a b; b = jen_unleft m b c a; a = jen_unright l a b c in (a, b, c))"

lemma jen_rounds [simp]:
  "jen_unround l m n (jen_round l m n r) = r" "jen_round l m n (jen_unround l m n r) = r"
  by (cases r; simp add: jen_round_def jen_unround_def Let_def)+

lemma jen_by_rounds:
  "HASH_JEN_MIX r = jen_round 3 10 15 (jen_round 12 16 5 (jen_round 13 8 13 r))"
  "jen_unmix r = jen_unround 13 8 13 (jen_unround 12 16 5 (jen_unround 3 10 15 r))"
  by (cases r; simp only: HASH_JEN_MIX_def jen_unmix_def jen_round_def jen_unround_def Let_def prod.case)+

lemma jen_unmix_mix: "jen_unmix (HASH_JEN_MIX r) = r" and jen_mix_unmix: "HASH_JEN_MIX (jen_unmix r) = r"
  by (simp_all add: jen_by_rounds)

end
