(* ===== verification/BL_Program_Props.thy ===== *)
theory BL_Program_Props
  imports BL_Oper_Props BL_Repl BL_Compiler BL_Uthash
begin

text \<open>
  What the programs around the runtime promise: the hash table behind the symbols, interactive sessions,
  sequences of expressions and the compiler.
\<close>

section \<open>The hash table of the symbols\<close>

text \<open>An allocator for the concrete runs.\<close>

definition small_memory :: "nat \<Rightarrow> bool" where
  "small_memory n \<longleftrightarrow> n < 2 ^ 20"

lemma small_bounded: "bounded_memory small_memory"
  by (simp add: bounded_memory_def small_memory_def)

lemma small_first_add: "\<exists>T. HASH_ADD_STR small_memory x p None = Inr T"
proof -
  have "replicate 128 no_items ! HASH_TO_BKT h 128 = no_items" for h using HASH_TO_BKT_less [of h 7] by simp
  moreover have "\<not> 10 \<le> (1 :: u32)" by (simp add: word_le_nat_alt)
  ultimately show ?thesis
    by (simp add: HASH_ADD_STR_def HASH_ADD_KEYPTR_def HASH_MAKE_TABLE_def HASH_ADD_TO_TABLE_def HASH_ADD_TO_BKT_def
        small_memory_def sizeof_table_def sizeof_bucket_def HASH_INITIAL_NUM_BUCKETS_def HASH_BKT_CAPACITY_THRESH_def
        no_items_def Let_def)
qed



text \<open>A sequence of additions.\<close>

primrec hash_adds :: "(nat \<Rightarrow> bool) \<Rightarrow> (string \<times> ptr) list \<Rightarrow> ut_table option \<Rightarrow> ut_error + ut_table option" where
  "hash_adds mem [] T = Inr T"
| "hash_adds mem (e # es) T = (case HASH_ADD_STR mem (fst e) (snd e) T of Inl err \<Rightarrow> Inl err | Inr T' \<Rightarrow> hash_adds mem es T')"

lemma hash_adds_holds:
  assumes "bounded_memory mem" "holds T tab" "\<forall>e \<in> set es. length (fst e) < 2 ^ 32" "length tab + length es < 2 ^ 32"
  shows "hash_adds mem es T = Inl UT_fatal \<or> (\<exists>T'. hash_adds mem es T = Inr T' \<and> holds T' (rev es @ tab))"
  using assms(2-4)
proof (induction es arbitrary: T tab)
  case (Cons e es)
  have "HASH_ADD_STR mem (fst e) (snd e) T = Inl UT_fatal
      \<or> (\<exists>T'. HASH_ADD_STR mem (fst e) (snd e) T = Inr T' \<and> holds T' ((fst e, snd e) # tab))"
    by (rule add_str_holds [OF Cons.prems(1) assms(1)]) (use Cons.prems in simp_all)
  then show ?case
  proof (elim disjE exE conjE)
    fix T' assume T': "HASH_ADD_STR mem (fst e) (snd e) T = Inr T'" "holds T' ((fst e, snd e) # tab)"
    have "hash_adds mem es T' = Inl UT_fatal \<or> (\<exists>T''. hash_adds mem es T' = Inr T'' \<and> holds T'' (rev es @ (fst e, snd e) # tab))"
      by (rule Cons.IH [OF T'(2)]) (use Cons.prems in simp_all)
    with T'(1) show ?thesis by simp
  qed simp
qed simp



text \<open>
  Mixing the three registers of the hash function is a bijection: each round of \<open>HASH_JEN_MIX\<close> can be
  taken back, so no two states of the registers are merged.
\<close>

theorem jenkins_mix_bijective: "bij HASH_JEN_MIX"
  by (rule o_bij [of jen_unmix]) (auto simp: fun_eq_iff jen_unmix_mix jen_mix_unmix)

section \<open>Sequences of expressions\<close>

definition do_body :: "runtime \<Rightarrow> ptr \<Rightarrow> ptr \<Rightarrow> ptr \<Rightarrow> (ptr + ptr) BL" where
  "do_body R ctx i retval = bindM (get_car i) (\<lambda>e. bindM (rt_eval R ctx e) (\<lambda>v.
     if v \<noteq> NULL
     then bindM (get_type v) (\<lambda>T. returnM (if T = BL_VAL_TYPE_ERROR then Inl v else Inr v))
     else returnM (Inr v)))"

lemma eval_do_body:
  "eval_do R ctx expr = bindM (for_cdr (rt_fuel R) (do_body R ctx) expr null_val) (\<lambda>r. case r of
      Inl e \<Rightarrow> returnM e | Inr v \<Rightarrow> or_null v)"
  unfolding eval_do_def eval_body_def do_body_def [abs_def] ..

lemma do_body_datum:
  assumes "heap_ok s" "get_car i s = Ret x s" "datum s x"
  shows "do_body (rt n) ctx i r s = Ret (Inr x) s"
proof -
  obtain c where "heap s x = Some c" "val_type c \<noteq> BL_VAL_TYPE_ERROR" using assms(3) by (auto simp: datum_def)
  then show ?thesis using assms(2) datum_pos [OF assms(1,3)] eval_datum [OF assms(1,3)] by (simp add: do_body_def)
qed

text \<open>The literals in front of a list are passed one after the other.\<close>

lemma do_loop_data:
  assumes "heap_ok s" "list_rep s p (xs @ ys)" "\<forall>x \<in> set xs. datum s x" "length xs \<le> k"
  shows "\<exists>q. list_rep s q ys \<and> for_cdr k (do_body (rt n) ctx) p r s
    = for_cdr (k - length xs) (do_body (rt n) ctx) q (if xs = [] then r else last xs) s"
  using assms(2-4)
proof (induction xs arbitrary: p k r)
  case Nil
  then show ?case by auto
next
  case (Cons x xs)
  then obtain m where k: "k = Suc m" by (cases k) auto
  obtain d where d: "get_car p s = Ret x s" "get_cdr p s = Ret d s" "list_rep s d (xs @ ys)" "p \<noteq> NULL"
    using list_rep_step [of s p x "xs @ ys"] Cons.prems(1) assms(1) by (metis append_Cons)
  have x: "datum s x" using Cons.prems(2) by simp
  have run: "for_cdr k (do_body (rt n) ctx) p r s = for_cdr m (do_body (rt n) ctx) d x s"
    using do_body_datum [OF assms(1) d(1) x, of n ctx r] d(2,4) by (simp add: k)
  obtain q where "list_rep s q ys" "for_cdr m (do_body (rt n) ctx) d x s
      = for_cdr (m - length xs) (do_body (rt n) ctx) q (if xs = [] then x else last xs) s"
    using Cons.IH [OF d(3), of m x] Cons.prems(2,3) k by auto
  then show ?case unfolding run by (intro exI [of _ q]) (simp add: k)
qed


lemma sample_error:
  "\<exists>s e p. heap_ok s \<and> list_rep s p [true_val, e, false_val] \<and> datum s true_val \<and> e \<noteq> NULL \<and> has_type s e BL_VAL_TYPE_ERROR"
proof -
  have ok: "heap_ok bare_store" using wf_bare by (simp add: wf_store_def)
  obtain e t where e: "bl_mk_err BL_ERR_PARSE bare_store = Ret e t" "has_type t e BL_VAL_TYPE_ERROR" "e \<noteq> NULL"
    using new_error_spec [OF ok, of "zero_err\<lparr>err_type := BL_ERR_PARSE\<rparr>"] by (auto simp: bl_mk_err_def is_error_def has_type_def)
  have "keeps safe_step (bl_mk_err BL_ERR_PARSE)" by (intro keeps_intros)
  from safe_run [OF this wf_bare e(1)] have t: "wf_store t" by simp
  let ?xs = "[true_val, e, false_val]"
  obtain p u where u: "bl_mk_list ?xs t = Ret p u" "list_rep u p ?xs"
    using bl_mk_list_spec [of t ?xs] t by (auto simp: wf_store_def)
  have "keeps safe_step (bl_mk_list ?xs)" by (intro keeps_intros)
  from safe_run [OF this t u(1)] have wf: "wf_store u" "evolves t u" by simp_all
  have "datum u true_val" "heap_ok u" using wf(1) by (auto simp: wf_store_def statics_ok_def datum_def)
  moreover have "has_type u e BL_VAL_TYPE_ERROR" using evolves_type [OF wf(2) e(2)] .
  ultimately show ?thesis using u(2) e(3) by blast
qed

lemma eval_error: "e \<noteq> NULL \<Longrightarrow> has_type s e BL_VAL_TYPE_ERROR \<Longrightarrow> bl_eval (Suc n) ctx e s = Ret e s"
  by (auto simp: bl_eval.simps(2) eval_step_def has_type_def)


section \<open>Interactive sessions\<close>

text \<open>
  A session: the start, and from each state the one after a line that was read, evaluated and answered. The
  line is whatever the line editor delivers, or none at the end of the input.
\<close>

inductive session :: "nat \<Rightarrow> ptr \<Rightarrow> store \<Rightarrow> store \<Rightarrow> bool" for n :: nat and ctx :: ptr and s :: store where
  start: "session n ctx s s"
| line: "session n ctx s t \<Longrightarrow> repl_step n ctx z t = Ret () u \<Longrightarrow> session n ctx s u"

inductive_cases sessionE: "session n ctx s u"

lemma session_invariant:
  assumes "session n ctx s t" "wf_store s"
  shows "wf_store t \<and> evolves s t"
  using assms(1)
proof induction
  case (line t z u)
  have t: "wf_store t" "evolves s t" using line.IH by simp_all
  then have "wf_store u \<and> evolves t u" using safe_run [OF repl_step_safe _ line.hyps(2)] by blast
  with t show ?case using evolves_trans by blast
qed (simp add: assms(2))

lemma repl_loop_no_return: "repl_loop k n ctx t \<noteq> Ret () u"
  by (induction k arbitrary: t) (auto simp: bindM_eq_Ret_iff)



lemma parse_integer:
  assumes "heap_ok s"
  shows "\<exists>p u. bl_parse_sexp (mpz_get_str i) s = Ret p u \<and> number u p i \<and> heap_ok u \<and> stdout_buf u = stdout_buf s"
proof -
  let ?x = "mpz_get_str i" and ?p = "next_addr s"
  have "yields (scan_string ?x) BL_TOKEN_INTEGER ?x []" by (rule yields_atoms(1)) (simp_all add: scan_string_def)
  then obtain sc where lex: "yylex (scan_string ?x) = ([], Some (BL_TOKEN_INTEGER, ?x, sc))" by (auto simp: yields_def)
  obtain t where t: "new_val BL_VAL_TYPE_NUMBER (U_num i) s = Ret ?p t" "stdout_buf t = stdout_buf s" by (simp add: run_new_val)
  have t': "heap_ok t" "heap t ?p = Some (fresh_val BL_VAL_TYPE_NUMBER (U_num i))" "?p \<noteq> NULL"
    using new_val_below [OF assms t(1)] by simp_all
  let ?u = "put_val ?p ((fresh_val BL_VAL_TYPE_NUMBER (U_num i))\<lparr>line_num := scan_line sc\<rparr>) t"
  have "bl_parse_sexp ?x s = Ret ?p ?u"
    using t(1) t'(2,3) lex by (simp add: bl_parse_sexp_def read_form.simps(2) print_out_def modifyM_def bl_mk_integer_def mpz_get_set set_line_def)
  moreover have "number ?u ?p i" by (simp add: number_def)
  moreover have "heap_ok ?u" using t'(1,2) by (auto simp: heap_ok_def)
  moreover have "stdout_buf ?u = stdout_buf s" using t(2) by simp
  ultimately show ?thesis by blast
qed

text \<open>
  The interpreter echoes integers: a line with the decimal text of an integer is read, evaluated to
  that number and printed as the same text, whatever the context.
\<close>

theorem repl_echoes_integers:
  assumes "heap_ok s"
  shows "\<exists>t. repl_step (Suc n) ctx (Some (mpz_get_str i)) s = Ret () t \<and> stdout_buf t = stdout_buf s @ mpz_get_str i @ [LF]"
proof -
  obtain p u where u: "bl_parse_sexp (mpz_get_str i) s = Ret p u" "number u p i" "heap_ok u" "stdout_buf u = stdout_buf s"
    using parse_integer [OF assms] by blast
  obtain c where c: "heap u p = Some c" "val_type c = BL_VAL_TYPE_NUMBER" using u(2) by (auto simp: number_def)
  note ev = eval_datum [OF u(3) number_datum [OF u(2)], of n ctx]
  have "rep u p (S_num i)" using u(2) by (simp add: number_def cell_is_def)
  then have ser: "bl_ser_sexp p u = Ret (mpz_get_str i) u" using bl_ser_sexp_rep [OF u(3)] by fastforce
  show ?thesis using u(1,4) ev c ser by (simp add: repl_step_def print_out_def modifyM_def)
qed

lemma repl_echoes_integers_witness:
  "\<exists>t. repl_step 1 NULL (Some ''-20'') bare_store = Ret () t \<and> stdout_buf t = ''-20'' @ [LF]"
proof -
  have "heap_ok bare_store" using wf_bare by (simp add: wf_store_def)
  moreover have "mpz_get_str (-20) = ''-20''" by code_simp
  ultimately show ?thesis using repl_echoes_integers [of bare_store 0 NULL "-20"] by (simp add: bare_store_def init_store_def)
qed

text \<open>
  C34. Asking for completions is undefined behaviour in every context: the hook reads the arrays of keys and
  values at an index equal to their length.
\<close>

theorem completion_reads_past_end:
  assumes "wf_store s" "has_type s ctx BL_VAL_TYPE_CTX"
  shows "\<exists>e. completion_hook pre bp ctx s = Fault e"
  by (rule completion_hook_fault [OF assms])

lemma completion_reads_past_end_witness: "\<exists>s c e. has_type s c BL_VAL_TYPE_CTX \<and> completion_hook ''pri'' 0 c s = Fault e"
proof -
  obtain c s where c: "bl_ctx_new NULL bare_store = Ret c s" "scope s c" using bl_ctx_new_scope by blast
  have "wf_store s" using safe_run [OF bl_ctx_new_safe wf_bare c(1)] by simp
  moreover have "has_type s c BL_VAL_TYPE_CTX" using c(2) by (auto simp: scope_def has_type_def)
  ultimately show ?thesis using completion_reads_past_end [of s c "''pri''" 0] by blast
qed

section \<open>The compiler\<close>

text \<open>The C text for an expression tree, and the parentheses in a text.\<close>

fun c_text :: "sexp \<Rightarrow> string" and c_cells :: "sexp list \<Rightarrow> string" where
  "c_text (S_num i) = ''bl_mk_integer('' @ [DQ] @ mpz_get_str i @ [DQ]"
| "c_text (S_sym x) = ''bl_mk_symbol('' @ [DQ] @ x @ [DQ] @ '')''"
| "c_text (S_str x) = ''&(bl_val_t) {.type=BL_VAL_TYPE_STRING, .s_val='' @ compile_string x @ ''}''"
| "c_text S_if = ''&(bl_val_t) {.type = BL_VAL_TYPE_OPER_IF}''"
| "c_text (S_list ts) = (if ts = [] then cons_text ''NULL'' ''NULL'' else c_cells ts)"
| "c_cells [] = ''NULL''"
| "c_cells (t # ts) = cons_text (c_text t) (c_cells ts)"

fun literals :: "sexp \<Rightarrow> nat" where
  "literals (S_num i) = 1"
| "literals (S_list ts) = sum_list (map literals ts)"
| "literals _ = 0"

definition opens :: "string \<Rightarrow> nat" where
  "opens x = length (filter (\<lambda>c. c = CHR ''('') x)"

definition closes :: "string \<Rightarrow> nat" where
  "closes x = length (filter (\<lambda>c. c = CHR '')'') x)"

lemma encloses_smaller:
  assumes "heap_ok s" "rep s p u" "encloses s A u" "size t < size u"
  shows "encloses s (insert p A) t"
  using rep_dom [OF assms(2,1)] assms(2-4) unfolding encloses_def by (metis insert_iff insert_subset less_trans)

text \<open>Compiling follows the structure of the value; the depth of the recursion is bounded by the heap.\<close>

lemma atom_text_rep:
  assumes ok: "heap_ok s"
  shows "rep s p t \<Longrightarrow> encloses s A t \<Longrightarrow> next_addr s < n + card A \<Longrightarrow> atom_text n p s = Ret (c_text t) s"
proof (induction "size t" arbitrary: p t A n rule: less_induct)
  case less
  note card = enclosed_card [OF ok less.prems(1,2)]
  obtain m where n: "n = Suc m" "next_addr s < m + card (insert p A)" "m \<noteq> 0"
    using card less.prems(3) by (cases n) auto
  have p: "p \<noteq> NULL" by (rule rep_nonnull [OF ok less.prems(1)])
  have null: "atom_text m NULL s = Ret ''NULL'' s" using n(3) by (cases m) (simp_all add: atom_text.simps)
  show ?case
  proof (cases "\<exists>ts. t = S_list ts \<and> ts \<noteq> []")
    case True
    then obtain u us where t: "t = S_list (u # us)" by (metis list.exhaust)
    obtain cs xs where l: "is_list s p cs xs" "reps s xs (u # us)" using less.prems(1) t by auto
    then obtain x ys where xs: "xs = x # ys" "rep s x u" "reps s ys us" by (cases xs) auto
    obtain d ds where d: "get_car p s = Ret x s" "get_cdr p s = Ret d s" "is_list s d ds ys"
      by (rule is_list_step [OF l(1) [unfolded xs(1)] ok])
    have ty: "get_type p s = Ret BL_VAL_TYPE_CONS s" using rep_cell [OF less.prems(1)] t by auto
    have car: "atom_text m x s = Ret (c_text u) s"
      by (rule less.hyps [OF _ xs(2) encloses_smaller [OF ok less.prems(1,2)] n(2)]) (simp_all add: t)
    have cdr: "atom_text m d s = Ret (c_cells us) s"
    proof (cases us)
      case Nil
      then have "d = NULL" using d(3) xs(3) by (cases ys; cases ds) auto
      then show ?thesis using null Nil by simp
    next
      case (Cons v vs)
      have r: "rep s d (S_list us)" using d(3) xs(3) Cons by auto
      have "atom_text m d s = Ret (c_text (S_list us)) s"
        by (rule less.hyps [OF _ r encloses_smaller [OF ok less.prems(1,2)] n(2)]) (simp_all add: t)
      then show ?thesis using Cons by simp
    qed
    show ?thesis
      using p d(1,2) ty car cdr by (simp add: n(1) atom_text.simps(2) cons_with_def t del: get_type_eq_Ret)
  next
    case False
    have ser: "bl_ser_sexp p s = Ret (show_sexp t) s" by (rule bl_ser_sexp_rep [OF ok less.prems(1)])
    show ?thesis using False less.prems(1) p ser null
      by (cases t) (auto simp: n(1) atom_text.simps(2) cell_is_def cons_with_def)
  qed
qed

lemma compile_atom_rep: "heap_ok s \<Longrightarrow> rep s p t \<Longrightarrow> compile_atom p s = Ret (c_text t) s"
  using atom_text_rep [of s p t "{}" "Suc (next_addr s)"] by (simp add: compile_atom_def encloses_def del: rep.simps)

lemma parens_Cons [simp]:
  "opens [] = 0" "opens (c # x) = (if c = CHR ''('' then Suc (opens x) else opens x)"
  "closes [] = 0" "closes (c # x) = (if c = CHR '')'' then Suc (closes x) else closes x)"
  by (simp_all add: opens_def closes_def)

lemma parens_append [simp]: "opens (x @ y) = opens x + opens y" "closes (x @ y) = closes x + closes y"
  by (simp_all add: opens_def closes_def)

lemma parens_none: "CHR ''('' \<notin> set x \<Longrightarrow> opens x = 0" "CHR '')'' \<notin> set x \<Longrightarrow> closes x = 0"
  by (auto simp: opens_def closes_def filter_empty_conv)

lemma digit_no_paren: "d < 10 \<Longrightarrow> digit_char d \<noteq> CHR ''(''" "d < 10 \<Longrightarrow> digit_char d \<noteq> CHR '')''"
  using of_char_digit_char [of d] by auto

lemma parens_decimal [simp]: "opens (mpz_get_str i) = 0" "closes (mpz_get_str i) = 0"
proof -
  have "c \<noteq> CHR ''('' \<and> c \<noteq> CHR '')''" if "c \<in> set (nat_digits n)" for c n
    using nat_digits_chars [OF that] digit_no_paren by auto
  then have "CHR ''('' \<notin> set (mpz_get_str i)" "CHR '')'' \<notin> set (mpz_get_str i)"
    by (auto simp: mpz_get_str_def Let_def)
  then show "opens (mpz_get_str i) = 0" "closes (mpz_get_str i) = 0" by (simp_all add: parens_none)
qed

lemma parens_string [simp]: "opens (compile_string x) = 1" "closes (compile_string x) = 1"
proof -
  let ?chars = "concat (map (\<lambda>c. mpz_get_str (char_int c) @ '','') x)"
  have "opens ?chars = 0 \<and> closes ?chars = 0" by (induction x) simp_all
  then show "opens (compile_string x) = 1" "closes (compile_string x) = 1" by (simp_all add: compile_string_def)
qed

lemma parens_symbol:
  assumes "plain_symbol x"
  shows "opens x = 0" "closes x = 0"
proof -
  have "\<not> is_symchar (CHR ''('')" "\<not> is_symchar (CHR '')'')" by (simp_all add: is_symchar_def is_alpha_def is_digit_def)
  then have "CHR ''('' \<notin> set x" "CHR '')'' \<notin> set x" using assms by (auto simp: plain_symbol_def list_all_iff)
  then show "opens x = 0" "closes x = 0" by (simp_all add: parens_none)
qed

lemma cons_text_parens [simp]:
  "opens (cons_text a d) = Suc (opens a + opens d)" "closes (cons_text a d) = Suc (closes a + closes d)"
  by (simp_all add: cons_text_def)

lemma c_text_parens: "printable t \<Longrightarrow> opens (c_text t) = closes (c_text t) + literals t"
proof (induction t)
  case (S_list ts)
  have "opens (c_cells us) = closes (c_cells us) + sum_list (map literals us)" if "set us \<subseteq> set ts" for us
    using that
  proof (induction us)
    case (Cons u us)
    then have "opens (c_text u) = closes (c_text u) + literals u"
      using S_list by (auto simp: list_all_iff)
    with Cons show ?case by simp
  qed simp
  then show ?case by simp
qed (simp_all add: parens_symbol)

text \<open>
  C35. The compiler translates every expression tree to its C text, the same whatever the addresses, and
  the text has one unclosed parenthesis for every integer literal: it is balanced, as C requires, only when
  the expression has none.
\<close>

theorem compiled_expressions:
  assumes "heap_ok s" "rep s p t" "printable t"
  shows "compile_atom p s = Ret (c_text t) s \<and> opens (c_text t) = closes (c_text t) + literals t"
  using compile_atom_rep [OF assms(1,2)] c_text_parens [OF assms(3)] by simp

lemma compiled_expressions_witness:
  "\<exists>s p x. rep s p sample_sexp \<and> compile_atom p s = Ret x s \<and> opens x = closes x + 2"
proof -
  obtain p s where s: "rep s p sample_sexp" "wf_store s" using sample_exists by blast
  have "heap_ok s" using s(2) by (simp add: wf_store_def)
  from compiled_expressions [OF this s(1) sample_printable]
  have "compile_atom p s = Ret (c_text sample_sexp) s" "opens (c_text sample_sexp) = closes (c_text sample_sexp) + literals sample_sexp"
    by blast+
  moreover have "literals sample_sexp = 2" by (simp add: sample_sexp_def)
  ultimately show ?thesis using s(1) by metis
qed

end
