(* ===== verification/BL_Call_Props.thy ===== *)
theory BL_Call_Props
  imports BL_Program_Props
begin

text \<open>
  What happens when things are called: addition over any number of arguments, functions defined in the
  language, and the handling of errors by \<open>try\<close>.
\<close>

section \<open>Sums\<close>

definition add_body :: "runtime \<Rightarrow> ptr \<Rightarrow> ptr \<Rightarrow> ptr \<Rightarrow> unit \<Rightarrow> (ptr + unit) BL" where
  "add_body R ctx retval L u = bindM (get_car L) (\<lambda>a. bindM (rt_eval R ctx a) (\<lambda>x. bindM (get_type retval) (\<lambda>T.
     bindM (if T = BL_VAL_TYPE_NUMBER
       then bindM (get_i_val retval) (\<lambda>i. bindM (get_i_val x) (\<lambda>j. set_i_val retval (i + j)))
       else bindM (get_s_val retval) (\<lambda>y. bindM (bl_ser_naked_sexp x) (\<lambda>z. set_s_val retval (y @ z))))
     (\<lambda>_. returnM (Inr ())))))"

lemma add_values_body:
  "add_values R ctx retval ps = bindM (for_cdr (rt_fuel R) (add_body R ctx retval) ps ())
     (\<lambda>r. case r of Inl v \<Rightarrow> returnM v | Inr _ \<Rightarrow> returnM retval)"
  unfolding add_values_def add_body_def [abs_def] ..

text \<open>Only the cell of the result changes.\<close>

definition same_but_at :: "store \<Rightarrow> store \<Rightarrow> ptr \<Rightarrow> bool" where
  "same_but_at s t r \<longleftrightarrow> (\<forall>q. q \<noteq> r \<longrightarrow> heap t q = heap s q)"

lemma same_but_at_number: "same_but_at s t r \<Longrightarrow> x \<noteq> r \<Longrightarrow> number s x i \<Longrightarrow> number t x i"
  by (simp add: same_but_at_def number_def)

lemma same_but_at_list:
  "same_but_at s t r \<Longrightarrow> number s r v \<Longrightarrow> is_list s p cs xs \<Longrightarrow> is_list t p cs xs"
proof (induction cs arbitrary: p xs)
  case (Cons c cs)
  then have "p \<noteq> r" by (auto simp: number_def)
  with Cons show ?case by (cases xs) (auto simp: same_but_at_def)
qed simp

lemma add_number:
  assumes "heap_ok s" "number s r i"
  shows "\<exists>t. set_i_val r j s = Ret () t \<and> number t r j \<and> heap_ok t \<and> same_but_at s t r"
proof -
  obtain c where c: "heap s r = Some c" "val_type c = BL_VAL_TYPE_NUMBER" "payload c = U_num i"
    using assms(2) by (auto simp: number_def)
  let ?t = "put_val r (c\<lparr>payload := U_num j\<rparr>) s"
  have "set_i_val r j s = Ret () ?t" using c(1,3) by (simp add: set_i_val_def)
  moreover have "heap_ok ?t" using assms(1) c(1) by (auto simp: heap_ok_def)
  ultimately show ?thesis using c(2) by (auto simp: number_def same_but_at_def)
qed

lemma add_loop:
  assumes "heap_ok s" "number s r acc" "is_list s p cs xs" "list_all2 (number s) xs js" "r \<notin> set xs" "length cs < k"
  shows "\<exists>t. for_cdr k (add_body (rt n) ctx r) p () s = Ret (Inr ()) t \<and> number t r (acc + sum_list js)
    \<and> heap_ok t \<and> same_but_at s t r"
  using assms
proof (induction xs arbitrary: s p cs js acc k)
  case Nil
  then obtain m where "k = Suc m" by (cases k) auto
  moreover have "p = NULL" using Nil.prems(3) by (cases cs) auto
  ultimately show ?case using Nil.prems by (auto simp: same_but_at_def)
next
  case (Cons x xs)
  then obtain m where k: "k = Suc m" by (cases k) auto
  obtain j is' where js: "js = j # is'" "number s x j" "list_all2 (number s) xs is'"
    using Cons.prems(4) by (auto simp: list_all2_Cons1)
  obtain d ds where d: "cs = p # ds" "get_car p s = Ret x s" "is_list s d ds xs" "p \<noteq> NULL" "get_cdr p s = Ret d s"
    by (rule is_list_step [OF Cons.prems(3,1)])
  obtain t where t: "set_i_val r (acc + j) s = Ret () t" "number t r (acc + j)" "heap_ok t" "same_but_at s t r"
    using add_number [OF Cons.prems(1,2)] by blast
  have body: "add_body (rt n) ctx r p () s = Ret (Inr ()) t"
    using d(2) eval_datum [OF Cons.prems(1) number_datum [OF js(2)]] number_reads [OF Cons.prems(2)]
      number_reads(1) [OF js(2)] t(1) by (simp add: add_body_def del: get_type_eq_Ret)
  have cs': "is_list t p (p # ds) (x # xs)" using same_but_at_list [OF t(4) Cons.prems(2,3)] d(1) by simp
  obtain d' where d': "get_cdr p t = Ret d' t" "is_list t d' ds xs" by (rule is_list_step [OF cs' t(3)]) auto
  have "list_all2 (number t) xs is'"
    by (rule list.rel_mono_strong [OF js(3)]) (use Cons.prems(5) same_but_at_number [OF t(4)] in \<open>metis list.set_intros(2)\<close>)
  then obtain u where u: "for_cdr m (add_body (rt n) ctx r) d' () t = Ret (Inr ()) u" "number u r (acc + j + sum_list is')"
      "heap_ok u" "same_but_at t u r"
    using Cons.IH [OF t(3,2) d'(2), of is' m] Cons.prems(5,6) d(1) k by auto
  have "same_but_at s u r" using t(4) u(4) by (simp add: same_but_at_def)
  with body d(4) d'(1) u show ?case by (auto simp: k js(1) add.assoc)
qed

lemma list_all2_number_datum: "list_all2 (number s) xs is \<Longrightarrow> x \<in> set xs \<Longrightarrow> datum s x"
  by (auto simp: list_all2_conv_all_nth in_set_conv_nth dest: number_datum)

text \<open>
  C21. Addition of any number of integer literals gives their sum, in a new number; none of the arguments
  and no other value changes.
\<close>

theorem addition_sums:
  assumes "heap_ok s" "list_rep s params xs" "list_all2 (number s) xs is" "xs \<noteq> []" "length xs < n"
    "length xs \<le> BL_LONGEST_LIST"
  shows "\<exists>r t. bl_oper_add (rt n) ctx params s = Ret r t \<and> number t r (sum_list is) \<and> same_heap_below s t"
proof -
  obtain cs where cs: "is_list s params cs xs" using assms(2) by (auto simp: list_rep_def)
  note data = list_all2_number_datum [OF assms(3)]
  obtain x ys where xs: "xs = x # ys" using assms(4) by (cases xs) auto
  obtain d where d: "get_car params s = Ret x s" "params \<noteq> NULL" "get_type params s = Ret BL_VAL_TYPE_CONS s"
    by (rule list_rep_step [OF assms(2) [unfolded xs] assms(1)])
  obtain t q where t: "bl_eval_cons (rt n) ctx params s = Ret q t" "heap_ok t" "list_rep t q xs" "same_heap_below s t" "q \<noteq> NULL"
    using eval_cons_data [OF cs assms(1) data, of "Suc n" n ctx] assms(4,5) by auto
  have nums: "list_all2 (number t) xs is"
    by (rule list_all2_mono [OF assms(3)]) (rule below_number [OF t(4)])
  let ?Ts = "replicate (length xs) BL_VAL_TYPE_NUMBER"
  have "arg_list t q xs ?Ts"
    using t(3,5) nums by (auto simp: arg_list_def list_all2_conv_all_nth number_def has_type_def)
  then have chk: "bl_errif_invalid_len q 1 BL_LONGEST_LIST t = Ret NULL t" "get_type q t = Ret BL_VAL_TYPE_CONS t"
    using errif_invalid_len_ok [OF t(2)] arg_list_len(2) [OF t(2)] assms(4,6) by (simp_all add: Suc_le_eq)
  have list_t: "is_list t params cs xs" by (rule same_heap_below_list [OF t(4) cs])
  have x: "number t x (hd is)" using nums xs by (auto simp: list_all2_Cons1)
  have d': "get_car params t = Ret x t" by (rule is_list_step [OF list_t [unfolded xs] t(2)])
  have first: "eval_first (rt n) ctx params t = Ret x t" "get_type x t = Ret BL_VAL_TYPE_NUMBER t"
    using d' d(2) eval_datum [OF t(2) number_datum [OF x]] number_reads(2) [OF x]
    by (simp_all add: eval_first_def bl_list_first_def del: get_type_eq_Ret)
  let ?r = "next_addr t"
  obtain u where u: "new_val BL_VAL_TYPE_NUMBER (U_num 0) t = Ret ?r u" by (simp add: run_new_val)
  have u': "heap_ok u" "same_heap_below t u" "heap u ?r = Some (fresh_val BL_VAL_TYPE_NUMBER (U_num 0))"
    using new_val_below [OF t(2) u] by simp_all
  have r: "number u ?r 0" using u'(3) by (simp add: number_def)
  have notin: "?r \<notin> set xs"
    using nums heap_okD(3) [OF t(2)] by (auto simp: list_all2_conv_all_nth in_set_conv_nth number_def)
  obtain w where w: "for_cdr (Suc n) (add_body (rt n) ctx ?r) params () u = Ret (Inr ()) w" "number w ?r (0 + sum_list is)"
      "same_but_at u w ?r"
    using add_loop [OF u'(1) r same_heap_below_list [OF u'(2) list_t] list_all2_mono [OF nums below_number [OF u'(2)]] notin, of "Suc n" n ctx]
      assms(5) is_list_length [OF cs] by auto
  have "same_heap_below s w"
    using same_heap_below_trans [OF t(4) u'(2)] w(3) heap_okD(3) [OF t(2)] t(4)
    unfolding same_heap_below_def same_but_at_def by (metis option.distinct(1))
  moreover have "bl_oper_add (rt n) ctx params s = Ret ?r w"
    using d(3) t(1) chk first u w(1)
    by (simp add: bl_oper_add_def unless_error_def add_all_def bl_mk_val_def zero_payload_def add_values_body del: get_type_eq_Ret)
  ultimately show ?thesis using w(2) by auto
qed

lemma addition_sums_witness:
  "\<exists>s p a r t. list_rep s p [a, a, a] \<and> number s a 7 \<and> bl_oper_add (rt 5) NULL p s = Ret r t \<and> number t r 21"
proof -
  have ok: "heap_ok bare_store" using wf_bare by (simp add: wf_store_def)
  obtain a s1 where a: "new_val BL_VAL_TYPE_NUMBER (U_num 7) bare_store = Ret a s1" by (simp add: run_new_val)
  have a': "heap_ok s1" "number s1 a 7" using new_val_below [OF ok a] by (simp_all add: number_def)
  have "wf_store s1" using safe_run [OF new_val_safe wf_bare a] by simp
  then obtain p s where s: "bl_mk_list [a, a, a] s1 = Ret p s" "same_heap_below s1 s" "wf_store s"
    using makes_list [of "[a, a, a]"] unfolding makes_def by blast
  have l: "list_rep s p [a, a, a]" using bl_mk_list_spec [OF a'(1), of "[a, a, a]"] s(1) by auto
  have n: "number s a 7" by (rule below_number [OF s(2) a'(2)])
  have "heap_ok s" using s(3) by (simp add: wf_store_def)
  from addition_sums [OF this l, of "[7, 7, 7]" 5 NULL] n
  have "\<exists>r t. bl_oper_add (rt 5) NULL p s = Ret r t \<and> number t r 21" by (auto simp: BL_LONGEST_LIST_def)
  with l n show ?thesis by blast
qed

section \<open>Functions\<close>

text \<open>
  A function of the language that takes the symbols \<open>ks\<close>, numbered \<open>is\<close>, and has the expression \<open>e\<close> as its body.
\<close>

definition function_value :: "store \<Rightarrow> ptr \<Rightarrow> ptr \<Rightarrow> ptr list \<Rightarrow> nat list \<Rightarrow> ptr \<Rightarrow> bool" where
  "function_value s F inner ks is e \<longleftrightarrow> (\<exists>c f. heap s F = Some c \<and> val_type c = BL_VAL_TYPE_FUNC_BL \<and> payload c = U_func f
     \<and> inner_closure f = inner \<and> scope s inner \<and> list_rep s (bl_funcargs_ptr f) ks \<and> list_all2 (symbol_no s) ks is
     \<and> list_rep s (bl_func_ptr f) [e])"

lemma zip_symbols:
  assumes "list_all2 (symbol_no s) ks is" "length args = length ks" "\<forall>a \<in> set args. a \<noteq> NULL"
  shows "list_all2 (\<lambda>kv i. symbol_no s (fst kv) i \<and> snd kv \<noteq> NULL) (zip ks args) is"
  using assms by (auto simp: list_all2_conv_all_nth)

text \<open>The body of one symbol that a scope binds, evaluated in that scope.\<close>

lemma symbol_body:
  assumes "heap_ok s" "list_rep s b [e]" "is_symbol s e y i" "plain_name y" "plain_ctx s inner k" "binds s inner i = Some v"
    "v \<noteq> NULL" "heap s F = Some c" "payload c = U_func f" "inner_closure f = inner"
  shows "funcbody_loop (Suc m) (runtime_at m' (bl_eval (Suc (Suc n)))) F b s = Ret v s"
proof -
  obtain d where d: "get_car b s = Ret e s" "get_cdr b s = Ret d s" "list_rep s d []"
    by (rule list_rep_step [OF assms(2,1)])
  obtain ds where "is_list s d ds []" using d(3) by (auto simp: list_rep_def)
  then have "d = NULL" by (cases ds) auto
  obtain ce where ce: "heap s e = Some ce" "val_type ce = BL_VAL_TYPE_SYMBOL" "payload ce = U_str y i"
    using assms(3) by (auto simp: is_symbol_def)
  have ne: "e \<noteq> NULL" using heap_okD(1) [OF assms(1) ce(1)] by simp
  then have "ctx_lookup (Suc n) call_getter inner e s = Ret v s"
    using ctx_lookup_step [OF assms(5), of e i n call_getter] assms(3,4,6) by (auto simp: plain_key_def)
  then have "bl_eval (Suc (Suc n)) inner e s = Ret v s"
    using ce ne assms(7) by (simp add: bl_eval.simps eval_step_def bl_ctx_get_def runtime_at_def)
  then show ?thesis using d \<open>d = NULL\<close> ce assms(8-10) by (simp add: funcbody_loop.simps)
qed

text \<open>Binding the parameters of a function to a list of values.\<close>

lemma binding_parameters:
  assumes "heap_ok t" "list_rep t q args" "args \<noteq> []" "\<forall>a \<in> set args. a \<noteq> NULL" "function_value t F inner ks is e"
    "length args = length ks" "is_symbol t e y i" "length ks < n"
    "heap t F = Some c" "payload c = U_func f"
  shows "\<exists>u. bl_set_params (runtime_at n ev) inner (bl_funcargs_ptr f) q t = Ret () u \<and> heap_ok u
    \<and> binds u inner = binds t inner ++ map_of (rev (zip is args)) \<and> (\<exists>k. plain_ctx u inner k)
    \<and> heap u F = Some c \<and> is_symbol u e y i \<and> list_rep u (bl_func_ptr f) [e] \<and> inner_closure f = inner"
proof -
  have f: "val_type c = BL_VAL_TYPE_FUNC_BL" "inner_closure f = inner" "scope t inner"
      "list_rep t (bl_funcargs_ptr f) ks" "list_all2 (symbol_no t) ks is" "list_rep t (bl_func_ptr f) [e]"
    using assms(5,9,10) unfolding function_value_def by auto
  obtain qs kcs bcs where lists: "is_list t q qs args" "is_list t (bl_funcargs_ptr f) kcs ks" "is_list t (bl_func_ptr f) bcs [e]"
    using assms(2) f(4,6) by (auto simp: list_rep_def)
  have pairs: "list_all2 (\<lambda>kv i. symbol_no t (fst kv) i \<and> snd kv \<noteq> NULL) (zip ks args) is"
    by (rule zip_symbols [OF f(5) assms(6,4)])
  have fuel: "length kcs < n" using is_list_length [OF lists(2)] assms(8) by simp
  obtain r u where loop: "for_cdr n (params_body inner) (bl_funcargs_ptr f) q t = Ret r u"
      "ctxs.assign_all inner (zip ks args) t = Ret () u"
    using params_loop [OF lists(2,1) f(3) assms(1,3) pairs fuel] by blast
  have u: "scope u inner" "same_but inner t u" "binds u inner = binds t inner ++ map_of (rev (zip is args))"
    using ctxs.assign_all_law [OF f(3) pairs] loop(2) assms(6) by auto
  have "heap_ok u" by (rule same_but_heap_ok [OF u(2) f(3) u(1) assms(1)])
  moreover have "F \<noteq> inner" "e \<noteq> inner" using f(1,3) assms(7,9) by (auto simp: scope_def is_symbol_def)
  then have "heap u F = Some c" "is_symbol u e y i" using u(2) assms(7,9) by (simp_all add: same_but_def is_symbol_def)
  moreover have "list_rep u (bl_func_ptr f) [e]"
    using same_but_list [OF u(2) scope_type [OF f(3)] lists(3)] by (auto simp: list_rep_def)
  moreover have "\<exists>k. plain_ctx u inner k" using u(1) by (auto simp: scope_def plain_ctx_def)
  ultimately show ?thesis using loop(1) u(3) f(2) by (auto simp: bl_set_params_run)
qed

lemma below_function: "same_heap_below s t \<Longrightarrow> function_value s F inner ks is e \<Longrightarrow> function_value t F inner ks is e"
proof -
  assume st: "same_heap_below s t" and "function_value s F inner ks is e"
  then obtain c f where f: "heap s F = Some c" "val_type c = BL_VAL_TYPE_FUNC_BL" "payload c = U_func f" "inner_closure f = inner"
      "scope s inner" "list_rep s (bl_funcargs_ptr f) ks" "list_all2 (symbol_no s) ks is" "list_rep s (bl_func_ptr f) [e]"
    unfolding function_value_def by blast
  have "list_all2 (symbol_no t) ks is"
    by (rule list_all2_mono [OF f(7)]) (use st in \<open>auto simp: symbol_no_def is_symbol_def same_heap_below_def\<close>)
  moreover have "heap t F = Some c" using st f(1) by (simp add: same_heap_below_def)
  ultimately show ?thesis using f(2-4) below_scope [OF st f(5)] below_list_rep [OF st f(6)] below_list_rep [OF st f(8)]
    unfolding function_value_def by blast
qed

lemma call_runs:
  assumes ok: "heap_ok s" and call: "list_rep s expr (h # args)" "args \<noteq> []" "\<forall>a \<in> set args. datum s a" "h \<noteq> NULL"
    and F: "function_value s F inner ks is e" "length args = length ks"
    and body: "is_symbol s e y i" "plain_name y" "map_of (rev (zip is args)) i = Some v" and n: "length args < Suc n"
  shows "\<exists>u. call_func (runtime_at (Suc (Suc n)) (bl_eval (Suc (Suc n)))) ctx F expr s = Ret v u
    \<and> binds u inner = binds s inner ++ map_of (rev (zip is args))"
proof -
  obtain c f where f: "heap s F = Some c" "payload c = U_func f" "inner_closure f = inner" "scope s inner"
    using F(1) unfolding function_value_def by blast
  obtain cs where cs: "is_list s expr cs (h # args)" using call(1) by (auto simp: list_rep_def)
  obtain d ds where d: "get_cdr expr s = Ret d s" "is_list s d ds args" by (rule is_list_step [OF cs ok])
  have v: "v \<in> set args" using map_of_SomeD [OF body(3)] set_zip_rightD by fastforce
  have nn: "\<forall>a \<in> set args. a \<noteq> NULL" using call(3) datum_pos [OF ok] by blast
  obtain t q where t: "bl_eval (Suc (Suc n)) ctx d s = Ret q t" "heap_ok t" "list_rep t q args" "same_heap_below s t"
    using eval_data [OF d(2) ok _ n call(2), of ctx] call(3) by blast
  have ft: "heap t F = Some c" "is_symbol t e y i" "binds t inner = binds s inner"
    using t(4) f(1,4) body(1) by (auto simp: same_heap_below_def is_symbol_def binds_def scope_def fun_eq_iff)
  obtain u k where u: "bl_set_params (runtime_at (Suc (Suc n)) (bl_eval (Suc (Suc n)))) inner (bl_funcargs_ptr f) q t = Ret () u"
      "heap_ok u" "binds u inner = binds t inner ++ map_of (rev (zip is args))" "plain_ctx u inner k"
      "heap u F = Some c" "is_symbol u e y i" "list_rep u (bl_func_ptr f) [e]"
    using binding_parameters [OF t(2,3) call(2) nn below_function [OF t(4) F(1)] F(2) ft(2) _ ft(1) f(2), of "Suc (Suc n)"] F(2) n by fastforce
  have "binds u inner i = Some v" using u(3) body(3) by (simp add: map_add_def)
  then have run: "bl_eval_funcbody (runtime_at (Suc (Suc n)) (bl_eval (Suc (Suc n)))) F (bl_func_ptr f) u = Ret v u"
    using symbol_body [OF u(2,7,6) body(2) u(4) _ _ u(5) f(2,3)] v nn by (simp add: bl_eval_funcbody_def)
  have "bl_list_len expr t = Ret (Suc (length args)) t"
    using bl_list_len_spec [OF same_heap_below_list [OF t(4) cs] t(2)] call(4) by simp
  then show ?thesis using d(1) t(1) ft(1,3) f(2,3) u(1,3) call(2) run v nn by (auto simp: call_func_def or_null_def)
qed


text \<open>A function that returns its argument, bound to its own parameter's name, and a call of it.\<close>

lemma identity_function:
  "\<exists>s c k i a F call. heap_ok s \<and> is_symbol s k ''x'' i \<and> number s a 7 \<and> list_rep s call [k, a] \<and> resolves s i c F
     \<and> function_value s F c [k] [i] k"
proof -
  obtain s0 c k i where s0: "wf_store s0" "scope s0 c" "is_symbol s0 k ''x'' i" using sample_scope by blast
  obtain a s1 where a: "new_val BL_VAL_TYPE_NUMBER (U_num 7) s0 = Ret a s1" by (simp add: run_new_val)
  have s1: "wf_store s1" "same_heap_below s0 s1" "number s1 a 7"
    using safe_run [OF new_val_safe s0(1) a] new_val_below [OF _ a] s0(1) by (auto simp: wf_store_def number_def)
  obtain b s2 where s2: "bl_mk_list [k] s1 = Ret b s2" "same_heap_below s1 s2" "wf_store s2"
    using makes_list [of "[k]"] s1(1) unfolding makes_def by blast
  obtain p s3 where s3: "bl_mk_list [k, a] s2 = Ret p s3" "same_heap_below s2 s3" "wf_store s3"
    using makes_list [of "[k, a]"] s2(3) unfolding makes_def by blast
  have ok: "heap_ok s1" "heap_ok s2" "heap_ok s3" using s1(1) s2(3) s3(3) by (simp_all add: wf_store_def)
  let ?f = "zero_func\<lparr>inner_closure := c, bl_funcargs_ptr := b, bl_func_ptr := b\<rparr>"
  obtain F s4 where F: "new_val BL_VAL_TYPE_FUNC_BL (U_func ?f) s3 = Ret F s4" by (simp add: run_new_val)
  have s4: "heap_ok s4" "same_heap_below s3 s4" "heap s4 F = Some (fresh_val BL_VAL_TYPE_FUNC_BL (U_func ?f))"
    using new_val_below [OF ok(3) F] by simp_all
  have b4: "same_heap_below s2 s4" "same_heap_below s1 s4" "same_heap_below s0 s4"
    using same_heap_below_trans s1(2) s2(2) s3(2) s4(2) by blast+
  have four: "scope s4 c" "is_symbol s4 k ''x'' i" "number s4 a 7"
    using below_scope [OF b4(3) s0(2)] s0(3) b4(3) below_number [OF b4(2) s1(3)] by (auto simp: is_symbol_def same_heap_below_def)
  have l4: "list_rep s4 b [k]" "list_rep s4 p [k, a]"
    using below_list_rep [OF b4(1)] below_list_rep [OF s4(2)] bl_mk_list_spec [OF ok(1), of "[k]"] s2(1)
      bl_mk_list_spec [OF ok(2), of "[k, a]"] s3(1) by auto
  have "F \<noteq> NULL" using heap_okD(1) [OF s4(1,3)] by simp
  then obtain s where s: "scope s c" "binds s c = (binds s4 c)(i \<mapsto> F)" "same_but c s4 s"
    using bl_ctx_set_law [OF four(1), of k i F] four(2) unfolding symbol_no_def by blast
  have ne: "F \<noteq> c" "k \<noteq> c" "a \<noteq> c" using s4(3) four by (auto simp: scope_def is_symbol_def number_def)
  have heap_s: "heap s F = heap s4 F" "heap s k = heap s4 k" "heap s a = heap s4 a" using s(3) ne by (simp_all add: same_but_def)
  have lists: "list_rep s b [k]" "list_rep s p [k, a]"
    using l4 same_but_list [OF s(3) scope_type [OF four(1)]] unfolding list_rep_def by blast+
  have sym: "is_symbol s k ''x'' i" using four(2) heap_s(2) by (simp add: is_symbol_def)
  then have "function_value s F c [k] [i] k"
    using s4(3) heap_s(1) s(1) lists(1) by (auto simp: function_value_def symbol_no_def)
  moreover obtain kk where "plain_ctx s c kk" using s(1) by (auto simp: scope_def plain_ctx_def)
  then have "resolves s i c F" using s(2) by (intro resolves.own) simp_all
  moreover have "number s a 7" using four(3) heap_s(3) by (simp add: number_def)
  ultimately show ?thesis using same_but_heap_ok [OF s(3) four(1) s(1) s4(1)] sym lists(2) by blast
qed


section \<open>Handling errors\<close>

text \<open>
  A clause \<open>(catch NAME y)\<close> where the context binds the name to an error of the given type and \<open>y\<close> is a literal.
\<close>

definition catch_clause :: "store \<Rightarrow> ptr \<Rightarrow> ptr \<Rightarrow> bl_err_type_t \<times> ptr \<Rightarrow> bool" where
  "catch_clause s ctx cl Ty \<longleftrightarrow> (\<exists>h j E nm i e er. list_rep s cl [h, E, snd Ty] \<and> is_symbol s h ''catch'' j \<and> is_symbol s E nm i
     \<and> plain_name nm \<and> nm \<noteq> ''*ERR*'' \<and> length nm < 31 \<and> bound s ctx nm e \<and> is_error s e er \<and> err_type er = fst Ty
     \<and> datum s (snd Ty))"

text \<open>What is evaluated in the end: the handler of the last clause that matches, or the error itself.\<close>

primrec handler :: "bl_err_type_t \<Rightarrow> ptr \<Rightarrow> (bl_err_type_t \<times> ptr) list \<Rightarrow> ptr" where
  "handler T x [] = x"
| "handler T x (c # cs) = handler T (if fst c = T \<or> fst c = BL_ERR_ANY then snd c else x) cs"

lemma handler_cases: "handler T x cs = x \<or> (\<exists>c \<in> set cs. handler T x cs = snd c)"
proof (induction cs arbitrary: x)
  case (Cons c cs)
  show ?case using Cons.IH [of "if fst c = T \<or> fst c = BL_ERR_ANY then snd c else x"] by (auto split: if_splits)
qed simp

lemma catch_clause_kept:
  assumes "catch_clause s ctx cl Ty" "\<And>p xs. list_rep s p xs \<Longrightarrow> list_rep t p xs"
    "\<And>q c. heap s q = Some c \<Longrightarrow> val_type c \<noteq> BL_VAL_TYPE_CTX \<Longrightarrow> heap t q = Some c"
    "\<And>nm w. nm \<noteq> ''*ERR*'' \<Longrightarrow> length nm < 31 \<Longrightarrow> bound s ctx nm w \<Longrightarrow> bound t ctx nm w"
  shows "catch_clause t ctx cl Ty"
proof -
  obtain h j E nm i e er where c: "list_rep s cl [h, E, snd Ty]" "is_symbol s h ''catch'' j" "is_symbol s E nm i"
      "plain_name nm" "nm \<noteq> ''*ERR*''" "length nm < 31" "bound s ctx nm e" "is_error s e er" "err_type er = fst Ty" "datum s (snd Ty)"
    using assms(1) unfolding catch_clause_def by blast
  have sym: "is_symbol t q x k" if "is_symbol s q x k" for q x k using that assms(3) [of q] by (auto simp: is_symbol_def)
  have "is_error t e er" using c(8) assms(3) [of e] by (auto simp: is_error_def)
  moreover have "datum t (snd Ty)" using c(10) assms(3) [of "snd Ty"] by (auto simp: datum_def)
  ultimately show ?thesis
    using assms(2) [OF c(1)] sym [OF c(2)] sym [OF c(3)] c(4-6,9) assms(4) [OF c(5-7)] unfolding catch_clause_def by blast
qed

lemma triple_reads:
  assumes "list_rep s p [a, b, c]" "heap_ok s" "a \<noteq> NULL"
  shows "get_car p s = Ret a s" "bl_list_second p s = Ret b s" "bl_list_third p s = Ret c s" "p \<noteq> NULL"
    "get_type p s = Ret BL_VAL_TYPE_CONS s" "bl_list_len p s = Ret 3 s"
proof -
  obtain d where d: "get_car p s = Ret a s" "get_cdr p s = Ret d s" "list_rep s d [b, c]" "p \<noteq> NULL" "get_type p s = Ret BL_VAL_TYPE_CONS s"
    by (rule list_rep_step [OF assms(1,2)])
  note r = pair_reads [OF d(3) assms(2)]
  show "get_car p s = Ret a s" "bl_list_second p s = Ret b s" "bl_list_third p s = Ret c s" "p \<noteq> NULL"
    "get_type p s = Ret BL_VAL_TYPE_CONS s"
    using d r by (simp_all add: bl_list_second_def bl_list_third_def bl_list_rest_def del: get_type_eq_Ret)
  obtain cs where "is_list s p cs [a, b, c]" using assms(1) by (auto simp: list_rep_def)
  from bl_list_len_spec [OF this assms(2)] assms(3) show "bl_list_len p s = Ret 3 s" by simp
qed

lemma bound_reads:
  assumes "wf_store s" "scope s ctx" "bound s ctx nm v" "is_symbol s E nm i" "plain_name nm" "length nm < 31"
  shows "bl_ctx_get (runtime_at (Suc n) ev) ctx E s = Ret v s"
proof -
  obtain k j where k: "map_of (symbol_table s) nm = Some k" "is_symbol s k nm j" "binds s ctx j = Some v"
    using assms(3) by (auto simp: bound_def)
  have "k = E" by (rule symbol_unique [OF assms(1) k(2) assms(4,6)])
  then have b: "binds s ctx i = Some v" using k(2,3) assms(4) by (auto simp: is_symbol_def)
  have "E \<noteq> NULL" using assms(1,4) by (auto simp: wf_store_def is_symbol_def dest: heap_okD(1))
  then have key: "plain_key s E i" using assms(4,5) by (auto simp: plain_key_def)
  obtain kk where "plain_ctx s ctx kk" using assms(2) by (auto simp: scope_def plain_ctx_def)
  from ctx_lookup_step [OF this key] b show ?thesis by (simp add: bl_ctx_get_def runtime_at_def)
qed

lemma try_clause_runs:
  assumes "wf_store s" "scope s ctx" "catch_clause s ctx cl Ty" "is_symbol s ct ''catch'' j" "is_error s x te" "get_car p s = Ret cl s"
  shows "try_clause (rt n) ctx x ct fin p (y, fe) s
    = Ret (Inr (if fst Ty = err_type te \<or> fst Ty = BL_ERR_ANY then snd Ty else y, fe)) s"
proof -
  obtain h k E nm i e er where c: "list_rep s cl [h, E, snd Ty]" "is_symbol s h ''catch'' k" "is_symbol s E nm i"
      "plain_name nm" "length nm < 31" "bound s ctx nm e" "is_error s e er" "err_type er = fst Ty"
    using assms(3) unfolding catch_clause_def by blast
  have ok: "heap_ok s" using assms(1) by (simp add: wf_store_def)
  have h: "h = ct" by (rule symbol_unique [OF assms(1) c(2) assms(4)]) simp
  have "ct \<noteq> NULL" using ok assms(4) by (auto simp: is_symbol_def dest: heap_okD(1))
  then have reads: "get_car cl s = Ret ct s" "bl_list_second cl s = Ret E s" "bl_list_third cl s = Ret (snd Ty) s"
      "get_type cl s = Ret BL_VAL_TYPE_CONS s" "bl_list_len cl s = Ret 3 s"
    using triple_reads [OF c(1) ok] h by simp_all
  have errs: "get_err e s = Ret er s" "get_err x s = Ret te s" using c(7) assms(5) by (auto simp: is_error_def)
  from bound_reads [OF assms(1,2) c(6,3,4,5)] have "bl_ctx_get (rt n) ctx E s = Ret e s" .
  then show ?thesis using assms(6) reads errs c(8) by (simp add: try_clause_def del: get_type_eq_Ret)
qed

lemma try_loop:
  assumes "wf_store s" "scope s ctx" "is_symbol s ct ''catch'' j" "is_error s x te"
  shows "list_rep s p cls \<Longrightarrow> list_all2 (catch_clause s ctx) cls hs \<Longrightarrow> length cls < k \<Longrightarrow>
    for_cdr k (try_clause (rt n) ctx x ct fin) p (y, fe) s = Ret (Inr (handler (err_type te) y hs, fe)) s"
proof (induction cls arbitrary: p hs k y)
  case Nil
  obtain ds where "is_list s p ds []" using Nil.prems(1) by (auto simp: list_rep_def)
  then have "p = NULL" by (cases ds) auto
  then show ?case using Nil.prems(2,3) by (cases k) auto
next
  case (Cons cl cls)
  obtain m where k: "k = Suc m" using Cons.prems(3) by (cases k) auto
  obtain Ty hs' where hs: "hs = Ty # hs'" "catch_clause s ctx cl Ty" "list_all2 (catch_clause s ctx) cls hs'"
    using Cons.prems(2) by (auto simp: list_all2_Cons1)
  have ok: "heap_ok s" using assms(1) by (simp add: wf_store_def)
  obtain d where d: "get_car p s = Ret cl s" "get_cdr p s = Ret d s" "list_rep s d cls" "p \<noteq> NULL"
    by (rule list_rep_step [OF Cons.prems(1) ok])
  from try_clause_runs [OF assms(1,2) hs(2) assms(3,4) d(1)] Cons.IH [OF d(3) hs(3)] Cons.prems(3)
  show ?case using d(2,4) by (simp add: k hs(1))
qed

text \<open>The three names that \<open>try\<close> looks up, and the assignment of the error.\<close>

lemma try_prepares:
  assumes wf: "wf_store s" and sc: "scope s ctx" and x: "is_error s x te"
  shows "\<exists>ct fin er t1 t2 t3 u j. bl_mk_symbol ''catch'' s = Ret ct t1 \<and> bl_mk_symbol ''finally'' t1 = Ret fin t2
    \<and> bl_mk_symbol ''*ERR*'' t2 = Ret er t3 \<and> bl_ctx_set ctx er x t3 = Ret x u \<and> wf_store u \<and> scope u ctx
    \<and> is_symbol u ct ''catch'' j \<and> bound u ctx ''*ERR*'' x
    \<and> (\<forall>p xs. list_rep s p xs \<longrightarrow> list_rep u p xs)
    \<and> (\<forall>q c. heap s q = Some c \<longrightarrow> val_type c \<noteq> BL_VAL_TYPE_CTX \<longrightarrow> heap u q = Some c)
    \<and> (\<forall>nm w. nm \<noteq> ''*ERR*'' \<longrightarrow> length nm < 31 \<longrightarrow> bound s ctx nm w \<longrightarrow> bound u ctx nm w)"
proof -
  have step: "\<exists>p t i. bl_mk_symbol y r = Ret p t \<and> wf_store t \<and> evolves r t \<and> same_heap_below r t \<and> is_symbol t p y i
      \<and> map_of (symbol_table t) y = Some p" if "wf_store r" "length y < 31" for r y
  proof -
    obtain p t where t: "bl_mk_symbol y r = Ret p t" using bl_mk_symbol_total by blast
    then show ?thesis using safe_run [OF bl_mk_symbol_safe that(1) t] bl_mk_symbol_result [OF that t]
        mk_symbol_below [OF _ t] that(1) by (auto simp: wf_store_def)
  qed
  obtain ct t1 j where t1: "bl_mk_symbol ''catch'' s = Ret ct t1" "wf_store t1" "evolves s t1" "same_heap_below s t1" "is_symbol t1 ct ''catch'' j"
    using step [OF wf, of "''catch''"] by auto
  obtain fin t2 where t2: "bl_mk_symbol ''finally'' t1 = Ret fin t2" "wf_store t2" "evolves t1 t2" "same_heap_below t1 t2"
    using step [OF t1(2), of "''finally''"] by auto
  obtain er t3 i where t3: "bl_mk_symbol ''*ERR*'' t2 = Ret er t3" "wf_store t3" "evolves t2 t3" "same_heap_below t2 t3"
      "is_symbol t3 er ''*ERR*'' i" "map_of (symbol_table t3) ''*ERR*'' = Some er"
    using step [OF t2(2), of "''*ERR*''"] by auto
  have below: "same_heap_below s t3" and ev: "evolves s t3" "evolves t1 t3"
    using same_heap_below_trans t1(4) t2(4) t3(4) evolves_trans t1(3) t2(3) t3(3) by blast+
  have sc3: "scope t3 ctx" by (rule below_scope [OF below sc])
  have xn: "x \<noteq> NULL" using wf x by (auto simp: wf_store_def is_error_def dest: heap_okD(1))
  obtain u where u: "bl_ctx_set ctx er x t3 = Ret x u" "wf_store u" "scope u ctx" "evolves t3 u" "bound u ctx ''*ERR*'' x"
      "\<forall>nm w. nm \<noteq> ''*ERR*'' \<longrightarrow> bound t3 ctx nm w \<longrightarrow> bound u ctx nm w"
    using set_bound [OF t3(2) sc3 t3(6,5), of x] xn by auto
  obtain u' where "bl_ctx_set ctx er x t3 = Ret x u'" "same_but ctx t3 u'"
    using bl_ctx_set_any [OF sc3, of er i x] t3(5) unfolding symbol_no_def by blast
  then have sb: "same_but ctx t3 u" using u(1) by simp
  have "list_rep u p xs" if "list_rep s p xs" for p xs
    using below_list_rep [OF below that] same_but_list [OF sb scope_type [OF sc3]] unfolding list_rep_def by blast
  moreover have "heap u q = Some c" if q: "heap s q = Some c" "val_type c \<noteq> BL_VAL_TYPE_CTX" for q c
  proof -
    have "q \<noteq> ctx" using q sc by (auto simp: scope_def)
    then show ?thesis using sb below q(1) by (simp add: same_but_def same_heap_below_def)
  qed
  moreover have "bound u ctx nm w" if "nm \<noteq> ''*ERR*''" "length nm < 31" "bound s ctx nm w" for nm w
    using u(6) below_bound [OF below ev(1) sc that(2,3)] that(1) by blast
  ultimately show ?thesis
    using t1(1) t2(1) t3(1) u(1-3,5) evolves_symbol [OF u(4) evolves_symbol [OF ev(2) t1(5)]] by blast
qed


lemma sample_try:
  "\<exists>s c x te params cl. wf_store s \<and> scope s c \<and> is_error s x te \<and> err_type te = BL_ERR_PARSE
     \<and> list_rep s params [x, cl] \<and> catch_clause s c cl (BL_ERR_PARSE, true_val)"
proof -
  obtain s0 c k i where s0: "wf_store s0" "scope s0 c" "is_symbol s0 k ''x'' i" using sample_scope by blast
  obtain h s1 where h: "bl_mk_symbol ''catch'' s0 = Ret h s1" using bl_mk_symbol_total by blast
  obtain j where j: "is_symbol s1 h ''catch'' j" using bl_mk_symbol_result(1) [OF s0(1) _ h] by auto
  have s1: "wf_store s1" "same_heap_below s0 s1" "heap_ok s1"
    using safe_run [OF bl_mk_symbol_safe s0(1) h] mk_symbol_below [OF _ h] s0(1) by (auto simp: wf_store_def)
  let ?te = "zero_err\<lparr>err_type := BL_ERR_PARSE\<rparr>"
  obtain x s2 where x: "new_val BL_VAL_TYPE_ERROR (U_err ?te) s1 = Ret x s2" by (simp add: run_new_val)
  have s2: "wf_store s2" "same_heap_below s1 s2" "is_error s2 x ?te" "heap_ok s2"
    using safe_run [OF new_error_safe s1(1) x] new_val_below [OF s1(3) x] by (auto simp: is_error_def)
  obtain cl s3 where s3: "bl_mk_list [h, k, true_val] s2 = Ret cl s3" "same_heap_below s2 s3" "wf_store s3"
    using makes_list [of "[h, k, true_val]"] s2(1) unfolding makes_def by blast
  have ok3: "heap_ok s3" using s3(3) by (simp add: wf_store_def)
  obtain p s4 where s4: "bl_mk_list [x, cl] s3 = Ret p s4" "same_heap_below s3 s4" "wf_store s4"
    using makes_list [of "[x, cl]"] s3(3) unfolding makes_def by blast
  have b: "same_heap_below s0 s4" "same_heap_below s1 s4" "same_heap_below s2 s4"
    using same_heap_below_trans s1(2) s2(2) s3(2) s4(2) by blast+
  have l4: "list_rep s4 cl [h, k, true_val]" "list_rep s4 p [x, cl]"
    using bl_mk_list_spec [OF s2(4), of "[h, k, true_val]"] s3(1) below_list_rep [OF s4(2)] bl_mk_list_spec [OF ok3, of "[x, cl]"] s4(1) by auto
  have four: "scope s4 c" "is_symbol s4 k ''x'' i" "is_symbol s4 h ''catch'' j" "is_error s4 x ?te"
    using below_scope [OF b(1) s0(2)] s0(3) j s2(3) b by (auto simp: is_symbol_def is_error_def same_heap_below_def)
  have "length ''x'' < 31" by simp
  then have "map_of (symbol_table s4) ''x'' = Some k" using s4(3) four(2) unfolding wf_store_def symtab_ok_def by blast
  moreover have "x \<noteq> NULL" using s4(3) four(4) by (auto simp: wf_store_def is_error_def dest: heap_okD(1))
  ultimately obtain s where s: "bl_ctx_set c k x s4 = Ret x s" "wf_store s" "scope s c" "bound s c ''x'' x" "evolves s4 s"
    using set_bound [OF s4(3) four(1), of "''x''" k i x] four(2) by auto
  have sb: "same_but c s4 s" using bl_ctx_set_any [OF four(1), of k i x] four(2) s(1) unfolding symbol_no_def by fastforce
  have "list_rep s cl [h, k, true_val]" "list_rep s p [x, cl]"
    using l4 same_but_list [OF sb scope_type [OF four(1)]] unfolding list_rep_def by blast+
  moreover have "x \<noteq> c" using four(1,4) by (auto simp: is_error_def scope_def)
  then have "is_error s x ?te" using four(4) sb by (simp add: is_error_def same_but_def)
  moreover have "datum s true_val" using s(2) by (auto simp: wf_store_def statics_ok_def datum_def)
  ultimately have "catch_clause s c cl (BL_ERR_PARSE, true_val)" "list_rep s p [x, cl]" "is_error s x ?te"
    using evolves_symbol [OF s(5)] four(2,3) s(4) unfolding catch_clause_def by (fastforce simp: plain_name_def)+
  then show ?thesis using s(2,3) by (intro exI [of _ s]) (auto intro!: exI)
qed


end
