(* ===== verification/BL_Module_Props.thy ===== *)
theory BL_Module_Props
  imports BL_Call_Props
begin

text \<open>
  What the modules of the standard library do: formatted output on streams, and the exit status.
\<close>

section \<open>Formatted output\<close>

text \<open>
  A format as it is meant: literal text without a percent sign, places for arguments, and percent signs.
\<close>

datatype piece = Text string | Argument | Percent

primrec piece_text :: "piece \<Rightarrow> string" where
  "piece_text (Text x) = x"
| "piece_text Argument = ''%s''"
| "piece_text Percent = ''%%''"

definition format_of :: "piece list \<Rightarrow> string" where
  "format_of ps = concat (map piece_text ps)"

primrec plain_piece :: "piece \<Rightarrow> bool" where
  "plain_piece (Text x) \<longleftrightarrow> CHR ''%'' \<notin> set x"
| "plain_piece Argument \<longleftrightarrow> True"
| "plain_piece Percent \<longleftrightarrow> True"

text \<open>What is to be written: every place takes the next argument, and an empty text is shown as \<open>(null)\<close>.\<close>

fun formatted :: "piece list \<Rightarrow> string list \<Rightarrow> string option" where
  "formatted [] xs = Some []"
| "formatted (Text x # ps) xs = map_option ((@) x) (formatted ps xs)"
| "formatted (Percent # ps) xs = map_option ((@) ''%'') (formatted ps xs)"
| "formatted (Argument # ps) [] = None"
| "formatted (Argument # ps) (x # xs) = map_option ((@) (if x = [] then ''(null)'' else x)) (formatted ps xs)"

text \<open>An open stream that can be written to, and the text written to it so far.\<close>

definition writes_to :: "store \<Rightarrow> nat \<Rightarrow> string \<Rightarrow> bool" where
  "writes_to s fd out \<longleftrightarrow> 0 < fd \<and> fd \<le> length (c_objs s)
     \<and> (\<exists>st. c_objs s ! (fd - 1) = C_stream st \<and> st_open st \<and> writable (st_kind st) \<and> st_out st = out)"

definition same_values :: "store \<Rightarrow> store \<Rightarrow> bool" where
  "same_values s t \<longleftrightarrow> heap t = heap s \<and> next_addr t = next_addr s"

lemma put_runs:
  assumes "writes_to s fd out"
  shows "\<exists>t. put_or fd x rest s = rest t \<and> writes_to t fd (out @ x) \<and> same_values s t"
proof -
  obtain st where st: "c_objs s ! (fd - 1) = C_stream st" "st_open st" "writable (st_kind st)" "st_out st = out"
      "0 < fd" "fd \<le> length (c_objs s)"
    using assms by (auto simp: writes_to_def)
  then show ?thesis
    by (cases "st_kind st")
       (auto simp: put_or_def stream_put_def get_stream_def get_c_obj_def put_c_obj_def print_out_def print_err_def
          writes_to_def same_values_def run_bindM)
qed

lemma text_runs:
  assumes "CHR ''%'' \<notin> set x" "writes_to s fd out"
  shows "\<exists>t. fprintf_loop fd (x @ cs) False v s = fprintf_loop fd cs False v t \<and> writes_to t fd (out @ x) \<and> same_values s t"
  using assms
proof (induction x arbitrary: s out)
  case Nil
  then show ?case by (auto simp: same_values_def)
next
  case (Cons c x)
  obtain t where t: "put_or fd [c] (fprintf_loop fd (x @ cs) False v) s = fprintf_loop fd (x @ cs) False v t"
      "writes_to t fd (out @ [c])" "same_values s t"
    using put_runs [OF Cons.prems(2)] by blast
  have "CHR ''%'' \<notin> set x" using Cons.prems(1) by simp
  from Cons.IH [OF this t(2)] t(1,3) Cons.prems(1) show ?case by (auto simp: same_values_def)
qed

lemma same_values_list: "same_values s t \<Longrightarrow> list_rep s p xs \<Longrightarrow> list_rep t p xs"
proof -
  assume st: "same_values s t" and "list_rep s p xs"
  then obtain cs where cs: "is_list s p cs xs" by (auto simp: list_rep_def)
  have "is_list t p cs xs" by (rule is_list_frame [OF cs]) (use st in \<open>simp add: same_values_def\<close>)
  then show ?thesis by (auto simp: list_rep_def)
qed

lemma same_values_heap_ok: "same_values s t \<Longrightarrow> heap_ok s \<Longrightarrow> heap_ok t"
  by (simp add: same_values_def heap_ok_def)



section \<open>The exit status\<close>

text \<open>
  \<open>(exit n)\<close> ends the process with the status 0 whatever the number: the status is taken from a member
  that numbers do not set.
\<close>

theorem exit_status_zero:
  assumes "heap_ok s" "list_rep s params [x]" "number s x i" "0 < n"
  shows "bl_exit (rt n) ctx params s = Exit 0"
proof -
  obtain cs where cs: "is_list s params cs [x]" using assms(2) by (auto simp: list_rep_def)
  obtain t q where t: "bl_eval_cons (rt n) ctx params s = Ret q t" "heap_ok t" "list_rep t q [x]" "same_heap_below s t"
    using eval_cons_data [OF cs assms(1), of "Suc n" n ctx] number_datum [OF assms(3)] assms(4) by auto
  have x: "number t x i" by (rule below_number [OF t(4) assms(3)])
  obtain qs where qs: "is_list t q qs [x]" using t(3) by (auto simp: list_rep_def)
  have "x \<noteq> NULL" using datum_pos [OF t(2) number_datum [OF x]] .
  then have "bl_list_len q t = Ret 1 t" using bl_list_len_spec [OF qs t(2)] by simp
  moreover have "bl_list_first q t = Ret x t"
    by (rule list_rep_step [OF t(3,2)]) (simp add: bl_list_first_def)
  moreover have "get_fix_int x t = Ret 0 t" using x by (auto simp: number_def)
  ultimately show ?thesis using t(1) by (simp add: bl_exit_def)
qed

end
