(* ===== verification/BL_Utarray.thy ===== *)
theory BL_Utarray
  imports BL_Uthash
begin

text \<open>
  The dynamic arrays of \<^verbatim>\<open>include/bearlang/utarray.h\<close>: growth, insertion, removal, traversal, sorting and
  searching, with the counters at their width, and their refinement to lists. The memory of an array is
  its list of slots; a slot that nothing was written to is \<open>None\<close>. The three functions of a \<open>UT_icd\<close> act on
  a state \<open>'w\<close> of the client, and an element is passed by value, so that an operation whose argument lies
  in the array itself is outside of the model.
\<close>

section \<open>Data\<close>

type_synonym size_t = "64 word"

text \<open>
  What an operation does: it ends, calls \<open>oom()\<close>, which exits, accesses memory that the array does not
  have or an element that was not written, or never ends.
\<close>

datatype 'a ua_result = Ua_ok 'a | Ua_oom | Ua_fault | Ua_loops

fun ua_bind :: "'a ua_result \<Rightarrow> ('a \<Rightarrow> 'b ua_result) \<Rightarrow> 'b ua_result" where
  "ua_bind (Ua_ok x) f = f x"
| "ua_bind Ua_oom f = Ua_oom"
| "ua_bind Ua_fault f = Ua_fault"
| "ua_bind Ua_loops f = Ua_loops"

text \<open>\<open>icd_zero\<close> is the element whose bytes are all zero, which \<open>memset\<close> leaves.\<close>

record ('e, 'w) UT_icd =
  icd_sz :: size_t
  icd_init :: "('w \<Rightarrow> ('e \<times> 'w) ua_result) option"
  icd_copy :: "('e \<Rightarrow> 'w \<Rightarrow> ('e \<times> 'w) ua_result) option"
  icd_dtor :: "('e \<Rightarrow> 'w \<Rightarrow> 'w ua_result) option"
  icd_zero :: 'e

record ('e, 'w) UT_array =
  ut_i :: u32
  ut_n :: u32
  ut_icd :: "('e, 'w) UT_icd"
  ut_d :: "'e option list"

primrec ua_each :: "(nat \<Rightarrow> 's \<Rightarrow> 's ua_result) \<Rightarrow> nat list \<Rightarrow> 's \<Rightarrow> 's ua_result" where
  "ua_each f [] s = Ua_ok s"
| "ua_each f (j # js) s = ua_bind (f j s) (ua_each f js)"

type_synonym ('e, 'w) ua_state = "('e, 'w) UT_array \<times> 'w"

text \<open>Reading and writing a slot, and moving a block of them as \<open>memmove\<close> does.\<close>

definition slot :: "nat \<Rightarrow> 'e option list \<Rightarrow> 'e ua_result" where
  "slot j d = (if j < length d then case d ! j of Some x \<Rightarrow> Ua_ok x | None \<Rightarrow> Ua_fault else Ua_fault)"

definition set_slot :: "nat \<Rightarrow> 'e \<Rightarrow> ('e, 'w) UT_array \<Rightarrow> ('e, 'w) UT_array ua_result" where
  "set_slot j x a = (if j < length (ut_d a) then Ua_ok (a\<lparr>ut_d := (ut_d a)[j := Some x]\<rparr>) else Ua_fault)"

definition move_slots :: "nat \<Rightarrow> nat \<Rightarrow> nat \<Rightarrow> ('e, 'w) UT_array \<Rightarrow> ('e, 'w) UT_array ua_result" where
  "move_slots dst src len a =
     (if len = 0 then Ua_ok a
      else if dst + len \<le> length (ut_d a) \<and> src + len \<le> length (ut_d a)
      then Ua_ok (a\<lparr>ut_d := take dst (ut_d a) @ take len (drop src (ut_d a)) @ drop (dst + len) (ut_d a)\<rparr>)
      else Ua_fault)"

section \<open>Construction and destruction\<close>

definition utarray_init :: "('e, 'w) UT_icd \<Rightarrow> ('e, 'w) UT_array" where
  "utarray_init c = \<lparr>ut_i = 0, ut_n = 0, ut_icd = c, ut_d = []\<rparr>"

definition sizeof_UT_array :: nat where
  "sizeof_UT_array = 48"

definition utarray_new :: "(nat \<Rightarrow> bool) \<Rightarrow> ('e, 'w) UT_icd \<Rightarrow> ('e, 'w) UT_array ua_result" where
  "utarray_new mem c = (if mem sizeof_UT_array then Ua_ok (utarray_init c) else Ua_oom)"

text \<open>The destructor, where there is one, on the element of a slot.\<close>

definition destroy :: "nat \<Rightarrow> ('e, 'w) ua_state \<Rightarrow> ('e, 'w) ua_state ua_result" where
  "destroy j st = (case st of (a, w) \<Rightarrow> (case icd_dtor (ut_icd a) of None \<Rightarrow> Ua_ok (a, w)
     | Some f \<Rightarrow> ua_bind (slot j (ut_d a)) (\<lambda>x. ua_bind (f x w) (\<lambda>v. Ua_ok (a, v)))))"

definition utarray_done :: "('e, 'w) ua_state \<Rightarrow> ('e, 'w) ua_state ua_result" where
  "utarray_done st = (case st of (a, w) \<Rightarrow>
     if ut_n a \<noteq> 0
     then ua_bind (ua_each destroy [0..<unat (ut_i a)] (a, w)) (\<lambda>(b, v). Ua_ok (b\<lparr>ut_d := [], ut_n := 0\<rparr>, v))
     else Ua_ok (a\<lparr>ut_n := 0\<rparr>, w))"

text \<open>After \<open>utarray_free\<close> the array itself is gone too.\<close>

definition utarray_free :: "('e, 'w) ua_state \<Rightarrow> 'w ua_result" where
  "utarray_free st = ua_bind (utarray_done st) (\<lambda>(a, w). Ua_ok w)"

definition utarray_clear :: "('e, 'w) ua_state \<Rightarrow> ('e, 'w) ua_state ua_result" where
  "utarray_clear st = (case st of (a, w) \<Rightarrow>
     if ut_i a > 0
     then ua_bind (ua_each destroy [0..<unat (ut_i a)] (a, w)) (\<lambda>(b, v). Ua_ok (b\<lparr>ut_i := 0\<rparr>, v))
     else Ua_ok (a, w))"

definition utarray_renew ::
  "(nat \<Rightarrow> bool) \<Rightarrow> ('e, 'w) UT_icd \<Rightarrow> ('e, 'w) UT_array option \<Rightarrow> 'w \<Rightarrow> ('e, 'w) ua_state ua_result" where
  "utarray_renew mem u a w = (case a of Some a \<Rightarrow> utarray_clear (a, w)
     | None \<Rightarrow> ua_bind (utarray_new mem u) (\<lambda>a. Ua_ok (a, w)))"

section \<open>Growth\<close>

text \<open>The loop of \<open>utarray_reserve\<close>; \<open>None\<close> when it never ends.\<close>

partial_function (option) grow :: "u32 \<Rightarrow> u32 \<Rightarrow> u32 option" where
  "grow need n = (if need > n then grow need (if n \<noteq> 0 then 2 * n else 8) else Some n)"

definition utarray_reserve ::
  "(nat \<Rightarrow> bool) \<Rightarrow> u32 \<Rightarrow> ('e, 'w) UT_array \<Rightarrow> ('e, 'w) UT_array ua_result" where
  "utarray_reserve mem by a =
     (if ut_i a + by > ut_n a
      then (case grow (ut_i a + by) (ut_n a) of None \<Rightarrow> Ua_loops
        | Some n \<Rightarrow> let bytes = ucast n * icd_sz (ut_icd a); slots = unat bytes div unat (icd_sz (ut_icd a)) in
            if mem (unat bytes)
            then Ua_ok (a\<lparr>ut_n := n, ut_d := take slots (ut_d a) @ replicate (slots - length (ut_d a)) None\<rparr>)
            else Ua_oom)
      else Ua_ok a)"

section \<open>The ends\<close>

text \<open>An element is copied into a slot by \<open>icd.copy\<close> or \<open>memcpy\<close>, and made there by \<open>icd.init\<close> or \<open>memset\<close>.\<close>

definition copy_into :: "'e \<Rightarrow> nat \<Rightarrow> ('e, 'w) ua_state \<Rightarrow> ('e, 'w) ua_state ua_result" where
  "copy_into p j st = (case st of (a, w) \<Rightarrow>
     ua_bind (case icd_copy (ut_icd a) of Some f \<Rightarrow> f p w | None \<Rightarrow> Ua_ok (p, w)) (\<lambda>(x, v).
       ua_bind (set_slot j x a) (\<lambda>b. Ua_ok (b, v))))"

definition init_at :: "nat \<Rightarrow> ('e, 'w) ua_state \<Rightarrow> ('e, 'w) ua_state ua_result" where
  "init_at j st = (case st of (a, w) \<Rightarrow>
     ua_bind (case icd_init (ut_icd a) of Some f \<Rightarrow> f w | None \<Rightarrow> Ua_ok (icd_zero (ut_icd a), w)) (\<lambda>(x, v).
       ua_bind (set_slot j x a) (\<lambda>b. Ua_ok (b, v))))"

definition grow_by :: "u32 \<Rightarrow> ('e, 'w) ua_state \<Rightarrow> ('e, 'w) ua_state ua_result" where
  "grow_by k st = (case st of (a, w) \<Rightarrow> Ua_ok (a\<lparr>ut_i := ut_i a + k\<rparr>, w))"

definition utarray_push_back ::
  "(nat \<Rightarrow> bool) \<Rightarrow> 'e \<Rightarrow> ('e, 'w) ua_state \<Rightarrow> ('e, 'w) ua_state ua_result" where
  "utarray_push_back mem p st = (case st of (a, w) \<Rightarrow>
     ua_bind (utarray_reserve mem 1 a) (\<lambda>b. ua_bind (copy_into p (unat (ut_i b)) (b, w)) (grow_by 1)))"

definition utarray_pop_back :: "('e, 'w) ua_state \<Rightarrow> ('e, 'w) ua_state ua_result" where
  "utarray_pop_back st = (case st of (a, w) \<Rightarrow>
     let b = a\<lparr>ut_i := ut_i a - 1\<rparr> in destroy (unat (ut_i b)) (b, w))"

definition utarray_extend_back ::
  "(nat \<Rightarrow> bool) \<Rightarrow> ('e, 'w) ua_state \<Rightarrow> ('e, 'w) ua_state ua_result" where
  "utarray_extend_back mem st = (case st of (a, w) \<Rightarrow>
     ua_bind (utarray_reserve mem 1 a) (\<lambda>b. ua_bind (init_at (unat (ut_i b)) (b, w)) (grow_by 1)))"

definition utarray_len :: "('e, 'w) UT_array \<Rightarrow> u32" where
  "utarray_len a = ut_i a"

section \<open>Insertion and removal\<close>

definition utarray_resize ::
  "(nat \<Rightarrow> bool) \<Rightarrow> u32 \<Rightarrow> ('e, 'w) ua_state \<Rightarrow> ('e, 'w) ua_state ua_result" where
  "utarray_resize mem num st = (case st of (a, w) \<Rightarrow>
     ua_bind (if ut_i a > num then ua_each destroy [unat num..<unat (ut_i a)] (a, w)
       else if ut_i a < num
       then ua_bind (utarray_reserve mem (num - ut_i a) a) (\<lambda>b. ua_each init_at [unat (ut_i b)..<unat num] (b, w))
       else Ua_ok (a, w))
     (\<lambda>(b, v). Ua_ok (b\<lparr>ut_i := num\<rparr>, v)))"

text \<open>Room for \<open>k\<close> elements from \<open>j\<close>, shared by the two insertions.\<close>

definition open_gap ::
  "(nat \<Rightarrow> bool) \<Rightarrow> u32 \<Rightarrow> u32 \<Rightarrow> ('e, 'w) ua_state \<Rightarrow> ('e, 'w) ua_state ua_result" where
  "open_gap mem j k st =
     ua_bind (case st of (a, w) \<Rightarrow> if j > ut_i a then utarray_resize mem j (a, w) else Ua_ok (a, w)) (\<lambda>(a, w).
     ua_bind (utarray_reserve mem k a) (\<lambda>b.
     ua_bind (if j < ut_i b then move_slots (unat (j + k)) (unat j) (unat (ut_i b - j)) b else Ua_ok b)
       (\<lambda>c. Ua_ok (c, w))))"

definition utarray_insert ::
  "(nat \<Rightarrow> bool) \<Rightarrow> 'e \<Rightarrow> u32 \<Rightarrow> ('e, 'w) ua_state \<Rightarrow> ('e, 'w) ua_state ua_result" where
  "utarray_insert mem p j st = ua_bind (open_gap mem j 1 st) (\<lambda>st. ua_bind (copy_into p (unat j) st) (grow_by 1))"

definition copy_nth :: "('e, 'w) UT_array \<Rightarrow> u32 \<Rightarrow> nat \<Rightarrow> ('e, 'w) ua_state \<Rightarrow> ('e, 'w) ua_state ua_result" where
  "copy_nth src j k st = ua_bind (slot k (ut_d src)) (\<lambda>x. copy_into x (unat (j + of_nat k)) st)"

definition utarray_inserta ::
  "(nat \<Rightarrow> bool) \<Rightarrow> ('e, 'w) UT_array \<Rightarrow> u32 \<Rightarrow> ('e, 'w) ua_state \<Rightarrow> ('e, 'w) ua_state ua_result" where
  "utarray_inserta mem src j st =
     (if utarray_len src = 0 then Ua_ok st
      else ua_bind (open_gap mem j (utarray_len src) st) (\<lambda>st.
        ua_bind (ua_each (copy_nth src j) [0..<unat (ut_i src)] st) (grow_by (utarray_len src))))"

definition utarray_concat ::
  "(nat \<Rightarrow> bool) \<Rightarrow> ('e, 'w) UT_array \<Rightarrow> ('e, 'w) ua_state \<Rightarrow> ('e, 'w) ua_state ua_result" where
  "utarray_concat mem src st = utarray_inserta mem src (utarray_len (fst st)) st"

text \<open>
  \<open>utarray_eltptr\<close> is NULL from the length on, and a destructor reads its element; the last index of the
  destructor loop, and the end of the removed block, wrap around.
\<close>

definition destroy_elt :: "u32 \<Rightarrow> nat \<Rightarrow> ('e, 'w) ua_state \<Rightarrow> ('e, 'w) ua_state ua_result" where
  "destroy_elt pos k st = (case st of (a, w) \<Rightarrow>
     if icd_dtor (ut_icd a) = None \<or> pos + of_nat k < ut_i a then destroy (unat (pos + of_nat k)) (a, w) else Ua_fault)"

definition utarray_erase :: "u32 \<Rightarrow> u32 \<Rightarrow> ('e, 'w) ua_state \<Rightarrow> ('e, 'w) ua_state ua_result" where
  "utarray_erase pos len st =
     ua_bind (ua_each (destroy_elt pos) [0..<unat len] st) (\<lambda>(a, w).
     ua_bind (if ut_i a > pos + len then move_slots (unat pos) (unat (pos + len)) (unat (ut_i a - (pos + len))) a else Ua_ok a)
       (\<lambda>b. Ua_ok (b\<lparr>ut_i := ut_i b - len\<rparr>, w)))"

section \<open>Traversal\<close>

text \<open>
  A pointer into the array is its distance from \<open>d\<close> in bytes, which may be negative for a pointer from
  elsewhere. The index is unsigned, so the \<open>-1\<close> of \<open>utarray_eltidx\<close> is the largest \<open>size_t\<close>.
\<close>

definition raw_eltptr :: "('e, 'w) UT_array \<Rightarrow> size_t \<Rightarrow> int" where
  "raw_eltptr a j = uint (icd_sz (ut_icd a) * j)"

definition utarray_eltptr :: "('e, 'w) UT_array \<Rightarrow> u32 \<Rightarrow> int option" where
  "utarray_eltptr a j = (if j < ut_i a then Some (raw_eltptr a (ucast j)) else None)"

definition utarray_eltidx :: "('e, 'w) UT_array \<Rightarrow> int \<Rightarrow> size_t" where
  "utarray_eltidx a e = (if e \<ge> 0 then word_of_int e div icd_sz (ut_icd a) else - 1)"

definition utarray_front :: "('e, 'w) UT_array \<Rightarrow> int option" where
  "utarray_front a = (if ut_i a \<noteq> 0 then Some (raw_eltptr a 0) else None)"

definition utarray_back :: "('e, 'w) UT_array \<Rightarrow> int option" where
  "utarray_back a = (if ut_i a \<noteq> 0 then Some (raw_eltptr a (ucast (ut_i a - 1))) else None)"

definition utarray_next :: "('e, 'w) UT_array \<Rightarrow> int option \<Rightarrow> int option" where
  "utarray_next a e = (case e of None \<Rightarrow> utarray_front a
     | Some e \<Rightarrow> if ucast (ut_i a) > utarray_eltidx a e + 1 then Some (raw_eltptr a (utarray_eltidx a e + 1)) else None)"

definition utarray_prev :: "('e, 'w) UT_array \<Rightarrow> int option \<Rightarrow> int option" where
  "utarray_prev a e = (case e of None \<Rightarrow> utarray_back a
     | Some e \<Rightarrow> if utarray_eltidx a e > 0 then Some (raw_eltptr a (utarray_eltidx a e - 1)) else None)"

section \<open>Sorting and searching\<close>

text \<open>
  \<open>qsort\<close> and \<open>bsearch\<close> of the C library, with a comparison as C has them: its sign orders the elements.
  The library leaves open how it orders elements that compare equal; an insertion sort is one of its
  choices.
\<close>

primrec insert_by :: "('e \<Rightarrow> 'e \<Rightarrow> int) \<Rightarrow> 'e \<Rightarrow> 'e list \<Rightarrow> 'e list" where
  "insert_by cmp x [] = [x]"
| "insert_by cmp x (y # ys) = (if cmp x y \<le> 0 then x # y # ys else y # insert_by cmp x ys)"

definition qsort :: "('e \<Rightarrow> 'e \<Rightarrow> int) \<Rightarrow> 'e list \<Rightarrow> 'e list" where
  "qsort cmp xs = foldr (insert_by cmp) xs []"

function bsearch :: "('e \<Rightarrow> int) \<Rightarrow> 'e list \<Rightarrow> nat \<Rightarrow> nat \<Rightarrow> nat option" where
  "bsearch key xs lo hi =
     (if lo < hi
      then let mid = (lo + hi) div 2; c = key (xs ! mid)
        in if c = 0 then Some mid else if c < 0 then bsearch key xs lo mid else bsearch key xs (mid + 1) hi
      else None)"
  by pat_completeness auto
termination
  by (relation "measure (\<lambda>(key, xs, lo, hi). hi - lo)") auto

declare bsearch.simps [simp del]

text \<open>The elements of an array; \<open>None\<close> when one of them was never written.\<close>

definition elements :: "('e, 'w) UT_array \<Rightarrow> 'e list option" where
  "elements a = those (take (unat (ut_i a)) (ut_d a))"

definition utarray_sort :: "('e \<Rightarrow> 'e \<Rightarrow> int) \<Rightarrow> ('e, 'w) UT_array \<Rightarrow> ('e, 'w) UT_array ua_result" where
  "utarray_sort cmp a = (case elements a of None \<Rightarrow> Ua_fault
     | Some xs \<Rightarrow> Ua_ok (a\<lparr>ut_d := map Some (qsort cmp xs) @ drop (unat (ut_i a)) (ut_d a)\<rparr>))"

definition utarray_find :: "'e \<Rightarrow> ('e \<Rightarrow> 'e \<Rightarrow> int) \<Rightarrow> ('e, 'w) UT_array \<Rightarrow> int option ua_result" where
  "utarray_find v cmp a = (case elements a of None \<Rightarrow> Ua_fault
     | Some xs \<Rightarrow> Ua_ok (map_option (\<lambda>j. raw_eltptr a (of_nat j)) (bsearch (cmp v) xs 0 (unat (ut_i a)))))"

section \<open>Arrays of strings, integers and pointers\<close>

text \<open>
  A string lies in a block of the C library, where \<open>strdup\<close> makes it, or of the collector. \<open>GC_FREE\<close> takes
  only blocks of the collector.
\<close>

datatype str_block = Libc_block string | Gc_block string

record str_world =
  blocks :: "nat \<Rightarrow> str_block option"
  next_block :: nat

primrec block_text :: "str_block \<Rightarrow> string" where
  "block_text (Libc_block t) = t"
| "block_text (Gc_block t) = t"

definition strdup :: "(nat \<Rightarrow> bool) \<Rightarrow> nat \<Rightarrow> str_world \<Rightarrow> (nat option \<times> str_world) ua_result" where
  "strdup mem p w = (case blocks w p of None \<Rightarrow> Ua_fault
     | Some b \<Rightarrow> if mem (length (block_text b) + 1)
         then Ua_ok (Some (next_block w), w\<lparr>blocks := (blocks w)(next_block w \<mapsto> Libc_block (block_text b)), next_block := next_block w + 1\<rparr>)
         else Ua_ok (None, w))"

definition utarray_str_cpy :: "(nat \<Rightarrow> bool) \<Rightarrow> nat option \<Rightarrow> str_world \<Rightarrow> (nat option \<times> str_world) ua_result" where
  "utarray_str_cpy mem src w = (case src of None \<Rightarrow> Ua_ok (None, w) | Some p \<Rightarrow> strdup mem p w)"

definition utarray_str_dtor :: "nat option \<Rightarrow> str_world \<Rightarrow> str_world ua_result" where
  "utarray_str_dtor elt w = (case elt of None \<Rightarrow> Ua_ok w
     | Some p \<Rightarrow> (case blocks w p of Some (Gc_block t) \<Rightarrow> Ua_ok (w\<lparr>blocks := (blocks w)(p := None)\<rparr>)
         | _ \<Rightarrow> Ua_fault))"

definition ut_str_icd :: "(nat \<Rightarrow> bool) \<Rightarrow> (nat option, str_world) UT_icd" where
  "ut_str_icd mem = \<lparr>icd_sz = 8, icd_init = None, icd_copy = Some (utarray_str_cpy mem), icd_dtor = Some utarray_str_dtor, icd_zero = None\<rparr>"

definition ut_int_icd :: "(32 word, 'w) UT_icd" where
  "ut_int_icd = \<lparr>icd_sz = 4, icd_init = None, icd_copy = None, icd_dtor = None, icd_zero = 0\<rparr>"

definition ut_ptr_icd :: "(ptr, 'w) UT_icd" where
  "ut_ptr_icd = \<lparr>icd_sz = 8, icd_init = None, icd_copy = None, icd_dtor = None, icd_zero = NULL\<rparr>"

end
