(* ===== verification/BL_Uthash_Ops.thy ===== *)
theory BL_Uthash_Ops
  imports BL_Utarray
begin

text \<open>
  The rest of \<^verbatim>\<open>include/bearlang/uthash.h\<close>: removal, replacement, ordered addition, sorting, selection and
  iteration, the other hash functions, and the Bloom filter. The program itself uses only the macros of
  BL_Uthash; these are the ones that its copy of the library offers besides.
\<close>

unbundle bit_operations_syntax

section \<open>Other hash functions\<close>

definition key_bytes :: "string \<Rightarrow> u32 \<Rightarrow> u32 list" where
  "key_bytes key keylen = map of_char (take (unat keylen) key)"

definition HASH_BER :: "string \<Rightarrow> u32 \<Rightarrow> u32" where
  "HASH_BER key keylen = fold (\<lambda>b h. (push_bit 5 h + h) + b) (key_bytes key keylen) 0"

definition HASH_SAX :: "string \<Rightarrow> u32 \<Rightarrow> u32" where
  "HASH_SAX key keylen = fold (\<lambda>b h. h XOR (push_bit 5 h + drop_bit 2 h + b)) (key_bytes key keylen) 0"

definition HASH_FNV :: "string \<Rightarrow> u32 \<Rightarrow> u32" where
  "HASH_FNV key keylen = fold (\<lambda>b h. (h XOR b) * 16777619) (key_bytes key keylen) 2166136261"

definition oat_step :: "u32 \<Rightarrow> u32 \<Rightarrow> u32" where
  "oat_step b h = (let h = h + b; h = h + push_bit 10 h in h XOR drop_bit 6 h)"

definition HASH_OAT :: "string \<Rightarrow> u32 \<Rightarrow> u32" where
  "HASH_OAT key keylen = (let h = fold oat_step (key_bytes key keylen) 0; h = h + push_bit 3 h; h = h XOR drop_bit 11 h
     in h + push_bit 15 h)"

text \<open>\<open>HASH_SFH\<close> takes four bytes at a time, in two halves; what is left has a case of its own.\<close>

definition get16bits :: "u32 \<Rightarrow> u32 \<Rightarrow> u32" where
  "get16bits a b = push_bit 8 b + a"

fun sfh_loop :: "u32 list \<Rightarrow> u32 \<Rightarrow> u32" where
  "sfh_loop (a # b # c # d # rest) h =
     (let h = h + get16bits a b; tmp = push_bit 11 (get16bits c d) XOR h; h = push_bit 16 h XOR tmp
      in sfh_loop rest (h + drop_bit 11 h))"
| "sfh_loop [a, b, c] h =
     (let h = h + get16bits a b; h = h XOR push_bit 16 h; h = h XOR push_bit 18 c in h + drop_bit 11 h)"
| "sfh_loop [a, b] h = (let h = h + get16bits a b; h = h XOR push_bit 11 h in h + drop_bit 17 h)"
| "sfh_loop [a] h = (let h = h + a; h = h XOR push_bit 10 h in h + drop_bit 1 h)"
| "sfh_loop [] h = h"

definition HASH_SFH :: "string \<Rightarrow> u32 \<Rightarrow> u32" where
  "HASH_SFH key keylen = (let h = sfh_loop (key_bytes key keylen) 0xcafebabe;
     h = h XOR push_bit 3 h; h = h + drop_bit 5 h; h = h XOR push_bit 4 h; h = h + drop_bit 17 h;
     h = h XOR push_bit 25 h in h + drop_bit 6 h)"

text \<open>\<open>HASH_MUR\<close> reads blocks of four bytes as little-endian words.\<close>

definition MUR_ROTL32 :: "u32 \<Rightarrow> nat \<Rightarrow> u32" where
  "MUR_ROTL32 x r = push_bit r x OR drop_bit (32 - r) x"

definition MUR_FMIX :: "u32 \<Rightarrow> u32" where
  "MUR_FMIX h = (let h = h XOR drop_bit 16 h; h = h * 0x85ebca6b; h = h XOR drop_bit 13 h; h = h * 0xc2b2ae35
     in h XOR drop_bit 16 h)"

definition mur_scramble :: "u32 \<Rightarrow> u32" where
  "mur_scramble k = MUR_ROTL32 (k * 0xcc9e2d51) 15 * 0x1b873593"

definition mur_block :: "u32 \<Rightarrow> u32 \<Rightarrow> u32" where
  "mur_block k h = MUR_ROTL32 (h XOR mur_scramble k) 13 * 5 + 0xe6546b64"

fun mur_loop :: "u32 list \<Rightarrow> u32 \<Rightarrow> u32" where
  "mur_loop (a # b # c # d # rest) h = mur_loop rest (mur_block (a OR push_bit 8 b OR push_bit 16 c OR push_bit 24 d) h)"
| "mur_loop [a, b, c] h = h XOR mur_scramble (push_bit 16 c XOR push_bit 8 b XOR a)"
| "mur_loop [a, b] h = h XOR mur_scramble (push_bit 8 b XOR a)"
| "mur_loop [a] h = h XOR mur_scramble a"
| "mur_loop [] h = h"

definition HASH_MUR :: "string \<Rightarrow> u32 \<Rightarrow> u32" where
  "HASH_MUR key keylen = MUR_FMIX (mur_loop (key_bytes key keylen) 0xf88D5353 XOR keylen)"

section \<open>The Bloom filter\<close>

text \<open>Where \<open>HASH_BLOOM\<close> is defined, as the number of bits of the index, a table carries a bit vector.\<close>

definition HASH_BLOOM_BYTELEN :: "nat \<Rightarrow> nat" where
  "HASH_BLOOM_BYTELEN nbits = 2 ^ nbits div 8 + (if 2 ^ nbits mod 8 \<noteq> (0 :: nat) then 1 else 0)"

definition HASH_BLOOM_MAKE :: "(nat \<Rightarrow> bool) \<Rightarrow> nat \<Rightarrow> ut_error + 8 word list" where
  "HASH_BLOOM_MAKE mem nbits = (if mem (HASH_BLOOM_BYTELEN nbits) then Inr (replicate (HASH_BLOOM_BYTELEN nbits) 0) else Inl UT_fatal)"

definition bloom_index :: "nat \<Rightarrow> u32 \<Rightarrow> nat" where
  "bloom_index nbits hashv = unat (hashv AND ucast (push_bit nbits 1 - 1 :: 64 word))"

definition HASH_BLOOM_BITSET :: "8 word list \<Rightarrow> nat \<Rightarrow> 8 word list" where
  "HASH_BLOOM_BITSET bv idx = bv[idx div 8 := bv ! (idx div 8) OR push_bit (idx mod 8) 1]"

definition HASH_BLOOM_BITTEST :: "8 word list \<Rightarrow> nat \<Rightarrow> 8 word" where
  "HASH_BLOOM_BITTEST bv idx = bv ! (idx div 8) AND push_bit (idx mod 8) 1"

definition HASH_BLOOM_ADD :: "nat \<Rightarrow> u32 \<Rightarrow> 8 word list \<Rightarrow> 8 word list" where
  "HASH_BLOOM_ADD nbits hashv bv = HASH_BLOOM_BITSET bv (bloom_index nbits hashv)"

definition HASH_BLOOM_TEST :: "nat \<Rightarrow> u32 \<Rightarrow> 8 word list \<Rightarrow> bool" where
  "HASH_BLOOM_TEST nbits hashv bv \<longleftrightarrow> HASH_BLOOM_BITTEST bv (bloom_index nbits hashv) \<noteq> 0"

section \<open>By hash value\<close>

definition HASH_FIND_BYHASHVALUE :: "ut_table option \<Rightarrow> string \<Rightarrow> u32 \<Rightarrow> u32 \<Rightarrow> ut_handle option" where
  "HASH_FIND_BYHASHVALUE head key keylen hashval = (case head of None \<Rightarrow> None
     | Some tbl \<Rightarrow> HASH_FIND_IN_BKT (hh_head (buckets tbl ! HASH_TO_BKT hashval (num_buckets tbl))) key keylen hashval)"

definition new_handle :: "string \<Rightarrow> u32 \<Rightarrow> u32 \<Rightarrow> ptr \<Rightarrow> ut_handle" where
  "new_handle key keylen hashval elm = \<lparr>hh_key = key, hh_keylen = keylen, hh_hashv = hashval, hh_sym = elm\<rparr>"

definition HASH_ADD_KEYPTR_BYHASHVALUE ::
  "(nat \<Rightarrow> bool) \<Rightarrow> string \<Rightarrow> u32 \<Rightarrow> u32 \<Rightarrow> ptr \<Rightarrow> ut_table option \<Rightarrow> ut_error + ut_table option" where
  "HASH_ADD_KEYPTR_BYHASHVALUE mem key keylen hashval elm head =
     (let add = new_handle key keylen hashval elm
      in case (case head of None \<Rightarrow> HASH_MAKE_TABLE mem add | Some tbl \<Rightarrow> Inr (HASH_APPEND_LIST add tbl)) of
           Inl e \<Rightarrow> Inl e
         | Inr tbl \<Rightarrow> map_sum id Some (HASH_ADD_TO_TABLE mem add tbl))"

section \<open>Removal and replacement\<close>

text \<open>
  An element is removed by its handle, whose neighbours in the chain of its bucket and in the list of all
  elements are joined. The last one takes the table with it.
\<close>

definition HASH_DEL_IN_BKT :: "ut_handle \<Rightarrow> ut_bucket \<Rightarrow> ut_bucket" where
  "HASH_DEL_IN_BKT del b = b\<lparr>hh_head := remove1 del (hh_head b), bkt_count := bkt_count b - 1\<rparr>"

definition HASH_DELETE_HH :: "ut_handle \<Rightarrow> ut_table option \<Rightarrow> ut_error + ut_table option" where
  "HASH_DELETE_HH del head = (case head of None \<Rightarrow> Inl UT_foreign
     | Some tbl \<Rightarrow> if del \<notin> set (app_order tbl) then Inl UT_foreign
         else if app_order tbl = [del] then Inr None
         else let i = HASH_TO_BKT (hh_hashv del) (num_buckets tbl)
           in Inr (Some (tbl\<lparr>app_order := remove1 del (app_order tbl),
                buckets := (buckets tbl)[i := HASH_DEL_IN_BKT del (buckets tbl ! i)], num_items := num_items tbl - 1\<rparr>)))"

definition HASH_DELETE :: "ut_handle \<Rightarrow> ut_table option \<Rightarrow> ut_error + ut_table option" where
  "HASH_DELETE delptr head = HASH_DELETE_HH delptr head"

definition HASH_REPLACE_BYHASHVALUE ::
  "(nat \<Rightarrow> bool) \<Rightarrow> string \<Rightarrow> u32 \<Rightarrow> u32 \<Rightarrow> ptr \<Rightarrow> ut_table option \<Rightarrow> ut_error + ut_handle option \<times> ut_table option" where
  "HASH_REPLACE_BYHASHVALUE mem key keylen hashval elm head =
     (let replaced = HASH_FIND_BYHASHVALUE head key keylen hashval
      in case (case replaced of None \<Rightarrow> Inr head | Some h \<Rightarrow> HASH_DELETE h head) of
           Inl e \<Rightarrow> Inl e
         | Inr head' \<Rightarrow> map_sum id (Pair replaced) (HASH_ADD_KEYPTR_BYHASHVALUE mem key keylen hashval elm head'))"

definition HASH_REPLACE ::
  "(nat \<Rightarrow> bool) \<Rightarrow> string \<Rightarrow> u32 \<Rightarrow> ptr \<Rightarrow> ut_table option \<Rightarrow> ut_error + ut_handle option \<times> ut_table option" where
  "HASH_REPLACE mem key keylen elm head = HASH_REPLACE_BYHASHVALUE mem key keylen (HASH_JEN key keylen) elm head"

definition HASH_REPLACE_STR ::
  "(nat \<Rightarrow> bool) \<Rightarrow> string \<Rightarrow> ptr \<Rightarrow> ut_table option \<Rightarrow> ut_error + ut_handle option \<times> ut_table option" where
  "HASH_REPLACE_STR mem key elm head = HASH_REPLACE mem key (of_nat (length key)) elm head"

definition HASH_CLEAR :: "ut_table option \<Rightarrow> ut_table option" where
  "HASH_CLEAR head = None"

definition HASH_CNT :: "ut_table option \<Rightarrow> u32" where
  "HASH_CNT head = (case head of None \<Rightarrow> 0 | Some tbl \<Rightarrow> num_items tbl)"

definition sizeof_handle :: size_t where
  "sizeof_handle = 56"

definition HASH_OVERHEAD :: "ut_table option \<Rightarrow> size_t" where
  "HASH_OVERHEAD head = (case head of None \<Rightarrow> 0
     | Some tbl \<Rightarrow> ucast (num_items tbl) * sizeof_handle + ucast (num_buckets tbl) * of_nat sizeof_bucket + of_nat sizeof_table)"

section \<open>Ordered addition\<close>

text \<open>\<open>HASH_AKBI_INNER_LOOP\<close> stops before the first element that is greater than the new one.\<close>

primrec akbi_insert :: "(ut_handle \<Rightarrow> ut_handle \<Rightarrow> int) \<Rightarrow> ut_handle \<Rightarrow> ut_handle list \<Rightarrow> ut_handle list" where
  "akbi_insert cmpfcn add [] = [add]"
| "akbi_insert cmpfcn add (it # rest) = (if cmpfcn it add > 0 then add # it # rest else it # akbi_insert cmpfcn add rest)"

definition HASH_ADD_KEYPTR_BYHASHVALUE_INORDER ::
  "(nat \<Rightarrow> bool) \<Rightarrow> (ut_handle \<Rightarrow> ut_handle \<Rightarrow> int) \<Rightarrow> string \<Rightarrow> u32 \<Rightarrow> u32 \<Rightarrow> ptr \<Rightarrow> ut_table option \<Rightarrow> ut_error + ut_table option" where
  "HASH_ADD_KEYPTR_BYHASHVALUE_INORDER mem cmpfcn key keylen hashval elm head =
     (let add = new_handle key keylen hashval elm
      in case (case head of None \<Rightarrow> HASH_MAKE_TABLE mem add
                 | Some tbl \<Rightarrow> Inr (tbl\<lparr>app_order := akbi_insert cmpfcn add (app_order tbl)\<rparr>)) of
           Inl e \<Rightarrow> Inl e
         | Inr tbl \<Rightarrow> map_sum id Some (HASH_ADD_TO_TABLE mem add tbl))"

definition HASH_ADD_KEYPTR_INORDER ::
  "(nat \<Rightarrow> bool) \<Rightarrow> (ut_handle \<Rightarrow> ut_handle \<Rightarrow> int) \<Rightarrow> string \<Rightarrow> u32 \<Rightarrow> ptr \<Rightarrow> ut_table option \<Rightarrow> ut_error + ut_table option" where
  "HASH_ADD_KEYPTR_INORDER mem cmpfcn key keylen elm head =
     HASH_ADD_KEYPTR_BYHASHVALUE_INORDER mem cmpfcn key keylen (HASH_JEN key keylen) elm head"

definition HASH_REPLACE_BYHASHVALUE_INORDER ::
  "(nat \<Rightarrow> bool) \<Rightarrow> (ut_handle \<Rightarrow> ut_handle \<Rightarrow> int) \<Rightarrow> string \<Rightarrow> u32 \<Rightarrow> u32 \<Rightarrow> ptr \<Rightarrow> ut_table option
    \<Rightarrow> ut_error + ut_handle option \<times> ut_table option" where
  "HASH_REPLACE_BYHASHVALUE_INORDER mem cmpfcn key keylen hashval elm head =
     (let replaced = HASH_FIND_BYHASHVALUE head key keylen hashval
      in case (case replaced of None \<Rightarrow> Inr head | Some h \<Rightarrow> HASH_DELETE h head) of
           Inl e \<Rightarrow> Inl e
         | Inr head' \<Rightarrow> map_sum id (Pair replaced) (HASH_ADD_KEYPTR_BYHASHVALUE_INORDER mem cmpfcn key keylen hashval elm head'))"

definition HASH_REPLACE_INORDER ::
  "(nat \<Rightarrow> bool) \<Rightarrow> (ut_handle \<Rightarrow> ut_handle \<Rightarrow> int) \<Rightarrow> string \<Rightarrow> u32 \<Rightarrow> ptr \<Rightarrow> ut_table option
    \<Rightarrow> ut_error + ut_handle option \<times> ut_table option" where
  "HASH_REPLACE_INORDER mem cmpfcn key keylen elm head =
     HASH_REPLACE_BYHASHVALUE_INORDER mem cmpfcn key keylen (HASH_JEN key keylen) elm head"

section \<open>Sorting\<close>

text \<open>
  \<open>HASH_SRT\<close> sorts the list of all elements from the bottom up: each pass merges neighbouring runs of
  \<open>insize\<close> elements and doubles the size, until a pass needs one merge. The size wraps around to 0 after
  \<open>2 ^ 31\<close>, and a pass over runs of no elements does not end.
\<close>

fun srt_merge :: "('e \<Rightarrow> 'e \<Rightarrow> int) \<Rightarrow> 'e list \<Rightarrow> 'e list \<Rightarrow> 'e list" where
  "srt_merge cmp [] qs = qs"
| "srt_merge cmp ps [] = ps"
| "srt_merge cmp (p # ps) (q # qs) = (if cmp p q \<le> 0 then p # srt_merge cmp ps (q # qs) else q # srt_merge cmp (p # ps) qs)"

function srt_pass :: "('e \<Rightarrow> 'e \<Rightarrow> int) \<Rightarrow> nat \<Rightarrow> 'e list \<Rightarrow> 'e list \<times> nat" where
  "srt_pass cmp k xs = (if xs = [] \<or> k = 0 then ([], 0)
     else case srt_pass cmp k (drop (k + k) xs) of (ys, n) \<Rightarrow>
       (srt_merge cmp (take k xs) (take k (drop k xs)) @ ys, Suc n))"
  by pat_completeness auto
termination
  by (relation "measure (\<lambda>(cmp, k, xs). length xs)") auto

declare srt_pass.simps [simp del]

partial_function (option) srt_loop :: "('e \<Rightarrow> 'e \<Rightarrow> int) \<Rightarrow> u32 \<Rightarrow> 'e list \<Rightarrow> 'e list option" where
  "srt_loop cmp insize xs = (if insize = 0 \<and> xs \<noteq> [] then None
     else case srt_pass cmp (unat insize) xs of (ys, nmerges) \<Rightarrow>
       if of_nat nmerges \<le> (1 :: u32) then Some ys else srt_loop cmp (insize * 2) ys)"

definition HASH_SRT :: "(ut_handle \<Rightarrow> ut_handle \<Rightarrow> int) \<Rightarrow> ut_table option \<Rightarrow> ut_table option option" where
  "HASH_SRT cmpfcn head = (case head of None \<Rightarrow> Some None
     | Some tbl \<Rightarrow> map_option (\<lambda>xs. Some (tbl\<lparr>app_order := xs\<rparr>)) (srt_loop cmpfcn 1 (app_order tbl)))"

section \<open>Iteration\<close>

text \<open>
  \<open>HASH_ITER\<close> reads the element behind the current one before its body runs, so that the body may remove
  the current element. The fuel bounds the number of turns.
\<close>

fun next_in :: "ut_handle \<Rightarrow> ut_handle list \<Rightarrow> ut_handle option" where
  "next_in h [] = None"
| "next_in h [x] = None"
| "next_in h (x # y # rest) = (if x = h then Some y else next_in h (y # rest))"

definition hh_next_of :: "ut_handle option \<Rightarrow> ut_table option \<Rightarrow> ut_handle option" where
  "hh_next_of el head = (case (el, head) of (Some h, Some tbl) \<Rightarrow> next_in h (app_order tbl) | _ \<Rightarrow> None)"

definition hh_first :: "ut_table option \<Rightarrow> ut_handle option" where
  "hh_first head = (case head of None \<Rightarrow> None | Some tbl \<Rightarrow> (case app_order tbl of [] \<Rightarrow> None | h # _ \<Rightarrow> Some h))"

primrec iter_from :: "(ut_handle \<Rightarrow> ut_table option \<Rightarrow> ut_error + ut_table option) \<Rightarrow> nat
    \<Rightarrow> ut_handle option \<Rightarrow> ut_handle option \<Rightarrow> ut_table option \<Rightarrow> (ut_error + ut_table option) option" where
  "iter_from body 0 el tmp head = None"
| "iter_from body (Suc n) el tmp head = (case el of None \<Rightarrow> Some (Inr head)
     | Some h \<Rightarrow> (case body h head of Inl e \<Rightarrow> Some (Inl e)
         | Inr head' \<Rightarrow> iter_from body n tmp (hh_next_of tmp head') head'))"

definition HASH_ITER :: "nat \<Rightarrow> (ut_handle \<Rightarrow> ut_table option \<Rightarrow> ut_error + ut_table option)
    \<Rightarrow> ut_table option \<Rightarrow> (ut_error + ut_table option) option" where
  "HASH_ITER n body head = iter_from body n (hh_first head) (hh_next_of (hh_first head) head) head"

section \<open>Selection\<close>

text \<open>
  \<open>HASH_SELECT\<close> links the chosen elements into another table. It keeps no account of the tail of that
  table: \<open>HASH_MAKE_TABLE\<close> sets it to the first element that is chosen, and it stays there. Chosen elements
  follow one another, but the first of them is not linked to what a table that was there before held; from
  the head of such a table they are not reached. A table comes with its tail here.
\<close>

primrec select_items :: "(nat \<Rightarrow> bool) \<Rightarrow> bool \<Rightarrow> ut_handle list \<Rightarrow> (ut_table \<times> ut_handle) option
    \<Rightarrow> ut_error + (ut_table \<times> ut_handle) option" where
  "select_items mem linked [] dst = Inr dst"
| "select_items mem linked (h # hs) dst =
     (case (case dst of None \<Rightarrow> map_sum id (\<lambda>t. (t, h)) (HASH_MAKE_TABLE mem h)
              | Some (t, tail) \<Rightarrow> Inr (if linked then HASH_APPEND_LIST h t else t, tail)) of
        Inl e \<Rightarrow> Inl e
      | Inr (t, tail) \<Rightarrow> (case HASH_ADD_TO_BKT mem (HASH_TO_BKT (hh_hashv h) (num_buckets t)) h t of
          Inl e \<Rightarrow> Inl e
        | Inr t' \<Rightarrow> select_items mem linked hs (Some (t'\<lparr>num_items := num_items t' + 1\<rparr>, tail))))"

definition HASH_SELECT :: "(nat \<Rightarrow> bool) \<Rightarrow> (ptr \<Rightarrow> bool) \<Rightarrow> ut_table option \<Rightarrow> (ut_table \<times> ut_handle) option
    \<Rightarrow> ut_error + (ut_table \<times> ut_handle) option" where
  "HASH_SELECT mem cond src dst = (case src of None \<Rightarrow> Inr dst
     | Some tbl \<Rightarrow> select_items mem (dst = None) (filter (\<lambda>h. cond (hh_sym h)) (chained (buckets tbl))) dst)"

text \<open>\<open>HASH_APPEND_LIST\<close> where the tail is not the last element: what followed the tail is cut off.\<close>

primrec append_behind :: "ut_handle \<Rightarrow> ut_handle \<Rightarrow> ut_handle list \<Rightarrow> ut_handle list" where
  "append_behind tail add [] = [add]"
| "append_behind tail add (h # hs) = (if h = tail then [h, add] else h # append_behind tail add hs)"

definition HASH_ADD_BEHIND :: "(nat \<Rightarrow> bool) \<Rightarrow> string \<Rightarrow> ptr \<Rightarrow> ut_table \<times> ut_handle \<Rightarrow> ut_error + ut_table \<times> ut_handle" where
  "HASH_ADD_BEHIND mem key elm dst = (case dst of (t, tail) \<Rightarrow>
     let add = new_handle key (of_nat (length key)) (HASH_JEN key (of_nat (length key))) elm
     in map_sum id (\<lambda>t. (t, add)) (HASH_ADD_TO_TABLE mem add (t\<lparr>app_order := append_behind tail add (app_order t)\<rparr>)))"

end
