(* ===== verification/BL_Array_Props.thy ===== *)
theory BL_Array_Props
  imports BL_Utarray
begin

text \<open>
  The dynamic arrays implement lists: every sequence of operations that a specification on lists allows is
  carried out, with the same elements and the same effects on the client. Growth ends unless more than
  \<open>2 ^ 31\<close> elements are asked for.
\<close>

section \<open>Growth\<close>

definition slots_count :: "u32 \<Rightarrow> bool" where
  "slots_count n \<longleftrightarrow> n = 0 \<or> (\<exists>k \<ge> 3. k \<le> 31 \<and> n = 2 ^ k)"

lemma slots_count_step: "slots_count n \<Longrightarrow> slots_count (if n \<noteq> 0 then 2 * n else 8)"
proof -
  have top: "2 * 2 ^ 31 = (0 :: u32)" by simp
  assume "slots_count n"
  then consider "n = 0" | k where "k \<ge> 3" "k \<le> 31" "n = 2 ^ k" unfolding slots_count_def by blast
  then show ?thesis
  proof cases
    case 1
    then show ?thesis unfolding slots_count_def by (auto intro!: exI [of _ 3])
  next
    case (2 k)
    show ?thesis
    proof (cases "k = 31")
      case True
      then show ?thesis using top 2 unfolding slots_count_def by simp
    next
      case False
      have "slots_count (2 ^ Suc k)" unfolding slots_count_def using 2 False by (intro disjI2 exI [of _ "Suc k"]) simp
      moreover have "slots_count 8" unfolding slots_count_def by (intro disjI2 exI [of _ 3]) simp
      ultimately show ?thesis using 2 by simp
    qed
  qed
qed

lemma slots_count_le: "slots_count n \<Longrightarrow> n \<le> 2 ^ 31"
proof -
  assume "slots_count n"
  then consider "n = 0" | k where "k \<le> 31" "n = 2 ^ k" unfolding slots_count_def by blast
  then show ?thesis
  proof cases
    case (2 k)
    have "unat (2 ^ k :: u32) \<le> unat (2 ^ 31 :: u32)"
      using 2(1) by (simp add: unat_two_power power_increasing del: power_numeral)
    then show ?thesis using 2(2) by (simp add: word_le_nat_alt del: power_numeral)
  qed simp
qed

text \<open>When the loop ends, the number of slots is one that it can take, and suffices.\<close>

lemma grow_result:
  assumes "grow need n = Some m"
  shows "slots_count n \<longrightarrow> slots_count m \<and> need \<le> m"
proof (rule grow.raw_induct [OF _ assms])
  fix g :: "u32 \<Rightarrow> u32 \<Rightarrow> u32 option" and need n m
  assume IH: "\<And>x y r. g x y = Some r \<Longrightarrow> slots_count y \<longrightarrow> slots_count r \<and> x \<le> r"
    and run: "(if n < need then g need (if n \<noteq> 0 then 2 * n else 8) else Some n) = Some m"
  show "slots_count n \<longrightarrow> slots_count m \<and> need \<le> m"
  proof (cases "n < need")
    case True
    with run have "g need (if n \<noteq> 0 then 2 * n else 8) = Some m" by simp
    then show ?thesis using IH slots_count_step by blast
  next
    case False
    then have "need \<le> n" by (simp add: not_less)
    then show ?thesis using False run by simp
  qed
qed

lemma grow_loops: "need > 2 ^ 31 \<Longrightarrow> slots_count n \<Longrightarrow> grow need n = None"
proof (rule ccontr)
  assume need: "need > 2 ^ 31" "slots_count n" and "grow need n \<noteq> None"
  then obtain m where "grow need n = Some m" by blast
  from grow_result [OF this] need(2) have "slots_count m" "need \<le> m" by blast+
  then have "need \<le> 2 ^ 31" using slots_count_le order_trans by blast
  with need(1) show False by (simp only: not_less)
qed

lemma grow_power:
  assumes "need \<le> 2 ^ 31" "k \<ge> 3" "k \<le> 31"
  shows "\<exists>m. grow need (2 ^ k) = Some m"
  using assms(2,3)
proof (induction "31 - k" arbitrary: k)
  case 0
  then have "k = 31" by simp
  moreover have "\<not> need > 2 ^ 31" using assms(1) by (simp only: not_less)
  ultimately show ?case by (subst grow.simps) (simp only: if_False, blast)
next
  case (Suc d)
  have "(2 :: u32) ^ k \<noteq> 0" using unat_two_power [of k] Suc.prems by (metis unat_0 power_not_zero zero_neq_numeral)
  moreover have "\<exists>m. grow need (2 ^ Suc k) = Some m" by (rule Suc.hyps(1)) (use Suc.hyps(2) Suc.prems in simp_all)
  ultimately show ?case by (subst grow.simps) simp
qed

lemma grow_ends:
  assumes "need \<le> 2 ^ 31" "slots_count n"
  shows "\<exists>m. grow need n = Some m"
proof -
  consider "n = 0" | k where "k \<ge> 3" "k \<le> 31" "n = 2 ^ k" using assms(2) unfolding slots_count_def by blast
  then show ?thesis
  proof cases
    case 1
    have "\<exists>m. grow need 8 = Some m" using grow_power [OF assms(1), of 3] by simp
    then show ?thesis using 1 by (subst grow.simps) simp
  next
    case 2
    then show ?thesis using grow_power [OF assms(1)] by simp
  qed
qed

section \<open>Arrays as lists\<close>

definition sizes_ok :: "('e, 'w) UT_array \<Rightarrow> bool" where
  "sizes_ok a \<longleftrightarrow> slots_count (ut_n a) \<and> length (ut_d a) = unat (ut_n a)
     \<and> 0 < icd_sz (ut_icd a) \<and> icd_sz (ut_icd a) < 2 ^ 32"

definition repr :: "('e, 'w) UT_array \<Rightarrow> 'e list \<Rightarrow> bool" where
  "repr a xs \<longleftrightarrow> sizes_ok a \<and> (\<exists>rest. ut_d a = map Some xs @ rest) \<and> length xs = unat (ut_i a)"

lemma reserved_slots:
  assumes "0 < sz" "sz < (2 ^ 32 :: size_t)"
  shows "unat (ucast (n :: u32) * sz) div unat sz = unat n"
proof -
  have sz: "unat sz < 2 ^ 32" "0 < unat sz" using assms by (simp_all add: word_less_nat_alt)
  have n: "unat n < 2 ^ 32" using unsigned_less [of n] by simp
  then have "unat n * unat sz < 2 ^ 32 * 2 ^ 32" using sz(1) by (intro mult_strict_mono) auto
  moreover have "take_bit 64 (unat n) = unat n" by (rule take_bit_nat_eq_self) (use n in simp)
  ultimately have "unat (ucast n * sz) = unat n * unat sz"
    by (simp add: unat_word_ariths unsigned_ucast_eq)
  then show ?thesis using sz(2) by simp
qed

lemma reserve_spec:
  assumes "repr a xs" "length xs + unat by \<le> 2 ^ 31"
  shows "\<exists>b. utarray_reserve (\<lambda>_. True) by a = Ua_ok b \<and> repr b xs \<and> length xs + unat by \<le> length (ut_d b)
    \<and> ut_icd b = ut_icd a \<and> ut_i b = ut_i a"
proof -
  obtain rest where a: "sizes_ok a" "ut_d a = map Some xs @ rest" "length xs = unat (ut_i a)"
    using assms(1) unfolding repr_def by blast
  have sum: "unat (ut_i a + by) = length xs + unat by" using assms(2) a(3) by (simp add: unat_word_ariths)
  show ?thesis
  proof (cases "ut_i a + by > ut_n a")
    case False
    then have "length xs + unat by \<le> length (ut_d a)"
      using sum a(1) by (simp add: sizes_ok_def word_less_nat_alt del: length_append)
    then show ?thesis using False assms(1) by (auto simp: utarray_reserve_def)
  next
    case True
    have "ut_i a + by \<le> 2 ^ 31" using sum assms(2) by (simp add: word_le_nat_alt)
    then obtain m where m: "grow (ut_i a + by) (ut_n a) = Some m"
      using grow_ends a(1) by (auto simp: sizes_ok_def)
    then have m': "slots_count m" "ut_i a + by \<le> m" using grow_result a(1) by (auto simp: sizes_ok_def)
    have n: "unat (ucast m * icd_sz (ut_icd a)) div unat (icd_sz (ut_icd a)) = unat m"
      using reserved_slots a(1) by (auto simp: sizes_ok_def)
    have "length (ut_d a) \<le> unat m"
      using a(1) True m'(2) by (simp add: sizes_ok_def word_le_nat_alt word_less_nat_alt)
    then have d: "take (unat m) (ut_d a) = ut_d a" by simp
    let ?b = "a\<lparr>ut_n := m, ut_d := ut_d a @ replicate (unat m - length (ut_d a)) None\<rparr>"
    have "utarray_reserve (\<lambda>_. True) by a = Ua_ok ?b" using True m n d by (simp add: utarray_reserve_def Let_def)
    moreover have "repr ?b xs" using a m'(1) \<open>length (ut_d a) \<le> unat m\<close> by (auto simp: repr_def sizes_ok_def)
    ultimately show ?thesis using m'(2) sum \<open>length (ut_d a) \<le> unat m\<close> by (auto simp: word_le_nat_alt)
  qed
qed

section \<open>The loops over elements\<close>

text \<open>What a loop that makes elements, or destroys them, does to the state of the client.\<close>

primrec gen :: "('i \<Rightarrow> 'w \<Rightarrow> ('e \<times> 'w) ua_result) \<Rightarrow> 'i list \<Rightarrow> 'w \<Rightarrow> ('e list \<times> 'w) ua_result" where
  "gen mk [] w = Ua_ok ([], w)"
| "gen mk (k # ks) w = ua_bind (mk k w) (\<lambda>(x, v). ua_bind (gen mk ks v) (\<lambda>(xs, u). Ua_ok (x # xs, u)))"

definition copied :: "('e, 'w) UT_icd \<Rightarrow> 'e \<Rightarrow> 'w \<Rightarrow> ('e \<times> 'w) ua_result" where
  "copied c p w = (case icd_copy c of Some f \<Rightarrow> f p w | None \<Rightarrow> Ua_ok (p, w))"

definition made :: "('e, 'w) UT_icd \<Rightarrow> 'w \<Rightarrow> ('e \<times> 'w) ua_result" where
  "made c w = (case icd_init c of Some f \<Rightarrow> f w | None \<Rightarrow> Ua_ok (icd_zero c, w))"

primrec destroyed :: "('e, 'w) UT_icd \<Rightarrow> 'e list \<Rightarrow> 'w \<Rightarrow> 'w ua_result" where
  "destroyed c [] w = Ua_ok w"
| "destroyed c (x # xs) w = ua_bind (case icd_dtor c of None \<Rightarrow> Ua_ok w | Some f \<Rightarrow> f x w) (destroyed c xs)"

lemma ua_bind_assoc: "ua_bind (ua_bind r f) g = ua_bind r (\<lambda>x. ua_bind (f x) g)"
  by (cases r) simp_all

lemma ua_bind_split: "ua_bind r (\<lambda>p. ua_bind (case p of (x, v) \<Rightarrow> f x v) g) = ua_bind r (\<lambda>(x, v). ua_bind (f x v) g)"
  by (cases r) (simp_all split: prod.split)

lemma ua_bind_ok [simp]: "ua_bind r Ua_ok = r"
  by (cases r) simp_all

lemma ua_bind_eq_ok: "ua_bind r f = Ua_ok y \<longleftrightarrow> (\<exists>x. r = Ua_ok x \<and> f x = Ua_ok y)"
  by (cases r) simp_all

lemma ua_each_Nil [simp]: "ua_each f [] = Ua_ok"
  by (simp add: fun_eq_iff)

lemma destroyed_Nil [simp]: "destroyed c [] = Ua_ok"
  by (simp add: fun_eq_iff)

lemma gen_length: "gen mk ks w = Ua_ok (xs, v) \<Longrightarrow> length xs = length ks"
  by (induction ks arbitrary: w xs v) (auto simp: ua_bind_eq_ok)

lemma gen_nth: "gen mk xs w = gen (\<lambda>m. mk (xs ! m)) [0..<length xs] w"
proof -
  have "gen mk (map g ks) w = gen (\<lambda>m. mk (g m)) ks w" for g and ks :: "nat list"
    by (induction ks arbitrary: w) simp_all
  from this [of "(!) xs" "[0..<length xs]"] show ?thesis by (simp add: map_nth)
qed

lemma copy_into_eq: "copy_into p j (a, w) = ua_bind (copied (ut_icd a) p w) (\<lambda>(x, v). ua_bind (set_slot j x a) (\<lambda>b. Ua_ok (b, v)))"
  by (simp add: copy_into_def copied_def)

lemma init_at_eq: "init_at j (a, w) = ua_bind (made (ut_icd a) w) (\<lambda>(x, v). ua_bind (set_slot j x a) (\<lambda>b. Ua_ok (b, v)))"
  by (simp add: init_at_def made_def)

lemma set_slot_gap:
  "ut_d a = pre @ g # post \<Longrightarrow> set_slot (length pre) x a = Ua_ok (a\<lparr>ut_d := pre @ Some x # post\<rparr>)"
  by (simp add: set_slot_def)

text \<open>A loop that writes consecutive slots fills the gap.\<close>

lemma fill_gap:
  assumes "\<And>m b v. m < length ks \<Longrightarrow> ut_icd b = c \<Longrightarrow> f (ks ! m) (b, v) =
      ua_bind (mk (ks ! m) v) (\<lambda>(x, u). ua_bind (set_slot (length pre + m) x b) (\<lambda>b. Ua_ok (b, u)))"
    and "ut_icd a = c" "ut_d a = pre @ gap @ post" "length gap = length ks" "gen mk ks w = Ua_ok (ys, u)"
  shows "ua_each f ks (a, w) = Ua_ok (a\<lparr>ut_d := pre @ map Some ys @ post\<rparr>, u)"
  using assms
proof (induction ks arbitrary: a w pre gap ys)
  case (Cons k ks)
  obtain g gs where gap: "gap = g # gs" using Cons.prems(4) by (cases gap) auto
  obtain x v zs where x: "mk k w = Ua_ok (x, v)" "gen mk ks v = Ua_ok (zs, u)" "ys = x # zs"
    using Cons.prems(5) by (auto simp: ua_bind_eq_ok)
  let ?b = "a\<lparr>ut_d := pre @ Some x # gs @ post\<rparr>"
  have "f k (a, w) = Ua_ok (?b, v)"
    using Cons.prems(1) [of 0 a w] Cons.prems(2,3) gap x(1) set_slot_gap [of a pre g "gs @ post" x] by simp
  moreover have "ua_each f ks (?b, v) = Ua_ok (?b\<lparr>ut_d := (pre @ [Some x]) @ map Some zs @ post\<rparr>, u)"
  proof (rule Cons.IH)
    show "f (ks ! m) (b, t) = ua_bind (mk (ks ! m) t) (\<lambda>(x, u). ua_bind (set_slot (length (pre @ [Some x']) + m) x b) (\<lambda>b. Ua_ok (b, u)))"
      if "m < length ks" "ut_icd b = c" for m b t and x' using Cons.prems(1) [of "Suc m" b t] that by simp
  qed (use Cons.prems gap x(2) in auto)
  ultimately show ?case by (simp add: x(3))
qed simp

lemma destroy_loop:
  assumes "ut_d a = map Some xs @ rest" "n \<le> length xs" "m \<le> n"
  shows "ua_each destroy [m..<n] (a, w) = ua_bind (destroyed (ut_icd a) (drop m (take n xs)) w) (\<lambda>v. Ua_ok (a, v))"
  using assms(3)
proof (induction "n - m" arbitrary: m w)
  case (Suc d)
  then have m: "m < n" "[m..<n] = m # [Suc m..<n]" by (simp_all add: upt_conv_Cons)
  have x: "drop m (take n xs) = xs ! m # drop (Suc m) (take n xs)" using m(1) assms(2) by (simp add: Cons_nth_drop_Suc [symmetric])
  have "slot m (ut_d a) = Ua_ok (xs ! m)" using assms(1,2) m(1) by (simp add: slot_def nth_append)
  then show ?case using Suc.hyps(1) [of "Suc m"] Suc.hyps(2) m
    by (cases "icd_dtor (ut_icd a)") (simp_all add: x destroy_def ua_bind_assoc)
qed simp

section \<open>The specification\<close>

text \<open>
  The operations that change an array, on the list of its elements. A length above \<open>2 ^ 31\<close>, the removal of
  elements that are not there, and the elements of an array that was never written have no outcome here.
\<close>

datatype ('e, 'w) array_op =
    Push_back 'e
  | Pop_back
  | Extend_back
  | Resize u32
  | Insert 'e u32
  | Insert_array "('e, 'w) UT_array" u32
  | Concat "('e, 'w) UT_array"
  | Erase u32 u32
  | Clear

abbreviation (input) longest_array :: nat where
  "longest_array \<equiv> 2 ^ 31"

definition list_resize :: "('e, 'w) UT_icd \<Rightarrow> nat \<Rightarrow> 'e list \<times> 'w \<Rightarrow> ('e list \<times> 'w) ua_result" where
  "list_resize c num st = (case st of (xs, w) \<Rightarrow>
     if num \<le> length xs then ua_bind (destroyed c (drop num xs) w) (\<lambda>v. Ua_ok (take num xs, v))
     else if num \<le> longest_array
     then ua_bind (gen (\<lambda>_. made c) [length xs..<num] w) (\<lambda>(ys, v). Ua_ok (xs @ ys, v)) else Ua_loops)"

text \<open>Copies of elements at an index; a list that is too short is extended first.\<close>

definition list_insert :: "('e, 'w) UT_icd \<Rightarrow> 'e list \<Rightarrow> nat \<Rightarrow> 'e list \<times> 'w \<Rightarrow> ('e list \<times> 'w) ua_result" where
  "list_insert c ps j st =
     ua_bind (if j > length (fst st) then list_resize c j st else Ua_ok st) (\<lambda>(xs, w).
     if length xs + length ps \<le> longest_array
     then ua_bind (gen (copied c) ps w) (\<lambda>(ys, v). Ua_ok (take j xs @ ys @ drop j xs, v)) else Ua_loops)"

definition list_insert_array ::
  "('e, 'w) UT_icd \<Rightarrow> ('e, 'w) UT_array \<Rightarrow> nat \<Rightarrow> 'e list \<times> 'w \<Rightarrow> ('e list \<times> 'w) ua_result" where
  "list_insert_array c src j st = (case elements src of None \<Rightarrow> Ua_fault
     | Some ps \<Rightarrow> if length ps \<noteq> unat (ut_i src) then Ua_fault
         else if ps = [] then Ua_ok st else list_insert c ps j st)"

primrec list_op :: "('e, 'w) UT_icd \<Rightarrow> ('e, 'w) array_op \<Rightarrow> 'e list \<times> 'w \<Rightarrow> ('e list \<times> 'w) ua_result" where
  "list_op c (Push_back p) st = list_insert c [p] (length (fst st)) st"
| "list_op c Pop_back st = (if fst st = [] then Ua_fault
     else ua_bind (destroyed c [last (fst st)] (snd st)) (\<lambda>v. Ua_ok (butlast (fst st), v)))"
| "list_op c Extend_back st = list_resize c (length (fst st) + 1) st"
| "list_op c (Resize num) st = list_resize c (unat num) st"
| "list_op c (Insert p j) st = list_insert c [p] (unat j) st"
| "list_op c (Insert_array src j) st = list_insert_array c src (unat j) st"
| "list_op c (Concat src) st = list_insert_array c src (length (fst st)) st"
| "list_op c (Erase pos len) st = (if unat pos + unat len > length (fst st) then Ua_fault
     else ua_bind (destroyed c (take (unat len) (drop (unat pos) (fst st))) (snd st)) (\<lambda>v.
       Ua_ok (take (unat pos) (fst st) @ drop (unat pos + unat len) (fst st), v)))"
| "list_op c Clear st = list_resize c 0 st"

primrec perform :: "(nat \<Rightarrow> bool) \<Rightarrow> ('e, 'w) array_op \<Rightarrow> ('e, 'w) ua_state \<Rightarrow> ('e, 'w) ua_state ua_result" where
  "perform mem (Push_back p) = utarray_push_back mem p"
| "perform mem Pop_back = utarray_pop_back"
| "perform mem Extend_back = utarray_extend_back mem"
| "perform mem (Resize num) = utarray_resize mem num"
| "perform mem (Insert p j) = utarray_insert mem p j"
| "perform mem (Insert_array src j) = utarray_inserta mem src j"
| "perform mem (Concat src) = utarray_concat mem src"
| "perform mem (Erase pos len) = utarray_erase pos len"
| "perform mem Clear = utarray_clear"

section \<open>Every operation implements its specification\<close>

text \<open>The array of the outcome holds the list of the outcome, and the state of the client is the same.\<close>

definition implements :: "('e, 'w) UT_icd \<Rightarrow> ('e, 'w) ua_state ua_result \<Rightarrow> ('e list \<times> 'w) ua_result \<Rightarrow> bool" where
  "implements c r q \<longleftrightarrow> (\<forall>ys v. q = Ua_ok (ys, v) \<longrightarrow> (\<exists>b. r = Ua_ok (b, v) \<and> repr b ys \<and> ut_icd b = c))"

abbreviation (input) all_memory :: "nat \<Rightarrow> bool" where
  "all_memory \<equiv> \<lambda>_. True"

lemma repr_slots: "repr a xs \<Longrightarrow> length xs \<le> length (ut_d a)"
  by (auto simp: repr_def)

lemma repr_bound: "repr a xs \<Longrightarrow> length xs \<le> longest_array"
proof -
  assume r: "repr a xs"
  then have "length (ut_d a) \<le> unat (2 ^ 31 :: u32)"
    using slots_count_le [of "ut_n a"] by (simp add: repr_def sizes_ok_def word_le_nat_alt)
  then show ?thesis using repr_slots [OF r] by simp
qed

lemma repr_index: "repr a xs \<Longrightarrow> ut_i a = of_nat (length xs)"
  by (simp add: repr_def)

lemma repr_update:
  assumes "repr a xs" "length d = length (ut_d a)" "d = map Some ys @ rest" "unat i = length ys"
  shows "repr (a\<lparr>ut_d := d, ut_i := i\<rparr>) ys"
  using assms by (auto simp: repr_def sizes_ok_def)

lemma truncate_spec:
  assumes "repr a xs" "unat num \<le> length xs"
  shows "repr (a\<lparr>ut_i := num\<rparr>) (take (unat num) xs)"
proof -
  obtain rest where "ut_d a = map Some xs @ rest" using assms(1) by (auto simp: repr_def)
  then have "ut_d a = map Some (take (unat num) xs) @ map Some (drop (unat num) xs) @ rest"
    by (metis append.assoc append_take_drop_id map_append)
  then show ?thesis using assms by (auto simp: repr_def sizes_ok_def)
qed

lemma resize_spec:
  assumes r: "repr a xs"
  shows "implements (ut_icd a) (utarray_resize all_memory num (a, w)) (list_resize (ut_icd a) (unat num) (xs, w))"
proof -
  obtain rest where a: "ut_d a = map Some xs @ rest" "length xs = unat (ut_i a)" using r by (auto simp: repr_def)
  consider "num < ut_i a" | "num = ut_i a" | "num > ut_i a" by (rule linorder_cases)
  then show ?thesis
  proof cases
    case 1
    then have lt: "unat num < length xs" using a(2) by (simp add: word_less_nat_alt)
    have "utarray_resize all_memory num (a, w) = ua_bind (destroyed (ut_icd a) (drop (unat num) xs) w) (\<lambda>v. Ua_ok (a\<lparr>ut_i := num\<rparr>, v))"
      using 1 destroy_loop [OF a(1), of "length xs" "unat num" w] lt a(2) by (simp add: utarray_resize_def ua_bind_assoc)
    then show ?thesis using truncate_spec [OF r, of num] lt by (auto simp: implements_def list_resize_def ua_bind_eq_ok)
  next
    case 2
    then show ?thesis using r a(2) by (auto simp: implements_def list_resize_def utarray_resize_def)
  next
    case 3
    then have lt: "length xs < unat num" using a(2) by (simp add: word_less_nat_alt)
    show ?thesis unfolding implements_def
    proof (intro allI impI)
      fix ys v
      assume "list_resize (ut_icd a) (unat num) (xs, w) = Ua_ok (ys, v)"
      then obtain zs where zs: "gen (\<lambda>_. made (ut_icd a)) [length xs..<unat num] w = Ua_ok (zs, v)" "ys = xs @ zs"
          "unat num \<le> longest_array"
        using lt by (auto simp: list_resize_def ua_bind_eq_ok split: if_splits)
      have room: "length xs + unat (num - ut_i a) = unat num" using 3 a(2) by (simp add: unat_sub_if' word_less_nat_alt)
      obtain b where b: "utarray_reserve all_memory (num - ut_i a) a = Ua_ok b" "repr b xs"
          "unat num \<le> length (ut_d b)" "ut_icd b = ut_icd a" "ut_i b = ut_i a"
        using reserve_spec [OF r, of "num - ut_i a"] zs(3) unfolding room by blast
      obtain gap where gap: "ut_d b = map Some xs @ gap" using b(2) by (auto simp: repr_def)
      let ?k = "unat num - length xs"
      have d: "ut_d b = map Some xs @ take ?k gap @ drop ?k gap" using gap by simp
      have len: "length zs = ?k" using gen_length [OF zs(1)] by simp
      have "ua_each init_at [length xs..<unat num] (b, w) = Ua_ok (b\<lparr>ut_d := map Some xs @ map Some zs @ drop ?k gap\<rparr>, v)"
        by (rule fill_gap [OF _ b(4) d _ zs(1)]) (use lt b(3) gap in \<open>simp_all add: init_at_eq\<close>)
      then have "utarray_resize all_memory num (a, w) = Ua_ok (b\<lparr>ut_d := map Some xs @ map Some zs @ drop ?k gap, ut_i := num\<rparr>, v)"
        using 3 order_less_not_sym [OF 3] b(1,5) a(2) by (simp add: utarray_resize_def)
      moreover have "repr (b\<lparr>ut_d := map Some xs @ map Some zs @ drop ?k gap, ut_i := num\<rparr>) ys"
        by (rule repr_update [OF b(2), of _ _ "drop ?k gap"]) (use zs(2) len lt b(3) gap in simp_all)
      ultimately show "\<exists>b. utarray_resize all_memory num (a, w) = Ua_ok (b, v) \<and> repr b ys \<and> ut_icd b = ut_icd a"
        using b(4) by auto
    qed
  qed
qed

lemma open_gap_reserved:
  assumes r: "repr a xs" and j: "unat j \<le> length xs" and k: "length xs + unat k \<le> longest_array"
  shows "\<exists>b gap rest. open_gap all_memory j k (a, w) = Ua_ok (b, w)
    \<and> ut_d b = map Some (take (unat j) xs) @ gap @ map Some (drop (unat j) xs) @ rest \<and> length gap = unat k
    \<and> repr (b\<lparr>ut_d := map Some xs @ gap @ rest\<rparr>) xs \<and> ut_icd b = ut_icd a"
proof -
  have ji: "\<not> j > ut_i a" using r j by (simp add: repr_def word_less_nat_alt)
  obtain b where b: "utarray_reserve all_memory k a = Ua_ok b" "repr b xs"
      "length xs + unat k \<le> length (ut_d b)" "ut_icd b = ut_icd a" "ut_i b = ut_i a"
    using reserve_spec [OF r k] by blast
  obtain free where free: "ut_d b = map Some xs @ free" using b(2) by (auto simp: repr_def)
  then have room: "unat k \<le> length free" using b(3) by simp
  show ?thesis
  proof (cases "j < ut_i b")
    case False
    then have "unat j = length xs" using j b(2) by (simp add: repr_def word_less_nat_alt)
    then have "ut_d b = map Some (take (unat j) xs) @ take (unat k) free @ map Some (drop (unat j) xs) @ drop (unat k) free"
      using free by simp
    moreover have "open_gap all_memory j k (a, w) = Ua_ok (b, w)" using ji b(1) False by (simp add: open_gap_def)
    moreover have "repr (b\<lparr>ut_d := map Some xs @ take (unat k) free @ drop (unat k) free\<rparr>) xs"
      using b(2) free by (simp add: repr_def sizes_ok_def)
    ultimately show ?thesis using room b(4)
      by (intro exI [of _ b] exI [of _ "take (unat k) free"] exI [of _ "drop (unat k) free"]) simp
  next
    case True
    have jk: "unat (j + k) = unat j + unat k" using j k by (simp add: unat_word_ariths)
    have lt: "unat j < length xs" using True b(2) by (simp add: repr_def word_less_nat_alt)
    have n: "unat (ut_i b - j) = length xs - unat j"
      using True b(2) by (simp add: repr_def unat_sub_if' word_less_nat_alt)
    let ?gap = "take (unat k) (drop (unat j) (ut_d b))" and ?rest = "drop (unat k) free"
    have block: "take (length xs - unat j) (drop (unat j) (ut_d b)) = map Some (drop (unat j) xs)"
      using free j by (simp add: drop_map)
    have front: "take (unat j + unat k) (ut_d b) = map Some (take (unat j) xs) @ ?gap"
      using free j by (simp add: take_add take_map drop_map add.commute)
    have behind: "drop (unat j + unat k + (length xs - unat j)) (ut_d b) = ?rest" using free j by simp
    let ?b = "b\<lparr>ut_d := map Some (take (unat j) xs) @ ?gap @ map Some (drop (unat j) xs) @ ?rest\<rparr>"
    have "open_gap all_memory j k (a, w) = Ua_ok (?b, w)"
      using ji b(1,3) True jk n block front behind lt by (simp add: open_gap_def move_slots_def)
    moreover have "length ?gap = unat k" using b(3) j by simp
    moreover have "repr (b\<lparr>ut_d := map Some xs @ ?gap @ ?rest, ut_i := ut_i b\<rparr>) xs"
      by (rule repr_update [OF b(2) _ refl]) (use b(2,3) free room j in \<open>simp_all add: repr_def\<close>)
    ultimately show ?thesis using b(4) by (intro exI [of _ ?b] exI [of _ ?gap] exI [of _ ?rest]) simp
  qed
qed

lemma insert_spec:
  assumes r: "repr a xs" and j: "unat j \<le> length xs"
    and f: "\<And>m b v. m < length ps \<Longrightarrow> ut_icd b = ut_icd a \<Longrightarrow>
      f m (b, v) = ua_bind (copied (ut_icd a) (ps ! m) v) (\<lambda>(x, u). ua_bind (set_slot (unat j + m) x b) (\<lambda>b. Ua_ok (b, u)))"
    and k: "unat k = length ps"
  shows "implements (ut_icd a)
    (ua_bind (open_gap all_memory j k (a, w)) (\<lambda>st. ua_bind (ua_each f [0..<length ps] st) (grow_by k)))
    (list_insert (ut_icd a) ps (unat j) (xs, w))"
  unfolding implements_def
proof (intro allI impI)
  fix ys v
  assume "list_insert (ut_icd a) ps (unat j) (xs, w) = Ua_ok (ys, v)"
  then obtain zs where zs: "gen (copied (ut_icd a)) ps w = Ua_ok (zs, v)" "ys = take (unat j) xs @ zs @ drop (unat j) xs"
      "length xs + unat k \<le> longest_array"
    using j k by (auto simp: list_insert_def ua_bind_eq_ok split: if_splits)
  obtain b gap rest where b: "open_gap all_memory j k (a, w) = Ua_ok (b, w)"
      "ut_d b = map Some (take (unat j) xs) @ gap @ map Some (drop (unat j) xs) @ rest" "length gap = length ps"
      "repr (b\<lparr>ut_d := map Some xs @ gap @ rest\<rparr>) xs" "ut_icd b = ut_icd a"
    using open_gap_reserved [OF r j zs(3), of w] unfolding k by blast
  have gen: "gen (\<lambda>m. copied (ut_icd a) (ps ! m)) [0..<length ps] w = Ua_ok (zs, v)"
    by (rule trans [OF gen_nth [symmetric] zs(1)])
  have len: "length zs = length ps" using gen_length [OF zs(1)] .
  let ?d = "map Some (take (unat j) xs) @ map Some zs @ map Some (drop (unat j) xs) @ rest"
  have "ua_each f [0..<length ps] (b, w) = Ua_ok (b\<lparr>ut_d := ?d\<rparr>, v)"
    by (rule fill_gap [OF _ b(5,2) _ gen]) (use f j b(3) in simp_all)
  moreover have "repr (b\<lparr>ut_d := ?d, ut_i := ut_i b + k\<rparr>) ys"
  proof -
    have i: "unat (ut_i b) = length xs" using b(4) by (simp add: repr_def)
    have "unat (ut_i b + k) = length ys" using i zs(2,3) len k j by (simp add: unat_word_ariths)
    then have "repr (b\<lparr>ut_d := map Some xs @ gap @ rest, ut_d := ?d, ut_i := ut_i b + k\<rparr>) ys"
      by (intro repr_update [OF b(4)]) (use zs(2) len b(3) j in simp_all)
    then show ?thesis by simp
  qed
  ultimately show "\<exists>c. ua_bind (open_gap all_memory j k (a, w)) (\<lambda>st. ua_bind (ua_each f [0..<length ps] st) (grow_by k)) = Ua_ok (c, v)
      \<and> repr c ys \<and> ut_icd c = ut_icd a"
    using b(1,5) by (simp add: grow_by_def)
qed

text \<open>An insertion past the end first extends the array, after which it is one at the end.\<close>

lemma insert_padded:
  assumes r: "repr a xs"
    and f: "\<And>m b v. m < length ps \<Longrightarrow> ut_icd b = ut_icd a \<Longrightarrow>
      f m (b, v) = ua_bind (copied (ut_icd a) (ps ! m) v) (\<lambda>(x, u). ua_bind (set_slot (unat j + m) x b) (\<lambda>b. Ua_ok (b, u)))"
    and k: "unat k = length ps"
  shows "implements (ut_icd a)
    (ua_bind (open_gap all_memory j k (a, w)) (\<lambda>st. ua_bind (ua_each f [0..<length ps] st) (grow_by k)))
    (list_insert (ut_icd a) ps (unat j) (xs, w))"
proof (cases "unat j \<le> length xs")
  case True
  then show ?thesis using insert_spec [OF r _ f k] by blast
next
  case False
  then have gt: "j > ut_i a" using r by (simp add: repr_def word_less_nat_alt)
  show ?thesis unfolding implements_def
  proof (intro allI impI)
    fix ys v
    assume run: "list_insert (ut_icd a) ps (unat j) (xs, w) = Ua_ok (ys, v)"
    then obtain zs u where zs: "list_resize (ut_icd a) (unat j) (xs, w) = Ua_ok (zs, u)"
      using False by (auto simp: list_insert_def ua_bind_eq_ok)
    then obtain b where b: "utarray_resize all_memory j (a, w) = Ua_ok (b, u)" "repr b zs" "ut_icd b = ut_icd a"
      using resize_spec [OF r, of j w] unfolding implements_def by blast
    have j: "unat j = length zs"
      using zs False by (auto simp: list_resize_def ua_bind_eq_ok dest: gen_length split: if_splits)
    have i: "ut_i b = j" by (rule word_unat_eq_iff [THEN iffD2]) (use b(2) j in \<open>simp add: repr_def\<close>)
    have "open_gap all_memory j k (a, w) = open_gap all_memory j k (b, u)" using gt b(1) i by (simp add: open_gap_def)
    moreover have "list_insert (ut_icd a) ps (unat j) (zs, u) = Ua_ok (ys, v)" using run zs j False by (simp add: list_insert_def)
    ultimately show "\<exists>c. ua_bind (open_gap all_memory j k (a, w)) (\<lambda>st. ua_bind (ua_each f [0..<length ps] st) (grow_by k)) = Ua_ok (c, v)
        \<and> repr c ys \<and> ut_icd c = ut_icd a"
      using insert_spec [OF b(2), of j ps f k u] f k j unfolding implements_def b(3) by simp
  qed
qed

lemma insert_one_spec:
  assumes "repr a xs"
  shows "implements (ut_icd a) (utarray_insert all_memory p j (a, w)) (list_insert (ut_icd a) [p] (unat j) (xs, w))"
proof -
  have "implements (ut_icd a)
      (ua_bind (open_gap all_memory j 1 (a, w)) (\<lambda>st. ua_bind (ua_each (\<lambda>_. copy_into p (unat j)) [0..<length [p]] st) (grow_by 1)))
      (list_insert (ut_icd a) [p] (unat j) (xs, w))"
    by (rule insert_padded [OF assms]) (simp_all add: copy_into_eq)
  then show ?thesis by (simp add: utarray_insert_def)
qed

lemma elements_repr: "elements a = Some ps \<Longrightarrow> length ps = unat (ut_i a) \<Longrightarrow> k < length ps \<Longrightarrow> slot k (ut_d a) = Ua_ok (ps ! k)"
proof -
  assume e: "elements a = Some ps" "length ps = unat (ut_i a)" "k < length ps"
  have those: "those zs = Some qs \<Longrightarrow> zs = map Some qs" for zs :: "'a option list" and qs
    by (induction zs arbitrary: qs) (auto split: option.splits)
  have t: "take (length ps) (ut_d a) = map Some ps" using e(1,2) those by (simp add: elements_def)
  have "length ps \<le> length (ut_d a)" using arg_cong [OF t, of length] by simp
  moreover have "ut_d a ! k = Some (ps ! k)" using arg_cong [OF t, of "\<lambda>l. l ! k"] e(3) by simp
  ultimately show ?thesis using e(3) by (simp add: slot_def)
qed

lemma repr_elements: "repr a xs \<Longrightarrow> elements a = Some xs"
proof -
  have those: "those (map Some qs) = Some qs" for qs :: "'a list" by (induction qs) simp_all
  assume "repr a xs"
  then show ?thesis using those by (auto simp: repr_def elements_def)
qed

lemma inserta_spec:
  assumes "repr a xs"
  shows "implements (ut_icd a) (utarray_inserta all_memory src j (a, w)) (list_insert_array (ut_icd a) src (unat j) (xs, w))"
proof (cases "\<exists>ps. elements src = Some ps \<and> length ps = unat (ut_i src)")
  case False
  then show ?thesis by (auto simp: implements_def list_insert_array_def split: option.splits)
next
  case True
  then obtain ps where ps: "elements src = Some ps" "length ps = unat (ut_i src)" by blast
  show ?thesis
  proof (cases "ps = []")
    case True
    then have "ut_i src = 0" using ps(2) by (simp add: unat_eq_zero)
    then show ?thesis using ps True assms by (auto simp: implements_def list_insert_array_def utarray_inserta_def utarray_len_def)
  next
    case False
    then have ne: "ut_i src \<noteq> 0" using ps(2) by auto
    show ?thesis unfolding implements_def
    proof (intro allI impI)
      fix ys v
      assume "list_insert_array (ut_icd a) src (unat j) (xs, w) = Ua_ok (ys, v)"
      then have run: "list_insert (ut_icd a) ps (unat j) (xs, w) = Ua_ok (ys, v)"
        using ps False by (simp add: list_insert_array_def)
      have bound: "unat j + length ps \<le> longest_array"
        using run repr_bound [OF assms] by (auto simp: list_insert_def list_resize_def ua_bind_eq_ok dest!: gen_length split: if_splits)
      have f: "copy_nth src j m (b, v) =
          ua_bind (copied (ut_icd a) (ps ! m) v) (\<lambda>(x, u). ua_bind (set_slot (unat j + m) x b) (\<lambda>b. Ua_ok (b, u)))"
        if "m < length ps" "ut_icd b = ut_icd a" for m b v
      proof -
        have "unat (j + of_nat m) = unat j + m" using that(1) bound by (simp add: unat_word_ariths unat_of_nat)
        then show ?thesis using that elements_repr [OF ps that(1)] by (simp add: copy_nth_def copy_into_eq)
      qed
      have "implements (ut_icd a)
          (ua_bind (open_gap all_memory j (ut_i src) (a, w)) (\<lambda>st. ua_bind (ua_each (copy_nth src j) [0..<length ps] st) (grow_by (ut_i src))))
          (list_insert (ut_icd a) ps (unat j) (xs, w))"
        by (rule insert_padded [OF assms f]) (simp_all add: ps(2))
      then show "\<exists>b. utarray_inserta all_memory src j (a, w) = Ua_ok (b, v) \<and> repr b ys \<and> ut_icd b = ut_icd a"
        using ps(2) ne run unfolding implements_def by (simp add: utarray_inserta_def utarray_len_def)
    qed
  qed
qed

text \<open>The other operations are special cases of these.\<close>

lemma reserve_keeps: "utarray_reserve mem k a = Ua_ok b \<Longrightarrow> ut_i b = ut_i a \<and> ut_icd b = ut_icd a"
  by (auto simp: utarray_reserve_def Let_def split: if_splits option.splits)

lemma ua_bind_cong_ok: "(\<And>x. r = Ua_ok x \<Longrightarrow> f x = g x) \<Longrightarrow> ua_bind r f = ua_bind r g"
  by (cases r) simp_all

lemma push_back_insert: "utarray_push_back mem p (a, w) = utarray_insert mem p (ut_i a) (a, w)"
  unfolding utarray_push_back_def utarray_insert_def open_gap_def
  by (simp add: ua_bind_assoc) (rule ua_bind_cong_ok, simp add: reserve_keeps)

lemma set_slot_keeps: "set_slot j x a = Ua_ok b \<Longrightarrow> ut_i b = ut_i a"
  by (auto simp: set_slot_def split: if_splits)

lemma extend_back_resize:
  assumes "unat (ut_i a) < longest_array"
  shows "utarray_extend_back mem (a, w) = utarray_resize mem (ut_i a + 1) (a, w)"
proof -
  have lt: "unat (ut_i a + 1) = Suc (unat (ut_i a))" using assms by (simp add: unat_word_ariths)
  then have gt: "ut_i a < ut_i a + 1" "\<not> ut_i a + 1 < ut_i a" by (simp_all add: word_less_nat_alt)
  have step: "ua_bind (init_at j (b, w)) (grow_by 1) = ua_bind (init_at j (b, w)) (\<lambda>(c, v). Ua_ok (c\<lparr>ut_i := ut_i b + 1\<rparr>, v))" for b j
    by (rule ua_bind_cong_ok) (auto simp: init_at_eq grow_by_def ua_bind_eq_ok dest: set_slot_keeps)
  show ?thesis unfolding utarray_extend_back_def utarray_resize_def using gt
    by (simp add: ua_bind_assoc) (rule ua_bind_cong_ok, simp add: reserve_keeps lt step)
qed

lemma clear_resize:
  assumes "repr a xs"
  shows "utarray_clear (a, w) = utarray_resize mem 0 (a, w)"
  using assms by (simp add: utarray_clear_def utarray_resize_def word_neq_0_conv [symmetric])

lemma pop_back_spec:
  assumes r: "repr a xs" "xs \<noteq> []"
  shows "utarray_pop_back (a, w) = ua_bind (destroyed (ut_icd a) [last xs] w) (\<lambda>v. Ua_ok (a\<lparr>ut_i := ut_i a - 1\<rparr>, v))"
    "repr (a\<lparr>ut_i := ut_i a - 1\<rparr>) (butlast xs)"
proof -
  obtain rest where a: "ut_d a = map Some xs @ rest" "length xs = unat (ut_i a)" using r(1) by (auto simp: repr_def)
  have "ut_i a \<noteq> 0" using a(2) r(2) by (metis length_0_conv unat_eq_zero)
  then have i: "unat (ut_i a - 1) = length xs - 1" using a(2) by (simp add: unat_minus_one)
  have "length xs - Suc 0 < length xs" using r(2) by simp
  then have "slot (length xs - 1) (ut_d a) = Ua_ok (last xs)"
    using a(1) r(2) by (simp add: slot_def nth_append last_conv_nth trans_less_add1)
  then show "utarray_pop_back (a, w) = ua_bind (destroyed (ut_icd a) [last xs] w) (\<lambda>v. Ua_ok (a\<lparr>ut_i := ut_i a - 1\<rparr>, v))"
    using i by (cases "icd_dtor (ut_icd a)") (simp_all add: utarray_pop_back_def destroy_def)
  show "repr (a\<lparr>ut_i := ut_i a - 1\<rparr>) (butlast xs)"
    using truncate_spec [OF r(1), of "ut_i a - 1"] i by (simp add: butlast_conv_take)
qed

lemma destroy_keeps: "destroy j (a, v) = Ua_ok st \<Longrightarrow> fst st = a"
  by (auto simp: destroy_def ua_bind_eq_ok split: option.splits)

lemma erase_destroys:
  assumes "repr a xs" "unat pos + unat len \<le> length xs"
  shows "ua_each (destroy_elt pos) [0..<unat len] (a, w) =
    ua_bind (destroyed (ut_icd a) (take (unat len) (drop (unat pos) xs)) w) (\<lambda>v. Ua_ok (a, v))"
proof -
  obtain rest where a: "ut_d a = map Some xs @ rest" "length xs = unat (ut_i a)" using assms(1) by (auto simp: repr_def)
  have step: "destroy_elt pos k (a, v) = destroy (unat pos + k) (a, v)" if "k < unat len" for k v
  proof -
    have "unat (pos + of_nat k) = unat pos + k"
      using that assms(2) repr_bound [OF assms(1)] by (simp add: unat_word_ariths unat_of_nat)
    then show ?thesis using that assms(2) a(2) by (simp add: destroy_elt_def word_less_nat_alt)
  qed
  have shift: "ua_each (destroy_elt pos) ks (a, v) = ua_each destroy (map (\<lambda>k. unat pos + k) ks) (a, v)"
    if "\<forall>k \<in> set ks. k < unat len" for ks v
    using that
  proof (induction ks arbitrary: v)
    case (Cons k ks)
    have "ua_each (destroy_elt pos) ks st = ua_each destroy (map (\<lambda>k. unat pos + k) ks) st"
      if "destroy (unat pos + k) (a, v) = Ua_ok st" for st
      using Cons destroy_keeps [OF that] by (cases st) simp
    then have "ua_bind (destroy (unat pos + k) (a, v)) (ua_each (destroy_elt pos) ks)
        = ua_bind (destroy (unat pos + k) (a, v)) (ua_each destroy (map (\<lambda>k. unat pos + k) ks))" by (rule ua_bind_cong_ok)
    then show ?case using step [of k v] Cons.prems by simp
  qed simp
  have "map (\<lambda>k. unat pos + k) [0..<unat len] = [unat pos..<unat pos + unat len]"
    using map_add_upt [of "unat pos" "unat len"] by (simp add: add.commute)
  then show ?thesis using shift [of "[0..<unat len]"] destroy_loop [OF a(1) assms(2), of "unat pos" w]
    by (simp add: drop_take)
qed

lemma erase_spec:
  assumes r: "repr a xs" and len: "unat pos + unat len \<le> length xs"
  shows "\<exists>b. utarray_erase pos len (a, w) = ua_bind (destroyed (ut_icd a) (take (unat len) (drop (unat pos) xs)) w) (\<lambda>v. Ua_ok (b, v))
    \<and> repr b (take (unat pos) xs @ drop (unat pos + unat len) xs) \<and> ut_icd b = ut_icd a"
proof -
  obtain rest where a: "ut_d a = map Some xs @ rest" "length xs = unat (ut_i a)" using r by (auto simp: repr_def)
  have sum: "unat (pos + len) = unat pos + unat len" using len repr_bound [OF r] by (simp add: unat_word_ariths)
  have i: "unat (ut_i a - len) = length xs - unat len" using len a(2) by (simp add: unat_sub_if')
  have n: "unat (ut_i a - (pos + len)) = length xs - (unat pos + unat len)" using len a(2) sum by (simp add: unat_sub_if')
  let ?ys = "take (unat pos) xs @ drop (unat pos + unat len) xs"
  let ?tail = "drop (unat pos + (length xs - (unat pos + unat len))) (ut_d a)"
  show ?thesis
  proof (cases "ut_i a > pos + len")
    case False
    then have all: "unat pos + unat len = length xs" using len a(2) sum by (simp add: word_less_nat_alt)
    then have "unat pos = length xs - unat len" by simp
    then have "?ys = take (unat (ut_i a - len)) xs" using i all by simp
    then have "repr (a\<lparr>ut_i := ut_i a - len\<rparr>) ?ys" using truncate_spec [OF r, of "ut_i a - len"] i by simp
    then show ?thesis using False erase_destroys [OF r len, of w]
      by (intro exI [of _ "a\<lparr>ut_i := ut_i a - len\<rparr>"]) (simp add: utarray_erase_def ua_bind_assoc)
  next
    case True
    then have lt: "unat pos + unat len < length xs" using a(2) sum by (simp add: word_less_nat_alt)
    let ?b = "a\<lparr>ut_d := map Some ?ys @ ?tail, ut_i := ut_i a - len\<rparr>"
    have "move_slots (unat pos) (unat (pos + len)) (unat (ut_i a - (pos + len))) a = Ua_ok (a\<lparr>ut_d := map Some ?ys @ ?tail\<rparr>)"
      using a(1) lt unfolding sum n by (simp add: move_slots_def take_map drop_map)
    moreover have "repr ?b ?ys"
      by (rule repr_update [OF r _ refl]) (use i a(1) lt in simp_all)
    ultimately show ?thesis using True erase_destroys [OF r len, of w]
      by (intro exI [of _ ?b]) (simp add: utarray_erase_def ua_bind_assoc)
  qed
qed

lemma operation_implements:
  assumes r: "repr a xs"
  shows "implements (ut_icd a) (perform all_memory op (a, w)) (list_op (ut_icd a) op (xs, w))"
proof -
  have i: "unat (ut_i a) = length xs" using r by (simp add: repr_def)
  show ?thesis
  proof (cases op)
    case (Push_back p)
    then show ?thesis using insert_one_spec [OF r, of p "ut_i a" w] i by (simp add: push_back_insert)
  next
    case Pop_back
    then show ?thesis using pop_back_spec [OF r] by (auto simp: implements_def ua_bind_eq_ok)
  next
    case Extend_back
    show ?thesis
    proof (cases "length xs < longest_array")
      case True
      have "unat (ut_i a + 1) = length xs + 1" using True i by (simp add: unat_word_ariths)
      moreover have "unat (ut_i a) < longest_array" using True i by simp
      ultimately show ?thesis using resize_spec [OF r, of "ut_i a + 1" w] by (simp add: Extend_back extend_back_resize)
    next
      case False
      then show ?thesis by (simp add: Extend_back implements_def list_resize_def)
    qed
  next
    case (Resize num)
    then show ?thesis using resize_spec [OF r] by simp
  next
    case (Insert p j)
    then show ?thesis using insert_one_spec [OF r] by simp
  next
    case (Insert_array src j)
    then show ?thesis using inserta_spec [OF r] by simp
  next
    case (Concat src)
    then show ?thesis using inserta_spec [OF r, of src "ut_i a" w] i by (simp add: utarray_concat_def utarray_len_def)
  next
    case (Erase pos len)
    then show ?thesis using erase_spec [OF r, of pos len w] by (auto simp: implements_def ua_bind_eq_ok split: if_splits)
  next
    case Clear
    then show ?thesis using resize_spec [OF r, of 0 w] clear_resize [OF r] by simp
  qed
qed

section \<open>Sequences of operations\<close>

primrec run_all :: "('o \<Rightarrow> 's \<Rightarrow> 's ua_result) \<Rightarrow> 'o list \<Rightarrow> 's \<Rightarrow> 's ua_result" where
  "run_all f [] s = Ua_ok s"
| "run_all f (x # xs) s = ua_bind (f x s) (run_all f xs)"

text \<open>
  C23. The dynamic arrays implement lists. Let an array hold the elements \<open>xs\<close> and let memory not run out.
  Whatever sequence of operations is performed, if the same operations on the list have an outcome, the
  array performs them, holds the elements of that outcome, and the constructors and destructors were called
  on the same elements in the same order. A fresh array holds no elements.
\<close>

theorem arrays_implement_lists:
  assumes "repr a xs" "run_all (list_op (ut_icd a)) ops (xs, w) = Ua_ok (ys, v)"
  shows "\<exists>b. run_all (perform (\<lambda>_. True)) ops (a, w) = Ua_ok (b, v) \<and> repr b ys \<and> ut_icd b = ut_icd a"
  using assms
proof (induction ops arbitrary: a xs w)
  case (Cons op ops)
  then obtain zs u where z: "list_op (ut_icd a) op (xs, w) = Ua_ok (zs, u)" "run_all (list_op (ut_icd a)) ops (zs, u) = Ua_ok (ys, v)"
    by (auto simp: ua_bind_eq_ok)
  then obtain b where b: "perform all_memory op (a, w) = Ua_ok (b, u)" "repr b zs" "ut_icd b = ut_icd a"
    using operation_implements [OF Cons.prems(1), of op w] unfolding implements_def by blast
  then show ?case using Cons.IH [OF b(2), of u] z(2) by simp
qed auto

lemma repr_init: "0 < icd_sz c \<Longrightarrow> icd_sz c < 2 ^ 32 \<Longrightarrow> repr (utarray_init c) []"
  by (simp add: repr_def sizes_ok_def slots_count_def utarray_init_def)

lemma arrays_implement_lists_witness:
  "\<exists>b. run_all (perform (\<lambda>_. True)) [Push_back 5, Push_back 6, Insert 7 1, Insert 8 4, Erase 0 2, Pop_back]
     (utarray_init ut_int_icd, ()) = Ua_ok (b, ()) \<and> repr b [6, 0]"
proof -
  have r: "repr (utarray_init ut_int_icd :: (32 word, unit) UT_array) []" by (rule repr_init) (simp_all add: ut_int_icd_def)
  have "run_all (list_op (ut_icd (utarray_init ut_int_icd)))
      [Push_back 5, Push_back 6, Insert 7 1, Insert 8 4, Erase 0 2, Pop_back] ([], ()) = Ua_ok ([6, 0], ())"
    by (simp add: list_insert_def list_resize_def copied_def made_def utarray_init_def ut_int_icd_def upt_rec)
  from arrays_implement_lists [OF r this] show ?thesis by auto
qed

text \<open>
  C36. Room for more elements is found in finite time exactly when at most \<open>2 ^ 31\<close> elements are asked for:
  above that the doubling wraps around to 0 and starts over, for ever.
\<close>

theorem reserve_ends_iff:
  assumes "repr a xs"
  shows "utarray_reserve mem k a = Ua_loops \<longleftrightarrow> ut_i a + k > 2 ^ 31"
proof -
  have n: "slots_count (ut_n a)" using assms by (simp add: repr_def sizes_ok_def)
  show ?thesis
  proof (cases "ut_i a + k > 2 ^ 31")
    case True
    then have "ut_n a < ut_i a + k" using order_le_less_trans [OF slots_count_le [OF n]] by blast
    then show ?thesis using True grow_loops [OF True n] by (simp add: utarray_reserve_def)
  next
    case False
    then obtain m where "grow (ut_i a + k) (ut_n a) = Some m" using grow_ends [OF _ n] unfolding not_less by blast
    then show ?thesis using False by (simp add: utarray_reserve_def Let_def)
  qed
qed

lemma reserve_ends_iff_witness:
  "utarray_reserve (\<lambda>_. True) 0x80000001 (utarray_init ut_int_icd :: (32 word, unit) UT_array) = Ua_loops
   \<and> utarray_reserve (\<lambda>_. True) 0x80000000 (utarray_init ut_int_icd :: (32 word, unit) UT_array) \<noteq> Ua_loops"
proof -
  have "repr (utarray_init ut_int_icd :: (32 word, unit) UT_array) []" by (rule repr_init) (simp_all add: ut_int_icd_def)
  from reserve_ends_iff [OF this, of "\<lambda>_. True" "0x80000001"] reserve_ends_iff [OF this, of "\<lambda>_. True" "0x80000000"]
  show ?thesis by (simp add: utarray_init_def)
qed

section \<open>Sorting and searching\<close>

text \<open>A comparison as \<open>qsort\<close> and \<open>bsearch\<close> require it.\<close>

definition comparison :: "('e \<Rightarrow> 'e \<Rightarrow> int) \<Rightarrow> bool" where
  "comparison cmp \<longleftrightarrow> (\<forall>x y. sgn (cmp x y) = - sgn (cmp y x)) \<and> (\<forall>x y z. cmp x y \<le> 0 \<longrightarrow> cmp y z \<le> 0 \<longrightarrow> cmp x z \<le> 0)"

abbreviation (input) ordered_by :: "('e \<Rightarrow> 'e \<Rightarrow> int) \<Rightarrow> 'e list \<Rightarrow> bool" where
  "ordered_by cmp \<equiv> sorted_wrt (\<lambda>x y. cmp x y \<le> 0)"

lemma comparison_flip: "comparison cmp \<Longrightarrow> cmp x y < 0 \<longleftrightarrow> cmp y x > 0" "comparison cmp \<Longrightarrow> cmp x y = 0 \<longleftrightarrow> cmp y x = 0"
proof -
  assume c: "comparison cmp"
  have flip: "sgn (cmp x y) = - sgn (cmp y x)" using c unfolding comparison_def by blast
  show "cmp x y < 0 \<longleftrightarrow> cmp y x > 0" using flip by (auto simp: sgn_if split: if_splits)
  show "cmp x y = 0 \<longleftrightarrow> cmp y x = 0" using flip by (auto simp: sgn_if split: if_splits)
qed

lemma comparison_total: "comparison cmp \<Longrightarrow> \<not> cmp x y \<le> 0 \<Longrightarrow> cmp y x \<le> 0"
  using comparison_flip(1) [of cmp y x] by simp

lemma comparison_trans: "comparison cmp \<Longrightarrow> cmp x y \<le> 0 \<Longrightarrow> cmp y z \<le> 0 \<Longrightarrow> cmp x z \<le> 0"
  by (simp add: comparison_def)

lemma insert_by_mset [simp]: "mset (insert_by cmp x ys) = add_mset x (mset ys)"
  by (induction ys) auto

lemma insert_by_set [simp]: "set (insert_by cmp x ys) = insert x (set ys)"
  by (metis insert_by_mset set_mset_add_mset_insert set_mset_mset)

lemma insert_by_sorted: "comparison cmp \<Longrightarrow> ordered_by cmp ys \<Longrightarrow> ordered_by cmp (insert_by cmp x ys)"
  by (induction ys) (auto intro: comparison_trans dest: comparison_total)

lemma qsort_mset: "mset (qsort cmp xs) = mset xs"
  by (induction xs) (simp_all add: qsort_def)

lemma qsort_sorted: "comparison cmp \<Longrightarrow> ordered_by cmp (qsort cmp xs)"
  by (induction xs) (simp_all add: qsort_def insert_by_sorted)

lemma qsort_length: "length (qsort cmp xs) = length xs"
  by (metis qsort_mset size_mset)

lemma bsearch_sound: "bsearch key xs lo hi = Some j \<Longrightarrow> lo \<le> j \<and> j < hi \<and> key (xs ! j) = 0"
proof (induction key xs lo hi rule: bsearch.induct)
  case (1 key xs lo hi)
  let ?mid = "(lo + hi) div 2"
  have lt: "lo < hi" using "1.prems" by (subst (asm) bsearch.simps) (simp split: if_splits)
  consider "key (xs ! ?mid) = 0" | "key (xs ! ?mid) < 0" | "key (xs ! ?mid) > 0" by linarith
  then show ?case
  proof cases
    case 1
    then show ?thesis using "1.prems" lt by (subst (asm) bsearch.simps) (auto simp: Let_def)
  next
    case 2
    then have "bsearch key xs lo ?mid = Some j" using "1.prems" lt by (subst (asm) bsearch.simps) (simp add: Let_def)
    then show ?thesis using "1.IH"(1) [OF lt refl refl] 2 lt by auto
  next
    case 3
    then have "bsearch key xs (?mid + 1) hi = Some j" using "1.prems" lt by (subst (asm) bsearch.simps) (simp add: Let_def)
    then show ?thesis using "1.IH"(2) [OF lt refl refl] 3 lt by auto
  qed
qed

text \<open>Where the signs fall along the list, the search does not miss a zero.\<close>

lemma bsearch_complete:
  assumes "\<And>i j. i \<le> j \<Longrightarrow> j < length xs \<Longrightarrow> key (xs ! i) < 0 \<Longrightarrow> key (xs ! j) < 0"
    "\<And>i j. i \<le> j \<Longrightarrow> j < length xs \<Longrightarrow> key (xs ! j) > 0 \<Longrightarrow> key (xs ! i) > 0"
    "hi \<le> length xs" "lo \<le> m" "m < hi" "key (xs ! m) = 0"
  shows "bsearch key xs lo hi \<noteq> None"
  using assms(3-5)
proof (induction "hi - lo" arbitrary: lo hi rule: less_induct)
  case less
  let ?mid = "(lo + hi) div 2"
  have lt: "lo < hi" using less.prems by linarith
  consider "key (xs ! ?mid) = 0" | "key (xs ! ?mid) < 0" | "key (xs ! ?mid) > 0" by linarith
  then show ?case
  proof cases
    case 1
    then show ?thesis using lt by (subst bsearch.simps) (simp add: Let_def)
  next
    case 2
    then have "m < ?mid" using assms(1) [of ?mid m] assms(6) less.prems by fastforce
    then have "bsearch key xs lo ?mid \<noteq> None" using less lt by (intro less.hyps) auto
    then show ?thesis using lt 2 by (subst bsearch.simps) (simp add: Let_def)
  next
    case 3
    then have "m > ?mid" using assms(2) [of m ?mid] assms(6) less.prems by fastforce
    then have "bsearch key xs (?mid + 1) hi \<noteq> None" using less lt by (intro less.hyps) auto
    then show ?thesis using lt 3 by (subst bsearch.simps) (simp add: Let_def)
  qed
qed

lemma bsearch_sorted:
  assumes c: "comparison cmp" and s: "ordered_by cmp ys"
  shows "bsearch (cmp v) ys 0 (length ys) = None \<longleftrightarrow> (\<forall>y \<in> set ys. cmp v y \<noteq> 0)"
proof (cases "\<exists>m < length ys. cmp v (ys ! m) = 0")
  case True
  then obtain m where m: "m < length ys" "cmp v (ys ! m) = 0" by blast
  have le: "cmp (ys ! i) (ys ! j) \<le> 0" if "i < j" "j < length ys" for i j using s that by (simp add: sorted_wrt_iff_nth_less)
  have "bsearch (cmp v) ys 0 (length ys) \<noteq> None"
  proof (rule bsearch_complete [where m = m])
    fix i j assume ij: "i \<le> j" "j < length ys"
    show "cmp v (ys ! j) < 0" if neg: "cmp v (ys ! i) < 0"
    proof (cases "i = j")
      case False
      then have "cmp (ys ! i) (ys ! j) \<le> 0" using ij le by simp
      moreover have "\<not> cmp (ys ! i) v \<le> 0" using comparison_flip(1) [OF c, of v "ys ! i"] neg by simp
      ultimately show ?thesis using comparison_trans [OF c, of "ys ! i" "ys ! j" v] comparison_flip(1) [OF c, of v "ys ! j"] by linarith
    qed (use neg in simp)
    show "cmp v (ys ! i) > 0" if pos: "cmp v (ys ! j) > 0"
    proof (cases "i = j")
      case False
      then have "cmp (ys ! i) (ys ! j) \<le> 0" using ij le by simp
      then show ?thesis using comparison_trans [OF c, of v "ys ! i" "ys ! j"] pos by linarith
    qed (use pos in simp)
  qed (use m in simp_all)
  then show ?thesis using m by (auto simp: set_conv_nth)
next
  case False
  then show ?thesis using bsearch_sound [of "cmp v" ys 0 "length ys"]
    by (cases "bsearch (cmp v) ys 0 (length ys)") (auto simp: set_conv_nth)
qed

text \<open>
  Sorting an array rearranges its elements into the order of the comparison, and afterwards
  \<open>utarray_find\<close> answers a pointer to an element that compares equal to the key exactly when the array had
  one.
\<close>

theorem sorted_array_found:
  assumes "repr a xs" "comparison cmp"
  shows "\<exists>b ys. utarray_sort cmp a = Ua_ok b \<and> repr b ys \<and> mset ys = mset xs \<and> sorted_wrt (\<lambda>x y. cmp x y \<le> 0) ys
    \<and> (\<exists>r. utarray_find v cmp b = Ua_ok r \<and> (case r of None \<Rightarrow> \<forall>x \<in> set xs. cmp v x \<noteq> 0
         | Some e \<Rightarrow> \<exists>j < length ys. utarray_eltptr b (of_nat j) = Some e \<and> cmp v (ys ! j) = 0))"
proof -
  let ?ys = "qsort cmp xs" and ?d = "map Some (qsort cmp xs) @ drop (unat (ut_i a)) (ut_d a)"
  let ?b = "a\<lparr>ut_d := ?d\<rparr>"
  have i: "unat (ut_i a) = length xs" using assms(1) by (simp add: repr_def)
  have "repr (a\<lparr>ut_d := ?d, ut_i := ut_i a\<rparr>) ?ys"
    by (rule repr_update [OF assms(1) _ refl]) (use i repr_slots [OF assms(1)] in \<open>simp_all add: qsort_length\<close>)
  then have b: "repr ?b ?ys" by simp
  have sort: "utarray_sort cmp a = Ua_ok ?b" using repr_elements [OF assms(1)] by (simp add: utarray_sort_def)
  have find: "utarray_find v cmp ?b = Ua_ok (map_option (\<lambda>j. raw_eltptr ?b (of_nat j)) (bsearch (cmp v) ?ys 0 (length ?ys)))"
    using repr_elements [OF b] i by (simp add: utarray_find_def qsort_length)
  have set: "set ?ys = set xs" using qsort_mset [of cmp xs] mset_eq_setD by blast
  show ?thesis
  proof (cases "bsearch (cmp v) ?ys 0 (length ?ys)")
    case None
    then show ?thesis using sort b find qsort_mset qsort_sorted [OF assms(2)] bsearch_sorted [OF assms(2) qsort_sorted [OF assms(2)], of v xs] set
      by (intro exI [of _ ?b] exI [of _ ?ys]) simp
  next
    case (Some j)
    have j: "j < length ?ys" "cmp v (?ys ! j) = 0" using bsearch_sound [OF Some] by simp_all
    have lt: "j < 2 ^ 32" using j(1) repr_bound [OF b] by simp
    then have "unat (of_nat j :: u32) = j" by (simp add: unat_of_nat)
    moreover have "(ucast (of_nat j :: u32) :: size_t) = of_nat j"
      using lt by (simp add: word_unat_eq_iff unsigned_ucast_eq unsigned_of_nat take_bit_nat_eq_self)
    ultimately have "utarray_eltptr ?b (of_nat j) = Some (raw_eltptr ?b (of_nat j))"
      using j(1) i by (simp add: utarray_eltptr_def word_less_nat_alt qsort_length)
    then show ?thesis using sort b find j Some qsort_mset qsort_sorted [OF assms(2)]
      by (intro exI [of _ ?b] exI [of _ ?ys]) auto
  qed
qed

definition sample_array :: "(32 word, unit) UT_array" where
  "sample_array = \<lparr>ut_i = 3, ut_n = 8, ut_icd = ut_int_icd, ut_d = map Some [30, 10, 20] @ replicate 5 None\<rparr>"

lemma repr_sample: "repr sample_array [30, 10, 20]"
  by (auto simp: repr_def sizes_ok_def slots_count_def sample_array_def ut_int_icd_def intro!: exI [of _ 3])

lemma sorted_array_found_witness:
  "\<exists>b ys r. utarray_sort (\<lambda>x y. uint x - uint y) sample_array = Ua_ok b \<and> repr b ys \<and> mset ys = {#10, 20, 30#}
     \<and> utarray_find 20 (\<lambda>x y. uint x - uint y) b = Ua_ok (Some r)"
proof -
  have c: "comparison (\<lambda>x y :: 32 word. uint x - uint y)" by (auto simp: comparison_def sgn_if)
  obtain b ys r where b: "utarray_sort (\<lambda>x y. uint x - uint y) sample_array = Ua_ok b" "repr b ys" "mset ys = mset [30, 10, 20]"
      "utarray_find 20 (\<lambda>x y. uint x - uint y) b = Ua_ok r"
      "case r of None \<Rightarrow> \<forall>x \<in> set [30, 10, 20]. uint (20 :: 32 word) - uint (x :: 32 word) \<noteq> 0
         | Some e \<Rightarrow> \<exists>j < length ys. utarray_eltptr b (of_nat j) = Some e \<and> uint (20 :: 32 word) - uint (ys ! j) = 0"
    using sorted_array_found [OF repr_sample c, of 20] by blast
  then obtain e where "r = Some e" by (cases r) auto
  with b show ?thesis by (auto simp: add_mset_commute)
qed

section \<open>Traversal\<close>

lemma eltptr_index:
  assumes "sizes_ok a" "unat j < 2 ^ 32"
  shows "utarray_eltidx a (raw_eltptr a j) = j"
proof -
  let ?sz = "icd_sz (ut_icd a)"
  have sz: "0 < unat ?sz" "unat ?sz < 2 ^ 32" using assms(1) by (simp_all add: sizes_ok_def word_less_nat_alt)
  have "unat ?sz * unat j < 2 ^ 32 * 2 ^ 32" using assms(2) sz(2) by (intro mult_strict_mono) auto
  then have "unat (?sz * j) = unat ?sz * unat j" by (simp add: unat_word_ariths)
  then have "unat (?sz * j div ?sz) = unat j" using sz(1) by (simp add: unat_div_distrib)
  then have "?sz * j div ?sz = j" by (simp add: word_unat_eq_iff)
  then show ?thesis by (simp add: utarray_eltidx_def raw_eltptr_def)
qed

text \<open>
  The traversals visit every element, in order: from \<open>utarray_front\<close>, \<open>utarray_next\<close> leads from each
  element to the one behind it and from the last to NULL, and \<open>utarray_prev\<close> leads back the same way.
\<close>

theorem traversal_in_order:
  assumes "repr a xs" "j < length xs"
  shows "utarray_next a (Some (raw_eltptr a (of_nat j))) = (if Suc j < length xs then Some (raw_eltptr a (of_nat (Suc j))) else None)
    \<and> utarray_prev a (Some (raw_eltptr a (of_nat j))) = (if j > 0 then Some (raw_eltptr a (of_nat (j - 1))) else None)
    \<and> utarray_next a None = Some (raw_eltptr a 0) \<and> utarray_prev a None = Some (raw_eltptr a (of_nat (length xs - 1)))"
proof -
  have i: "unat (ut_i a) = length xs" "sizes_ok a" using assms(1) by (simp_all add: repr_def)
  have le: "length xs \<le> 2 ^ 31" using repr_bound [OF assms(1)] .
  have j: "unat (of_nat j :: size_t) = j" using assms(2) le by (simp add: unat_of_nat)
  then have idx: "utarray_eltidx a (raw_eltptr a (of_nat j)) = of_nat j" by (intro eltptr_index [OF i(2)]) (use assms(2) le in simp)
  have ui: "unat (ucast (ut_i a) :: size_t) = length xs" using i(1) le by (simp add: unsigned_ucast_eq take_bit_nat_eq_self)
  have "unat (of_nat j + 1 :: size_t) = Suc j" using j assms(2) le by (simp add: unat_word_ariths)
  then have one: "utarray_next a (Some (raw_eltptr a (of_nat j))) = (if Suc j < length xs then Some (raw_eltptr a (of_nat (Suc j))) else None)"
    using ui by (simp add: utarray_next_def idx word_less_nat_alt add.commute)
  have "(of_nat j :: size_t) > 0 \<longleftrightarrow> j > 0" using j by (simp add: word_less_nat_alt)
  moreover have "j > 0 \<Longrightarrow> (of_nat j - 1 :: size_t) = of_nat (j - 1)" by (simp add: of_nat_diff Suc_le_eq)
  ultimately have two: "utarray_prev a (Some (raw_eltptr a (of_nat j))) = (if j > 0 then Some (raw_eltptr a (of_nat (j - 1))) else None)"
    by (simp add: utarray_prev_def idx)
  have ne: "ut_i a \<noteq> 0" using i(1) assms(2) by auto
  have three: "utarray_next a None = Some (raw_eltptr a 0)" using ne by (simp add: utarray_next_def utarray_front_def)
  have "unat (ut_i a - 1) = length xs - 1" using ne i(1) by (simp add: unat_minus_one)
  then have "(ucast (ut_i a - 1) :: size_t) = of_nat (length xs - 1)"
    using le by (simp add: word_unat_eq_iff unsigned_ucast_eq unsigned_of_nat take_bit_nat_eq_self)
  then have "utarray_prev a None = Some (raw_eltptr a (of_nat (length xs - 1)))" using ne by (simp add: utarray_prev_def utarray_back_def)
  with one two three show ?thesis by blast
qed

lemma traversal_in_order_witness:
  "utarray_next sample_array (Some (raw_eltptr sample_array (of_nat 1))) = Some (raw_eltptr sample_array (of_nat 2))
   \<and> utarray_next sample_array (Some (raw_eltptr sample_array (of_nat 2))) = None"
  using traversal_in_order [OF repr_sample, of 1] traversal_in_order [OF repr_sample, of 2] by simp

section \<open>Arrays of strings\<close>

text \<open>
  A string that was pushed onto an array of strings cannot be removed: it was duplicated by \<open>strdup\<close>
  into memory of the C library, and the destructor hands it to the collector's \<open>GC_FREE\<close>.
\<close>

theorem string_removal_faults:
  assumes "repr a xs" "ut_icd a = ut_str_icd (\<lambda>_. True)" "blocks w p = Some t" "length xs < 2 ^ 31"
  shows "\<exists>b v. utarray_push_back (\<lambda>_. True) (Some p) (a, w) = Ua_ok (b, v) \<and> utarray_pop_back (b, v) = Ua_fault"
proof -
  let ?c = "ut_str_icd (\<lambda>_. True)" and ?q = "next_block w"
  let ?v = "w\<lparr>blocks := (blocks w)(?q \<mapsto> Libc_block (block_text t)), next_block := ?q + 1\<rparr>"
  have "copied ?c (Some p) w = Ua_ok (Some ?q, ?v)"
    using assms(3) by (simp add: copied_def ut_str_icd_def utarray_str_cpy_def strdup_def)
  then have "list_op ?c (Push_back (Some p)) (xs, w) = Ua_ok (xs @ [Some ?q], ?v)"
    using assms(4) by (simp add: list_insert_def)
  then obtain b where b: "utarray_push_back (\<lambda>_. True) (Some p) (a, w) = Ua_ok (b, ?v)" "repr b (xs @ [Some ?q])" "ut_icd b = ?c"
    using operation_implements [OF assms(1), of "Push_back (Some p)" w] assms(2) unfolding implements_def by auto
  have "destroyed ?c [Some ?q] ?v = Ua_fault" by (simp add: ut_str_icd_def utarray_str_dtor_def)
  then have "utarray_pop_back (b, ?v) = Ua_fault" using pop_back_spec(1) [OF b(2), of ?v] b(3) by simp
  with b(1) show ?thesis by blast
qed

lemma string_removal_faults_witness:
  "\<exists>b v. utarray_push_back (\<lambda>_. True) (Some 0) (utarray_init (ut_str_icd (\<lambda>_. True)),
      \<lparr>blocks = [0 \<mapsto> Gc_block ''abc''], next_block = 1\<rparr>) = Ua_ok (b, v) \<and> utarray_pop_back (b, v) = Ua_fault"
proof -
  have "repr (utarray_init (ut_str_icd (\<lambda>_. True))) []" by (rule repr_init) (simp_all add: ut_str_icd_def)
  then show ?thesis by (rule string_removal_faults) (simp_all add: utarray_init_def)
qed

end
