(* ===== verification/BL_Hash_Props.thy ===== *)
theory BL_Hash_Props
  imports BL_Uthash_Ops BL_Array_Props BL_Program_Props
begin

text \<open>
  The hash table as a finite map that can shrink: removal and replacement, the sorting of its elements, its
  Bloom filter, and what selection leaves behind.
\<close>

section \<open>Removal\<close>

lemma by_hash_value:
  "HASH_FIND head key keylen = HASH_FIND_BYHASHVALUE head key keylen (HASH_JEN key keylen)"
  "HASH_ADD_KEYPTR mem key keylen elm head = HASH_ADD_KEYPTR_BYHASHVALUE mem key keylen (HASH_JEN key keylen) elm head"
  by (simp_all add: HASH_FIND_def HASH_FIND_BYHASHVALUE_def HASH_ADD_KEYPTR_def HASH_ADD_KEYPTR_BYHASHVALUE_def
      new_handle_def Let_def split: sum.split)

lemma placed_bucket:
  assumes "placed nb bs" "h \<in> set (chained bs)"
  shows "HASH_TO_BKT (hh_hashv h) nb < length bs" "h \<in> set (hh_head (bs ! HASH_TO_BKT (hh_hashv h) nb))"
proof -
  obtain b where "b \<in> set bs" "h \<in> set (hh_head b)" using assms(2) by (auto simp: chained_def)
  then obtain i where i: "i < length bs" "h \<in> set (hh_head (bs ! i))" by (metis in_set_conv_nth)
  then have "HASH_TO_BKT (hh_hashv h) nb = i" using assms(1) by (simp add: placed_def)
  with i show "HASH_TO_BKT (hh_hashv h) nb < length bs" "h \<in> set (hh_head (bs ! HASH_TO_BKT (hh_hashv h) nb))" by simp_all
qed

lemma placed_pull:
  assumes "placed nb bs" "h \<in> set (chained bs)" "i = HASH_TO_BKT (hh_hashv h) nb"
  shows "placed nb (bs[i := HASH_DEL_IN_BKT h (bs ! i)])"
    "mset (chained (bs[i := HASH_DEL_IN_BKT h (bs ! i)])) = mset (chained bs) - {#h#}"
proof -
  have i: "i < length bs" "h \<in> set (hh_head (bs ! i))" using placed_bucket [OF assms(1,2)] assms(3) by simp_all
  then have "hh_head (bs ! i) \<noteq> []" by auto
  then have "of_nat (length (hh_head (bs ! i)) - Suc 0) = (of_nat (length (hh_head (bs ! i))) :: u32) - 1"
    by (simp add: of_nat_diff Suc_leI)
  then show "placed nb (bs[i := HASH_DEL_IN_BKT h (bs ! i)])"
    using assms(1) i by (auto simp: placed_def nth_list_update HASH_DEL_IN_BKT_def length_remove1 dest: notin_set_remove1 [rotated])
  have "mset (chained (bs[i := HASH_DEL_IN_BKT h (bs ! i)])) + mset (hh_head (bs ! i))
      = mset (chained bs) + (mset (hh_head (bs ! i)) - {#h#})"
    using chained_update [OF i(1), of "HASH_DEL_IN_BKT h (bs ! i)"] by (simp add: HASH_DEL_IN_BKT_def)
  moreover obtain B where "mset (hh_head (bs ! i)) = add_mset h B" using i(2) by (metis mset_add set_mset_mset)
  ultimately have "add_mset h (mset (chained (bs[i := HASH_DEL_IN_BKT h (bs ! i)]))) + B = mset (chained bs) + B" by simp
  then have "add_mset h (mset (chained (bs[i := HASH_DEL_IN_BKT h (bs ! i)]))) = mset (chained bs)" by (rule add_right_imp_eq)
  then show "mset (chained (bs[i := HASH_DEL_IN_BKT h (bs ! i)])) = mset (chained bs) - {#h#}"
    by (metis add_mset_remove_trivial)
qed

lemma delete_ok:
  assumes ok: "ut_ok tbl" and del: "del \<in> set (app_order tbl)" "app_order tbl \<noteq> [del]"
  shows "\<exists>tbl'. HASH_DELETE del (Some tbl) = Inr (Some tbl') \<and> ut_ok tbl' \<and> app_order tbl' = remove1 del (app_order tbl)"
proof -
  let ?i = "HASH_TO_BKT (hh_hashv del) (num_buckets tbl)"
  let ?t = "tbl\<lparr>app_order := remove1 del (app_order tbl),
      buckets := (buckets tbl)[?i := HASH_DEL_IN_BKT del (buckets tbl ! ?i)], num_items := num_items tbl - 1\<rparr>"
  have rest: "placed (num_buckets tbl) (buckets tbl)" "mset (chained (buckets tbl)) = mset (app_order tbl)"
      "num_items tbl = of_nat (length (app_order tbl))" "list_all handle_ok (app_order tbl)"
    using ok by (auto simp: ut_ok_def)
  have in_chain: "del \<in> set (chained (buckets tbl))" using mset_eq_setD [OF rest(2)] del(1) by simp
  have len: "of_nat (length (remove1 del (app_order tbl))) = (of_nat (length (app_order tbl)) :: u32) - 1"
    using del(1) length_pos_if_in_set [OF del(1)] by (simp add: length_remove1 of_nat_diff Suc_leI)
  have "list_all handle_ok (remove1 del (app_order tbl))" using rest(4) by (auto simp: list_all_iff dest: notin_set_remove1 [rotated])
  then have "ut_ok ?t"
    using ok placed_pull [OF rest(1) in_chain refl] rest(2,3) len by (auto simp: ut_ok_def)
  then show ?thesis using del by (auto simp: HASH_DELETE_def HASH_DELETE_HH_def Let_def)
qed

text \<open>Handles of well-formed tables are determined by their key and their element.\<close>

lemma entry_inj: "handle_ok h \<Longrightarrow> handle_ok h' \<Longrightarrow> entry h = entry h' \<longleftrightarrow> h = h'"
  by (cases h; cases h') (auto simp: handle_ok_def entry_def)

lemma map_entry_remove1:
  assumes "list_all handle_ok hs" "handle_ok del"
  shows "map entry (remove1 del hs) = remove1 (entry del) (map entry hs)"
  using assms(1)
proof (induction hs)
  case (Cons h hs)
  then have "entry h = entry del \<longleftrightarrow> h = del" using entry_inj [OF _ assms(2)] by simp
  then show ?case using Cons by auto
qed simp

lemma remove1_distinct_keys:
  assumes "distinct (map fst tab)" "(x, p) \<in> set tab"
  shows "rev (remove1 (x, p) (rev tab)) = filter (\<lambda>e. fst e \<noteq> x) tab"
proof -
  have d: "distinct tab" using assms(1) by (simp add: distinct_map)
  have "filter (\<lambda>e. e \<noteq> (x, p)) tab = filter (\<lambda>e. fst e \<noteq> x) tab"
    using assms by (intro filter_cong) (auto dest: eq_key_imp_eq_value)
  then show ?thesis using d by (simp add: distinct_remove1_removeAll removeAll_filter_not_eq rev_filter eq_commute)
qed

lemma find_in_bkt_member: "HASH_FIND_IN_BKT hs key n v = Some h \<Longrightarrow> h \<in> set hs"
  by (induction hs) (auto split: if_splits)

lemma find_str_element:
  assumes "ut_ok tbl" "length x < 2 ^ 32" "HASH_FIND_STR (Some tbl) x = Some h"
  shows "h \<in> set (app_order tbl)" "hh_key h = x"
proof -
  let ?i = "HASH_TO_BKT (HASH_JEN x (of_nat (length x))) (num_buckets tbl)"
  have run: "HASH_FIND_IN_BKT (hh_head (buckets tbl ! ?i)) x (of_nat (length x)) (HASH_JEN x (of_nat (length x))) = Some h"
    using assms(3) by (simp add: HASH_FIND_STR_def HASH_FIND_def Let_def)
  obtain k where "num_buckets tbl = 2 ^ k" "length (buckets tbl) = 2 ^ k" using assms(1) by (auto simp: ut_ok_def)
  then have "?i < length (buckets tbl)" using HASH_TO_BKT_less by metis
  then have sub: "set (hh_head (buckets tbl ! ?i)) \<subseteq> set (chained (buckets tbl))" using nth_mem unfolding chained_def by auto
  have all: "set (chained (buckets tbl)) = set (app_order tbl)" "list_all handle_ok (app_order tbl)"
    using assms(1) mset_eq_setD unfolding ut_ok_def by blast+
  show "h \<in> set (app_order tbl)" using find_in_bkt_member [OF run] sub all(1) by blast
  have "\<forall>g \<in> set (hh_head (buckets tbl ! ?i)). handle_ok g" using sub all unfolding list_all_iff by blast
  then show "hh_key h = x" using find_in_bkt [OF _ assms(2)] run by (auto simp: find_Some_iff)
qed

lemma delete_holds:
  assumes T: "holds head tab" and d: "distinct (map fst tab)" and x: "length x < 2 ^ 32" "HASH_FIND_STR head x = Some h"
  shows "\<exists>head'. HASH_DELETE h head = Inr head' \<and> holds head' (filter (\<lambda>e. fst e \<noteq> x) tab)"
proof -
  obtain tbl where tbl: "head = Some tbl" using x(2) by (cases head) (auto simp: HASH_FIND_STR_def HASH_FIND_def)
  have ok: "ut_ok tbl" "map entry (app_order tbl) = rev tab" using T tbl by (simp_all add: holds_def)
  have h: "h \<in> set (app_order tbl)" "hh_key h = x"
    using find_str_element [OF ok(1) x(1)] x(2) tbl by auto
  have hs: "list_all handle_ok (app_order tbl)" using ok(1) by (simp add: ut_ok_def)
  then have "handle_ok h" using h(1) by (simp add: list_all_iff)
  then have removed: "map entry (remove1 h (app_order tbl)) = remove1 (entry h) (rev tab)" using map_entry_remove1 [OF hs] ok(2) by simp
  have e: "entry h = (x, hh_sym h)" using h(2) by (simp add: entry_def)
  have "entry h \<in> set (map entry (app_order tbl))" using h(1) by simp
  then have mem: "(x, hh_sym h) \<in> set tab" unfolding ok(2) e by simp
  have tab': "remove1 (entry h) (rev tab) = rev (filter (\<lambda>e. fst e \<noteq> x) tab)"
    using remove1_distinct_keys [OF d mem] unfolding e by (metis rev_rev_ident)
  show ?thesis
  proof (cases "app_order tbl = [h]")
    case True
    then have "tab = [(x, hh_sym h)]" using ok(2) e by simp
    then show ?thesis using True by (simp add: tbl HASH_DELETE_def HASH_DELETE_HH_def holds_def)
  next
    case False
    then obtain tbl' where "HASH_DELETE h head = Inr (Some tbl')" "ut_ok tbl'" "app_order tbl' = remove1 h (app_order tbl)"
      using delete_ok [OF ok(1) h(1)] tbl by blast
    then show ?thesis using removed tab' by (auto simp: holds_def)
  qed
qed

text \<open>A table from which entries can be taken, and what follows for lookups.\<close>

locale shrinking_table = symbol_table_laws look put repr
  for look :: "'t \<Rightarrow> string \<Rightarrow> ptr option" and put :: "string \<Rightarrow> ptr \<Rightarrow> 't \<Rightarrow> ut_error + 't"
    and repr :: "'t \<Rightarrow> (string \<times> ptr) list \<Rightarrow> bool" +
  fixes take_out :: "string \<Rightarrow> 't \<Rightarrow> ut_error + 't"
  assumes take_out_law: "repr T tab \<Longrightarrow> distinct (map fst tab) \<Longrightarrow> length x < 2 ^ 32 \<Longrightarrow>
      \<exists>T'. take_out x T = Inr T' \<and> repr T' (filter (\<lambda>e. fst e \<noteq> x) tab)"
begin

lemma look_distinct: "repr T tab \<Longrightarrow> distinct (map fst tab) \<Longrightarrow> length x < 2 ^ 32 \<Longrightarrow> look T x = map_of tab x"
  by (rule look_map_of) (auto dest: eq_key_imp_eq_value)

lemma map_of_without: "map_of (filter (\<lambda>e. fst e \<noteq> x) tab) y = (if y = x then None else map_of tab y)"
  by (induction tab) auto

lemma distinct_without: "distinct (map fst tab) \<Longrightarrow> distinct (map fst (filter (\<lambda>e. fst e \<noteq> x) tab))"
  by (induction tab) auto

lemma look_taken_out:
  assumes "repr T tab" "distinct (map fst tab)" "length x < 2 ^ 32" "take_out x T = Inr T'" "length y < 2 ^ 32"
  shows "look T' y = (if y = x then None else look T y)"
proof -
  have "repr T' (filter (\<lambda>e. fst e \<noteq> x) tab)" using take_out_law [OF assms(1-3)] assms(4) by simp
  from look_distinct [OF this distinct_without [OF assms(2)] assms(5)] look_distinct [OF assms(1,2,5)]
  show ?thesis by (simp add: map_of_without)
qed

text \<open>Taking an entry out and adding one with the same key replaces it.\<close>

lemma replaced:
  assumes T: "repr T tab" "distinct (map fst tab)" "length x < 2 ^ 32" "Suc (length tab) < 2 ^ 32"
    and out: "take_out x T = Inr T'"
  shows "put x p T' = Inl UT_fatal \<or> (\<exists>T''. put x p T' = Inr T'' \<and> repr T'' ((x, p) # filter (\<lambda>e. fst e \<noteq> x) tab)
    \<and> (\<forall>y. length y < 2 ^ 32 \<longrightarrow> look T'' y = (if y = x then Some p else look T y)))"
proof -
  let ?tab = "filter (\<lambda>e. fst e \<noteq> x) tab"
  have r: "repr T' ?tab" using take_out_law [OF T(1-3)] out by simp
  have "Suc (length ?tab) < 2 ^ 32" using T(4) length_filter_le [of "\<lambda>e. fst e \<noteq> x" tab] by linarith
  from put_law [OF r T(3) this, of p] show ?thesis
  proof (elim disjE exE conjE)
    fix T'' assume T'': "put x p T' = Inr T''" "repr T'' ((x, p) # ?tab)"
    have d: "distinct (map fst ((x, p) # ?tab))" using distinct_without [OF T(2)] by auto
    have "look T'' y = (if y = x then Some p else look T y)" if "length y < 2 ^ 32" for y
      using look_distinct [OF T''(2) d that] look_distinct [OF T(1,2) that] by (simp add: map_of_without)
    with T'' show ?thesis by blast
  qed simp
qed

end

definition hash_take_out :: "string \<Rightarrow> ut_table option \<Rightarrow> ut_error + ut_table option" where
  "hash_take_out x head = (case HASH_FIND_STR head x of None \<Rightarrow> Inr head | Some h \<Rightarrow> HASH_DELETE h head)"

interpretation hashed: shrinking_table hash_look "HASH_ADD_STR (\<lambda>n. mem n \<and> n < 2 ^ 36)" holds hash_take_out for mem
proof
  fix T :: "ut_table option" and tab :: "(string \<times> ptr) list" and x :: string
  assume T: "holds T tab" "distinct (map fst tab)" "length x < 2 ^ 32"
  show "\<exists>T'. hash_take_out x T = Inr T' \<and> holds T' (filter (\<lambda>e. fst e \<noteq> x) tab)"
  proof (cases "HASH_FIND_STR T x")
    case None
    then have "x \<notin> fst ` set tab" using find_str_holds [OF T(1,3)] by simp
    then have "filter (\<lambda>e. fst e \<noteq> x) tab = tab" by (auto simp: filter_id_conv)
    with None T(1) show ?thesis by (simp add: hash_take_out_def)
  next
    case (Some h)
    from delete_holds [OF T(1,2,3) Some] show ?thesis by (simp add: hash_take_out_def Some)
  qed
qed

lemma replace_str_steps:
  "HASH_REPLACE_STR mem x p head = (case hash_take_out x head of Inl e \<Rightarrow> Inl e
     | Inr head' \<Rightarrow> map_sum id (Pair (HASH_FIND_STR head x)) (HASH_ADD_STR mem x p head'))"
  unfolding HASH_REPLACE_STR_def HASH_REPLACE_def HASH_REPLACE_BYHASHVALUE_def hash_take_out_def Let_def
    HASH_FIND_STR_def HASH_ADD_STR_def by_hash_value ..

text \<open>
  C24. Removing an element of the hash table removes its key and nothing else: the table stays consistent,
  the key is not found any more, and every other key is found as before.
\<close>

theorem hash_removal:
  assumes "holds head tab" "distinct (map fst tab)" "length x < 2 ^ 32" "HASH_FIND_STR head x = Some h"
  shows "\<exists>head'. HASH_DELETE h head = Inr head' \<and> HASH_FSCK head' \<and> HASH_FIND_STR head' x = None
    \<and> (\<forall>y. y \<noteq> x \<longrightarrow> length y < 2 ^ 32 \<longrightarrow> map_option hh_sym (HASH_FIND_STR head' y) = map_option hh_sym (HASH_FIND_STR head y))"
proof -
  obtain head' where out: "HASH_DELETE h head = Inr head'" "holds head' (filter (\<lambda>e. fst e \<noteq> x) tab)"
    using delete_holds [OF assms] by blast
  then have "hash_take_out x head = Inr head'" by (simp add: hash_take_out_def assms(4))
  from hashed.look_taken_out [OF assms(1-3) this]
  have "hash_look head' y = (if y = x then None else hash_look head y)" if "length y < 2 ^ 32" for y using that by simp
  then show ?thesis using out(1) holds_fsck [OF out(2)] assms(3) by (fastforce simp: hash_look_def)
qed

lemma one_entry: "\<exists>T h. HASH_ADD_STR small_memory ''x'' 5 None = Inr T \<and> holds T [(''x'', 5)] \<and> HASH_FIND_STR T ''x'' = Some h"
proof -
  obtain T where T: "HASH_ADD_STR small_memory ''x'' 5 None = Inr T" using small_first_add by blast
  moreover have "holds None []" by (simp add: holds_def)
  ultimately have "holds T [(''x'', 5)]" using add_str_holds [OF _ small_bounded, of None "[]" "''x''" 5] by simp
  moreover from this have "HASH_FIND_STR T ''x'' \<noteq> None" using find_str_holds [of T "[(''x'', 5)]" "''x''"] by (auto split: option.splits)
  ultimately show ?thesis using T by blast
qed

lemma hash_removal_witness:
  "\<exists>T h T'. HASH_ADD_STR small_memory ''x'' 5 None = Inr T \<and> HASH_FIND_STR T ''x'' = Some h
     \<and> HASH_DELETE h T = Inr T' \<and> HASH_FIND_STR T' ''x'' = None"
proof -
  obtain T h where T: "HASH_ADD_STR small_memory ''x'' 5 None = Inr T" "holds T [(''x'', 5)]" "HASH_FIND_STR T ''x'' = Some h"
    using one_entry by blast
  with hash_removal [OF T(2) _ _ T(3)] show ?thesis by auto
qed

text \<open>
  Replacing an element hands out the one that had the key, if there was one, and makes the key lead to
  the new element; every other key is found as before. Only a refused allocation stops it.
\<close>

theorem hash_replacement:
  assumes "holds head tab" "distinct (map fst tab)" "length x < 2 ^ 32" "Suc (length tab) < 2 ^ 32" "bounded_memory mem"
  shows "HASH_REPLACE_STR mem x p head = Inl UT_fatal
    \<or> (\<exists>head'. HASH_REPLACE_STR mem x p head = Inr (HASH_FIND_STR head x, head') \<and> HASH_FSCK head'
         \<and> (\<forall>y. length y < 2 ^ 32 \<longrightarrow> hash_look head' y = (if y = x then Some p else hash_look head y)))"
proof -
  obtain head' where out: "hash_take_out x head = Inr head'" using hashed.take_out_law [OF assms(1-3)] by blast
  from hashed.replaced [OF assms(1-4) out, of mem p, unfolded cut_bounded [OF assms(5)]]
  show ?thesis using holds_fsck unfolding replace_str_steps out by fastforce
qed

lemma hash_replacement_witness:
  "\<exists>T. HASH_ADD_STR small_memory ''x'' 5 None = Inr T
     \<and> (HASH_REPLACE_STR small_memory ''x'' 7 T = Inl UT_fatal
        \<or> (\<exists>h T'. HASH_REPLACE_STR small_memory ''x'' 7 T = Inr (Some h, T') \<and> hash_look T' ''x'' = Some 7))"
proof -
  obtain T h where T: "HASH_ADD_STR small_memory ''x'' 5 None = Inr T" "holds T [(''x'', 5)]" "HASH_FIND_STR T ''x'' = Some h"
    using one_entry by blast
  with hash_replacement [OF T(2) _ _ _ small_bounded, of "''x''" 7] show ?thesis by fastforce
qed

section \<open>Sorting\<close>

lemma srt_merge_mset: "mset (srt_merge cmp ps qs) = mset ps + mset qs"
  by (induction cmp ps qs rule: srt_merge.induct) auto

lemma srt_merge_set: "set (srt_merge cmp ps qs) = set ps \<union> set qs"
  by (induction cmp ps qs rule: srt_merge.induct) auto

lemma srt_merge_length: "length (srt_merge cmp ps qs) = length ps + length qs"
  by (metis srt_merge_mset size_mset size_union)

lemma srt_merge_sorted:
  "comparison cmp \<Longrightarrow> ordered_by cmp ps \<Longrightarrow> ordered_by cmp qs \<Longrightarrow> ordered_by cmp (srt_merge cmp ps qs)"
  by (induction cmp ps qs rule: srt_merge.induct)
     (auto simp: srt_merge_set intro: comparison_trans dest: comparison_total)

text \<open>Elements that compare equal keep their order.\<close>

lemma srt_merge_stable:
  "comparison cmp \<Longrightarrow> ordered_by cmp ps \<Longrightarrow> filter (\<lambda>y. cmp x y = 0) (srt_merge cmp ps qs)
    = filter (\<lambda>y. cmp x y = 0) ps @ filter (\<lambda>y. cmp x y = 0) qs"
proof (induction cmp ps qs rule: srt_merge.induct)
  case (3 cmp p ps q qs)
  show ?case
  proof (cases "cmp p q \<le> 0")
    case False
    have none: "filter (\<lambda>y. cmp x y = 0) (p # ps) = []" if "cmp x q = 0"
    proof (intro filter_False ballI notI)
      fix y assume y: "y \<in> set (p # ps)" "cmp x y = 0"
      have "cmp p y \<le> 0 \<or> y = p" using y(1) 3(4) by auto
      moreover have "cmp y x \<le> 0" "cmp x q \<le> 0" using y(2) that comparison_flip(2) [OF 3(3), of x y] by simp_all
      ultimately show False using False comparison_trans [OF 3(3)] by blast
    qed
    then show ?thesis using 3 False by (cases "cmp x q = 0") auto
  qed (use 3 in auto)
qed auto

definition runs :: "('e \<Rightarrow> 'e \<Rightarrow> int) \<Rightarrow> nat \<Rightarrow> 'e list \<Rightarrow> bool" where
  "runs cmp k xs \<longleftrightarrow> (\<forall>i. ordered_by cmp (take k (drop (i * k) xs)))"

lemma runs_drop: "runs cmp k xs \<Longrightarrow> runs cmp k (drop (m * k) xs)"
  by (simp add: runs_def add_mult_distrib [symmetric])

lemma runs_one: "runs cmp 1 xs"
  unfolding runs_def
proof
  fix i
  show "ordered_by cmp (take 1 (drop (i * 1) xs))" by (cases "drop (i * 1) xs") simp_all
qed

lemma runs_append:
  assumes "ordered_by cmp ms" "length ms = k \<or> ys = []" "length ms \<le> k" "runs cmp k ys"
  shows "runs cmp k (ms @ ys)"
  unfolding runs_def
proof
  fix i
  show "ordered_by cmp (take k (drop (i * k) (ms @ ys)))"
  proof (cases i)
    case 0
    then show ?thesis using assms(1-3) by auto
  next
    case (Suc n)
    then have "drop (i * k) (ms @ ys) = drop (n * k) ys" using assms(2,3) by auto
    then show ?thesis using assms(4) by (simp add: runs_def)
  qed
qed

lemma srt_pass_Nil: "srt_pass cmp k [] = ([], 0)"
  by (subst srt_pass.simps) simp

lemma srt_pass_step:
  assumes "xs \<noteq> []" "k > 0" "srt_pass cmp k (drop (k + k) xs) = (zs, m)"
  shows "srt_pass cmp k xs = (srt_merge cmp (take k xs) (take k (drop k xs)) @ zs, Suc m)"
  by (subst srt_pass.simps) (use assms in simp)

lemma srt_pass_spec:
  assumes c: "comparison cmp" and k: "k > 0"
  shows "runs cmp k xs \<Longrightarrow> srt_pass cmp k xs = (ys, n) \<Longrightarrow>
    mset ys = mset xs \<and> runs cmp (2 * k) ys \<and> n \<le> length xs \<and> (n \<le> 1 \<longleftrightarrow> length xs \<le> 2 * k)
    \<and> (\<forall>x. filter (\<lambda>y. cmp x y = 0) ys = filter (\<lambda>y. cmp x y = 0) xs)"
proof (induction "length xs" arbitrary: xs ys n rule: less_induct)
  case less
  show ?case
  proof (cases "xs = []")
    case True
    then show ?thesis using less.prems(2) by (auto simp: srt_pass_Nil runs_def)
  next
    case False
    let ?p = "take k xs" and ?q = "take k (drop k xs)" and ?r = "drop (k + k) xs"
    obtain zs m where z: "srt_pass cmp k ?r = (zs, m)" by fastforce
    then have run: "ys = srt_merge cmp ?p ?q @ zs" "n = Suc m"
      using less.prems(2) srt_pass_step [OF False k z] by simp_all
    have "runs cmp k ?r" using runs_drop [OF less.prems(1), of 2] by (simp add: mult_2)
    then have IH: "mset zs = mset ?r" "runs cmp (2 * k) zs" "m \<le> length ?r"
        "\<forall>x. filter (\<lambda>y. cmp x y = 0) zs = filter (\<lambda>y. cmp x y = 0) ?r" "m \<le> 1 \<longleftrightarrow> length ?r \<le> 2 * k"
      using less.hyps [of ?r zs m] z False k by simp_all
    have po: "ordered_by cmp ?p" "ordered_by cmp ?q"
      using less.prems(1) [unfolded runs_def, THEN spec, of 0] less.prems(1) [unfolded runs_def, THEN spec, of 1] by simp_all
    have parts: "xs = ?p @ ?q @ ?r" by (metis append_take_drop_id drop_drop add.commute)
    have "mset ys = mset (?p @ ?q @ ?r)" unfolding run by (simp add: srt_merge_mset IH(1))
    then have 1: "mset ys = mset xs" using parts by simp
    have len: "length (srt_merge cmp ?p ?q) = min (2 * k) (length xs)" by (simp add: srt_merge_length)
    have "zs = []" if "length xs < 2 * k" using IH(1) that by simp
    then have full: "length (srt_merge cmp ?p ?q) = 2 * k \<or> zs = []" using len by (cases "length xs < 2 * k") auto
    have 2: "runs cmp (2 * k) ys" unfolding run
      by (rule runs_append [OF srt_merge_sorted [OF c po] full _ IH(2)]) (use len in simp)
    have "filter (\<lambda>y. cmp x y = 0) ys = filter (\<lambda>y. cmp x y = 0) (?p @ ?q @ ?r)" for x
      unfolding run by (simp add: srt_merge_stable [OF c po(1)] IH(4))
    then have 3: "\<forall>x. filter (\<lambda>y. cmp x y = 0) ys = filter (\<lambda>y. cmp x y = 0) xs" using parts by simp
    have m0: "m = 0 \<longleftrightarrow> ?r = []" using z srt_pass_step [OF _ k, of ?r cmp]
      by (cases "?r = []") (auto simp: srt_pass_Nil prod_eq_iff)
    have "0 < length xs" using False by simp
    then have "n \<le> length xs" using IH(3) k run(2) unfolding length_drop by linarith
    moreover have "n \<le> 1 \<longleftrightarrow> length xs \<le> 2 * k" using run(2) m0 by (auto simp: mult_2)
    ultimately show ?thesis using 1 2 3 by blast
  qed
qed

lemma srt_loop_spec:
  assumes c: "comparison cmp" and "j \<le> 31" "runs cmp (2 ^ j) xs" "length xs < 2 ^ 32"
  shows "\<exists>ys. srt_loop cmp (2 ^ j) xs = Some ys \<and> mset ys = mset xs \<and> ordered_by cmp ys
    \<and> (\<forall>x. filter (\<lambda>y. cmp x y = 0) ys = filter (\<lambda>y. cmp x y = 0) xs)"
  using assms(2-4)
proof (induction "31 - j" arbitrary: j xs)
  case 0
  then have j: "j = 31" by simp
  obtain ys n where p: "srt_pass cmp (2 ^ 31) xs = (ys, n)" by fastforce
  have s: "mset ys = mset xs" "runs cmp (2 * 2 ^ 31) ys" "n \<le> 1 \<longleftrightarrow> length xs \<le> 2 * 2 ^ 31"
      "\<forall>x. filter (\<lambda>y. cmp x y = 0) ys = filter (\<lambda>y. cmp x y = 0) xs"
    using srt_pass_spec [OF c _ _ p] 0(3) j by simp_all
  have "n \<le> 1" using s(3) 0(4) by simp
  then have "of_nat n \<le> (1 :: u32)" by (cases n) auto
  moreover have "unat (2 ^ 31 :: u32) = 2 ^ 31" by (rule unat_two_power) simp
  ultimately have "srt_loop cmp (2 ^ j) xs = Some ys" using p unfolding j by (subst srt_loop.simps) simp
  moreover have "ordered_by cmp ys"
    using s(2) [unfolded runs_def, THEN spec, of 0] mset_eq_length [OF s(1)] 0(4) by simp
  ultimately show ?case using s(1,4) by blast
next
  case (Suc d)
  then have j: "j \<le> 30" by simp
  obtain ys n where p: "srt_pass cmp (2 ^ j) xs = (ys, n)" by fastforce
  have s: "mset ys = mset xs" "runs cmp (2 * 2 ^ j) ys" "n \<le> length xs" "n \<le> 1 \<longleftrightarrow> length xs \<le> 2 * 2 ^ j"
      "\<forall>x. filter (\<lambda>y. cmp x y = 0) ys = filter (\<lambda>y. cmp x y = 0) xs"
    using srt_pass_spec [OF c _ Suc.prems(2) p] by simp_all
  have u: "unat (2 ^ j :: u32) = 2 ^ j" using unat_two_power j by simp
  then have nz: "(2 ^ j :: u32) \<noteq> 0" by (metis unat_0 power_not_zero zero_neq_numeral)
  have "unat (of_nat n :: u32) = n" using s(3) Suc.prems(3) by (simp add: unat_of_nat)
  then have one: "of_nat n \<le> (1 :: u32) \<longleftrightarrow> n \<le> 1" by (simp add: word_le_nat_alt)
  have step: "srt_loop cmp (2 ^ j) xs = (if n \<le> 1 then Some ys else srt_loop cmp (2 ^ Suc j) ys)"
    using p u nz one by (subst srt_loop.simps) (simp add: mult.commute)
  have len: "length ys = length xs" by (rule mset_eq_length [OF s(1)])
  show ?case
  proof (cases "n \<le> 1")
    case True
    then have "ordered_by cmp ys" using s(2) [unfolded runs_def, THEN spec, of 0] s(4) len by simp
    then show ?thesis using step True s(1,5) by simp
  next
    case False
    have "\<exists>zs. srt_loop cmp (2 ^ Suc j) ys = Some zs \<and> mset zs = mset ys \<and> ordered_by cmp zs
        \<and> (\<forall>x. filter (\<lambda>y. cmp x y = 0) zs = filter (\<lambda>y. cmp x y = 0) ys)"
      by (rule Suc.hyps(1)) (use Suc.hyps(2) j s(2) len Suc.prems(3) in simp_all)
    then show ?thesis using step False s(1,5) by simp
  qed
qed

text \<open>
  C37. Sorting the elements of a hash table always ends, leaves the table consistent with the same elements
  in the order of the comparison, and is stable: elements that compare equal keep their order.
\<close>

theorem hash_sort_stable:
  assumes "ut_ok tbl" "length (app_order tbl) < 2 ^ 32" "comparison cmp"
  shows "\<exists>xs. HASH_SRT cmp (Some tbl) = Some (Some (tbl\<lparr>app_order := xs\<rparr>)) \<and> HASH_FSCK (Some (tbl\<lparr>app_order := xs\<rparr>))
    \<and> mset xs = mset (app_order tbl) \<and> sorted_wrt (\<lambda>x y. cmp x y \<le> 0) xs
    \<and> (\<forall>x. filter (\<lambda>y. cmp x y = 0) xs = filter (\<lambda>y. cmp x y = 0) (app_order tbl))"
proof -
  obtain xs where xs: "srt_loop cmp 1 (app_order tbl) = Some xs" "mset xs = mset (app_order tbl)"
      "sorted_wrt (\<lambda>x y. cmp x y \<le> 0) xs" "\<forall>x. filter (\<lambda>y. cmp x y = 0) xs = filter (\<lambda>y. cmp x y = 0) (app_order tbl)"
    using srt_loop_spec [OF assms(3), of 0 "app_order tbl"] runs_one assms(2) by auto
  have "set xs = set (app_order tbl)" "length xs = length (app_order tbl)"
    using mset_eq_setD [OF xs(2)] mset_eq_length [OF xs(2)] by simp_all
  then have "ut_ok (tbl\<lparr>app_order := xs\<rparr>)" using assms(1) xs(2) by (simp add: ut_ok_def list_all_iff)
  then have "HASH_FSCK (Some (tbl\<lparr>app_order := xs\<rparr>))"
    using holds_fsck [of "Some (tbl\<lparr>app_order := xs\<rparr>)" "rev (map entry xs)"] by (simp add: holds_def)
  then show ?thesis using xs by (auto simp: HASH_SRT_def)
qed

lemma hash_sort_stable_witness:
  "\<exists>T t xs. HASH_ADD_STR small_memory ''x'' 5 None = Inr T \<and> T = Some t
     \<and> HASH_SRT (\<lambda>g h. int (hh_sym g) - int (hh_sym h)) T = Some (Some (t\<lparr>app_order := xs\<rparr>)) \<and> mset xs = mset (app_order t)"
proof -
  obtain T h where T: "HASH_ADD_STR small_memory ''x'' 5 None = Inr T" "holds T [(''x'', 5)]" "HASH_FIND_STR T ''x'' = Some h"
    using one_entry by blast
  then obtain t where t: "T = Some t" by (cases T) (auto simp: holds_def)
  have "ut_ok t" "length (app_order t) = 1" using T(2) t arg_cong [of "map entry (app_order t)" _ length] by (auto simp: holds_def)
  moreover have "comparison (\<lambda>g h. int (hh_sym g) - int (hh_sym h))" by (auto simp: comparison_def sgn_if)
  ultimately show ?thesis using hash_sort_stable [of t "\<lambda>g h. int (hh_sym g) - int (hh_sym h)"] T(1) t by auto
qed

section \<open>Removal while iterating\<close>

lemma iter_delete:
  assumes "ut_ok tbl" "distinct (app_order tbl)" "app_order tbl = h # hs" "length hs < n"
  shows "iter_from HASH_DELETE (Suc n) (Some h) (case hs of [] \<Rightarrow> None | g # _ \<Rightarrow> Some g) (Some tbl) = Some (Inr None)"
  using assms
proof (induction hs arbitrary: tbl h n)
  case Nil
  then show ?case by (cases n) (simp_all add: HASH_DELETE_def HASH_DELETE_HH_def)
next
  case (Cons g gs)
  obtain tbl' where t: "HASH_DELETE h (Some tbl) = Inr (Some tbl')" "ut_ok tbl'" "app_order tbl' = g # gs"
    using delete_ok [OF Cons.prems(1), of h] Cons.prems(3) by auto
  obtain m where n: "n = Suc m" using Cons.prems(4) by (cases n) auto
  have "hh_next_of (Some g) (Some tbl') = (case gs of [] \<Rightarrow> None | f # _ \<Rightarrow> Some f)"
    using t(3) by (cases gs) (simp_all add: hh_next_of_def)
  moreover have "iter_from HASH_DELETE (Suc m) (Some g) (case gs of [] \<Rightarrow> None | f # _ \<Rightarrow> Some f) (Some tbl') = Some (Inr None)"
    by (rule Cons.IH [OF t(2)]) (use t(3) Cons.prems n in simp_all)
  ultimately show ?case using t(1) n by simp
qed

text \<open>
  \<open>HASH_ITER\<close> allows its body to remove the element it is at: iterating over a table and removing every
  element visits each of them once and ends with the empty table.
\<close>

theorem iteration_may_delete:
  assumes "ut_ok tbl" "distinct (app_order tbl)" "app_order tbl \<noteq> []"
  shows "HASH_ITER (Suc (length (app_order tbl))) HASH_DELETE (Some tbl) = Some (Inr None)"
proof -
  obtain h hs where a: "app_order tbl = h # hs" using assms(3) by (cases "app_order tbl") auto
  have "hh_next_of (Some h) (Some tbl) = (case hs of [] \<Rightarrow> None | f # _ \<Rightarrow> Some f)"
    using a by (cases hs) (simp_all add: hh_next_of_def)
  then show ?thesis using iter_delete [OF assms(1,2) a, of "length (app_order tbl)"] a
    by (simp add: HASH_ITER_def hh_first_def del: iter_from.simps)
qed

lemma iteration_may_delete_witness:
  "\<exists>T. HASH_ADD_STR small_memory ''x'' 5 None = Inr T \<and> HASH_ITER 2 HASH_DELETE T = Some (Inr None)"
proof -
  obtain T h where T: "HASH_ADD_STR small_memory ''x'' 5 None = Inr T" "holds T [(''x'', 5)]" "HASH_FIND_STR T ''x'' = Some h"
    using one_entry by blast
  then obtain t where t: "T = Some t" by (cases T) (auto simp: holds_def)
  have ok: "ut_ok t" "map entry (app_order t) = [(''x'', 5)]" using T(2) t by (auto simp: holds_def)
  then obtain g where "app_order t = [g]" by auto
  with iteration_may_delete [OF ok(1)] T(1) t show ?thesis by (auto simp: numeral_2_eq_2)
qed

section \<open>The Bloom filter\<close>

lemma bittest_bit: "HASH_BLOOM_BITTEST bv i \<noteq> 0 \<longleftrightarrow> bit (bv ! (i div 8)) (i mod 8)"
  by (simp add: HASH_BLOOM_BITTEST_def push_bit_eq_mult and_exp_eq_0_iff_not_bit)

lemma bitset_bit:
  assumes "i div 8 < length bv"
  shows "bit (HASH_BLOOM_BITSET bv i ! (j div 8)) (j mod 8) \<longleftrightarrow> bit (bv ! (j div 8)) (j mod 8) \<or> j = i"
proof (cases "j div 8 = i div 8")
  case True
  then have "j = i \<longleftrightarrow> j mod 8 = i mod 8" by (metis div_mult_mod_eq)
  moreover have "j mod 8 < 8" by simp
  ultimately show ?thesis using True assms by (auto simp: HASH_BLOOM_BITSET_def bit_or_iff push_bit_eq_mult bit_exp_iff)
next
  case False
  then show ?thesis by (auto simp: HASH_BLOOM_BITSET_def)
qed

lemma bloom_index_less:
  assumes "nbits \<le> 32"
  shows "bloom_index nbits hashv < 2 ^ nbits"
proof -
  have "(ucast (push_bit nbits 1 - 1 :: 64 word) :: u32) = mask nbits"
    using assms by (intro bit_word_eqI) (auto simp: bit_simps mask_eq_exp_minus_1 [symmetric] push_bit_eq_mult)
  then have "bloom_index nbits hashv = unat (take_bit nbits hashv)" by (simp add: bloom_index_def take_bit_eq_mask)
  then show ?thesis by (simp add: unsigned_take_bit_eq)
qed

lemma bloom_byte:
  assumes "nbits \<le> 32"
  shows "bloom_index nbits hashv div 8 < HASH_BLOOM_BYTELEN nbits"
proof -
  have "i div 8 < n div 8 + (if n mod 8 \<noteq> 0 then 1 else 0)" if "i < n" for i n :: nat using that by auto
  then show ?thesis using bloom_index_less [OF assms] unfolding HASH_BLOOM_BYTELEN_def by blast
qed

text \<open>
  The Bloom filter has no false negatives: the hash value of an element that was added passes the test
  however many others were added before and after, so a filtered lookup misses no element.
\<close>

theorem bloom_no_false_negatives:
  assumes "nbits \<le> 32" "HASH_BLOOM_MAKE mem nbits = Inr bv" "v \<in> set vs"
  shows "HASH_BLOOM_TEST nbits v (fold (HASH_BLOOM_ADD nbits) vs bv)"
proof -
  have len: "length bv = HASH_BLOOM_BYTELEN nbits" using assms(2) by (auto simp: HASH_BLOOM_MAKE_def split: if_splits)
  have "(v \<in> set us \<or> HASH_BLOOM_TEST nbits v b) \<longrightarrow> HASH_BLOOM_TEST nbits v (fold (HASH_BLOOM_ADD nbits) us b)"
    if "length b = HASH_BLOOM_BYTELEN nbits" for us b
    using that
  proof (induction us arbitrary: b)
    case (Cons u us)
    have "HASH_BLOOM_TEST nbits v (HASH_BLOOM_ADD nbits u b)" if "v = u \<or> HASH_BLOOM_TEST nbits v b"
      using that bitset_bit [of "bloom_index nbits u" b "bloom_index nbits v"] bloom_byte [OF assms(1), of u] Cons.prems
      by (auto simp: HASH_BLOOM_TEST_def HASH_BLOOM_ADD_def bittest_bit)
    moreover have "length (HASH_BLOOM_ADD nbits u b) = HASH_BLOOM_BYTELEN nbits"
      using Cons.prems by (simp add: HASH_BLOOM_ADD_def HASH_BLOOM_BITSET_def)
    ultimately show ?case using Cons.IH by auto
  qed simp
  then show ?thesis using len assms(3) by blast
qed

lemma bloom_no_false_negatives_witness:
  "HASH_BLOOM_TEST 4 (HASH_JEN ''x'' 1) (fold (HASH_BLOOM_ADD 4) [HASH_JEN ''x'' 1, 77] (replicate 2 0))"
  by (rule bloom_no_false_negatives [of _ "\<lambda>_. True"]) (simp_all add: HASH_BLOOM_MAKE_def HASH_BLOOM_BYTELEN_def)

section \<open>Selection\<close>

lemma expand_keeps_order: "HASH_EXPAND_BUCKETS mem t = Inr t' \<Longrightarrow> app_order t' = app_order t"
  by (auto simp: HASH_EXPAND_BUCKETS_def Let_def split: if_splits prod.splits)

lemma add_to_bkt_keeps_order: "HASH_ADD_TO_BKT mem i h t = Inr t' \<Longrightarrow> app_order t' = app_order t"
  by (auto simp: HASH_ADD_TO_BKT_def Let_def dest: expand_keeps_order split: if_splits)

lemma select_items_tail:
  assumes "select_items mem True hs (Some (t, tail)) = Inr (Some (u, r))"
  shows "r = tail \<and> app_order u = app_order t @ hs"
  using assms
proof (induction hs arbitrary: t)
  case (Cons h hs)
  then obtain t' where t': "HASH_ADD_TO_BKT mem (HASH_TO_BKT (hh_hashv h) (num_buckets t)) h (HASH_APPEND_LIST h t) = Inr t'"
      "select_items mem True hs (Some (t'\<lparr>num_items := num_items t' + 1\<rparr>, tail)) = Inr (Some (u, r))"
    by (auto simp: HASH_APPEND_LIST_def split: sum.splits)
  from Cons.IH [OF t'(2)] add_to_bkt_keeps_order [OF t'(1)] show ?case by (simp add: HASH_APPEND_LIST_def)
qed simp

text \<open>
  A table made by \<open>HASH_SELECT\<close> lists the elements it chose, but its tail is the first of them: the
  next element that is added to it is linked behind the first, and all others drop out of the list.
\<close>

theorem selection_loses_tail:
  assumes "HASH_SELECT mem cond (Some src) None = Inr (Some (t, tail))"
    "filter (\<lambda>h. cond (hh_sym h)) (chained (buckets src)) = h # hs"
    "HASH_ADD_BEHIND mem key elm (t, tail) = Inr (t', tail')"
  shows "app_order t = h # hs \<and> (\<exists>g. hh_key g = key \<and> hh_sym g = elm \<and> app_order t' = [h, g])"
proof -
  obtain u v where u: "HASH_MAKE_TABLE mem h = Inr u" "HASH_ADD_TO_BKT mem (HASH_TO_BKT (hh_hashv h) (num_buckets u)) h u = Inr v"
      "select_items mem True hs (Some (v\<lparr>num_items := num_items v + 1\<rparr>, h)) = Inr (Some (t, tail))"
    using assms(1,2) by (cases "HASH_MAKE_TABLE mem h") (auto simp: HASH_SELECT_def split: sum.splits)
  have "app_order u = [h]" using u(1) by (auto simp: HASH_MAKE_TABLE_def split: if_splits)
  then have t: "tail = h" "app_order t = h # hs"
    using select_items_tail [OF u(3)] add_to_bkt_keeps_order [OF u(2)] by simp_all
  let ?g = "new_handle key (of_nat (length key)) (HASH_JEN key (of_nat (length key))) elm"
  have "HASH_ADD_TO_TABLE mem ?g (t\<lparr>app_order := [h, ?g]\<rparr>) = Inr t'"
    using assms(3) t by (auto simp: HASH_ADD_BEHIND_def Let_def map_sum_def split: sum.splits)
  then have "app_order t' = [h, ?g]" unfolding HASH_ADD_TO_TABLE_def using add_to_bkt_keeps_order by fastforce
  moreover have "hh_key ?g = key" "hh_sym ?g = elm" by (simp_all add: new_handle_def)
  ultimately show ?thesis using t(2) by blast
qed

definition two_elements :: ut_table where
  "two_elements = \<lparr>buckets = [\<lparr>hh_head = [new_handle ''a'' 1 0 3, new_handle ''b'' 1 0 4], bkt_count = 2, expand_mult = 0\<rparr>],
     num_buckets = 1, log2_num_buckets = 0, num_items = 2, app_order = [new_handle ''a'' 1 0 3, new_handle ''b'' 1 0 4],
     ideal_chain_maxlen = 0, nonideal_items = 0, ineff_expands = 0, noexpand = False\<rparr>"

lemma add_to_bkt_small:
  assumes "bkt_count (buckets t ! i) + 1 < 10" "expand_mult (buckets t ! i) = 0"
  shows "HASH_ADD_TO_BKT mem i h t = Inr (t\<lparr>buckets := (buckets t)[i := (buckets t ! i)\<lparr>hh_head := h # hh_head (buckets t ! i),
    bkt_count := bkt_count (buckets t ! i) + 1\<rparr>]\<rparr>)"
proof -
  have "\<not> 10 \<le> bkt_count (buckets t ! i) + 1" using assms(1) by (simp only: not_le)
  then show ?thesis using assms(2) by (simp add: HASH_ADD_TO_BKT_def Let_def HASH_BKT_CAPACITY_THRESH_def)
qed

lemma selection_loses_tail_witness:
  "\<exists>t tail t' tail' g. HASH_SELECT (\<lambda>_. True) (\<lambda>_. True) (Some two_elements) None = Inr (Some (t, tail))
     \<and> length (app_order t) = 2 \<and> HASH_ADD_BEHIND (\<lambda>_. True) ''c'' 5 (t, tail) = Inr (t', tail')
     \<and> hh_key g = ''c'' \<and> app_order t' = [new_handle ''a'' 1 0 3, g]"
proof -
  let ?a = "new_handle ''a'' 1 0 3" and ?b = "new_handle ''b'' 1 0 4"
  obtain t0 where t0: "HASH_MAKE_TABLE (\<lambda>_. True) ?a = Inr t0" "buckets t0 = replicate 128 no_items" "num_buckets t0 = 128"
    by (simp add: HASH_MAKE_TABLE_def HASH_INITIAL_NUM_BUCKETS_def)
  have zero: "HASH_TO_BKT (hh_hashv ?a) 128 = 0" "HASH_TO_BKT (hh_hashv ?b) 128 = 0"
    by (simp_all add: HASH_TO_BKT_def new_handle_def)
  obtain t where t: "HASH_SELECT (\<lambda>_. True) (\<lambda>_. True) (Some two_elements) None = Inr (Some (t, ?a))" "num_buckets t = 128"
      "length (buckets t) = 128" "\<forall>i < 128. bkt_count (buckets t ! i) + 1 < 10 \<and> expand_mult (buckets t ! i) = 0"
    using t0 zero by (simp add: HASH_SELECT_def two_elements_def chained_def add_to_bkt_small no_items_def
        HASH_APPEND_LIST_def nth_list_update)
  let ?g = "new_handle ''c'' 1 (HASH_JEN ''c'' 1) 5"
  let ?i = "HASH_TO_BKT (hh_hashv ?g) 128"
  have "?i < 128" using HASH_TO_BKT_less [of "hh_hashv ?g" 7] by simp
  then obtain t' where "HASH_ADD_BEHIND (\<lambda>_. True) ''c'' 5 (t, ?a) = Inr (t', ?g)"
    using t(2,4) by (simp add: HASH_ADD_BEHIND_def Let_def HASH_ADD_TO_TABLE_def add_to_bkt_small)
  with selection_loses_tail [OF t(1), of ?a "[?b]" "''c''" 5 t' ?g] t(1) show ?thesis
    by (auto simp: two_elements_def chained_def)
qed

end
