(* ===== verification/BL_Web_Str.thy ===== *)
theory BL_Web_Str
  imports BL_Values
begin

unbundle bit_operations_syntax

text \<open>
  Strings of the web server library (\<^verbatim>\<open>stdlib/simpleweb/src/mongoose.c\<close>: \<^verbatim>\<open>mg_str.c\<close>, \<^verbatim>\<open>str_util.c\<close>, \<^verbatim>\<open>mg_skip\<close>) and its
  text encodings (base64, hexadecimal, URL). A \<open>struct mg_str\<close> is the list of its characters; a C string is the
  list of the characters before its terminator, and a NUL is read behind the last one. Characters are those of
  the "C" locale.
\<close>

section \<open>Characters\<close>

abbreviation (input) NUL :: char where "NUL \<equiv> CHR 0x00"
abbreviation (input) CR :: char where "CR \<equiv> CHR 0x0D"

abbreviation (input) byte :: "char \<Rightarrow> nat" where "byte \<equiv> of_char"

definition c_isspace :: "char \<Rightarrow> bool" where
  "c_isspace c \<longleftrightarrow> byte c = 32 \<or> (9 \<le> byte c \<and> byte c \<le> 13)"

definition c_isdigit :: "char \<Rightarrow> bool" where
  "c_isdigit c \<longleftrightarrow> 48 \<le> byte c \<and> byte c \<le> 57"

definition c_isalnum :: "char \<Rightarrow> bool" where
  "c_isalnum c \<longleftrightarrow> c_isdigit c \<or> (65 \<le> byte c \<and> byte c \<le> 90) \<or> (97 \<le> byte c \<and> byte c \<le> 122)"

definition c_isxdigit :: "char \<Rightarrow> bool" where
  "c_isxdigit c \<longleftrightarrow> c_isdigit c \<or> (65 \<le> byte c \<and> byte c \<le> 70) \<or> (97 \<le> byte c \<and> byte c \<le> 102)"

definition c_isprint :: "char \<Rightarrow> bool" where
  "c_isprint c \<longleftrightarrow> 32 \<le> byte c \<and> byte c \<le> 126"

definition c_tolower :: "char \<Rightarrow> nat" where
  "c_tolower c = (if 65 \<le> byte c \<and> byte c \<le> 90 then byte c + 32 else byte c)"

text \<open>The first character of a C string, and plain \<open>char\<close>, which is signed.\<close>

definition hd0 :: "string \<Rightarrow> char" where
  "hd0 s = (case s of [] \<Rightarrow> NUL | c # _ \<Rightarrow> c)"

definition schar :: "char \<Rightarrow> int" where
  "schar c = (if byte c < 128 then int (byte c) else int (byte c) - 256)"

text \<open>A difference of sizes as an \<open>int\<close>.\<close>

definition as_int32 :: "int \<Rightarrow> int" where
  "as_int32 x = (x + 2 ^ 31) mod 2 ^ 32 - 2 ^ 31"

lemma hd0_simps [simp]: "hd0 [] = NUL" "hd0 (c # cs) = c"
  by (simp_all add: hd0_def)

lemma byte_eq_iff [simp]: "byte c = byte d \<longleftrightarrow> c = d"
  by (rule of_char_eq_iff)

lemma byte_less: "byte c < 256"
  using nat_of_char_less_256 [of c] by simp

lemma as_int32_small: "- (2 ^ 31) \<le> x \<Longrightarrow> x < 2 ^ 31 \<Longrightarrow> as_int32 x = x"
  unfolding as_int32_def by (subst mod_pos_pos_trivial) simp_all

lemma as_int32_0 [simp]: "as_int32 0 = 0"
  by (simp add: as_int32_def)

section \<open>Comparison\<close>

fun c_strncmp :: "string \<Rightarrow> string \<Rightarrow> nat \<Rightarrow> int" where
  "c_strncmp s t 0 = 0"
| "c_strncmp s t (Suc n) =
     (if hd0 s \<noteq> hd0 t then int (byte (hd0 s)) - int (byte (hd0 t))
      else if hd0 s = NUL then 0 else c_strncmp (tl s) (tl t) n)"

definition mg_vcmp :: "string \<Rightarrow> string \<Rightarrow> int" where
  "mg_vcmp str1 str2 = (let n2 = length str2; n1 = length str1; r = c_strncmp str1 str2 (if n1 < n2 then n1 else n2) in
     if r = 0 then as_int32 (int n1 - int n2) else r)"

fun mg_ncasecmp :: "string \<Rightarrow> string \<Rightarrow> nat \<Rightarrow> int" where
  "mg_ncasecmp s1 s2 0 = 0"
| "mg_ncasecmp s1 s2 (Suc len) = (let diff = int (c_tolower (hd0 s1)) - int (c_tolower (hd0 s2)) in
     if diff = 0 \<and> hd0 s1 \<noteq> NUL then mg_ncasecmp (tl s1) (tl s2) len else diff)"

definition mg_casecmp :: "string \<Rightarrow> string \<Rightarrow> int" where
  "mg_casecmp s1 s2 = mg_ncasecmp s1 s2 (2 ^ 64 - 1)"

definition mg_vcasecmp :: "string \<Rightarrow> string \<Rightarrow> int" where
  "mg_vcasecmp str1 str2 = (let n2 = length str2; n1 = length str1; r = mg_ncasecmp str1 str2 (if n1 < n2 then n1 else n2) in
     if r = 0 then as_int32 (int n1 - int n2) else r)"

fun mg_strcmp :: "string \<Rightarrow> string \<Rightarrow> int" where
  "mg_strcmp (a # s) (b # t) = (if schar a < schar b then -1 else if schar a > schar b then 1 else mg_strcmp s t)"
| "mg_strcmp (a # s) [] = 1"
| "mg_strcmp [] (b # t) = -1"
| "mg_strcmp [] [] = 0"

definition mg_strncmp :: "string \<Rightarrow> string \<Rightarrow> nat \<Rightarrow> int" where
  "mg_strncmp s1 s2 n = mg_strcmp (take n s1) (take n s2)"

fun mg_strchr :: "string \<Rightarrow> char \<Rightarrow> nat option" where
  "mg_strchr [] c = None"
| "mg_strchr (d # s) c = (if d = c then Some 0 else map_option Suc (mg_strchr s c))"

fun mg_strstr :: "string \<Rightarrow> string \<Rightarrow> nat option" where
  "mg_strstr [] needle = (if needle = [] then Some 0 else None)"
| "mg_strstr (c # s) needle =
     (if length needle > length (c # s) then None
      else if take (length needle) (c # s) = needle then Some 0 else map_option Suc (mg_strstr s needle))"

definition c_strnlen :: "string \<Rightarrow> nat \<Rightarrow> nat" where
  "c_strnlen s maxlen = length (takeWhile (\<lambda>c. c \<noteq> NUL) (take maxlen s))"

fun c_strnstr :: "string \<Rightarrow> string \<Rightarrow> nat \<Rightarrow> nat option" where
  "c_strnstr s sub 0 = None"
| "c_strnstr s sub (Suc n) =
     (if length sub > Suc n then None
      else if c_strncmp s sub (length sub) = 0 then Some 0 else map_option Suc (c_strnstr (tl s) sub n))"

lemma c_tolower_0: "c_tolower c = 0 \<longleftrightarrow> c = NUL"
proof -
  have "c_tolower c = 0 \<longleftrightarrow> byte c = 0" by (auto simp: c_tolower_def)
  also have "\<dots> \<longleftrightarrow> byte c = byte NUL" by simp
  finally show ?thesis by (simp only: byte_eq_iff)
qed

lemma mg_ncasecmp_eq:
  "NUL \<notin> set s \<Longrightarrow> length s = n \<Longrightarrow> length t = n \<Longrightarrow> mg_ncasecmp s t n = 0 \<longleftrightarrow> map c_tolower s = map c_tolower t"
proof (induction n arbitrary: s t)
  case (Suc n)
  then obtain a s' b t' where "s = a # s'" "t = b # t'" by (cases s; cases t) auto
  with Suc show ?case by (auto simp: Let_def)
qed simp

lemma c_strncmp_eq:
  "NUL \<notin> set t \<Longrightarrow> length t \<le> length s \<Longrightarrow> c_strncmp s t (length t) = 0 \<longleftrightarrow> take (length t) s = t"
proof (induction t arbitrary: s)
  case (Cons b t)
  then obtain a s' where "s = a # s'" by (cases s) auto
  with Cons show ?case by auto
qed simp

lemma mg_vcmp_eq:
  assumes "NUL \<notin> set t" "length s < 2 ^ 31" "length t < 2 ^ 31"
  shows "mg_vcmp s t = 0 \<longleftrightarrow> s = t"
proof -
  let ?n = "if length s < length t then length s else length t"
  have d: "as_int32 (int (length s) - int (length t)) = int (length s) - int (length t)"
    using assms by (intro as_int32_small) simp_all
  have "s = t" if "mg_vcmp s t = 0"
  proof -
    from that have "c_strncmp s t ?n = 0" "length s = length t"
      by (auto simp: mg_vcmp_def Let_def d split: if_splits)
    then show ?thesis using c_strncmp_eq [OF assms(1), of s] by simp
  qed
  moreover have "mg_vcmp t t = 0" using c_strncmp_eq [OF assms(1), of t] by (simp add: mg_vcmp_def)
  ultimately show ?thesis by auto
qed

section \<open>Scanning\<close>

text \<open>
  \<open>mg_skip s delims\<close> on the text up to the end pointer: the part before the first delimiter, and the rest
  after all delimiters. \<open>strchr\<close> also finds the terminator, so a NUL counts as a delimiter.
\<close>

definition is_delim :: "string \<Rightarrow> char \<Rightarrow> bool" where
  "is_delim delims c \<longleftrightarrow> c = NUL \<or> c \<in> set delims"

definition mg_skip :: "string \<Rightarrow> string \<Rightarrow> string \<times> string" where
  "mg_skip s delims = (let v = takeWhile (\<lambda>c. \<not> is_delim delims c) s in
     (v, dropWhile (is_delim delims) (drop (length v) s)))"

text \<open>\<open>strtoll\<close> with base 10: blanks, a sign, digits, saturating.\<close>

definition digits_val :: "string \<Rightarrow> int" where
  "digits_val ds = foldl (\<lambda>n c. 10 * n + (int (byte c) - 48)) 0 ds"

definition strtoll :: "string \<Rightarrow> int" where
  "strtoll s = (let s1 = dropWhile c_isspace s;
      neg = (hd0 s1 = CHR ''-''); s2 = (if neg \<or> hd0 s1 = CHR ''+'' then tl s1 else s1);
      n = digits_val (takeWhile c_isdigit s2); m = (if neg then - n else n) in
      max (- (2 ^ 63)) (min (2 ^ 63 - 1) m))"

lemma mg_skip_simps:
  "mg_skip [] delims = ([], [])"
  "mg_skip (c # s) delims = (if is_delim delims c then ([], dropWhile (is_delim delims) s)
     else (case mg_skip s delims of (v, r) \<Rightarrow> (c # v, r)))"
  by (auto simp: mg_skip_def Let_def)

lemma mg_skip_length: "mg_skip s delims = (v, r) \<Longrightarrow> length v + length r \<le> length s"
  using length_dropWhile_le [of "is_delim delims" "drop (length v) s"] length_takeWhile_le [of "\<lambda>c. \<not> is_delim delims c" s]
  by (auto simp: mg_skip_def Let_def)

lemma mg_skip_token:
  assumes "\<forall>c \<in> set v. \<not> is_delim delims c" "w \<noteq> []" "\<forall>c \<in> set w. is_delim delims c" "r = [] \<or> \<not> is_delim delims (hd r)"
  shows "mg_skip (v @ w @ r) delims = (v, r)"
proof -
  obtain d w' where w: "w = d # w'" "is_delim delims d" using assms(2,3) by (cases w) auto
  have "takeWhile (\<lambda>c. \<not> is_delim delims c) (v @ w @ r) = v"
    using assms(1) w by (simp add: takeWhile_append2)
  moreover have "dropWhile (is_delim delims) (w @ r) = r"
    using assms(3,4) by (cases r) (auto simp: dropWhile_append2)
  ultimately show ?thesis by (simp add: mg_skip_def)
qed

end
