(* ===== verification/BL_Web_Enc.thy ===== *)
theory BL_Web_Enc
  imports BL_Web_Str
begin

text \<open>
  Encodings of the web server library (\<^verbatim>\<open>cs_base64.c\<close>, the hexadecimal and URL functions), lists of entries,
  patterns, and the growing buffer \<open>mbuf\<close>. Strings of bytes are lists of characters.
\<close>

section \<open>Base64\<close>

definition cs_base64_emit_code :: "nat \<Rightarrow> char" where
  "cs_base64_emit_code v =
     (if v < 26 then char_of (v + 65) else if v < 52 then char_of (v - 26 + 97)
      else if v < 62 then char_of (v - 52 + 48) else if v - 52 - 10 = 0 then CHR ''+'' else CHR ''/'')"

text \<open>A chunk of up to three bytes; the bytes that are not there count as 0.\<close>

definition cs_base64_emit_chunk :: "string \<Rightarrow> string" where
  "cs_base64_emit_chunk ch = (let a = byte (hd0 ch); b = byte (hd0 (drop 1 ch)); c = byte (hd0 (drop 2 ch)) in
     [cs_base64_emit_code (drop_bit 2 a), cs_base64_emit_code (push_bit 4 (a AND 3) OR drop_bit 4 b)] @
     (if length ch > 1 then [cs_base64_emit_code (push_bit 2 (b AND 15) OR drop_bit 6 c)] else []) @
     (if length ch > 2 then [cs_base64_emit_code (c AND 63)] else []))"

record cs_base64_ctx =
  b64_chunk :: string
  b64_out :: string

definition cs_base64_init :: cs_base64_ctx where
  "cs_base64_init = \<lparr>b64_chunk = [], b64_out = []\<rparr>"

primrec cs_base64_update :: "string \<Rightarrow> cs_base64_ctx \<Rightarrow> cs_base64_ctx" where
  "cs_base64_update [] ctx = ctx"
| "cs_base64_update (c # s) ctx = cs_base64_update s (let ch = b64_chunk ctx @ [c] in
     if length ch = 3 then \<lparr>b64_chunk = [], b64_out = b64_out ctx @ cs_base64_emit_chunk ch\<rparr> else ctx\<lparr>b64_chunk := ch\<rparr>)"

definition cs_base64_finish :: "cs_base64_ctx \<Rightarrow> string" where
  "cs_base64_finish ctx = (if b64_chunk ctx = [] then b64_out ctx
     else b64_out ctx @ cs_base64_emit_chunk (b64_chunk ctx) @ replicate (3 - length (b64_chunk ctx)) (CHR ''=''))"

text \<open>The encoder for a whole buffer: its own table of the characters, three bytes per round, then padding.\<close>

definition b64 :: string where
  "b64 = ''ABCDEFGHIJKLMNOPQRSTUVWXYZabcdefghijklmnopqrstuvwxyz0123456789+/''"

fun base64_rounds :: "string \<Rightarrow> string" where
  "base64_rounds [] = []"
| "base64_rounds (x # src) = (let a = byte x; b = byte (hd0 src); c = byte (hd0 (tl src)) in
     [b64 ! drop_bit 2 a, b64 ! (push_bit 4 (a AND 3) OR drop_bit 4 b)] @
     (if length src > 0 then [b64 ! (push_bit 2 (b AND 15) OR drop_bit 6 c)] else []) @
     (if length src > 1 then [b64 ! (c AND 63)] else []) @ base64_rounds (drop 2 src))"

definition cs_base64_encode :: "string \<Rightarrow> string" where
  "cs_base64_encode src = (let dst = base64_rounds src in dst @ replicate ((4 - length dst mod 4) mod 4) (CHR ''=''))"

text \<open>The inverse table; bytes from 128 on are looked up without their highest bit.\<close>

definition b64_tab :: "nat list" where
  "b64_tab = replicate 43 255 @ [62, 255, 255, 255, 63] @ [52, 53, 54, 55, 56, 57, 58, 59, 60, 61] @
     [255, 255, 255, 200, 255, 255, 255] @
     [0, 1, 2, 3, 4, 5, 6, 7, 8, 9, 10, 11, 12, 13, 14, 15, 16, 17, 18, 19, 20, 21, 22, 23, 24, 25] @
     replicate 6 255 @
     [26, 27, 28, 29, 30, 31, 32, 33, 34, 35, 36, 37, 38, 39, 40, 41, 42, 43, 44, 45, 46, 47, 48, 49, 50, 51] @
     replicate 5 255"

definition from_b64 :: "char \<Rightarrow> nat" where
  "from_b64 ch = b64_tab ! (byte ch AND 127)"

text \<open>The decoded bytes and the number of characters that were used.\<close>

fun cs_base64_decode :: "string \<Rightarrow> string \<times> nat" where
  "cs_base64_decode (s0 # s1 # s2 # s3 # s) =
     (let a = from_b64 s0; b = from_b64 s1; c = from_b64 s2; d = from_b64 s3 in
      if a = 255 \<or> b = 255 \<or> c = 255 \<or> d = 255 then ([], 0)
      else if a = 200 \<or> b = 200 then ([], 4)
      else let x = char_of (push_bit 2 a OR drop_bit 4 b) in
        if c = 200 then ([x], 4)
        else let y = char_of (push_bit 4 b OR drop_bit 2 c) in
          if d = 200 then ([x, y], 4)
          else let z = char_of (push_bit 6 c OR d) in
            (case cs_base64_decode s of (ds, n) \<Rightarrow> (x # y # z # ds, 4 + n)))"
| "cs_base64_decode s = ([], 0)"

section \<open>Hexadecimal text\<close>

definition hex :: string where
  "hex = ''0123456789abcdef''"

fun cs_to_hex :: "string \<Rightarrow> string" where
  "cs_to_hex [] = []"
| "cs_to_hex (p # ps) = hex ! drop_bit 4 (byte p) # hex ! (byte p AND 15) # cs_to_hex ps"

definition fourbit :: "char \<Rightarrow> nat" where
  "fourbit ch = (let n = byte ch in if 48 \<le> n \<and> n \<le> 57 then n - 48 else if 97 \<le> n \<and> n \<le> 102 then n - 97 + 10
     else if 65 \<le> n \<and> n \<le> 70 then n - 65 + 10 else 0)"

fun cs_from_hex :: "string \<Rightarrow> string" where
  "cs_from_hex [] = []"
| "cs_from_hex (p # ps) = char_of (push_bit 4 (fourbit p) + fourbit (hd0 ps)) # cs_from_hex (tl ps)"

section \<open>URL encoding\<close>

definition dont_escape :: string where
  "dont_escape = ''._-$,;~()/''"

definition url_encode_char :: "char \<Rightarrow> string" where
  "url_encode_char c = (if c_isalnum c \<or> c \<in> set dont_escape \<or> c = NUL then [c]
     else [CHR ''%'', hex ! drop_bit 4 (byte c), hex ! (byte c AND 15)])"

definition mg_url_encode :: "string \<Rightarrow> string" where
  "mg_url_encode src = concat (map url_encode_char src)"

definition hextoi :: "nat \<Rightarrow> nat" where
  "hextoi x = (if 48 \<le> x \<and> x \<le> 57 then x - 48 else x - 87)"

text \<open>\<open>room\<close> counts the characters that still fit before the terminator; \<open>None\<close> stands for the result -1.\<close>

fun url_decode_loop :: "string \<Rightarrow> nat \<Rightarrow> bool \<Rightarrow> string option" where
  "url_decode_loop [] room form = Some []"
| "url_decode_loop (c # s) 0 form = None"
| "url_decode_loop (c # s) (Suc room) form =
     (if c = CHR ''%'' then
        (if length s \<ge> 2 \<and> c_isxdigit (s ! 0) \<and> c_isxdigit (s ! 1)
         then (let a = c_tolower (s ! 0); b = c_tolower (s ! 1) in
           map_option (Cons (char_of (push_bit 4 (hextoi a) OR hextoi b))) (url_decode_loop (drop 2 s) room form))
         else None)
      else if form \<and> c = CHR ''+'' then map_option (Cons (CHR '' '')) (url_decode_loop s room form)
      else map_option (Cons c) (url_decode_loop s room form))"

definition mg_url_decode :: "string \<Rightarrow> nat \<Rightarrow> bool \<Rightarrow> string option" where
  "mg_url_decode src dst_len form = url_decode_loop src (dst_len - 1) form"

text \<open>A variable of a form: the decoded value, or one of the codes -1 to -4.\<close>

fun find_var :: "string \<Rightarrow> bool \<Rightarrow> string \<Rightarrow> string option" where
  "find_var name start [] = None"
| "find_var name start (c # p) =
     (if length name < length (c # p) \<and> start \<and> (c # p) ! length name = CHR ''='' \<and> mg_ncasecmp name (c # p) (length name) = 0
      then Some (drop (length name + 1) (c # p)) else find_var name (c = CHR ''&'') p)"

definition mg_get_http_var :: "string \<Rightarrow> string \<Rightarrow> nat \<Rightarrow> int + string" where
  "mg_get_http_var buf name dst_len =
     (if dst_len = 0 then Inl (-2) else if buf = [] then Inl (-1)
      else case find_var name True buf of None \<Rightarrow> Inl (-4)
        | Some p \<Rightarrow> (case mg_url_decode (takeWhile (\<lambda>c. c \<noteq> CHR ''&'') p) dst_len True of
              None \<Rightarrow> Inl (-3) | Some v \<Rightarrow> Inr v))"

section \<open>Lists of entries\<close>

text \<open>The rest of the list, the next entry and, for an entry \<open>x=y\<close>, its value.\<close>

definition mg_next_comma_list_entry_n :: "string \<Rightarrow> (string \<times> string \<times> string option) option" where
  "mg_next_comma_list_entry_n list = (if list = [] then None
     else let (rest, val) = (case mg_strchr list (CHR '','') of
              Some k \<Rightarrow> (drop (k + 1) list, take k list) | None \<Rightarrow> ([], list)) in
       Some (case mg_strchr val (CHR ''='') of None \<Rightarrow> (rest, val, None)
         | Some k \<Rightarrow> (rest, take k val, Some (drop (k + 1) val))))"

section \<open>Patterns\<close>

text \<open>
  \<open>match_loop\<close> is the main loop at the rest of the pattern and of the string with \<open>j\<close> characters matched, and
  \<open>star_loop\<close> the attempts for a star that stands for \<open>len\<close> characters or fewer.
\<close>

definition or_str :: "string \<Rightarrow> nat option" where
  "or_str pattern = (case mg_strchr pattern (CHR ''|'') of None \<Rightarrow> mg_strchr pattern (CHR '','') | Some k \<Rightarrow> Some k)"

lemma mg_strchr_length: "mg_strchr s c = Some k \<Longrightarrow> k < length s"
  by (induction s arbitrary: k) (auto split: if_splits)

lemma or_str_length: "or_str s = Some k \<Longrightarrow> k < length s"
  using mg_strchr_length by (auto simp: or_str_def split: option.splits)

function mg_match_prefix_n :: "string \<Rightarrow> string \<Rightarrow> nat"
  and match_loop :: "string \<Rightarrow> string \<Rightarrow> nat \<Rightarrow> nat"
  and star_loop :: "string \<Rightarrow> string \<Rightarrow> nat \<Rightarrow> nat \<Rightarrow> nat" where
  "mg_match_prefix_n pattern str = (case or_str pattern of
      Some k \<Rightarrow> let res = mg_match_prefix_n (take k pattern) str in
        if res > 0 then res else mg_match_prefix_n (drop (k + 1) pattern) str
    | None \<Rightarrow> match_loop pattern str 0)"
| "match_loop [] str j = j"
| "match_loop (c # ps) [] j = (if c = CHR ''$'' then j else 0)"
| "match_loop (c # ps) (d # ss) j =
     (if c = CHR ''?'' then match_loop ps ss (j + 1)
      else if c = CHR ''*'' then
        (let (qs, len) = (if ps \<noteq> [] \<and> hd ps = CHR ''*'' then (tl ps, length (d # ss))
             else (ps, length (takeWhile (\<lambda>x. x \<noteq> CHR ''/'') (d # ss)))) in
          if qs = [] \<or> qs = ''$'' then j + len else star_loop qs (d # ss) j len)
      else if c_tolower c \<noteq> c_tolower d then 0
      else match_loop ps ss (j + 1))"
| "star_loop qs str j len = (let res = mg_match_prefix_n qs (drop len str) in
     if res = 0 \<and> len \<noteq> 0 then star_loop qs str j (len - 1)
     else if res = 0 then 0 else j + res + len)"
  by pat_completeness auto
termination
  by (relation "measures [\<lambda>x. case x of Inl (p, s) \<Rightarrow> length p | Inr (Inl (p, s, j)) \<Rightarrow> length p | Inr (Inr (q, s, j, n)) \<Rightarrow> length q,
       \<lambda>x. case x of Inl (p, s) \<Rightarrow> 1 | Inr (Inl (p, s, j)) \<Rightarrow> 0 | Inr (Inr (q, s, j, n)) \<Rightarrow> 2,
       \<lambda>x. case x of Inl (p, s) \<Rightarrow> 0 | Inr (Inl (p, s, j)) \<Rightarrow> length s | Inr (Inr (q, s, j, n)) \<Rightarrow> n]")
    (auto dest: or_str_length split: if_splits)

definition mg_match_prefix :: "string \<Rightarrow> string \<Rightarrow> nat" where
  "mg_match_prefix pattern str = mg_match_prefix_n pattern str"

section \<open>Buffers\<close>

text \<open>
  An \<open>mbuf\<close> with the bytes in use and the allocated size; \<open>mem n\<close> says whether \<open>realloc\<close> grants \<open>n\<close> bytes. The
  assertion on the offset is a precondition that fails as \<open>None\<close>. The size is multiplied by 1.5 in floating
  point and cut to an integer.
\<close>

record mbuf =
  mb_buf :: string
  mb_size :: nat

definition mbuf_resize :: "(nat \<Rightarrow> bool) \<Rightarrow> nat \<Rightarrow> mbuf \<Rightarrow> mbuf" where
  "mbuf_resize mem new_size a =
     (if new_size > mb_size a \<or> (new_size < mb_size a \<and> new_size \<ge> length (mb_buf a))
      then if \<not> mem new_size \<and> new_size \<noteq> 0 then a else a\<lparr>mb_size := new_size\<rparr> else a)"

definition mbuf_init :: "(nat \<Rightarrow> bool) \<Rightarrow> nat \<Rightarrow> mbuf" where
  "mbuf_init mem initial_size = mbuf_resize mem initial_size \<lparr>mb_buf = [], mb_size = 0\<rparr>"

definition mbuf_free :: "mbuf \<Rightarrow> mbuf" where
  "mbuf_free a = \<lparr>mb_buf = [], mb_size = 0\<rparr>"

definition mbuf_trim :: "(nat \<Rightarrow> bool) \<Rightarrow> mbuf \<Rightarrow> mbuf" where
  "mbuf_trim mem a = mbuf_resize mem (length (mb_buf a)) a"

definition mbuf_insert :: "(nat \<Rightarrow> bool) \<Rightarrow> nat \<Rightarrow> string \<Rightarrow> mbuf \<Rightarrow> (nat \<times> mbuf) option" where
  "mbuf_insert mem off data a =
     (if length (mb_buf a) > mb_size a \<or> off > length (mb_buf a) then None
      else let len = length data; new = take off (mb_buf a) @ data @ drop off (mb_buf a) in
        if length (mb_buf a) + len \<le> mb_size a then Some (len, a\<lparr>mb_buf := new\<rparr>)
        else let new_size = (length (mb_buf a) + len) * 3 div 2 in
          if mem new_size then Some (len, \<lparr>mb_buf = new, mb_size = new_size\<rparr>) else Some (0, a))"

definition mbuf_append :: "(nat \<Rightarrow> bool) \<Rightarrow> string \<Rightarrow> mbuf \<Rightarrow> (nat \<times> mbuf) option" where
  "mbuf_append mem data a = mbuf_insert mem (length (mb_buf a)) data a"

definition mbuf_remove :: "nat \<Rightarrow> mbuf \<Rightarrow> mbuf" where
  "mbuf_remove n mb = (if n > 0 \<and> n \<le> length (mb_buf mb) then mb\<lparr>mb_buf := drop n (mb_buf mb)\<rparr> else mb)"

end
