(* ===== verification/BL_Web_Http.thy ===== *)
theory BL_Web_Http
  imports BL_Web_Enc
begin

text \<open>
  HTTP messages of the web server library (\<^verbatim>\<open>mg_http.c\<close>, \<^verbatim>\<open>mg_http_parse_headers\<close> to \<^verbatim>\<open>mg_handle_chunked\<close>): the
  parser works on the bytes that were received so far. Sizes are 64 bit wide; an access outside of the
  received bytes is the outcome \<open>Chunk_fault\<close> or \<open>None\<close>.
\<close>

section \<open>Requests and replies\<close>

text \<open>
  The views of a \<open>struct http_message\<close> are copied as strings; of the message and the body, which may not be
  complete, the lengths are kept, and the offset of the body in the buffer.
\<close>

record http_message =
  message_len :: nat
  body_off :: nat
  body_len :: nat
  http_method :: string
  uri :: string
  proto :: string
  query_string :: "string option"
  headers :: "(string \<times> string) list"
  resp_code :: int
  resp_status_msg :: string

definition MG_MAX_HTTP_HEADERS :: nat where
  "MG_MAX_HTTP_HEADERS = 20"

text \<open>\<open>(size_t) ~0\<close>, and the conversion of a number to \<open>size_t\<close>.\<close>

definition size_max :: nat where
  "size_max = 2 ^ 64 - 1"

definition as_size_t :: "int \<Rightarrow> nat" where
  "as_size_t n = nat (n mod 2 ^ 64)"

definition empty_message :: http_message where
  "empty_message = \<lparr>message_len = size_max, body_off = 0, body_len = size_max, http_method = [], uri = [], proto = [],
     query_string = None, headers = [], resp_code = 0, resp_status_msg = []\<rparr>"

text \<open>The length of the head with its last line, 0 when it is not complete, -1 when it is malformed.\<close>

fun http_get_request_len :: "string \<Rightarrow> nat \<Rightarrow> int" where
  "http_get_request_len [] i = 0"
| "http_get_request_len (c # s) i =
     (if \<not> c_isprint c \<and> c \<noteq> CR \<and> c \<noteq> LF \<and> byte c < 128 then -1
      else if c = LF \<and> s \<noteq> [] \<and> s ! 0 = LF then int i + 2
      else if c = LF \<and> length s > 1 \<and> s ! 0 = CR \<and> s ! 1 = LF then int i + 3
      else http_get_request_len s (i + 1))"

definition mg_http_get_request_len :: "string \<Rightarrow> int" where
  "mg_http_get_request_len buf = http_get_request_len buf 0"

definition trim_spaces :: "string \<Rightarrow> string" where
  "trim_spaces v = rev (dropWhile (\<lambda>c. c = CHR '' '') (rev v))"

lemma mg_skip_shorter: "mg_skip s d = (k, r) \<Longrightarrow> k \<noteq> [] \<Longrightarrow> length r < length s"
  using mg_skip_length [of s d k r] by (cases k) auto

lemma mg_skip_progress: "mg_skip s d = (k, s1) \<Longrightarrow> mg_skip s1 d' = (v, s2) \<Longrightarrow> k \<noteq> [] \<Longrightarrow> length s2 < length s"
  using mg_skip_shorter [of s d k s1] mg_skip_length [of s1 d' v s2] by auto

text \<open>\<open>s\<close> is the text from the current position to the end of the head, \<open>i\<close> the number of headers so far.\<close>

function mg_http_parse_headers :: "string \<Rightarrow> nat \<Rightarrow> nat \<Rightarrow> http_message \<Rightarrow> http_message" where
  "mg_http_parse_headers s len i req =
     (if i < MG_MAX_HTTP_HEADERS - 1 then
        (case mg_skip s '': '' of (k, s1) \<Rightarrow> (case mg_skip s1 [CR, LF] of (v0, s2) \<Rightarrow>
          let v = trim_spaces v0 in
          if k \<noteq> [] \<and> v = [] then mg_http_parse_headers s2 len i req
          else if k = [] \<or> v = [] then req
          else let req = (if mg_ncasecmp s ''Content-Length'' 14 = 0
                 then let n = as_size_t (strtoll s1) in req\<lparr>body_len := n, message_len := (len + n) mod 2 ^ 64\<rparr> else req) in
            mg_http_parse_headers s2 len (i + 1) (req\<lparr>headers := headers req @ [(k, v)]\<rparr>)))
      else req)"
  by pat_completeness auto

termination
  by (relation "measure (\<lambda>(s, len, i, req). length s)") (auto intro: mg_skip_progress [OF sym sym])

declare mg_http_parse_headers.simps [simp del]

text \<open>The result is a code that is not positive, or the length of the head and the message.\<close>

definition mg_parse_http :: "string \<Rightarrow> bool \<Rightarrow> int + nat \<times> http_message" where
  "mg_parse_http buf is_req = (let n = mg_http_get_request_len buf; len = nat n in
     if n \<le> 0 then Inl n
     else let hm = empty_message\<lparr>body_off := len\<rparr>; s = dropWhile c_isspace (take len buf);
       parsed = (if is_req
         then (case mg_skip s '' '' of (m, s1) \<Rightarrow> (case mg_skip s1 '' '' of (u, s2) \<Rightarrow> (case mg_skip s2 [CR, LF] of (p, s3) \<Rightarrow>
           if length s1 \<ge> length s \<or> length s2 \<ge> length s1 then None
           else Some (s3, (case mg_strchr u (CHR ''?'') of
               Some q \<Rightarrow> hm\<lparr>http_method := m, proto := p, query_string := Some (drop (q + 1) u), uri := take q u\<rparr>
             | None \<Rightarrow> hm\<lparr>http_method := m, proto := p, uri := u\<rparr>)))))
         else (case mg_skip s '' '' of (p, s1) \<Rightarrow>
           if length s1 < 4 \<or> s1 ! 3 \<noteq> CHR '' '' then None
           else let code = as_int32 (strtoll s1) in
             if code < 100 \<or> code \<ge> 600 then None
             else (case mg_skip (drop 4 s1) [CR, LF] of (msg, s2) \<Rightarrow>
               Some (s2, hm\<lparr>proto := p, resp_code := code, resp_status_msg := msg\<rparr>)))) in
     case parsed of None \<Rightarrow> Inl (-1)
     | Some (s, hm) \<Rightarrow> let hm = mg_http_parse_headers s len 0 hm in
         Inr (len, if body_len hm = size_max \<and> is_req \<and> mg_vcasecmp (http_method hm) ''PUT'' \<noteq> 0
             \<and> mg_vcasecmp (http_method hm) ''POST'' \<noteq> 0 then hm\<lparr>body_len := 0, message_len := len\<rparr> else hm))"

definition mg_get_http_header :: "http_message \<Rightarrow> string \<Rightarrow> string option" where
  "mg_get_http_header hm name = map_option snd
     (find (\<lambda>(h, v). length h = length name \<and> mg_ncasecmp h name (length name) = 0) (headers hm))"

section \<open>Chunked bodies\<close>

datatype chunk_result =
    Chunk_none
  | Chunk nat nat nat   \<comment> \<open>the size of the chunk, the offset and the length of its data\<close>
  | Chunk_fault

primrec xdigits :: "string \<Rightarrow> nat \<Rightarrow> nat \<times> nat" where
  "xdigits [] n = (0, n)"
| "xdigits (c # s) n = (if c_isxdigit c
     then (case xdigits s ((n * 16 + (if c_isdigit c then byte c - 48 else c_tolower c - 97 + 10)) mod 2 ^ 64) of
       (i, m) \<Rightarrow> (i + 1, m))
     else (0, n))"

text \<open>
  The two characters of a line end at \<open>i\<close>, as the code tests them: the sum \<open>i + 2\<close> is a \<open>size_t\<close>, and
  \<open>None\<close> stands for a read outside of the buffer.
\<close>

definition crlf_at :: "string \<Rightarrow> nat \<Rightarrow> bool option" where
  "crlf_at s i = (if i = 0 \<or> (i + 2) mod 2 ^ 64 > length s then Some False
     else if i \<ge> length s then None
     else if s ! i \<noteq> CR then Some False
     else if i + 1 \<ge> length s then None else Some (s ! (i + 1) = LF))"

definition mg_http_parse_chunk :: "string \<Rightarrow> chunk_result" where
  "mg_http_parse_chunk buf = (case xdigits buf 0 of (i, n) \<Rightarrow>
     (case crlf_at buf i of None \<Rightarrow> Chunk_fault | Some False \<Rightarrow> Chunk_none
      | Some True \<Rightarrow> let off = i + 2; i = (off + n) mod 2 ^ 64 in
         (case crlf_at buf i of None \<Rightarrow> Chunk_fault | Some False \<Rightarrow> Chunk_none | Some True \<Rightarrow> Chunk (i + 2) off n)))"

text \<open>
  \<open>memmove\<close> inside a buffer, and the loop of \<open>mg_handle_chunked\<close>: the buffer, the position behind the last
  chunk, the length of the body, whether the empty chunk was seen. \<open>fuel\<close> bounds the number of chunks.
\<close>

definition memmove :: "nat \<Rightarrow> nat \<Rightarrow> nat \<Rightarrow> string \<Rightarrow> string option" where
  "memmove dst src n buf = (if dst + n \<le> length buf \<and> src + n \<le> length buf
     then Some (take dst buf @ take n (drop src buf) @ drop (dst + n) buf) else None)"

primrec chunk_loop :: "nat \<Rightarrow> string \<Rightarrow> nat \<Rightarrow> nat \<Rightarrow> (string \<times> nat \<times> nat \<times> bool) option" where
  "chunk_loop 0 buf i blen = Some (buf, i, blen, False)"
| "chunk_loop (Suc fuel) buf i blen = (case mg_http_parse_chunk (drop i buf) of
      Chunk_none \<Rightarrow> Some (buf, i, blen, False)
    | Chunk_fault \<Rightarrow> None
    | Chunk n off len \<Rightarrow> (case memmove blen (i + off) len buf of
        None \<Rightarrow> None
      | Some buf \<Rightarrow> if len = 0 then Some (buf, i + n, blen, True) else chunk_loop fuel buf (i + n) (blen + len)))"

section \<open>Replies\<close>

definition mg_status_message :: "int \<Rightarrow> string" where
  "mg_status_message code =
     (if code = 206 then ''Partial Content'' else if code = 301 then ''Moved'' else if code = 302 then ''Found''
      else if code = 400 then ''Bad Request'' else if code = 401 then ''Unauthorized'' else if code = 403 then ''Forbidden''
      else if code = 404 then ''Not Found'' else if code = 416 then ''Requested Range Not Satisfiable''
      else if code = 418 then ''I'' @ [CHR 0x27] @ ''m a teapot'' else if code = 500 then ''Internal Server Error''
      else if code = 502 then ''Bad Gateway'' else if code = 503 then ''Service Unavailable'' else ''OK'')"

definition mg_version_header :: string where
  "mg_version_header = ''Mongoose/6.11''"

abbreviation (input) CRLF :: string where
  "CRLF \<equiv> [CR, LF]"

definition response_line :: "int \<Rightarrow> string \<Rightarrow> string" where
  "response_line code extra_headers = ''HTTP/1.1 '' @ mpz_get_str code @ '' '' @ mg_status_message code @ CRLF
     @ ''Server: '' @ mg_version_header @ CRLF @ (if extra_headers \<noteq> [] then extra_headers @ CRLF else [])"

definition reply_head :: "int \<Rightarrow> int \<Rightarrow> string \<Rightarrow> string" where
  "reply_head code content_length extra_headers = response_line code extra_headers
     @ (if content_length < 0 then ''Transfer-Encoding: chunked'' @ CRLF
        else ''Content-Length: '' @ mpz_get_str content_length @ CRLF) @ CRLF"

text \<open>A chunk of a reply: its length in hexadecimal, the data.\<close>

fun upper_hex :: "nat \<Rightarrow> string" where
  "upper_hex n = (if n < 16 then [''0123456789ABCDEF'' ! n] else upper_hex (n div 16) @ [''0123456789ABCDEF'' ! (n mod 16)])"

declare upper_hex.simps [simp del]

definition http_chunk :: "string \<Rightarrow> string" where
  "http_chunk data = upper_hex (length data) @ CRLF @ data @ CRLF"

text \<open>Text with the angle brackets escaped.\<close>

definition html_escape :: "string \<Rightarrow> string" where
  "html_escape x = concat (map (\<lambda>c. if c = CHR ''<'' then ''&lt;'' else if c = CHR ''>'' then ''&gt;'' else [c]) x)"

end
