(* ===== verification/BL_Web_Sha1.thy ===== *)
theory BL_Web_Sha1
  imports BL_Web_Str "HOL-Library.Word"
begin

text \<open>
  SHA-1 of the web server library (\<^verbatim>\<open>cs_sha1.c\<close>), used in the handshake of websockets: the program with its block
  of sixteen words that is overwritten in a circle, and the function of the standard that it computes. The
  machine is little endian; a piece of a message is shorter than \<open>2 ^ 32 - 128\<close> bytes, so that the sums of
  indices do not wrap.
\<close>

unbundle bit_operations_syntax

type_synonym w32 = "32 word"
type_synonym sha_state = "w32 \<times> w32 \<times> w32 \<times> w32 \<times> w32"

section \<open>The program\<close>

definition rol :: "w32 \<Rightarrow> nat \<Rightarrow> w32" where
  "rol value bits = push_bit bits value OR drop_bit (32 - bits) value"

text \<open>The words of the union \<open>char64long16\<close>, as they are read on a little endian machine.\<close>

definition le_word :: "string \<Rightarrow> nat \<Rightarrow> w32" where
  "le_word s i = of_nat (byte (s ! (4 * i))) OR push_bit 8 (of_nat (byte (s ! (4 * i + 1))))
     OR push_bit 16 (of_nat (byte (s ! (4 * i + 2)))) OR push_bit 24 (of_nat (byte (s ! (4 * i + 3))))"

definition char64long16 :: "string \<Rightarrow> w32 list" where
  "char64long16 buffer = map (le_word buffer) [0..<16]"

definition blk0 :: "w32 list \<Rightarrow> nat \<Rightarrow> w32 list \<times> w32" where
  "blk0 block i = (let x = (rol (block ! i) 24 AND 0xFF00FF00) OR (rol (block ! i) 8 AND 0x00FF00FF) in (block[i := x], x))"

definition blk :: "w32 list \<Rightarrow> nat \<Rightarrow> w32 list \<times> w32" where
  "blk block i = (let x = rol (block ! ((i + 13) mod 16) XOR block ! ((i + 8) mod 16) XOR block ! ((i + 2) mod 16)
       XOR block ! (i mod 16)) 1 in (block[i mod 16 := x], x))"

text \<open>
  The macros \<open>R0\<close> to \<open>R4\<close> with arguments \<open>v w x y z\<close>. The result lists the variables in the order in which
  the next call in the program names them.
\<close>

definition R0 :: "w32 list \<times> sha_state \<Rightarrow> nat \<Rightarrow> w32 list \<times> sha_state" where
  "R0 = (\<lambda>(block, v, w, x, y, z) i. case blk0 block i of (block, b) \<Rightarrow>
     (block, z + (((w AND (x XOR y)) XOR y) + b + 0x5A827999 + rol v 5), v, rol w 30, x, y))"

definition R1 :: "w32 list \<times> sha_state \<Rightarrow> nat \<Rightarrow> w32 list \<times> sha_state" where
  "R1 = (\<lambda>(block, v, w, x, y, z) i. case blk block i of (block, b) \<Rightarrow>
     (block, z + (((w AND (x XOR y)) XOR y) + b + 0x5A827999 + rol v 5), v, rol w 30, x, y))"

definition R2 :: "w32 list \<times> sha_state \<Rightarrow> nat \<Rightarrow> w32 list \<times> sha_state" where
  "R2 = (\<lambda>(block, v, w, x, y, z) i. case blk block i of (block, b) \<Rightarrow>
     (block, z + ((w XOR x XOR y) + b + 0x6ED9EBA1 + rol v 5), v, rol w 30, x, y))"

definition R3 :: "w32 list \<times> sha_state \<Rightarrow> nat \<Rightarrow> w32 list \<times> sha_state" where
  "R3 = (\<lambda>(block, v, w, x, y, z) i. case blk block i of (block, b) \<Rightarrow>
     (block, z + ((((w OR x) AND y) OR (w AND x)) + b + 0x8F1BBCDC + rol v 5), v, rol w 30, x, y))"

definition R4 :: "w32 list \<times> sha_state \<Rightarrow> nat \<Rightarrow> w32 list \<times> sha_state" where
  "R4 = (\<lambda>(block, v, w, x, y, z) i. case blk block i of (block, b) \<Rightarrow>
     (block, z + ((w XOR x XOR y) + b + 0xCA62C1D6 + rol v 5), v, rol w 30, x, y))"

definition sha1_round :: "w32 list \<times> sha_state \<Rightarrow> nat \<Rightarrow> w32 list \<times> sha_state" where
  "sha1_round s i = (if i < 16 then R0 s i else if i < 20 then R1 s i else if i < 40 then R2 s i
     else if i < 60 then R3 s i else R4 s i)"

definition cs_sha1_transform :: "sha_state \<Rightarrow> string \<Rightarrow> sha_state" where
  "cs_sha1_transform state buffer = (case state of (s0, s1, s2, s3, s4) \<Rightarrow>
     case foldl sha1_round (char64long16 buffer, state) [0..<80] of (block, a, b, c, d, e) \<Rightarrow>
       (s0 + a, s1 + b, s2 + c, s3 + d, s4 + e))"

record cs_sha1_ctx =
  sha_state :: sha_state
  count0 :: w32
  count1 :: w32
  sha_buffer :: string

definition cs_sha1_init :: "string \<Rightarrow> cs_sha1_ctx" where
  "cs_sha1_init junk = \<lparr>sha_state = (0x67452301, 0xEFCDAB89, 0x98BADCFE, 0x10325476, 0xC3D2E1F0),
     count0 = 0, count1 = 0, sha_buffer = junk\<rparr>"

text \<open>The loop over whole blocks of the data, and what is left of them.\<close>

function transform_loop :: "sha_state \<Rightarrow> string \<Rightarrow> sha_state \<times> string" where
  "transform_loop st d = (if 63 < length d then transform_loop (cs_sha1_transform st (take 64 d)) (drop 64 d) else (st, d))"
  by pat_completeness auto
termination by (relation "measure (\<lambda>(st, d). length d)") auto

definition cs_sha1_update :: "string \<Rightarrow> cs_sha1_ctx \<Rightarrow> cs_sha1_ctx" where
  "cs_sha1_update d ctx =
     (let len = of_nat (length d) :: w32; c0 = count0 ctx + push_bit 3 len;
          c1 = (if c0 < count0 ctx then count1 ctx + 1 else count1 ctx) + drop_bit 29 len;
          j = unat (drop_bit 3 (count0 ctx) AND 63);
          (st, j, rest, buffer) = (if j + length d > 63
            then let buffer = take j (sha_buffer ctx) @ take (64 - j) d;
                     (st, rest) = transform_loop (cs_sha1_transform (sha_state ctx) buffer) (drop (64 - j) d) in
                 (st, 0, rest, buffer)
            else (sha_state ctx, j, d, sha_buffer ctx)) in
      \<lparr>sha_state = st, count0 = c0, count1 = c1, sha_buffer = take j buffer @ rest @ drop (j + length rest) buffer\<rparr>)"

text \<open>The bytes of a word, most significant first.\<close>

definition word_bytes :: "w32 \<Rightarrow> string" where
  "word_bytes x = map (\<lambda>i. char_of (unat (drop_bit ((3 - i) * 8) x AND 255))) [0..<4]"

primrec sha1_pad_loop :: "nat \<Rightarrow> cs_sha1_ctx \<Rightarrow> cs_sha1_ctx" where
  "sha1_pad_loop 0 ctx = ctx"
| "sha1_pad_loop (Suc n) ctx = (if count0 ctx AND 504 \<noteq> 448 then sha1_pad_loop n (cs_sha1_update [NUL] ctx) else ctx)"

definition cs_sha1_final :: "cs_sha1_ctx \<Rightarrow> string" where
  "cs_sha1_final ctx = (let finalcount = word_bytes (count1 ctx) @ word_bytes (count0 ctx) in
     case sha_state (cs_sha1_update finalcount (sha1_pad_loop 64 (cs_sha1_update [CHR 0x80] ctx))) of (s0, s1, s2, s3, s4) \<Rightarrow>
       concat (map word_bytes [s0, s1, s2, s3, s4]))"

definition mg_hash_sha1_v :: "string \<Rightarrow> string list \<Rightarrow> string" where
  "mg_hash_sha1_v junk msgs = cs_sha1_final (fold cs_sha1_update msgs (cs_sha1_init junk))"

section \<open>The standard\<close>

definition be_word :: "string \<Rightarrow> nat \<Rightarrow> w32" where
  "be_word s t = of_nat (byte (s ! (4 * t)) * 2 ^ 24 + byte (s ! (4 * t + 1)) * 2 ^ 16 + byte (s ! (4 * t + 2)) * 2 ^ 8
     + byte (s ! (4 * t + 3)))"

text \<open>The first words of the message schedule.\<close>

primrec schedule :: "string \<Rightarrow> nat \<Rightarrow> w32 list" where
  "schedule m 0 = []"
| "schedule m (Suc t) = (let ws = schedule m t in ws @ [if t < 16 then be_word m t
     else rol (ws ! (t - 3) XOR ws ! (t - 8) XOR ws ! (t - 14) XOR ws ! (t - 16)) 1])"

definition sha_f :: "nat \<Rightarrow> w32 \<Rightarrow> w32 \<Rightarrow> w32 \<Rightarrow> w32" where
  "sha_f t x y z = (if t < 20 then (x AND y) XOR (NOT x AND z) else if t < 40 then x XOR y XOR z
     else if t < 60 then (x AND y) XOR (x AND z) XOR (y AND z) else x XOR y XOR z)"

definition sha_K :: "nat \<Rightarrow> w32" where
  "sha_K t = (if t < 20 then 0x5A827999 else if t < 40 then 0x6ED9EBA1 else if t < 60 then 0x8F1BBCDC else 0xCA62C1D6)"

definition sha_step :: "w32 list \<Rightarrow> sha_state \<Rightarrow> nat \<Rightarrow> sha_state" where
  "sha_step ws = (\<lambda>(a, b, c, d, e) t. (rol a 5 + sha_f t b c d + e + sha_K t + ws ! t, a, rol b 30, c, d))"

definition compress :: "sha_state \<Rightarrow> string \<Rightarrow> sha_state" where
  "compress h m = (case h of (h0, h1, h2, h3, h4) \<Rightarrow> case foldl (sha_step (schedule m 80)) h [0..<80] of (a, b, c, d, e) \<Rightarrow>
     (h0 + a, h1 + b, h2 + c, h3 + d, h4 + e))"

function hash_blocks :: "sha_state \<Rightarrow> string \<Rightarrow> sha_state" where
  "hash_blocks h m = (if length m < 64 then h else hash_blocks (compress h (take 64 m)) (drop 64 m))"
  by pat_completeness auto
termination by (relation "measure (\<lambda>(h, m). length m)") auto

declare hash_blocks.simps [simp del]

definition sha_H0 :: sha_state where
  "sha_H0 = (0x67452301, 0xEFCDAB89, 0x98BADCFE, 0x10325476, 0xC3D2E1F0)"

definition sha_padding :: "nat \<Rightarrow> string" where
  "sha_padding n = CHR 0x80 # replicate ((119 - n mod 64) mod 64) NUL
     @ map (\<lambda>i. char_of (8 * n div 256 ^ (7 - i))) [0..<8]"

definition SHA1 :: "string \<Rightarrow> string" where
  "SHA1 m = (case hash_blocks sha_H0 (m @ sha_padding (length m)) of (a, b, c, d, e) \<Rightarrow> concat (map word_bytes [a, b, c, d, e]))"

section \<open>The rounds\<close>

lemma sha_functions:
  "((w AND (x XOR y)) XOR y :: w32) = (w AND x) XOR (NOT w AND y)"
  "(((w OR x) AND y) OR (w AND x) :: w32) = (w AND x) XOR (w AND y) XOR (x AND y)"
  by (rule bit_word_eqI, simp only: bit_and_iff bit_or_iff bit_xor_iff bit_not_iff possible_bit_word simp_thms, blast)+

lemma masks: "(0xFF00FF00 :: w32) = push_bit 8 (mask 8) OR push_bit 24 (mask 8)" "(0x00FF00FF :: w32) = mask 8 OR push_bit 16 (mask 8)"
  by (simp_all add: mask_eq_exp_minus_1)

lemma swap_words:
  fixes a b c d :: w32
  assumes "\<And>k. bit a k \<Longrightarrow> k < 8" "\<And>k. bit b k \<Longrightarrow> k < 8" "\<And>k. bit c k \<Longrightarrow> k < 8" "\<And>k. bit d k \<Longrightarrow> k < 8"
  defines "l \<equiv> a OR push_bit 8 b OR push_bit 16 c OR push_bit 24 d"
  shows "(rol l 24 AND 0xFF00FF00) OR (rol l 8 AND 0x00FF00FF) = push_bit 24 a OR push_bit 16 b OR push_bit 8 c OR d"
proof (rule bit_word_eqI)
  fix n assume n: "n < LENGTH(32)"
  have z: "8 \<le> k \<Longrightarrow> \<not> bit a k" "8 \<le> k \<Longrightarrow> \<not> bit b k" "8 \<le> k \<Longrightarrow> \<not> bit c k" "8 \<le> k \<Longrightarrow> \<not> bit d k" for k
    using assms(1-4) [of k] by auto
  note bits = bit_or_iff bit_and_iff bit_push_bit_iff bit_drop_bit_eq bit_mask_iff possible_bit_word z
  define m where "m = n mod 8"
  have "n < 32" using n by simp
  then have m: "m < 8" "n = m \<or> n = m + 8 \<or> n = m + 16 \<or> n = m + 24" 
  proof -
    have "n div 8 < 4" using \<open>n < 32\<close> by (simp add: less_mult_imp_div_less)
    then have "n div 8 = 0 \<or> n div 8 = 1 \<or> n div 8 = 2 \<or> n div 8 = 3" by linarith
    moreover have "n = 8 * (n div 8) + m" by (simp add: m_def)
    ultimately show "n = m \<or> n = m + 8 \<or> n = m + 16 \<or> n = m + 24" by linarith
    show "m < 8" by (simp add: m_def)
  qed
  show "bit ((rol l 24 AND 0xFF00FF00) OR (rol l 8 AND 0x00FF00FF)) n = bit (push_bit 24 a OR push_bit 16 b OR push_bit 8 c OR d) n"
    using m(2) unfolding masks rol_def l_def
    by (elim disjE) (use m(1) in \<open>simp_all add: bits\<close>)
qed
lemma bit_byte: "bit (of_nat (byte c) :: w32) k \<Longrightarrow> k < 8"
proof (rule ccontr)
  assume b: "bit (of_nat (byte c) :: w32) k" and "\<not> k < 8"
  then have "(2 :: nat) ^ 8 \<le> 2 ^ k" by (intro power_increasing) simp_all
  then have "byte c < 2 ^ k" using order.strict_trans2 [OF byte_less] by fastforce
  then have "\<not> bit (byte c) k" by (simp add: bit_iff_odd)
  with b show False by (simp add: bit_of_nat_iff)
qed

lemma nat_join: "y < 2 ^ n \<Longrightarrow> push_bit n x OR y = x * 2 ^ n + (y :: nat)"
proof -
  assume "y < 2 ^ n"
  then have "take_bit n y = y" by (simp add: take_bit_nat_eq_self)
  moreover have "push_bit n x AND take_bit n y = 0" by (rule bit_eqI) (auto simp: bit_simps)
  ultimately show ?thesis using disjunctive_add_eq_or [of "push_bit n x" y] by (simp add: push_bit_eq_mult)
qed

lemma be_word_or:
  "be_word s t = push_bit 24 (of_nat (byte (s ! (4 * t)))) OR push_bit 16 (of_nat (byte (s ! (4 * t + 1))))
     OR push_bit 8 (of_nat (byte (s ! (4 * t + 2)))) OR of_nat (byte (s ! (4 * t + 3)))"
proof -
  have "push_bit 24 a OR (push_bit 16 b OR (push_bit 8 c OR d)) = a * 2 ^ 24 + (b * 2 ^ 16 + (c * 2 ^ 8 + d))"
    if "b < 256" "c < 256" "d < 256" for a b c d :: nat
  proof -
    have "push_bit 8 c OR d = c * 2 ^ 8 + d" using that by (intro nat_join) simp
    moreover have "push_bit 16 b OR (c * 2 ^ 8 + d) = b * 2 ^ 16 + (c * 2 ^ 8 + d)" using that by (intro nat_join) simp
    moreover have "push_bit 24 a OR (b * 2 ^ 16 + (c * 2 ^ 8 + d)) = a * 2 ^ 24 + (b * 2 ^ 16 + (c * 2 ^ 8 + d))"
      using that by (intro nat_join) simp
    ultimately show ?thesis by (simp only:)
  qed
  from this [OF byte_less byte_less byte_less] show ?thesis
    by (simp only: be_word_def add.assoc of_nat_or_eq push_bit_of_nat flip: of_nat_or_eq)
qed

lemma byte_swap: "(rol (le_word s i) 24 AND 0xFF00FF00) OR (rol (le_word s i) 8 AND 0x00FF00FF) = be_word s i"
  unfolding be_word_or le_word_def by (rule swap_words; rule bit_byte)

section \<open>The circular block\<close>

lemma schedule_length [simp]: "length (schedule m n) = n"
  by (induction n) (simp_all add: Let_def)

lemma schedule_nth: "t < n \<Longrightarrow> schedule m n ! t = schedule m (Suc t) ! t"
  by (induction n) (auto simp: Let_def nth_append less_Suc_eq)

lemma schedule_rec:
  assumes "t < n"
  shows "schedule m n ! t = (if t < 16 then be_word m t
     else rol (schedule m n ! (t - 3) XOR schedule m n ! (t - 8) XOR schedule m n ! (t - 14) XOR schedule m n ! (t - 16)) 1)"
proof -
  have "schedule m t ! s = schedule m n ! s" if "s < t" for s
    using that assms by (simp add: schedule_nth [of s])
  then show ?thesis using assms by (simp add: schedule_nth [of t n] Let_def nth_append)
qed

definition block_ok :: "string \<Rightarrow> nat \<Rightarrow> w32 list \<Rightarrow> bool" where
  "block_ok m n block \<longleftrightarrow> length block = 16 \<and> (\<forall>s < n. n \<le> s + 16 \<longrightarrow> block ! (s mod 16) = schedule m 80 ! s)
     \<and> (\<forall>i < 16. n \<le> i \<longrightarrow> block ! i = le_word m i)"

lemma mod_16_neq: "s < n \<Longrightarrow> n < s + 16 \<Longrightarrow> n mod 16 = s mod (16 :: nat) \<Longrightarrow> False"
  using mod_eq_dvd_iff_nat [of s n 16] nat_dvd_not_less [of "n - s" 16] by auto

lemma blk0_ok:
  assumes "block_ok m n block" "n < 16"
  shows "\<exists>b. blk0 block n = (b, schedule m 80 ! n) \<and> block_ok m (Suc n) b"
proof -
  have x: "(rol (block ! n) 24 AND 0xFF00FF00) OR (rol (block ! n) 8 AND 0x00FF00FF) = schedule m 80 ! n"
    using assms by (simp add: block_ok_def byte_swap schedule_rec [of n 80])
  have "block_ok m (Suc n) (block[n := schedule m 80 ! n])"
    using assms by (auto simp: block_ok_def nth_list_update less_Suc_eq)
  then show ?thesis unfolding blk0_def Let_def x by blast
qed

lemma blk_ok:
  assumes "block_ok m n block" "16 \<le> n" "n < 80"
  shows "\<exists>b. blk block n = (b, schedule m 80 ! n) \<and> block_ok m (Suc n) b"
proof -
  have old: "block ! (s mod 16) = schedule m 80 ! s" if "s < n" "n \<le> s + 16" for s
    using assms(1) that by (auto simp: block_ok_def)
  have i: "(n + 13) mod 16 = (n - 3) mod 16" "(n + 8) mod 16 = (n - 8) mod 16" "(n + 2) mod 16 = (n - 14) mod 16"
      "n mod 16 = (n - 16) mod 16"
  proof -
    have "n + 13 = n - 3 + 16" "n + 8 = n - 8 + 16" "n + 2 = n - 14 + 16" "n = n - 16 + 16" using assms(2) by simp_all
    then show "(n + 13) mod 16 = (n - 3) mod 16" "(n + 8) mod 16 = (n - 8) mod 16" "(n + 2) mod 16 = (n - 14) mod 16"
      "n mod 16 = (n - 16) mod 16"
      by (metis mod_add_self2)+
  qed
  have x: "rol (block ! ((n + 13) mod 16) XOR block ! ((n + 8) mod 16) XOR block ! ((n + 2) mod 16) XOR block ! (n mod 16)) 1
      = schedule m 80 ! n"
    unfolding i using assms(2,3) by (simp add: old schedule_rec [of n 80])
  have "block_ok m (Suc n) (block[n mod 16 := schedule m 80 ! n])"
    using assms by (auto simp: block_ok_def nth_list_update less_Suc_eq dest: mod_16_neq)
  then show ?thesis unfolding blk_def Let_def x by blast
qed

lemma round_ok:
  assumes "block_ok m n block" "n < 80"
  shows "\<exists>b. sha1_round (block, h) n = (b, sha_step (schedule m 80) h n) \<and> block_ok m (Suc n) b"
proof -
  obtain v w x y z where h: "h = (v, w, x, y, z)" by (metis prod_cases5)
  show ?thesis
  proof (cases "n < 16")
    case True
    from blk0_ok [OF assms(1) this] obtain b where "blk0 block n = (b, schedule m 80 ! n)" "block_ok m (Suc n) b" by blast
    with True show ?thesis
      by (simp add: h sha1_round_def R0_def sha_step_def sha_f_def sha_K_def sha_functions add.assoc add.left_commute add.commute xor.assoc)
  next
    case False
    with blk_ok [OF assms(1) _ assms(2)] obtain b where "blk block n = (b, schedule m 80 ! n)" "block_ok m (Suc n) b" by auto
    with False show ?thesis
      by (simp add: h sha1_round_def R1_def R2_def R3_def R4_def sha_step_def sha_f_def sha_K_def sha_functions add.assoc add.left_commute add.commute xor.assoc)
  qed
qed

lemma rounds_ok:
  "n \<le> 80 \<Longrightarrow> \<exists>b. foldl sha1_round (char64long16 m, h) [0..<n] = (b, foldl (sha_step (schedule m 80)) h [0..<n]) \<and> block_ok m n b"
proof (induction n)
  case 0
  show ?case by (simp add: block_ok_def char64long16_def)
next
  case (Suc n)
  then obtain b where "foldl sha1_round (char64long16 m, h) [0..<n] = (b, foldl (sha_step (schedule m 80)) h [0..<n])" "block_ok m n b"
    by auto
  with round_ok [of m n b "foldl (sha_step (schedule m 80)) h [0..<n]"] Suc.prems show ?case by simp
qed

lemma transform_compress: "cs_sha1_transform h m = compress h m"
proof -
  obtain b where "foldl sha1_round (char64long16 m, h) [0..<80] = (b, foldl (sha_step (schedule m 80)) h [0..<80])"
    using rounds_ok [of 80 m h] by auto
  then show ?thesis by (simp only: cs_sha1_transform_def compress_def) simp
qed

section \<open>Messages in pieces\<close>

lemma hash_blocks_short: "length m < 64 \<Longrightarrow> hash_blocks h m = h"
  by (subst hash_blocks.simps) simp

lemma hash_blocks_append: "64 dvd length a \<Longrightarrow> hash_blocks h (a @ b) = hash_blocks (hash_blocks h a) b"
proof (induction h a rule: hash_blocks.induct)
  case (1 h m)
  show ?case
  proof (cases "length m < 64")
    case True
    with 1(2) have "m = []" by (auto dest: dvd_imp_le)
    then show ?thesis by (simp add: hash_blocks_short)
  next
    case False
    then have "64 dvd length (drop 64 m)" using 1(2) by (simp add: dvd_diff_nat)
    with 1(1) [OF False] False show ?thesis
      by (subst (1 2) hash_blocks.simps) simp
  qed
qed

declare transform_loop.simps [simp del]

lemma transform_loop_blocks: "transform_loop st d = (hash_blocks st d, drop (length d - length d mod 64) d)"
proof (induction st d rule: transform_loop.induct)
  case (1 st d)
  show ?case
  proof (cases "63 < length d")
    case True
    have "length d mod 64 = (length d - 64) mod 64" using True by (simp add: le_mod_geq)
    moreover have "length d - (length d - 64) mod 64 = 64 + (length d - 64 - (length d - 64) mod 64)"
    proof -
      obtain k where "length d = 64 + k" using True le_Suc_ex [of 64 "length d"] by auto
      then show ?thesis using mod_less_eq_dividend [of k 64] by simp
    qed
    ultimately have "drop (length d - length d mod 64) d = drop (length (drop 64 d) - length (drop 64 d) mod 64) (drop 64 d)"
      by (simp add: add.commute)
    moreover have "hash_blocks st d = hash_blocks (compress st (take 64 d)) (drop 64 d)"
      using True by (subst hash_blocks.simps) simp
    ultimately show ?thesis using 1 [OF True] True by (subst transform_loop.simps) (simp add: transform_compress)
  next
    case False
    then show ?thesis by (subst transform_loop.simps) (simp add: hash_blocks_short)
  qed
qed

text \<open>A context that has taken in the message \<open>m\<close>.\<close>

definition hashed :: "cs_sha1_ctx \<Rightarrow> string \<Rightarrow> bool" where
  "hashed ctx m \<longleftrightarrow> sha_state ctx = hash_blocks sha_H0 m \<and> length (sha_buffer ctx) = 64
     \<and> take (length m mod 64) (sha_buffer ctx) = drop (length m - length m mod 64) m
     \<and> count0 ctx = of_nat (8 * length m) \<and> count1 ctx = of_nat (8 * length m div 2 ^ 32)"

lemma hashed_init: "length junk = 64 \<Longrightarrow> hashed (cs_sha1_init junk) []"
  by (simp add: hashed_def cs_sha1_init_def hash_blocks_short sha_H0_def)

lemma unat_of_nat_32: "unat (of_nat k :: w32) = k mod 2 ^ 32"
  by (simp add: unat_of_nat)

lemma count0_index: "unat (drop_bit 3 (of_nat (8 * n) :: w32) AND 63) = n mod 64"
proof -
  have "unat (drop_bit 3 (of_nat (8 * n) :: w32) AND 63) = (8 * n mod 2 ^ 32 div 8) AND 63"
    by (simp only: unsigned_and_eq unat_drop_bit_eq unat_of_nat_32) (simp add: drop_bit_eq_div)
  also have "8 * n mod 2 ^ 32 div 8 = n mod 2 ^ 29"
    using mult_mod_right [of 8 n "2 ^ 29"] by simp
  also have "n mod 2 ^ 29 AND 63 = n mod 2 ^ 29 mod 64"
    using take_bit_eq_mask [of 6 "n mod 2 ^ 29"] by (simp add: take_bit_eq_mod mask_eq_exp_minus_1)
  also have "\<dots> = n mod 64" by (simp add: mod_mod_cancel)
  finally show ?thesis .
qed

lemma count_carry:
  fixes l n :: nat
  assumes "n < 2 ^ 32"
  shows "(if (of_nat (8 * l) + push_bit 3 (of_nat n) :: w32) < of_nat (8 * l) then of_nat (8 * l div 2 ^ 32) + 1 else of_nat (8 * l div 2 ^ 32))
    + drop_bit 29 (of_nat n) = (of_nat (8 * (l + n) div 2 ^ 32) :: w32)"
proof -
  let ?M = "2 ^ 32 :: nat"
  define x y where "x = 8 * l mod ?M" and "y = 8 * n mod ?M"
  have c: "(of_nat (8 * l) + push_bit 3 (of_nat n) :: w32) = of_nat (8 * l + 8 * n)"
    by (simp add: push_bit_eq_mult)
  have "(of_nat (8 * l + 8 * n) < (of_nat (8 * l) :: w32)) \<longleftrightarrow> (x + y) mod ?M < x"
    by (simp only: word_less_nat_alt unat_of_nat_32 x_def y_def mod_add_eq)
  also have "\<dots> \<longleftrightarrow> ?M \<le> x + y"
  proof (cases "?M \<le> x + y")
    case True
    have "x < ?M" "y < ?M" by (simp_all add: x_def y_def)
    then have "(x + y) mod ?M = x + y - ?M" using True by (simp add: le_mod_geq)
    with True \<open>y < ?M\<close> show ?thesis by linarith
  qed simp
  finally have lt: "(of_nat (8 * l + 8 * n) < (of_nat (8 * l) :: w32)) \<longleftrightarrow> ?M \<le> x + y" .
  have d: "drop_bit 29 (of_nat n :: w32) = of_nat (8 * n div ?M)"
  proof -
    have "8 * n div (8 * 2 ^ 29) = n div 2 ^ 29" by (rule div_mult_mult1) simp
    then have "8 * n div ?M = n div 2 ^ 29" by simp
    moreover have "drop_bit 29 (of_nat n :: w32) = of_nat (n div 2 ^ 29)"
    proof (rule unsigned_word_eqI [where 'a = nat])
      have "n div 2 ^ 29 < 2 ^ 32" using assms div_le_dividend [of n "2 ^ 29"] by linarith
      then show "unat (drop_bit 29 (of_nat n :: w32)) = unat (of_nat (n div 2 ^ 29) :: w32)"
        using assms by (simp only: unat_drop_bit_eq unat_of_nat_32) (simp add: drop_bit_eq_div)
    qed
    ultimately show ?thesis by simp
  qed
  have "(8 * l + 8 * n) div ?M = 8 * l div ?M + 8 * n div ?M + (x + y) div ?M"
    unfolding x_def y_def by (rule div_add1_eq)
  moreover have "(x + y) div ?M = (if ?M \<le> x + y then 1 else 0)"
  proof (cases "?M \<le> x + y")
    case True
    have "x < ?M" "y < ?M" by (simp_all add: x_def y_def)
    then have "(x + y) div ?M = 1" using True by (intro div_nat_eqI) simp_all
    with True show ?thesis by simp
  qed simp
  ultimately have "8 * (l + n) div ?M = 8 * l div ?M + 8 * n div ?M + (if ?M \<le> x + y then 1 else 0)"
    by (simp add: distrib_left)
  then show ?thesis unfolding c lt d by simp
qed

lemma mod_64_dvd: "64 dvd (n - n mod 64 :: nat)"
  by (metis dvd_minus_mod)

abbreviation (input) tail64 :: "string \<Rightarrow> string" where
  "tail64 m \<equiv> drop (length m - length m mod 64) m"

lemma tail64_length: "length (tail64 m) = length m mod 64"
  using mod_less_eq_dividend [of "length m" 64] by simp

lemma hash_from_tail: "hash_blocks h (m @ x) = hash_blocks (hash_blocks h m) (tail64 m @ x)"
proof -
  let ?a = "take (length m - length m mod 64) m"
  have a: "64 dvd length ?a" using mod_64_dvd [of "length m"] by simp
  have "hash_blocks h m = hash_blocks h ?a"
    using hash_blocks_append [OF a, of h "tail64 m"] by (simp add: tail64_length hash_blocks_short)
  moreover have "hash_blocks h (?a @ tail64 m @ x) = hash_blocks (hash_blocks h ?a) (tail64 m @ x)"
    by (rule hash_blocks_append [OF a])
  ultimately show ?thesis by (simp only: append.assoc [symmetric] append_take_drop_id)
qed

lemma hash_block: "length b = 64 \<Longrightarrow> hash_blocks h (b @ r) = hash_blocks (compress h b) r"
  by (subst hash_blocks.simps) simp

text \<open>The tail of a message that is extended by at least what fills up its last block.\<close>

lemma tail64_append:
  assumes "length m mod 64 + length d > 63"
  shows "tail64 (m @ d) = tail64 (drop (64 - length m mod 64) d)"
proof -
  let ?j = "length m mod 64" and ?r = "drop (64 - length m mod 64) d"
  obtain q where q: "length m = 64 * q + ?j" by (metis mult_div_mod_eq)
  have "?j < 64" by simp
  then have l: "length (m @ d) = 64 * (q + 1) + length ?r" using assms q by simp
  then have e: "length (m @ d) mod 64 = length ?r mod 64" by (metis mod_mult_self4)
  have "m @ d = (m @ take (64 - ?j) d) @ ?r" by simp
  moreover have "length (m @ take (64 - ?j) d) = 64 * (q + 1)" using \<open>?j < 64\<close> assms q by simp
  ultimately have "drop (64 * (q + 1) + k) (m @ d) = drop k ?r" for k
    by (metis add.commute append_eq_conv_conj drop_drop)
  moreover have "length (m @ d) - length (m @ d) mod 64 = 64 * (q + 1) + (length ?r - length ?r mod 64)"
    unfolding e unfolding l by (rule diff_add_assoc) (rule mod_less_eq_dividend)
  ultimately show ?thesis by (simp only:)
qed

lemma update_counts:
  assumes "hashed ctx m" "length d < 2 ^ 32"
  shows "count0 (cs_sha1_update d ctx) = of_nat (8 * length (m @ d))"
    "count1 (cs_sha1_update d ctx) = of_nat (8 * length (m @ d) div 2 ^ 32)"
  using count_carry [OF assms(2), of "length m"] assms(1)
  by (auto simp: hashed_def cs_sha1_update_def Let_def push_bit_eq_mult split: prod.splits if_splits)

lemma update_index: "hashed ctx m \<Longrightarrow> unat (drop_bit 3 (count0 ctx) AND 63) = length m mod 64"
  unfolding hashed_def by (simp only: count0_index)

lemma hashed_update:
  assumes "hashed ctx m" "length d < 2 ^ 32"
  shows "hashed (cs_sha1_update d ctx) (m @ d)"
proof (cases "length m mod 64 + length d > 63")
  case True
  let ?j = "length m mod 64"
  define b r where "b = tail64 m @ take (64 - ?j) d" and "r = drop (64 - ?j) d"
  have st: "sha_state ctx = hash_blocks sha_H0 m" and buf: "take ?j (sha_buffer ctx) = tail64 m"
    using assms(1) by (auto simp: hashed_def)
  have "?j < 64" by simp
  then have b: "length b = 64" using True by (simp add: b_def tail64_length)
  have "hash_blocks sha_H0 (m @ d) = hash_blocks (sha_state ctx) (b @ r)"
    using hash_from_tail [of sha_H0 m d] by (simp add: b_def r_def st)
  then have h: "hash_blocks sha_H0 (m @ d) = hash_blocks (compress (sha_state ctx) b) r" by (simp only: hash_block [OF b])
  have t: "tail64 (m @ d) = tail64 r" using tail64_append [OF True] by (simp only: r_def)
  have "sha_state (cs_sha1_update d ctx) = hash_blocks sha_H0 (m @ d)"
    "sha_buffer (cs_sha1_update d ctx) = tail64 r @ drop (length (tail64 r)) b"
    using True unfolding cs_sha1_update_def Let_def update_index [OF assms(1)]
    by (simp_all add: buf transform_loop_blocks transform_compress h flip: b_def r_def)
  then show ?thesis
    using update_counts [OF assms] b t tail64_length [of "m @ d"] mod_less_divisor [of 64 "length (m @ d)"]
    unfolding hashed_def by (simp only: length_append length_drop t) simp
next
  case False
  let ?j = "length m mod 64"
  have st: "sha_state ctx = hash_blocks sha_H0 m" and buf: "take ?j (sha_buffer ctx) = tail64 m" "length (sha_buffer ctx) = 64"
    using assms(1) by (auto simp: hashed_def)
  have "hash_blocks sha_H0 (m @ d) = sha_state ctx"
    using False by (simp add: hash_from_tail [of _ m] st hash_blocks_short tail64_length)
  moreover have e: "length (m @ d) mod 64 = ?j + length d"
    using False mod_add_left_eq [of "length m" 64 "length d"] by simp
  moreover have "tail64 (m @ d) = tail64 m @ d" unfolding e using mod_less_eq_dividend [of "length m" 64] by simp
  moreover have "sha_state (cs_sha1_update d ctx) = sha_state ctx"
    "sha_buffer (cs_sha1_update d ctx) = (tail64 m @ d) @ drop (?j + length d) (sha_buffer ctx)"
    using False buf unfolding cs_sha1_update_def Let_def update_index [OF assms(1)] by simp_all
  ultimately show ?thesis
    using update_counts [OF assms] False buf unfolding hashed_def by (simp add: tail64_length)
qed

lemma hashed_updates:
  "hashed ctx m \<Longrightarrow> \<forall>d \<in> set ds. length d < 2 ^ 32 \<Longrightarrow> hashed (fold cs_sha1_update ds ctx) (m @ concat ds)"
proof (induction ds arbitrary: ctx m)
  case (Cons d ds)
  then show ?case using hashed_update [of ctx m d] by simp (metis append.assoc)
qed simp

section \<open>Padding\<close>

lemma and_504: "x AND 504 = 448 \<longleftrightarrow> unat (drop_bit 3 x AND 63) = (56 :: nat)" for x :: w32
proof -
  have "x AND 504 = push_bit 3 (drop_bit 3 x AND 63)"
  proof (rule bit_word_eqI)
    fix n assume "n < LENGTH(32)"
    have m: "(504 :: w32) = push_bit 3 (mask 6)" "(63 :: w32) = mask 6" by (simp_all add: mask_eq_exp_minus_1)
    show "bit (x AND 504) n = bit (push_bit 3 (drop_bit 3 x AND 63)) n"
      unfolding m using \<open>n < LENGTH(32)\<close> by (auto simp: bit_and_iff bit_push_bit_iff bit_drop_bit_eq bit_mask_iff)
  qed
  moreover have "push_bit 3 y = 448 \<longleftrightarrow> y = 56" if "y = drop_bit 3 x AND 63" for y :: w32
  proof
    assume "push_bit 3 y = 448"
    then have "drop_bit 3 (push_bit 3 y) = (56 :: w32)" by simp
    moreover have "drop_bit 3 (push_bit 3 y) = y"
      by (rule bit_word_eqI) (auto simp: that bit_and_iff bit_push_bit_iff bit_drop_bit_eq dest: bit_imp_le_length)
    ultimately show "y = 56" by simp
  qed simp
  moreover have "y = 56 \<longleftrightarrow> unat y = 56" for y :: w32 using unsigned_word_eqI [of y 56] by auto
  ultimately show ?thesis by simp
qed

lemma pad_condition: "hashed ctx m \<Longrightarrow> count0 ctx AND 504 = 448 \<longleftrightarrow> length m mod 64 = 56"
  by (simp only: and_504 update_index)

lemma pad_loop:
  assumes "hashed ctx m" "k \<le> n" "(length m + k) mod 64 = 56" "\<forall>i < k. (length m + i) mod 64 \<noteq> 56"
  shows "hashed (sha1_pad_loop n ctx) (m @ replicate k NUL)"
  using assms
proof (induction k arbitrary: n ctx m)
  case 0
  then show ?case using pad_condition [OF 0(1)] by (cases n) simp_all
next
  case (Suc k)
  then obtain n' where n: "n = Suc n'" by (cases n) auto
  have "length m mod 64 \<noteq> 56" using Suc.prems(4) by (metis add_0_right zero_less_Suc)
  then have "sha1_pad_loop n ctx = sha1_pad_loop n' (cs_sha1_update [NUL] ctx)"
    using pad_condition [OF Suc.prems(1)] by (simp add: n)
  moreover have "hashed (sha1_pad_loop n' (cs_sha1_update [NUL] ctx)) ((m @ [NUL]) @ replicate k NUL)"
    using Suc.prems by (intro Suc.IH hashed_update) (auto simp: n)
  ultimately show ?case by simp
qed

lemma pad_count:
  assumes "k = (119 - n mod 64) mod (64 :: nat)"
  shows "(n + 1 + k) mod 64 = 56" "i < k \<Longrightarrow> (n + 1 + i) mod 64 \<noteq> 56" "k \<le> 64"
proof -
  define r where "r = n mod 64"
  have r: "r < 64" by (simp add: r_def)
  have e: "(n + 1 + i) mod 64 = (r + 1 + i) mod 64" for i
    unfolding r_def by (simp only: add.assoc mod_add_left_eq)
  have "k = (if r \<le> 55 then 55 - r else 119 - r)"
  proof (cases "r \<le> 55")
    case True
    then have "119 - r = 64 + (55 - r)" by linarith
    then have "k = (64 + (55 - r)) mod 64" using assms by (simp only: r_def)
    also have "\<dots> = (55 - r) mod 64" by (rule mod_add_self1)
    also have "\<dots> = 55 - r" by (rule mod_less) simp
    finally show ?thesis using True by simp
  next
    case False
    then have "119 - r < 64" by linarith
    then have "(119 - r) mod 64 = 119 - r" by (rule mod_less)
    with False show ?thesis using assms by (simp only: r_def if_False)
  qed
  then consider "r \<le> 55" "k = 55 - r" | "55 < r" "k = 119 - r" by (auto split: if_splits)
  note k = this
  then show "(n + 1 + k) mod 64 = 56" unfolding e by cases (use r in simp_all)
  show "k \<le> 64" using k r by cases simp_all
  assume i: "i < k"
  from k show "(n + 1 + i) mod 64 \<noteq> 56"
  proof cases
    case 1
    then show ?thesis unfolding e using i by simp
  next
    case 2
    show ?thesis
    proof (cases "r + 1 + i < 64")
      case True
      then show ?thesis unfolding e using 2 by simp
    next
      case False
      then have "(r + 1 + i) mod 64 = r + 1 + i - 64" using 2 i by (simp add: le_mod_geq)
      then show ?thesis unfolding e using 2 i r by linarith
    qed
  qed
qed

lemma word_bytes_count:
  "word_bytes (of_nat (N div 2 ^ 32)) @ word_bytes (of_nat N) = map (\<lambda>i. char_of (N div 256 ^ (7 - i))) [0..<8]"
proof -
  have b: "char_of (unat (drop_bit k (of_nat M :: w32) AND 255)) = (char_of (M div 2 ^ k) :: char)" if "k \<le> 24" for k M
  proof -
    have "unat (drop_bit k (of_nat M :: w32) AND 255) = M mod 2 ^ 32 div 2 ^ k AND 255"
      by (simp only: unsigned_and_eq unat_drop_bit_eq unat_of_nat_32) (simp add: drop_bit_eq_div)
    also have "\<dots> = M mod 2 ^ 32 div 2 ^ k mod 256"
      using take_bit_eq_mask [of 8 "M mod 2 ^ 32 div 2 ^ k"] by (simp add: take_bit_eq_mod mask_eq_exp_minus_1)
    also have "\<dots> = M div 2 ^ k mod 256"
    proof -
      have "take_bit 8 (drop_bit k (take_bit 32 M)) = take_bit 8 (drop_bit k M)"
        using that by (intro bit_eqI) (auto simp: bit_simps)
      then show ?thesis by (simp add: take_bit_eq_mod drop_bit_eq_div)
    qed
    finally show ?thesis by simp
  qed
  show ?thesis
    by (simp add: word_bytes_def upt_rec b div_mult2_eq [symmetric] flip: power_add)
qed

text \<open>
  C14. The digest that the code computes block by block, from any pieces of the message, with the words of the block
  updated in place and swapped, is SHA-1 of the whole message as the standard defines it.
\<close>

theorem sha1_correct:
  assumes "length junk = 64" "\<forall>d \<in> set msgs. length d < 2 ^ 32 - 128"
  shows "mg_hash_sha1_v junk msgs = SHA1 (concat msgs)"
proof -
  let ?m = "concat msgs" and ?ctx = "fold cs_sha1_update msgs (cs_sha1_init junk)"
  let ?n = "length ?m"
  let ?k = "(119 - ?n mod 64) mod 64"
  have "\<forall>d \<in> set msgs. length d < 2 ^ 32" using assms(2) by auto
  from hashed_updates [OF hashed_init [OF assms(1)] this] have c0: "hashed ?ctx ?m" by simp
  have c1: "hashed (cs_sha1_update [CHR 0x80] ?ctx) (?m @ [CHR 0x80])" using c0 by (rule hashed_update) simp
  have c2: "hashed (sha1_pad_loop 64 (cs_sha1_update [CHR 0x80] ?ctx)) ((?m @ [CHR 0x80]) @ replicate ?k NUL)"
  proof (intro pad_loop [OF c1] allI impI)
    fix i assume "i < ?k"
    then show "(length (?m @ [CHR 0x80]) + i) mod 64 \<noteq> 56" using pad_count(2) [OF refl] by simp
  qed (use pad_count(1,3) [OF refl, of ?n] in simp_all)
  let ?f = "word_bytes (count1 ?ctx) @ word_bytes (count0 ?ctx)"
  have f: "?f = map (\<lambda>i. char_of (8 * ?n div 256 ^ (7 - i))) [0..<8]"
    using c0 unfolding hashed_def by (simp only: word_bytes_count)
  have "hashed (cs_sha1_update ?f (sha1_pad_loop 64 (cs_sha1_update [CHR 0x80] ?ctx))) (((?m @ [CHR 0x80]) @ replicate ?k NUL) @ ?f)"
    using c2 by (rule hashed_update) (simp add: f)
  then have "sha_state (cs_sha1_update ?f (sha1_pad_loop 64 (cs_sha1_update [CHR 0x80] ?ctx)))
      = hash_blocks sha_H0 (?m @ sha_padding ?n)"
    unfolding hashed_def sha_padding_def f by simp
  then show ?thesis by (simp add: mg_hash_sha1_v_def cs_sha1_final_def SHA1_def Let_def)
qed

lemma sha1_correct_witness: "mg_hash_sha1_v (replicate 64 NUL) [''a'', ''bc''] = SHA1 ''abc''"
  using sha1_correct [of "replicate 64 NUL" "[''a'', ''bc'']"] by simp

end
