(* ===== verification/BL_Web_Conn.thy ===== *)
theory BL_Web_Conn
  imports BL_Web_Http BL_Web_Sha1
begin

text \<open>
  Connections of the web server library: the events of a connection and the calls of the user's handler
  (\<^verbatim>\<open>mg_net.c\<close>), websockets (\<^verbatim>\<open>mg_http_websocket.c\<close>) and the HTTP protocol handler (\<^verbatim>\<open>mg_http.c\<close>). Handlers are
  numbers, and the argument \<open>H\<close> gives the function of each: from an event and a connection it computes the
  changed connection, on the state of its own program. The allocator always succeeds here.
\<close>

unbundle bit_operations_syntax

section \<open>Connections\<close>

datatype mg_flag =
    MG_F_LISTENING | MG_F_UDP | MG_F_RESOLVING | MG_F_CONNECTING | MG_F_SSL | MG_F_SSL_HANDSHAKE_DONE
  | MG_F_WANT_READ | MG_F_WANT_WRITE | MG_F_IS_WEBSOCKET | MG_F_SEND_AND_CLOSE | MG_F_CLOSE_IMMEDIATELY
  | MG_F_WEBSOCKET_NO_DEFRAG | MG_F_DELETE_CHUNK | MG_F_ENABLE_BROADCAST | MG_F_USER nat

definition callback_modifiable :: "mg_flag \<Rightarrow> bool" where
  "callback_modifiable f \<longleftrightarrow> (\<exists>n \<in> {1, 2, 3, 4, 5, 6}. f = MG_F_USER n) \<or> f \<in> {MG_F_WEBSOCKET_NO_DEFRAG,
     MG_F_SEND_AND_CLOSE, MG_F_CLOSE_IMMEDIATELY, MG_F_IS_WEBSOCKET, MG_F_DELETE_CHUNK}"

record websocket_message =
  ws_data :: string
  ws_size :: nat
  ws_flags :: nat

datatype mg_event =
    MG_EV_POLL bool   \<comment> \<open>whether nothing was sent or received for more than five seconds\<close>
  | MG_EV_ACCEPT
  | MG_EV_RECV nat
  | MG_EV_SEND int
  | MG_EV_CLOSE
  | MG_EV_HTTP_REQUEST http_message
  | MG_EV_HTTP_REPLY http_message
  | MG_EV_HTTP_CHUNK http_message
  | MG_EV_WEBSOCKET_HANDSHAKE_REQUEST http_message
  | MG_EV_WEBSOCKET_HANDSHAKE_DONE
  | MG_EV_WEBSOCKET_FRAME websocket_message
  | MG_EV_WEBSOCKET_CONTROL_FRAME websocket_message

text \<open>
  The connection with the protocol's data: whether it was accepted by a listener, and that one's endpoints,
  the latest first; \<open>ws_proto\<close> says that the protocol handler is the one for websockets. \<open>masks\<close> are
  the four bytes of each number that \<open>rand\<close> will give, \<open>sock_out\<close> is what the socket has taken so far.
\<close>

record mg_connection =
  recv_mbuf :: string
  recv_mbuf_limit :: nat
  send_mbuf :: string
  flags :: "mg_flag set"
  accepted :: bool
  endpoints :: "(string \<times> nat) list"
  handler :: nat
  endpoint_handler :: "nat option"
  ws_proto :: bool
  chunk_body_len :: nat
  rcvd :: nat
  reass_len :: nat
  masks :: "nat \<Rightarrow> string"
  sock_out :: string

type_synonym 'w handlers = "nat \<Rightarrow> mg_event \<Rightarrow> mg_connection \<Rightarrow> ('w, mg_connection) M"

text \<open>A call of a user's handler, which may change some of the flags only when it is the connection's own.\<close>

definition mg_call :: "'w handlers \<Rightarrow> nat \<Rightarrow> mg_event \<Rightarrow> mg_connection \<Rightarrow> ('w, mg_connection) M" where
  "mg_call H h ev nc = bindM (H h ev nc) (\<lambda>c. returnM (if h = handler c
     then c\<lparr>flags := {f \<in> flags nc. \<not> callback_modifiable f} \<union> {f \<in> flags c. callback_modifiable f}\<rparr> else c))"

definition set_flag :: "mg_flag \<Rightarrow> mg_connection \<Rightarrow> mg_connection" where
  "set_flag f nc = nc\<lparr>flags := insert f (flags nc)\<rparr>"

definition mg_send :: "string \<Rightarrow> mg_connection \<Rightarrow> mg_connection" where
  "mg_send data nc = nc\<lparr>send_mbuf := send_mbuf nc @ data\<rparr>"

definition remove_received :: "nat \<Rightarrow> mg_connection \<Rightarrow> mg_connection" where
  "remove_received n nc = (if n \<le> length (recv_mbuf nc) then nc\<lparr>recv_mbuf := drop n (recv_mbuf nc)\<rparr> else nc)"

section \<open>Replies\<close>

definition mg_send_response_line :: "int \<Rightarrow> string \<Rightarrow> mg_connection \<Rightarrow> mg_connection" where
  "mg_send_response_line code extra_headers = mg_send (response_line code extra_headers)"

definition mg_send_head :: "int \<Rightarrow> int \<Rightarrow> string \<Rightarrow> mg_connection \<Rightarrow> mg_connection" where
  "mg_send_head code content_length extra_headers = mg_send (reply_head code content_length extra_headers)"

definition mg_http_send_error :: "int \<Rightarrow> string option \<Rightarrow> mg_connection \<Rightarrow> mg_connection" where
  "mg_http_send_error code reason nc = (let r = (case reason of None \<Rightarrow> mg_status_message code | Some r \<Rightarrow> r) in
     set_flag MG_F_SEND_AND_CLOSE (mg_send r (mg_send_head code (int (length r))
       (''Content-Type: text/plain'' @ CRLF @ ''Connection: close'') nc)))"

definition mg_http_send_redirect :: "int \<Rightarrow> string \<Rightarrow> string \<Rightarrow> mg_connection \<Rightarrow> mg_connection" where
  "mg_http_send_redirect code location extra_headers =
     (let q = [CHR 0x27]; body = ''<p>Moved <a href='' @ q @ location @ q @ ''>here</a>.'' @ CRLF in
      mg_send body \<circ> mg_send_response_line code (''Location: '' @ location @ CRLF @ ''Content-Type: text/html'' @ CRLF
        @ ''Content-Length: '' @ mpz_get_str (int (length body)) @ CRLF @ ''Cache-Control: no-cache'' @ CRLF
        @ extra_headers @ (if extra_headers \<noteq> [] then CRLF else [])))"

definition mg_send_http_chunk :: "string \<Rightarrow> mg_connection \<Rightarrow> mg_connection" where
  "mg_send_http_chunk data = mg_send (http_chunk data)"

definition mg_printf_html_escape :: "string \<Rightarrow> mg_connection \<Rightarrow> mg_connection" where
  "mg_printf_html_escape text = mg_send (html_escape text)"

section \<open>Websocket frames\<close>

definition WEBSOCKET_OP_CLOSE :: nat where "WEBSOCKET_OP_CLOSE = 8"
definition WEBSOCKET_OP_PING :: nat where "WEBSOCKET_OP_PING = 9"
definition WEBSOCKET_OP_PONG :: nat where "WEBSOCKET_OP_PONG = 10"
definition WEBSOCKET_DONT_FIN :: nat where "WEBSOCKET_DONT_FIN = 256"

definition mg_is_ws_fragment :: "nat \<Rightarrow> bool" where
  "mg_is_ws_fragment fl \<longleftrightarrow> fl AND 128 = 0 \<or> fl AND 15 = 0"

definition mg_is_ws_first_fragment :: "nat \<Rightarrow> bool" where
  "mg_is_ws_first_fragment fl \<longleftrightarrow> fl AND 128 = 0 \<and> fl AND 15 \<noteq> 0"

definition mg_is_ws_control_frame :: "nat \<Rightarrow> bool" where
  "mg_is_ws_control_frame fl \<longleftrightarrow> fl AND 15 \<in> {WEBSOCKET_OP_CLOSE, WEBSOCKET_OP_PING, WEBSOCKET_OP_PONG}"

text \<open>Numbers in network byte order.\<close>

definition be_bytes :: "nat \<Rightarrow> nat \<Rightarrow> string" where
  "be_bytes k n = map (\<lambda>i. char_of (n div 256 ^ (k - 1 - i))) [0..<k]"

definition be_value :: "string \<Rightarrow> nat" where
  "be_value s = foldl (\<lambda>n c. 256 * n + byte c) 0 s"

definition xor_mask :: "string \<Rightarrow> string \<Rightarrow> string" where
  "xor_mask key data = map (\<lambda>i. char_of (byte (data ! i) XOR byte (key ! (i mod 4)))) [0..<length data]"

definition ws_header :: "nat \<Rightarrow> nat \<Rightarrow> bool \<Rightarrow> string" where
  "ws_header op len masked = (let m = (if masked then 128 else 0) in
     char_of ((if op AND WEBSOCKET_DONT_FIN \<noteq> 0 then 0 else 128) OR (op AND 15)) #
     (if len < 126 then [char_of (len + m)]
      else if len < 65535 then char_of (126 + m) # be_bytes 2 len
      else char_of (127 + m) # be_bytes 8 len))"

text \<open>Clients mask the data in the send buffer after it was appended.\<close>

definition mg_send_websocket_frame :: "nat \<Rightarrow> string \<Rightarrow> mg_connection \<Rightarrow> mg_connection" where
  "mg_send_websocket_frame op data nc = (let h = ws_header op (length data) (\<not> accepted nc);
      c = (if accepted nc then mg_send data (mg_send h nc)
           else let key = masks nc 0; c = mg_send key (mg_send h nc); pos = length (send_mbuf c); c = mg_send data c in
             c\<lparr>send_mbuf := take pos (send_mbuf c) @ xor_mask key (drop pos (send_mbuf c)), masks := masks nc \<circ> Suc\<rparr>) in
      if op = WEBSOCKET_OP_CLOSE then set_flag MG_F_SEND_AND_CLOSE c else c)"

definition mg_ws_close :: "string \<Rightarrow> mg_connection \<Rightarrow> mg_connection" where
  "mg_ws_close data nc = set_flag MG_F_SEND_AND_CLOSE (mg_send_websocket_frame WEBSOCKET_OP_CLOSE data nc)"

definition mg_handle_incoming_websocket_frame :: "'w handlers \<Rightarrow> websocket_message \<Rightarrow> mg_connection \<Rightarrow> ('w, mg_connection) M" where
  "mg_handle_incoming_websocket_frame H wsm nc = mg_call H (handler nc)
     (if ws_flags wsm AND 8 \<noteq> 0 then MG_EV_WEBSOCKET_CONTROL_FRAME wsm else MG_EV_WEBSOCKET_FRAME wsm) nc"

text \<open>The lengths of the header, the data and the mask at the start of a frame, zeros when it is not complete.\<close>

definition frame_lengths :: "string \<Rightarrow> nat \<times> nat \<times> nat" where
  "frame_lengths nd = (let n = length nd in if n < 2 then (0, 0, 0)
     else let len = byte (nd ! 1) AND 127; mask_len = (if byte (nd ! 1) AND 128 \<noteq> 0 then 4 else 0) in
       if len < 126 \<and> n \<ge> mask_len then (2 + mask_len, len, mask_len)
       else if len = 126 \<and> n \<ge> 4 + mask_len then (4 + mask_len, be_value (take 2 (drop 2 nd)), mask_len)
       else if n \<ge> 10 + mask_len then (10 + mask_len, be_value (take 8 (drop 2 nd)), mask_len)
       else (0, 0, mask_len))"

text \<open>
  A complete frame at the offset \<open>reass_len\<close> of the receive buffer: a fragment is appended to the message so
  far, whose first byte is its operation; other frames are answered and delivered.
\<close>

definition ws_fragment :: "'w handlers \<Rightarrow> nat \<Rightarrow> nat \<Rightarrow> nat \<Rightarrow> mg_connection \<Rightarrow> ('w, mg_connection) M" where
  "ws_fragment H fl header_len data_len nc =
     (let e = reass_len nc; first = mg_is_ws_first_fragment fl; new_pos = (if first then e + 1 else e);
          reass = (if first then 1 else e) + data_len; rb = take new_pos (recv_mbuf nc) @ drop (e + header_len) (recv_mbuf nc);
          c = nc\<lparr>recv_mbuf := rb, reass_len := reass\<rparr> in
      if fl AND 128 \<noteq> 0
      then let size = (reass + (2 ^ 64 - 1)) mod 2 ^ 64 in
        bindM (mg_handle_incoming_websocket_frame H
          \<lparr>ws_data = take size (drop 1 rb), ws_size = size, ws_flags = 128 OR byte (hd0 rb)\<rparr> (c\<lparr>reass_len := 0\<rparr>))
          (\<lambda>c. returnM (remove_received reass c))
      else returnM c)"

definition ws_complete :: "'w handlers \<Rightarrow> nat \<Rightarrow> string \<Rightarrow> nat \<Rightarrow> mg_connection \<Rightarrow> ('w, mg_connection) M" where
  "ws_complete H fl data frame_len nc =
     (let c = (if fl AND 15 = WEBSOCKET_OP_PING then mg_send_websocket_frame WEBSOCKET_OP_PONG data nc
        else if fl AND 15 = WEBSOCKET_OP_CLOSE then mg_ws_close data nc else nc) in
      bindM (mg_handle_incoming_websocket_frame H \<lparr>ws_data = data, ws_size = length data, ws_flags = fl\<rparr> c) (\<lambda>c.
        if length (recv_mbuf c) < reass_len c + frame_len then faultM Bad_index
        else returnM (c\<lparr>recv_mbuf := take (reass_len c) (recv_mbuf c) @ drop (reass_len c + frame_len) (recv_mbuf c)\<rparr>)))"

definition mg_deliver_websocket_data :: "'w handlers \<Rightarrow> mg_connection \<Rightarrow> ('w, bool \<times> mg_connection) M" where
  "mg_deliver_websocket_data H nc =
     (let e = reass_len nc; nd = drop e (recv_mbuf nc); n = length nd; fl = byte (hd0 nd);
          reass = (n > 0 \<and> mg_is_ws_fragment fl \<and> MG_F_WEBSOCKET_NO_DEFRAG \<notin> flags nc) in
      if length (recv_mbuf nc) < e then faultM Bad_index
      else if reass \<and> mg_is_ws_control_frame fl
      then returnM (False, mg_ws_close ''fragmented control frames are illegal'' nc)
      else if n > 0 \<and> \<not> reass \<and> \<not> mg_is_ws_control_frame fl \<and> e > 0
      then returnM (False, mg_ws_close ''non-continuation in the middle of a fragmented message'' nc)
      else case frame_lengths nd of (header_len, data_len, mask_len) \<Rightarrow>
        let frame_len = (header_len + data_len) mod 2 ^ 64 in
        if frame_len < header_len \<or> frame_len < data_len then returnM (False, mg_ws_close ''overflowed message'' nc)
        else if frame_len = 0 \<or> frame_len > n then returnM (False, nc)
        else let data = take data_len (drop header_len nd);
                 data = (if mask_len > 0 then xor_mask (drop (header_len - mask_len) nd) data else data);
                 c = nc\<lparr>recv_mbuf := take e (recv_mbuf nc) @ take header_len nd @ data @ drop frame_len nd\<rparr> in
          bindM (if reass then ws_fragment H fl header_len data_len c else ws_complete H fl data frame_len c)
            (\<lambda>c. returnM (True, c)))"

primrec ws_loop :: "nat \<Rightarrow> 'w handlers \<Rightarrow> mg_connection \<Rightarrow> ('w, mg_connection) M" where
  "ws_loop 0 H nc = timeoutM"
| "ws_loop (Suc n) H nc = bindM (mg_deliver_websocket_data H nc) (\<lambda>(ok, c). if ok then ws_loop n H c else returnM c)"

definition mg_ws_handler :: "nat \<Rightarrow> 'w handlers \<Rightarrow> mg_event \<Rightarrow> mg_connection \<Rightarrow> ('w, mg_connection) M" where
  "mg_ws_handler fuel H ev nc = bindM (mg_call H (handler nc) ev nc) (\<lambda>c. case ev of
       MG_EV_RECV n \<Rightarrow> ws_loop fuel H c
     | MG_EV_POLL idle \<Rightarrow> returnM (if MG_F_IS_WEBSOCKET \<in> flags c \<and> idle then mg_send_websocket_frame WEBSOCKET_OP_PING [] c else c)
     | _ \<Rightarrow> returnM c)"

definition ws_magic :: string where
  "ws_magic = ''258EAFA5-E914-47DA-95CA-C5AB0DC85B11''"

definition mg_ws_handshake :: "string \<Rightarrow> http_message \<Rightarrow> mg_connection \<Rightarrow> mg_connection" where
  "mg_ws_handshake key hm nc = (let b64_sha = cs_base64_encode (mg_hash_sha1_v (replicate 64 NUL) [key, ws_magic]) in
     mg_send (''HTTP/1.1 101 Switching Protocols'' @ CRLF @ ''Upgrade: websocket'' @ CRLF @ ''Connection: Upgrade'' @ CRLF
       @ (case mg_get_http_header hm ''Sec-WebSocket-Protocol'' of None \<Rightarrow> []
          | Some s \<Rightarrow> ''Sec-WebSocket-Protocol: '' @ s @ CRLF)
       @ ''Sec-WebSocket-Accept: '' @ b64_sha @ CRLF @ CRLF) nc)"

end
