(* ===== verification/BL_Web_Server.thy ===== *)
theory BL_Web_Server
  imports BL_Web_Conn
begin

text \<open>
  The HTTP protocol of the web server library (\<^verbatim>\<open>mg_http.c\<close>), on the events of one connection, and the socket
  interface (\<^verbatim>\<open>mg_net.c\<close>, \<^verbatim>\<open>mg_net_if_socket.c\<close>) that produces these events from what \<open>recv\<close> and \<open>send\<close>
  return. The build has neither TLS nor streamed multipart bodies; no file is being served; the endpoints need
  no password. The views of a message are copies: a user's handler that changes the bytes it has received so far
  is outside of the model where the code goes on to use them.
\<close>

section \<open>Endpoints\<close>

definition mg_http_get_endpoint_handler :: "(string \<times> nat) list \<Rightarrow> string \<Rightarrow> nat option" where
  "mg_http_get_endpoint_handler eps uri_path = snd (foldl (\<lambda>(matched_max, ret) (pattern, h).
     let matched = mg_match_prefix_n pattern uri_path in
     if matched > 0 \<and> matched > matched_max then (matched, Some h) else (matched_max, ret)) (0, None) eps)"

definition mg_register_http_endpoint :: "string \<Rightarrow> nat \<Rightarrow> mg_connection \<Rightarrow> mg_connection" where
  "mg_register_http_endpoint uri_path h nc = nc\<lparr>endpoints := (uri_path, h) # endpoints nc\<rparr>"

definition mg_http_call_endpoint_handler :: "'w handlers \<Rightarrow> mg_event \<Rightarrow> mg_connection \<Rightarrow> ('w, mg_connection) M" where
  "mg_http_call_endpoint_handler H ev nc = (let c = (case ev of
       MG_EV_HTTP_REQUEST hm \<Rightarrow> (case mg_http_get_endpoint_handler (endpoints nc) (uri hm) of
           None \<Rightarrow> nc | Some h \<Rightarrow> nc\<lparr>endpoint_handler := Some h\<rparr>)
     | _ \<Rightarrow> nc) in
     mg_call H (case endpoint_handler c of None \<Rightarrow> handler c | Some h \<Rightarrow> h) ev c)"

section \<open>Bodies\<close>

definition clear_flag :: "mg_flag \<Rightarrow> mg_connection \<Rightarrow> mg_connection" where
  "clear_flag f nc = nc\<lparr>flags := flags nc - {f}\<rparr>"

text \<open>
  \<open>deliver_chunk\<close> also changes the message of its caller. Setting the length of the receive buffer to that of the
  head keeps its first bytes.
\<close>

definition deliver_chunk :: "'w handlers \<Rightarrow> http_message \<Rightarrow> nat \<Rightarrow> mg_connection \<Rightarrow> ('w, http_message \<times> mg_connection) M" where
  "deliver_chunk H hm req_len nc = (let hm = hm\<lparr>body_len := length (recv_mbuf nc) - req_len\<rparr> in
     bindM (mg_call H (handler nc) (MG_EV_HTTP_CHUNK hm) (clear_flag MG_F_DELETE_CHUNK nc)) (\<lambda>c.
       if MG_F_DELETE_CHUNK \<notin> flags c then returnM (hm, c)
       else if length (recv_mbuf c) < req_len then faultM Bad_index
       else returnM (hm, c\<lparr>recv_mbuf := take req_len (recv_mbuf c)\<rparr>)))"

text \<open>A failed assertion aborts the process.\<close>

definition abort_status :: int where
  "abort_status = 134"

definition mg_handle_chunked :: "'w handlers \<Rightarrow> http_message \<Rightarrow> nat \<Rightarrow> mg_connection \<Rightarrow> ('w, http_message \<times> mg_connection) M" where
  "mg_handle_chunked H hm req_len nc =
     (let buf = drop req_len (recv_mbuf nc); blen = length buf; old = chunk_body_len nc in
      if blen < old then exitM abort_status
      else case chunk_loop (Suc blen) buf old old of None \<Rightarrow> faultM Bad_index
      | Some (buf, i, blen', zero_chunk_received) \<Rightarrow>
        if i \<le> blen' then returnM (hm, nc)
        else let hm = hm\<lparr>body_len := blen'\<rparr>;
          c = nc\<lparr>recv_mbuf := take req_len (recv_mbuf nc) @ take blen' buf @ drop i buf, chunk_body_len := blen'\<rparr> in
          bindM (mg_call H (handler c) (MG_EV_HTTP_CHUNK hm) (clear_flag MG_F_DELETE_CHUNK c)) (\<lambda>c.
          bindM (if MG_F_DELETE_CHUNK \<notin> flags c then returnM (hm, c)
                 else if length (recv_mbuf c) < req_len + blen' then faultM Bad_index
                 else returnM (hm\<lparr>body_len := 0\<rparr>,
                   c\<lparr>recv_mbuf := take req_len (recv_mbuf c) @ drop (req_len + blen') (recv_mbuf c), chunk_body_len := 0\<rparr>))
            (\<lambda>(hm, c). returnM (if zero_chunk_received
                then hm\<lparr>message_len := chunk_body_len c + (blen - i) + req_len\<rparr> else hm, c))))"

section \<open>The protocol handler\<close>

definition MG_MAX_HTTP_REQUEST_SIZE :: nat where
  "MG_MAX_HTTP_REQUEST_SIZE = 1024"

text \<open>A connection that is closed: what was received so far is delivered as a message.\<close>

definition message_event :: "mg_connection \<Rightarrow> http_message \<Rightarrow> mg_event" where
  "message_event nc hm = (if accepted nc then MG_EV_HTTP_REQUEST hm else MG_EV_HTTP_REPLY hm)"

definition http_close :: "'w handlers \<Rightarrow> mg_connection \<Rightarrow> ('w, mg_connection) M" where
  "http_close H nc = bindM (if recv_mbuf nc = [] then returnM nc
     else case mg_parse_http (recv_mbuf nc) (accepted nc) of Inl e \<Rightarrow> returnM nc
     | Inr (req_len, hm) \<Rightarrow>
       bindM (deliver_chunk H (hm\<lparr>message_len := length (recv_mbuf nc)\<rparr>) req_len nc) (\<lambda>(hm, c).
         mg_http_call_endpoint_handler H (message_event c hm) c)) (\<lambda>c. returnM (c\<lparr>rcvd := 0\<rparr>))"

text \<open>The message is complete, or its body is not.\<close>

definition http_message_step :: "'w handlers \<Rightarrow> http_message \<Rightarrow> nat \<Rightarrow> mg_connection \<Rightarrow> ('w, mg_connection) M" where
  "http_message_step H hm req_len nc =
     bindM (deliver_chunk H hm req_len nc) (\<lambda>(hm', c).
       if message_len hm > rcvd nc
       then returnM (if recv_mbuf_limit c > 0 \<and> length (recv_mbuf c) \<ge> recv_mbuf_limit c
              then set_flag MG_F_CLOSE_IMMEDIATELY c else c)
       else bindM (mg_http_call_endpoint_handler H (message_event c hm') c) (\<lambda>c.
         returnM ((remove_received (message_len hm) c)\<lparr>rcvd := 0\<rparr>)))"

text \<open>The protocol changes to websockets: on the client after the reply, on the server after the request.\<close>

definition switch_to_ws :: "nat \<Rightarrow> mg_connection \<Rightarrow> mg_connection" where
  "switch_to_ws req_len nc = set_flag MG_F_IS_WEBSOCKET ((remove_received req_len nc)\<lparr>ws_proto := True\<rparr>)"

definition ws_client_start :: "nat \<Rightarrow> 'w handlers \<Rightarrow> nat \<Rightarrow> nat \<Rightarrow> mg_connection \<Rightarrow> ('w, mg_connection) M" where
  "ws_client_start fuel H n req_len nc = (let c = switch_to_ws req_len nc in
     bindM (mg_call H (handler c) MG_EV_WEBSOCKET_HANDSHAKE_DONE c) (mg_ws_handler fuel H (MG_EV_RECV n)))"

definition ws_server_start ::
    "nat \<Rightarrow> 'w handlers \<Rightarrow> nat \<Rightarrow> nat \<Rightarrow> string \<Rightarrow> http_message \<Rightarrow> mg_connection \<Rightarrow> ('w, mg_connection) M" where
  "ws_server_start fuel H n req_len key hm nc = (let c = switch_to_ws req_len nc;
      c = (case mg_http_get_endpoint_handler (endpoints c) (uri hm) of None \<Rightarrow> c | Some h \<Rightarrow> c\<lparr>handler := h\<rparr>) in
     bindM (mg_call H (handler c) (MG_EV_WEBSOCKET_HANDSHAKE_REQUEST hm) c) (\<lambda>c.
       if MG_F_CLOSE_IMMEDIATELY \<in> flags c \<or> MG_F_SEND_AND_CLOSE \<in> flags c then returnM c
       else let c = (if send_mbuf c = [] then mg_ws_handshake key hm c else c) in
         bindM (mg_call H (handler c) MG_EV_WEBSOCKET_HANDSHAKE_DONE c) (mg_ws_handler fuel H (MG_EV_RECV n))))"

definition is_chunked :: "http_message \<Rightarrow> bool" where
  "is_chunked hm = (case mg_get_http_header hm ''Transfer-Encoding'' of None \<Rightarrow> False
     | Some s \<Rightarrow> mg_vcasecmp s ''chunked'' = 0)"

definition http_recv :: "nat \<Rightarrow> 'w handlers \<Rightarrow> nat \<Rightarrow> mg_connection \<Rightarrow> ('w, mg_connection) M" where
  "http_recv fuel H n nc = (let nc = nc\<lparr>rcvd := rcvd nc + n\<rparr> in
     case mg_parse_http (recv_mbuf nc) (accepted nc) of
       Inl e \<Rightarrow> returnM (if e < 0 \<or> length (recv_mbuf nc) \<ge> MG_MAX_HTTP_REQUEST_SIZE
           then set_flag MG_F_CLOSE_IMMEDIATELY nc else nc)
     | Inr (req_len, hm) \<Rightarrow>
       bindM (if is_chunked hm then mg_handle_chunked H hm req_len nc else returnM (hm, nc)) (\<lambda>(hm, c).
         if \<not> accepted c \<and> mg_get_http_header hm ''Sec-WebSocket-Accept'' \<noteq> None
         then ws_client_start fuel H n req_len c
         else case (if accepted c then mg_get_http_header hm ''Sec-WebSocket-Key'' else None) of
             Some key \<Rightarrow> ws_server_start fuel H n req_len key hm c
           | None \<Rightarrow> http_message_step H hm req_len c))"

definition mg_http_handler :: "nat \<Rightarrow> 'w handlers \<Rightarrow> mg_event \<Rightarrow> mg_connection \<Rightarrow> ('w, mg_connection) M" where
  "mg_http_handler fuel H ev nc =
     bindM (if ev = MG_EV_CLOSE then http_close H nc else returnM nc) (\<lambda>c.
     bindM (mg_call H (handler c) ev c) (\<lambda>c.
     case ev of MG_EV_RECV n \<Rightarrow> http_recv fuel H n c | _ \<Rightarrow> returnM c))"

section \<open>Sockets\<close>

text \<open>
  A round of \<open>select\<close> for an accepted TCP connection: whether the socket is readable and writable, what \<open>recv\<close>
  and \<open>send\<close> give (the latter for the number of bytes it is called with), and whether the connection was idle.
\<close>

datatype recv_result = Received string | Shut_down | Nothing_yet | Recv_error

record socket_event =
  can_read :: bool
  can_write :: bool
  recv_gives :: recv_result
  send_gives :: "nat \<Rightarrow> int"
  idle_time :: bool

definition MG_TCP_RECV_BUFFER_SIZE :: nat where
  "MG_TCP_RECV_BUFFER_SIZE = 1024"

definition proto_call :: "nat \<Rightarrow> 'w handlers \<Rightarrow> mg_event \<Rightarrow> mg_connection \<Rightarrow> ('w, mg_connection) M" where
  "proto_call fuel H ev nc = (if ws_proto nc then mg_ws_handler fuel H ev nc else mg_http_handler fuel H ev nc)"

definition mg_recv_common :: "nat \<Rightarrow> 'w handlers \<Rightarrow> string \<Rightarrow> mg_connection \<Rightarrow> ('w, mg_connection) M" where
  "mg_recv_common fuel H buf nc = (if MG_F_CLOSE_IMMEDIATELY \<in> flags nc then returnM nc
     else proto_call fuel H (MG_EV_RECV (length buf)) (nc\<lparr>recv_mbuf := recv_mbuf nc @ buf\<rparr>))"

definition mg_if_sent_cb :: "nat \<Rightarrow> 'w handlers \<Rightarrow> int \<Rightarrow> mg_connection \<Rightarrow> ('w, mg_connection) M" where
  "mg_if_sent_cb fuel H num_sent nc = proto_call fuel H (MG_EV_SEND num_sent)
     (if num_sent < 0 then set_flag MG_F_CLOSE_IMMEDIATELY nc
      else if nat num_sent \<le> length (send_mbuf nc) then nc\<lparr>send_mbuf := drop (nat num_sent) (send_mbuf nc)\<rparr> else nc)"

definition recv_avail_size :: "mg_connection \<Rightarrow> nat \<Rightarrow> nat" where
  "recv_avail_size nc m = (if recv_mbuf_limit nc < length (recv_mbuf nc) then 0
     else min m (recv_mbuf_limit nc - length (recv_mbuf nc)))"

text \<open>\<open>recv\<close> gives no more than the bytes it was asked for.\<close>

definition mg_handle_tcp_read :: "nat \<Rightarrow> 'w handlers \<Rightarrow> recv_result \<Rightarrow> mg_connection \<Rightarrow> ('w, mg_connection) M" where
  "mg_handle_tcp_read fuel H r nc = (case r of
      Received buf \<Rightarrow> let buf = take (recv_avail_size nc MG_TCP_RECV_BUFFER_SIZE) buf in
        if buf = [] then returnM (set_flag MG_F_SEND_AND_CLOSE nc) else mg_recv_common fuel H buf nc
    | Shut_down \<Rightarrow> returnM (set_flag MG_F_SEND_AND_CLOSE nc)
    | Nothing_yet \<Rightarrow> returnM nc
    | Recv_error \<Rightarrow> returnM (set_flag MG_F_CLOSE_IMMEDIATELY nc))"

definition mg_write_to_socket :: "nat \<Rightarrow> 'w handlers \<Rightarrow> (nat \<Rightarrow> int) \<Rightarrow> mg_connection \<Rightarrow> ('w, mg_connection) M" where
  "mg_write_to_socket fuel H send nc = (let n = send (length (send_mbuf nc)) in
     mg_if_sent_cb fuel H n (nc\<lparr>sock_out := sock_out nc @ take (nat n) (send_mbuf nc)\<rparr>))"

definition mg_mgr_handle_conn :: "nat \<Rightarrow> 'w handlers \<Rightarrow> socket_event \<Rightarrow> mg_connection \<Rightarrow> ('w, mg_connection) M" where
  "mg_mgr_handle_conn fuel H e nc =
     bindM (if can_read e then mg_handle_tcp_read fuel H (recv_gives e) nc else returnM nc) (\<lambda>c.
       if MG_F_CLOSE_IMMEDIATELY \<in> flags c then returnM c
       else bindM (if can_write e \<and> send_mbuf c \<noteq> [] then mg_write_to_socket fuel H (send_gives e) c else returnM c)
         (proto_call fuel H (MG_EV_POLL (idle_time e))))"

text \<open>
  \<open>select\<close> looks at the sockets that have room for data or data to be sent; at the end of the round the
  connections that are to be closed are closed, after their last event.
\<close>

definition wants_read :: "mg_connection \<Rightarrow> bool" where
  "wants_read nc \<longleftrightarrow> MG_F_WANT_WRITE \<notin> flags nc \<and> length (recv_mbuf nc) < recv_mbuf_limit nc"

definition to_be_closed :: "mg_connection \<Rightarrow> bool" where
  "to_be_closed nc \<longleftrightarrow> MG_F_CLOSE_IMMEDIATELY \<in> flags nc \<or> (send_mbuf nc = [] \<and> MG_F_SEND_AND_CLOSE \<in> flags nc)"

definition mg_close_conn :: "nat \<Rightarrow> 'w handlers \<Rightarrow> mg_connection \<Rightarrow> ('w, unit) M" where
  "mg_close_conn fuel H nc = bindM (proto_call fuel H MG_EV_CLOSE nc) (\<lambda>c. returnM ())"

primrec handle_conns :: "nat \<Rightarrow> 'w handlers \<Rightarrow> (socket_event \<times> mg_connection) list \<Rightarrow> ('w, mg_connection list) M" where
  "handle_conns fuel H [] = returnM []"
| "handle_conns fuel H (x # xs) = (case x of (e, nc) \<Rightarrow>
     bindM (mg_mgr_handle_conn fuel H (e\<lparr>can_read := can_read e \<and> wants_read nc, can_write := can_write e \<and> send_mbuf nc \<noteq> []\<rparr>) nc)
       (\<lambda>c. bindM (handle_conns fuel H xs) (\<lambda>cs. returnM (c # cs))))"

primrec close_conns :: "nat \<Rightarrow> 'w handlers \<Rightarrow> mg_connection list \<Rightarrow> ('w, mg_connection list) M" where
  "close_conns fuel H [] = returnM []"
| "close_conns fuel H (c # cs) = (if to_be_closed c
     then bindM (mg_close_conn fuel H c) (\<lambda>_. close_conns fuel H cs)
     else bindM (close_conns fuel H cs) (\<lambda>cs. returnM (c # cs)))"

definition mg_socket_if_poll :: "nat \<Rightarrow> 'w handlers \<Rightarrow> (socket_event \<times> mg_connection) list \<Rightarrow> ('w, mg_connection list) M" where
  "mg_socket_if_poll fuel H conns = bindM (handle_conns fuel H conns) (close_conns fuel H)"

text \<open>The loop of a server that holds one connection, over the rounds of polling until it is closed.\<close>

primrec poll_loop :: "nat \<Rightarrow> 'w handlers \<Rightarrow> socket_event list \<Rightarrow> mg_connection list \<Rightarrow> ('w, mg_connection list) M" where
  "poll_loop fuel H [] conns = returnM conns"
| "poll_loop fuel H (e # es) conns = bindM (mg_socket_if_poll fuel H (map (\<lambda>nc. (e, nc)) conns)) (poll_loop fuel H es)"

text \<open>A connection that a listener for HTTP has accepted.\<close>

definition new_connection :: "nat \<Rightarrow> (string \<times> nat) list \<Rightarrow> (nat \<Rightarrow> string) \<Rightarrow> mg_connection" where
  "new_connection h eps rnd = \<lparr>recv_mbuf = [], recv_mbuf_limit = 2 ^ 64 - 1, send_mbuf = [], flags = {}, accepted = True,
     endpoints = eps, handler = h, endpoint_handler = None, ws_proto = False, chunk_body_len = 0, rcvd = 0,
     reass_len = 0, masks = rnd, sock_out = []\<rparr>"

end
