(* ===== verification/BL_Web_Stream.thy ===== *)
theory BL_Web_Stream
  imports BL_Web_Server
begin

text \<open>
  An HTTP message is a stream of bytes that arrives in pieces of any size: what the connection's handler gets to
  see does not depend on where it was cut.
\<close>

section \<open>The end of the head\<close>

lemma request_len_single: "http_get_request_len [c] i \<le> 0"
  by auto

declare http_get_request_len.simps [simp del]

lemma request_len_nil: "http_get_request_len [] i = 0"
  by (simp add: http_get_request_len.simps)

text \<open>
  A scan that ends at the end of the text has met one of the two ends of a head, or goes on behind the first
  character.
\<close>

lemma request_len_cases:
  assumes "http_get_request_len (c # s) i = int i + int (length (c # s))"
  shows "c = LF \<and> (s = [LF] \<or> s = [CR, LF]) \<or>
    (c_isprint c \<or> c = CR \<or> c = LF \<or> byte c \<ge> 128) \<and> length s \<ge> 2 \<and>
    \<not> (c = LF \<and> (s ! 0 = LF \<or> s ! 0 = CR \<and> s ! 1 = LF)) \<and> http_get_request_len s (i + 1) = int (i + 1) + int (length s)"
proof -
  have two: "length s \<ge> 2" if "http_get_request_len s (i + 1) = int (i + 1) + int (length s)"
    using that request_len_single [of "hd s" "i + 1"] request_len_nil [of "i + 1"] by (cases s; cases "tl s") auto
  have len2: "length s = 2 \<Longrightarrow> \<exists>x y. s = [x, y]" "length s = 1 \<Longrightarrow> \<exists>x. s = [x]"
    by (auto simp: length_Suc_conv numeral_2_eq_2)
  show ?thesis
    using assms two len2 unfolding http_get_request_len.simps(2) [of c s] by (force split: if_splits)
qed

text \<open>A complete head is found whatever follows it, and none of its prefixes is complete.\<close>

lemma request_len_append:
  "http_get_request_len h i = int i + int (length h) \<Longrightarrow> h \<noteq> [] \<Longrightarrow> http_get_request_len (h @ b) i = int i + int (length h)"
proof (induction h arbitrary: i)
  case (Cons c s)
  from request_len_cases [OF Cons.prems(1)] show ?case
  proof
    assume "c = LF \<and> (s = [LF] \<or> s = [CR, LF])"
    then show ?thesis by (auto simp: http_get_request_len.simps(2))
  next
    assume A: "(c_isprint c \<or> c = CR \<or> c = LF \<or> byte c \<ge> 128) \<and> length s \<ge> 2 \<and>
      \<not> (c = LF \<and> (s ! 0 = LF \<or> s ! 0 = CR \<and> s ! 1 = LF)) \<and> http_get_request_len s (i + 1) = int (i + 1) + int (length s)"
    then have "s \<noteq> []" "(s @ b) ! 0 = s ! 0" "(s @ b) ! 1 = s ! 1" by (auto simp: nth_append)
    then show ?thesis using A Cons.IH [of "i + 1"] by (simp add: http_get_request_len.simps(2)) auto
  qed
qed simp

lemma request_len_prefix:
  "http_get_request_len (p @ q) i = int i + int (length (p @ q)) \<Longrightarrow> q \<noteq> [] \<Longrightarrow> http_get_request_len p i = 0"
proof (induction p arbitrary: i)
  case (Cons c s)
  have "http_get_request_len (c # (s @ q)) i = int i + int (length (c # (s @ q)))" using Cons.prems by simp
  from request_len_cases [OF this] show ?case
  proof
    assume "c = LF \<and> (s @ q = [LF] \<or> s @ q = [CR, LF])"
    then have "c = LF \<and> (s = [] \<or> s = [CR])" using \<open>q \<noteq> []\<close> by (auto simp: append_eq_Cons_conv)
    then show ?thesis by (auto simp: http_get_request_len.simps)
  next
    assume A: "(c_isprint c \<or> c = CR \<or> c = LF \<or> byte c \<ge> 128) \<and> length (s @ q) \<ge> 2 \<and>
      \<not> (c = LF \<and> ((s @ q) ! 0 = LF \<or> (s @ q) ! 0 = CR \<and> (s @ q) ! 1 = LF)) \<and>
      http_get_request_len (s @ q) (i + 1) = int (i + 1) + int (length (s @ q))"
    have "s = [] \<or> (s @ q) ! 0 = s ! 0" "length s \<le> 1 \<or> (s @ q) ! 1 = s ! 1" by (auto simp: nth_append)
    moreover have "http_get_request_len s (i + 1) = 0" using A Cons.IH [of "i + 1"] Cons.prems(2) by simp
    ultimately show ?thesis using A by (auto simp: http_get_request_len.simps(2))
  qed
qed (simp add: request_len_nil)

section \<open>Parsing a part of a message\<close>

lemma parse_len:
  assumes "mg_parse_http h is_req = Inr (length h, hm)"
  shows "http_get_request_len h 0 = int (length h)" "h \<noteq> []"
proof -
  define n where "n = mg_http_get_request_len h"
  from assms have "\<not> n \<le> 0 \<and> nat n = length h"
    unfolding mg_parse_http_def n_def [symmetric] Let_def by (auto split: if_splits option.splits)
  then show "http_get_request_len h 0 = int (length h)" "h \<noteq> []" by (auto simp: n_def mg_http_get_request_len_def)
qed

lemma parse_append:
  assumes "mg_parse_http h is_req = Inr (length h, hm)"
  shows "mg_parse_http (h @ b) is_req = Inr (length h, hm)"
proof -
  note len = parse_len [OF assms]
  have "mg_http_get_request_len (h @ b) = int (length h)" "mg_http_get_request_len h = int (length h)"
    using request_len_append [of h 0 b] len by (auto simp: mg_http_get_request_len_def)
  moreover have "take (nat (int (length h))) (h @ b) = take (nat (int (length h))) h" by simp
  ultimately have "mg_parse_http (h @ b) is_req = mg_parse_http h is_req"
    unfolding mg_parse_http_def by (simp only: Let_def)
  then show ?thesis using assms by simp
qed

lemma parse_prefix:
  assumes "mg_parse_http (p @ q) is_req = Inr (length (p @ q), hm)" "q \<noteq> []"
  shows "mg_parse_http p is_req = Inl 0"
  using request_len_prefix [of p q 0] parse_len [OF assms(1)] assms(2)
  by (simp add: mg_parse_http_def mg_http_get_request_len_def)

section \<open>One event\<close>

text \<open>A handler that answers requests only: it ignores all other events.\<close>

definition answers_requests :: "'w handlers \<Rightarrow> nat \<Rightarrow> bool" where
  "answers_requests H h \<longleftrightarrow> (\<forall>ev nc. (\<forall>hm. ev \<noteq> MG_EV_HTTP_REQUEST hm) \<longrightarrow> H h ev nc = returnM nc)"

text \<open>A connection of a server on which \<open>q\<close> was received since the end of the last message.\<close>

definition receiving :: "mg_connection \<Rightarrow> string \<Rightarrow> mg_connection" where
  "receiving nc q = nc\<lparr>recv_mbuf := q, rcvd := length q\<rparr>"

definition plain_server :: "mg_connection \<Rightarrow> bool" where
  "plain_server nc \<longleftrightarrow> accepted nc \<and> \<not> ws_proto nc \<and> endpoints nc = [] \<and> endpoint_handler nc = None \<and>
     MG_F_CLOSE_IMMEDIATELY \<notin> flags nc \<and> MG_F_DELETE_CHUNK \<notin> flags nc"

definition plain_message :: "http_message \<Rightarrow> bool" where
  "plain_message hm \<longleftrightarrow> \<not> is_chunked hm \<and> mg_get_http_header hm ''Sec-WebSocket-Key'' = None"

lemma restored_flags: "nc\<lparr>flags := {f \<in> flags nc. \<not> callback_modifiable f} \<union> {f \<in> flags nc. callback_modifiable f}\<rparr> = nc"
proof -
  have "{f \<in> flags nc. \<not> callback_modifiable f} \<union> {f \<in> flags nc. callback_modifiable f} = flags nc" by auto
  then show ?thesis by simp
qed

lemma call_ignored:
  "answers_requests H (handler nc) \<Longrightarrow> (\<And>hm. ev \<noteq> MG_EV_HTTP_REQUEST hm) \<Longrightarrow> mg_call H (handler nc) ev nc = returnM nc"
  by (simp add: mg_call_def answers_requests_def restored_flags returnM_def bindM_def)

lemma clear_absent: "f \<notin> flags nc \<Longrightarrow> clear_flag f nc = nc"
  by (simp add: clear_flag_def)

lemma receiving_simps [simp]:
  "recv_mbuf (receiving nc q) = q" "rcvd (receiving nc q) = length q" "handler (receiving nc q) = handler nc"
  "flags (receiving nc q) = flags nc" "recv_mbuf_limit (receiving nc q) = recv_mbuf_limit nc"
  "accepted (receiving nc q) = accepted nc" "plain_server (receiving nc q) = plain_server nc"
  "receiving (receiving nc p) q = receiving nc q" "ws_proto (receiving nc q) = ws_proto nc"
  "endpoints (receiving nc q) = endpoints nc" "endpoint_handler (receiving nc q) = endpoint_handler nc"
  by (simp_all add: receiving_def plain_server_def)

lemma deliver_ignored:
  "answers_requests H (handler nc) \<Longrightarrow> MG_F_DELETE_CHUNK \<notin> flags nc \<Longrightarrow>
   deliver_chunk H hm n nc = returnM (hm\<lparr>body_len := length (recv_mbuf nc) - n\<rparr>, nc)"
  by (simp add: deliver_chunk_def clear_absent call_ignored returnM_def bindM_def)

text \<open>What \<open>http_recv\<close> does on a plain server, after the handler has ignored the event.\<close>

lemma recv_common:
  assumes "plain_server nc" "answers_requests H (handler nc)"
  shows "mg_recv_common fuel H p (receiving nc q) = http_recv fuel H (length p) (nc\<lparr>rcvd := length q, recv_mbuf := q @ p\<rparr>)"
proof -
  have "MG_F_CLOSE_IMMEDIATELY \<notin> flags (receiving nc q)" "\<not> ws_proto nc" using assms(1) by (auto simp: plain_server_def)
  then show ?thesis
    using assms(2) call_ignored [of H "nc\<lparr>rcvd := length q, recv_mbuf := q @ p\<rparr>" "MG_EV_RECV (length p)"]
    by (simp add: mg_recv_common_def proto_call_def mg_http_handler_def receiving_def returnM_def bindM_def)
qed

section \<open>A message in pieces\<close>

text \<open>The head \<open>h\<close> and the body \<open>b\<close> of a message with the parsed fields \<open>hm\<close>.\<close>

definition whole_message :: "string \<Rightarrow> string \<Rightarrow> http_message \<Rightarrow> bool" where
  "whole_message h b hm \<longleftrightarrow> mg_parse_http h True = Inr (length h, hm) \<and> plain_message hm \<and>
     message_len hm = length h + length b \<and> length h \<le> MG_MAX_HTTP_REQUEST_SIZE"

text \<open>What the end of a message does: the handler gets the request, and the message is removed.\<close>

definition answer :: "'w handlers \<Rightarrow> http_message \<Rightarrow> string \<Rightarrow> string \<Rightarrow> mg_connection \<Rightarrow> ('w, mg_connection) M" where
  "answer H hm h b nc = bindM (mg_call H (handler nc) (MG_EV_HTTP_REQUEST (hm\<lparr>body_len := length b\<rparr>)) (receiving nc (h @ b)))
     (\<lambda>c. returnM ((remove_received (length h + length b) c)\<lparr>rcvd := 0\<rparr>))"

lemma recv_in_head:
  assumes "plain_server nc" "whole_message (q @ p @ r) b hm" "r \<noteq> []"
  shows "http_recv fuel H (length p) (nc\<lparr>rcvd := length q, recv_mbuf := q @ p\<rparr>) = returnM (receiving nc (q @ p))"
proof -
  have "mg_parse_http (q @ p) True = Inl 0"
    using parse_prefix [of "q @ p" r True hm] assms(2,3) by (simp add: whole_message_def)
  moreover have "length (q @ p) < MG_MAX_HTTP_REQUEST_SIZE"
    using assms(2,3) by (cases r) (auto simp: whole_message_def)
  ultimately show ?thesis using assms(1) by (simp add: http_recv_def plain_server_def receiving_def)
qed

lemma recv_with_head:
  assumes "plain_server nc" "whole_message h b hm" "q @ p = h @ b'"
  shows "http_recv fuel H (length p) (nc\<lparr>rcvd := length q, recv_mbuf := q @ p\<rparr>)
    = http_message_step H hm (length h) (receiving nc (h @ b'))"
proof -
  have len: "length q + length p = length (h @ b')" using assms(3) by (metis length_append)
  have parse: "mg_parse_http (h @ b') True = Inr (length h, hm)" "plain_message hm"
    using assms(2) parse_append by (auto simp: whole_message_def)
  show ?thesis
    using assms(1) parse unfolding assms(3)
    by (simp add: http_recv_def plain_server_def receiving_def plain_message_def len [simplified])
qed

lemma step_in_body:
  assumes "plain_server nc" "answers_requests H (handler nc)" "whole_message h b hm" "length b' < length b"
    "length h + length b < recv_mbuf_limit nc"
  shows "http_message_step H hm (length h) (receiving nc (h @ b')) = returnM (receiving nc (h @ b'))"
  using assms deliver_ignored [of H "receiving nc (h @ b')" hm "length h"]
  by (simp add: http_message_step_def whole_message_def plain_server_def returnM_def bindM_def)

lemma step_complete:
  assumes "plain_server nc" "answers_requests H (handler nc)" "whole_message h b hm"
  shows "http_message_step H hm (length h) (receiving nc (h @ b)) = answer H hm h b nc"
  using assms deliver_ignored [of H "receiving nc (h @ b)" hm "length h"]
  by (simp add: http_message_step_def whole_message_def plain_server_def answer_def message_event_def
      mg_http_call_endpoint_handler_def mg_http_get_endpoint_handler_def)

primrec receive_all :: "nat \<Rightarrow> 'w handlers \<Rightarrow> string list \<Rightarrow> mg_connection \<Rightarrow> ('w, mg_connection) M" where
  "receive_all fuel H [] nc = returnM nc"
| "receive_all fuel H (p # ps) nc = bindM (mg_recv_common fuel H p nc) (receive_all fuel H ps)"

lemma receive_all_Nil: "receive_all fuel H [] = returnM"
  by (rule ext) simp

text \<open>A piece that does not complete the message is kept; the piece that completes it has it answered.\<close>

lemma receive_piece:
  assumes "plain_server nc" "answers_requests H (handler nc)" "whole_message h b hm" "r \<noteq> []" "q @ p @ r = h @ b"
    "length h + length b < recv_mbuf_limit nc"
  shows "mg_recv_common fuel H p (receiving nc q) = returnM (receiving nc (q @ p))"
proof (cases "length (q @ p) < length h")
  case True
  then have "\<exists>r'. r' \<noteq> [] \<and> h = q @ p @ r'"
    using assms(5) by (auto simp: append_eq_append_conv2)
  then show ?thesis using assms(1,2,3) recv_in_head by (auto simp: recv_common)
next
  case False
  define b' where "b' = drop (length h) (q @ p)"
  have "take (length h) (q @ p) = h"
    using False arg_cong [OF assms(5), of "take (length h)"] by simp
  then have eq: "q @ p = h @ b'" unfolding b'_def by (metis append_take_drop_id)
  moreover from this have "b = b' @ r" using assms(5) by (metis append_assoc same_append_eq)
  ultimately show ?thesis
    using assms recv_with_head [OF assms(1,3) eq, of fuel H] step_in_body [OF assms(1,2,3), of b'] by (simp add: recv_common)
qed

lemma receive_last:
  assumes "plain_server nc" "answers_requests H (handler nc)" "whole_message h b hm" "q @ p = h @ b"
  shows "mg_recv_common fuel H p (receiving nc q) = answer H hm h b nc"
  using assms recv_with_head [OF assms(1,3,4), of fuel H] step_complete [OF assms(1-3)] by (simp add: recv_common)

lemma receive_pieces:
  assumes "plain_server nc" "answers_requests H (handler nc)" "whole_message h b hm"
    "length h + length b < recv_mbuf_limit nc" "\<forall>p \<in> set ps. p \<noteq> []" "ps \<noteq> []" "q @ concat ps = h @ b"
  shows "receive_all fuel H ps (receiving nc q) = answer H hm h b nc"
  using assms(5-7)
proof (induction ps arbitrary: q)
  case (Cons p ps)
  show ?case
  proof (cases ps)
    case Nil
    then show ?thesis using Cons.prems receive_last [OF assms(1-3), of q p fuel] by (simp add: receive_all_Nil)
  next
    case (Cons p' ps')
    then have "concat ps \<noteq> []" using Cons.prems(1) by auto
    then have "mg_recv_common fuel H p (receiving nc q) = returnM (receiving nc (q @ p))"
      using Cons.prems(3) assms(4) by (intro receive_piece [OF assms(1-3), of "concat ps"]) auto
    then show ?thesis using Cons.IH [of "q @ p"] Cons.prems Cons by simp
  qed
qed simp

lemma request_in_pieces:
  assumes "plain_server nc" "recv_mbuf nc = []" "rcvd nc = 0" "answers_requests H (handler nc)"
    "whole_message h b hm" "length h + length b < recv_mbuf_limit nc"
    "\<forall>p \<in> set ps. p \<noteq> []" "concat ps = h @ b"
  shows "receive_all fuel H ps nc = answer H hm h b nc"
proof -
  have "h \<noteq> []" using assms(5) parse_len(2) by (auto simp: whole_message_def)
  moreover have "receiving nc [] = nc" using assms(2,3) by (simp add: receiving_def)
  ultimately show ?thesis
    using receive_pieces [OF assms(1,4,5,6,7), of "[]" fuel] assms(8) by (cases "ps = []") auto
qed

section \<open>Sessions\<close>

text \<open>
  A handler that computes a reply from the message and the received bytes, and sends it. The connection is then
  ready for the next message.
\<close>

definition replies_with :: "'w handlers \<Rightarrow> nat \<Rightarrow> (http_message \<Rightarrow> string \<Rightarrow> ('w, string) M) \<Rightarrow> bool" where
  "replies_with H h f \<longleftrightarrow> answers_requests H h \<and>
     (\<forall>hm nc. H h (MG_EV_HTTP_REQUEST hm) nc = bindM (f hm (recv_mbuf nc)) (\<lambda>r. returnM (mg_send r nc)))"

text \<open>The messages of a session: the head, the body, the fields, and the pieces in which the bytes arrive.\<close>

type_synonym sent_message = "string \<times> string \<times> http_message \<times> string list"

definition well_sent :: "mg_connection \<Rightarrow> sent_message \<Rightarrow> bool" where
  "well_sent nc m \<longleftrightarrow> (case m of (h, b, hm, ps) \<Rightarrow> whole_message h b hm \<and> length h + length b < recv_mbuf_limit nc \<and>
     [] \<notin> set ps \<and> concat ps = h @ b)"

definition all_pieces :: "sent_message list \<Rightarrow> string list" where
  "all_pieces ms = concat (map (\<lambda>(h, b, hm, ps). ps) ms)"

primrec all_replies :: "(http_message \<Rightarrow> string \<Rightarrow> ('w, string) M) \<Rightarrow> sent_message list \<Rightarrow> ('w, string) M" where
  "all_replies f [] = returnM []"
| "all_replies f (m # ms) = (case m of (h, b, hm, ps) \<Rightarrow> bindM (f (hm\<lparr>body_len := length b\<rparr>) (h @ b)) (\<lambda>r.
     bindM (all_replies f ms) (\<lambda>rs. returnM (r @ rs))))"

definition ready :: "mg_connection \<Rightarrow> bool" where
  "ready nc \<longleftrightarrow> plain_server nc \<and> recv_mbuf nc = [] \<and> rcvd nc = 0"

lemma ready_send: "ready nc \<Longrightarrow> ready (mg_send r nc)"
  by (simp add: ready_def plain_server_def mg_send_def)

lemma call_reply:
  "replies_with H (handler nc) f \<Longrightarrow> mg_call H (handler nc) (MG_EV_HTTP_REQUEST hm) nc
    = bindM (f hm (recv_mbuf nc)) (\<lambda>r. returnM (mg_send r nc))"
proof -
  have "(mg_send r nc)\<lparr>flags := {f \<in> flags nc. \<not> callback_modifiable f} \<union> {f \<in> flags (mg_send r nc). callback_modifiable f}\<rparr>
      = mg_send r nc" for r
    using restored_flags [of "mg_send r nc"] by (simp add: mg_send_def)
  moreover have "handler (mg_send r nc) = handler nc" for r by (simp add: mg_send_def)
  moreover assume "replies_with H (handler nc) f"
  ultimately show ?thesis by (simp add: mg_call_def replies_with_def bindM_assoc del: run_basic(1))
qed

lemma answer_reply:
  assumes "replies_with H (handler nc) f" "ready nc"
  shows "answer H hm h b nc = bindM (f (hm\<lparr>body_len := length b\<rparr>) (h @ b)) (\<lambda>r. returnM (mg_send r nc))"
proof -
  have "(remove_received (length h + length b) (mg_send r (receiving nc (h @ b))))\<lparr>rcvd := 0\<rparr> = mg_send r nc" for r
    using assms(2) by (simp add: remove_received_def mg_send_def receiving_def ready_def)
  then show ?thesis using call_reply [of H "receiving nc (h @ b)" f] assms(1)
    by (simp add: answer_def bindM_assoc del: run_basic(1))
qed

lemma receive_all_append:
  "receive_all fuel H (ps @ qs) = (\<lambda>nc. bindM (receive_all fuel H ps nc) (receive_all fuel H qs))"
proof (induction ps)
  case (Cons p ps)
  then show ?case by (intro ext) (simp add: bindM_assoc)
qed simp

lemma session:
  assumes "replies_with H (handler nc) f" "ready nc" "\<forall>m \<in> set ms. well_sent nc m"
  shows "receive_all fuel H (all_pieces ms) nc = bindM (all_replies f ms) (\<lambda>rs. returnM (mg_send rs nc))"
  using assms
proof (induction ms arbitrary: nc)
  case Nil
  then show ?case by (simp add: all_pieces_def mg_send_def)
next
  case (Cons m ms)
  obtain h b hm ps where m: "m = (h, b, hm, ps)" by (cases m)
  have "receive_all fuel H ps nc = answer H hm h b nc"
    using Cons.prems by (intro request_in_pieces) (auto simp: m well_sent_def ready_def replies_with_def)
  then have "receive_all fuel H ps nc = bindM (f (hm\<lparr>body_len := length b\<rparr>) (h @ b)) (\<lambda>r. returnM (mg_send r nc))"
    using answer_reply Cons.prems by simp
  moreover have "receive_all fuel H (all_pieces ms) (mg_send r nc)
      = bindM (all_replies f ms) (\<lambda>rs. returnM (mg_send rs (mg_send r nc)))" for r
    using Cons.prems ready_send [of nc r] by (intro Cons.IH) (auto simp: mg_send_def well_sent_def)
  ultimately show ?case
    by (simp add: m all_pieces_def receive_all_append bindM_assoc mg_send_def del: run_basic(1))
qed

text \<open>The contract of a program that uses the web server: it ignores every event but requests, and replies to these.\<close>

locale http_service =
  fixes H :: "'w handlers" and h :: nat and reply :: "http_message \<Rightarrow> string \<Rightarrow> ('w, string) M"
  assumes ignores: "(\<And>hm. ev \<noteq> MG_EV_HTTP_REQUEST hm) \<Longrightarrow> H h ev nc = returnM nc"
    and replies: "H h (MG_EV_HTTP_REQUEST hm) nc = bindM (reply hm (recv_mbuf nc)) (\<lambda>r. returnM (mg_send r nc))"
begin

lemma service: "replies_with H h reply"
  using ignores replies by (simp add: replies_with_def answers_requests_def)

lemma serves_session:
  "handler nc = h \<Longrightarrow> ready nc \<Longrightarrow> \<forall>m \<in> set ms. well_sent nc m \<Longrightarrow>
   receive_all fuel H (all_pieces ms) nc = bindM (all_replies reply ms) (\<lambda>rs. returnM (mg_send rs nc))"
  using session [of H nc reply ms fuel] service by simp

end

end
