(* ===== verification/BL_Web_Parse.thy ===== *)
theory BL_Web_Parse
  imports BL_Web_Http
begin

text \<open>
  The parser of HTTP requests inverts the formatting of a request: a request line, header lines, the length of the
  body and an empty line.
\<close>

section \<open>Formatted requests\<close>

text \<open>Characters of a head: printable ones, and those of other character sets.\<close>

definition head_char :: "char \<Rightarrow> bool" where
  "head_char c \<longleftrightarrow> c_isprint c \<or> 128 \<le> byte c"

definition word_of :: "string \<Rightarrow> string \<Rightarrow> bool" where
  "word_of delims s \<longleftrightarrow> s \<noteq> [] \<and> (\<forall>c \<in> set s. head_char c \<and> c \<notin> set delims)"

definition header_line :: "string \<times> string \<Rightarrow> string" where
  "header_line h = fst h @ '': '' @ snd h @ CRLF"

definition length_header :: "nat \<Rightarrow> string \<times> string" where
  "length_header n = (''Content-Length'', mpz_get_str (int n))"

definition format_head :: "string \<Rightarrow> string \<Rightarrow> string option \<Rightarrow> string \<Rightarrow> (string \<times> string) list \<Rightarrow> nat \<Rightarrow> string" where
  "format_head m u q p hs n = m @ '' '' @ u @ (case q of None \<Rightarrow> [] | Some q \<Rightarrow> ''?'' @ q) @ '' '' @ p @ CRLF
     @ concat (map header_line (hs @ [length_header n])) @ CRLF"

text \<open>
  A header whose value is not trimmed by the parser, and whose name does not begin with the one that gives the
  length.
\<close>

definition well_formed_header :: "string \<times> string \<Rightarrow> bool" where
  "well_formed_header h \<longleftrightarrow> word_of '': '' (fst h) \<and> word_of [] (snd h) \<and>
     hd (snd h) \<notin> {CHR '' '', CHR '':''} \<and> last (snd h) \<noteq> CHR '' ''"

definition names_length :: "string \<Rightarrow> bool" where
  "names_length k \<longleftrightarrow> map c_tolower (take 14 k) = map c_tolower ''Content-Length''"

section \<open>Characters and numbers\<close>

lemma byte_ge: "48 \<le> n \<Longrightarrow> n < 58 \<Longrightarrow> byte (char_of (n :: nat)) = n"
  by (simp add: of_char_of)

lemma nat_digits_isdigit: "c \<in> set (nat_digits n) \<Longrightarrow> c_isdigit c"
proof (induction n rule: nat_digits.induct)
  case (1 n)
  then show ?case
    by (subst (asm) (2) nat_digits.simps) (auto simp: digit_char_def c_isdigit_def byte_ge split: if_splits)
qed

lemma nat_digits_nonempty: "nat_digits n \<noteq> []"
  by (subst nat_digits.simps) simp

lemma digits_val_nat_digits: "digits_val (nat_digits n) = int n"
proof (induction n rule: nat_digits.induct)
  case (1 n)
  moreover have "10 * int (n div 10) + int (n mod 10) = int n" by (simp add: zdiv_int zmod_int)
  ultimately show ?case
    by (subst nat_digits.simps) (auto simp: digits_val_def digit_char_def byte_ge)
qed

lemma not_digit: "\<not> c_isdigit CR" "\<not> c_isspace (CHR ''-'')"
  by (simp_all add: c_isdigit_def c_isspace_def)

lemma digit_no_space: "c_isdigit c \<Longrightarrow> \<not> c_isspace c" "c_isdigit c \<Longrightarrow> head_char c"
  "c_isdigit c \<Longrightarrow> c \<noteq> CHR ''-'' \<and> c \<noteq> CHR ''+'' \<and> c \<noteq> CHR '' '' \<and> c \<noteq> CHR '':''"
  by (auto simp: c_isdigit_def c_isspace_def head_char_def c_isprint_def)

lemma strtoll_number:
  assumes "n < 2 ^ 63"
  shows "strtoll (mpz_get_str (int n) @ CR # r) = int n"
proof -
  obtain d ds where ds: "nat_digits n = d # ds" using nat_digits_nonempty [of n] by (cases "nat_digits n") auto
  then have digits: "\<forall>c \<in> set (d # ds). c_isdigit c" using nat_digits_isdigit [of _ n] by auto
  then have "takeWhile c_isdigit ((d # ds) @ CR # r) = d # ds"
    by (subst takeWhile_append2) (auto simp: not_digit)
  moreover have "\<not> c_isspace d" "d \<noteq> CHR ''-''" "d \<noteq> CHR ''+''" using digits digit_no_space by auto
  moreover have "digits_val (d # ds) = int n" using digits_val_nat_digits [of n] ds by simp
  ultimately show ?thesis using assms ds by (simp add: strtoll_def mpz_get_str_def)
qed

lemma number_header: "well_formed_header (length_header n)"
proof -
  have "\<forall>c \<in> set (nat_digits n). head_char c \<and> c \<noteq> CHR '' '' \<and> c \<noteq> CHR '':''"
    using nat_digits_isdigit digit_no_space by blast
  then show ?thesis using nat_digits_nonempty [of n] hd_in_set [of "nat_digits n"] last_in_set [of "nat_digits n"]
    by (auto simp: well_formed_header_def word_of_def length_header_def mpz_get_str_def head_char_def c_isprint_def)
qed

lemma head_char_simps: "\<not> head_char CR" "\<not> head_char LF" "\<not> head_char NUL" "head_char (CHR '' '')" "head_char (CHR '':'')"
  "head_char (CHR ''?'')"
  by (simp_all add: head_char_def c_isprint_def)

lemma ncasecmp_prefix:
  "mg_ncasecmp s t n = 0 \<Longrightarrow> NUL \<notin> set t \<Longrightarrow> length t = n \<Longrightarrow> length s \<ge> n \<and> map c_tolower (take n s) = map c_tolower t"
proof (induction n arbitrary: s t)
  case (Suc n)
  then obtain b t' where t: "t = b # t'" by (cases t) auto
  with Suc.prems have "c_tolower (hd0 s) = c_tolower b" "b \<noteq> NUL" by (auto simp: Let_def split: if_splits)
  then obtain a s' where s: "s = a # s'" using c_tolower_0 [of b] c_tolower_0 [of NUL] by (cases s) auto
  have "c_tolower a \<noteq> 0" using s \<open>c_tolower (hd0 s) = c_tolower b\<close> \<open>b \<noteq> NUL\<close> c_tolower_0 [of b] by simp
  then show ?case using Suc s t by (auto simp: Let_def c_tolower_0 split: if_splits)
qed simp

lemma ncasecmp_same: "length t = n \<Longrightarrow> mg_ncasecmp (t @ x) t n = 0"
proof (induction t arbitrary: n)
  case (Cons c t)
  then show ?case by (cases n) auto
qed simp

lemma other_name:
  assumes "\<not> names_length k"
  shows "mg_ncasecmp (k @ '': '' @ x) ''Content-Length'' 14 \<noteq> 0"
proof
  assume "mg_ncasecmp (k @ '': '' @ x) ''Content-Length'' 14 = 0"
  from ncasecmp_prefix [OF this] have eq: "map c_tolower (take 14 (k @ '': '' @ x)) = map c_tolower ''Content-Length''" by simp
  show False
  proof (cases "length k < 14")
    case True
    then have "58 \<in> set (map c_tolower (take 14 (k @ '': '' @ x)))" by (auto simp: c_tolower_def take_Cons')
    then show False unfolding eq by (auto simp: c_tolower_def)
  next
    case False
    then show False using eq assms by (simp add: names_length_def)
  qed
qed

section \<open>The end of the head\<close>

lemma scan_chars:
  "\<forall>c \<in> set x. head_char c \<Longrightarrow> http_get_request_len (x @ s) i = http_get_request_len s (i + length x)"
proof (induction x arbitrary: i)
  case (Cons c x)
  then have "head_char c" by simp
  then have "c \<noteq> LF" using head_char_simps by auto
  then show ?case using Cons \<open>head_char c\<close> by (auto simp: head_char_def)
qed simp

lemma scan_line_end: "head_char c \<Longrightarrow> http_get_request_len (CR # LF # c # s) i = http_get_request_len (c # s) (i + 2)"
  using head_char_simps by (auto simp: c_isprint_def)

lemma scan_end: "http_get_request_len [CR, LF, CR, LF] i = int i + 4"
  by simp

definition a_line :: "string \<Rightarrow> bool" where
  "a_line l \<longleftrightarrow> (\<exists>x. l = x @ CRLF \<and> x \<noteq> [] \<and> (\<forall>c \<in> set x. head_char c))"

declare http_get_request_len.simps [simp del]

lemma scan_lines:
  "\<forall>l \<in> set ls. a_line l \<Longrightarrow> \<forall>c \<in> set x. head_char c \<Longrightarrow>
   http_get_request_len (x @ CRLF @ concat ls @ CRLF) i = int i + int (length (x @ CRLF @ concat ls @ CRLF))"
proof (induction ls arbitrary: x i)
  case Nil
  then show ?case using scan_chars [of x "[CR, LF, CR, LF]" i] scan_end [of "i + length x"]
    by simp
next
  case (Cons l ls)
  then obtain y where l: "l = y @ CRLF" "y \<noteq> []" "\<forall>c \<in> set y. head_char c" by (auto simp: a_line_def)
  obtain c y' where y: "y = c # y'" "head_char c" using l by (cases y) auto
  have "http_get_request_len (x @ CRLF @ concat (l # ls) @ CRLF) i
      = http_get_request_len (y @ CRLF @ concat ls @ CRLF) (i + length x + 2)"
    using scan_chars [of x "CRLF @ concat (l # ls) @ CRLF" i] Cons.prems(2) scan_line_end [OF y(2)] l(1) y(1)
    by simp
  then show ?case using Cons.IH [of y "i + length x + 2"] Cons.prems(1) l by simp
qed

section \<open>Headers\<close>

lemma word_simps: "word_of ds s \<Longrightarrow> s \<noteq> []" "word_of ds s \<Longrightarrow> \<forall>c \<in> set s. head_char c"
  "word_of ds s \<Longrightarrow> c \<in> set s \<Longrightarrow> \<not> is_delim ds c"
  using head_char_simps by (auto simp: word_of_def is_delim_def)

lemma header_a_line: "well_formed_header h \<Longrightarrow> a_line (header_line h)"
  unfolding a_line_def header_line_def
  using word_simps(2) [of "'': ''" "fst h"] word_simps(2) [of "[]" "snd h"] head_char_simps
  by (intro exI [of _ "fst h @ '': '' @ snd h"]) (auto simp: well_formed_header_def)

lemma starts_head_char: "s \<noteq> [] \<Longrightarrow> \<forall>c \<in> set s. head_char c \<Longrightarrow> \<not> is_delim [CR, LF] (hd (s @ t))"
  using head_char_simps by (cases s) (auto simp: is_delim_def)

lemma line_value:
  assumes "word_of [] v" "r = [] \<or> \<not> is_delim [CR, LF] (hd r)"
  shows "mg_skip (v @ CRLF @ r) [CR, LF] = (v, r)" "mg_skip (v @ CRLF @ CRLF) [CR, LF] = (v, [])"
proof -
  have v: "\<forall>c \<in> set v. \<not> is_delim [CR, LF] c"
    using word_simps(2) [OF assms(1)] head_char_simps by (auto simp: is_delim_def)
  show "mg_skip (v @ CRLF @ r) [CR, LF] = (v, r)"
    using mg_skip_token [OF v, of "[CR, LF]" r] assms(2) by (simp add: is_delim_def)
  show "mg_skip (v @ CRLF @ CRLF) [CR, LF] = (v, [])"
    using mg_skip_token [OF v, of "[CR, LF, CR, LF]" "[]"] by (simp add: is_delim_def)
qed

lemma trim_word: "v \<noteq> [] \<Longrightarrow> last v \<noteq> CHR '' '' \<Longrightarrow> trim_spaces v = v"
  by (cases v rule: rev_cases) (simp_all add: trim_spaces_def)

lemma header_name:
  assumes "well_formed_header (k, v)"
  shows "mg_skip (k @ '': '' @ v @ r) '': '' = (k, v @ r)"
proof -
  have "v \<noteq> []" "hd v \<noteq> CHR '' ''" "hd v \<noteq> CHR '':''" "head_char (hd v)"
    using assms by (auto simp: well_formed_header_def word_of_def)
  then have "\<not> is_delim '': '' (hd (v @ r))" using head_char_simps by (cases v) (auto simp: is_delim_def)
  then show ?thesis
    using mg_skip_token [of k "'': ''" "'': ''" "v @ r"] word_simps(3) [of "'': ''" k] assms
    by (auto simp: well_formed_header_def is_delim_def)
qed

text \<open>One header of the list, and the one that gives the length, with nothing behind it but the empty line.\<close>

lemma parse_other:
  assumes "well_formed_header (k, v)" "\<not> names_length k" "i < MG_MAX_HTTP_HEADERS - 1" "r \<noteq> []"
    "\<not> is_delim [CR, LF] (hd r)"
  shows "mg_http_parse_headers (header_line (k, v) @ r) len i req
    = mg_http_parse_headers r len (i + 1) (req\<lparr>headers := headers req @ [(k, v)]\<rparr>)"
proof -
  have "word_of [] v" "v \<noteq> []" "k \<noteq> []" "trim_spaces v = v"
    using assms(1) trim_word by (auto simp: well_formed_header_def word_of_def)
  then show ?thesis
    using header_name [OF assms(1), of "CRLF @ r"] line_value(1) [of v r] assms(3,5) other_name [OF assms(2), of "v @ CRLF @ r"]
    by (subst mg_http_parse_headers.simps) (simp add: header_line_def Let_def)
qed

lemma parse_length:
  assumes "n < 2 ^ 63" "i < MG_MAX_HTTP_HEADERS - 1"
  shows "mg_http_parse_headers (header_line (length_header n) @ CRLF) len i req
    = req\<lparr>body_len := n, message_len := (len + n) mod 2 ^ 64, headers := headers req @ [length_header n]\<rparr>"
proof -
  define v where "v = mpz_get_str (int n)"
  have v: "word_of [] v" "v \<noteq> []" "trim_spaces v = v" "well_formed_header (''Content-Length'', v)"
    using number_header [of n] trim_word by (auto simp: well_formed_header_def word_of_def length_header_def v_def)
  have "as_size_t (strtoll (v @ CRLF @ CRLF)) = n"
    using strtoll_number [OF assms(1), of "LF # CRLF"] assms(1) by (simp add: v_def as_size_t_def)
  moreover have "mg_ncasecmp (''Content-Length'' @ '': '' @ v @ CRLF @ CRLF) ''Content-Length'' 14 = 0"
    by (rule ncasecmp_same) simp
  moreover have "mg_http_parse_headers [] len (i + 1) q = q" for q
    by (subst mg_http_parse_headers.simps) (simp add: mg_skip_simps)
  ultimately show ?thesis
    using header_name [OF v(4), of "CRLF @ CRLF"] line_value(2) [OF v(1), of "[]"] assms(2) v(2,3)
    by (subst mg_http_parse_headers.simps) (simp add: header_line_def length_header_def v_def [symmetric] Let_def)
qed

lemma lines_start:
  "\<forall>h \<in> set hs. well_formed_header h \<Longrightarrow> hs \<noteq> [] \<Longrightarrow>
   concat (map header_line hs) @ r \<noteq> [] \<and> head_char (hd (concat (map header_line hs) @ r))"
  by (cases hs) (auto simp: header_line_def well_formed_header_def word_of_def hd_append)

lemma parse_headers:
  assumes "n < 2 ^ 63"
  shows "\<forall>h \<in> set hs. well_formed_header h \<and> \<not> names_length (fst h) \<Longrightarrow> i + length hs < MG_MAX_HTTP_HEADERS - 1 \<Longrightarrow>
    mg_http_parse_headers (concat (map header_line (hs @ [length_header n])) @ CRLF) len i req
    = req\<lparr>body_len := n, message_len := (len + n) mod 2 ^ 64, headers := headers req @ hs @ [length_header n]\<rparr>"
proof (induction hs arbitrary: i req)
  case Nil
  then show ?case using parse_length [OF assms] by simp
next
  case (Cons h hs)
  obtain k v where h: "h = (k, v)" by (cases h)
  define r where "r = concat (map header_line (hs @ [length_header n])) @ CRLF"
  have "r \<noteq> [] \<and> head_char (hd r)"
    unfolding r_def using Cons.prems(1) number_header by (intro lines_start) auto
  then have "r \<noteq> []" "head_char (hd r)" by auto
  then have "\<not> is_delim [CR, LF] (hd r)" using head_char_simps by (auto simp: is_delim_def)
  then have "mg_http_parse_headers (header_line (k, v) @ r) len i req
      = mg_http_parse_headers r len (i + 1) (req\<lparr>headers := headers req @ [(k, v)]\<rparr>)"
    using Cons.prems h \<open>r \<noteq> []\<close> by (intro parse_other) auto
  then show ?case using Cons.IH [of "i + 1" "req\<lparr>headers := headers req @ [(k, v)]\<rparr>"] Cons.prems
    by (simp add: h r_def)
qed

section \<open>Requests\<close>

definition request_line :: "string \<Rightarrow> string \<Rightarrow> string option \<Rightarrow> string \<Rightarrow> string" where
  "request_line m u q p = m @ '' '' @ u @ (case q of None \<Rightarrow> [] | Some q \<Rightarrow> ''?'' @ q) @ '' '' @ p"

definition well_formed_request :: "string \<Rightarrow> string \<Rightarrow> string option \<Rightarrow> string \<Rightarrow> (string \<times> string) list \<Rightarrow> nat \<Rightarrow> bool" where
  "well_formed_request m u q p hs n \<longleftrightarrow> word_of '' '' m \<and> word_of '' ?'' u \<and>
     (case q of None \<Rightarrow> True | Some q \<Rightarrow> \<forall>c \<in> set q. head_char c \<and> c \<noteq> CHR '' '') \<and> word_of '' '' p \<and>
     (\<forall>h \<in> set hs. well_formed_header h \<and> \<not> names_length (fst h)) \<and> length hs < MG_MAX_HTTP_HEADERS - 1 \<and>
     n < 2 ^ 62 \<and> length (format_head m u q p hs n) < 2 ^ 62"

text \<open>The fields that the parser is expected to find.\<close>

definition the_message :: "string \<Rightarrow> string \<Rightarrow> string option \<Rightarrow> string \<Rightarrow> (string \<times> string) list \<Rightarrow> nat \<Rightarrow> http_message" where
  "the_message m u q p hs n = (let len = length (format_head m u q p hs n) in
     \<lparr>message_len = len + n, body_off = len, body_len = n, http_method = m, uri = u, proto = p, query_string = q,
      headers = hs @ [length_header n], resp_code = 0, resp_status_msg = []\<rparr>)"

lemma format_head_lines:
  "format_head m u q p hs n = request_line m u q p @ CRLF @ concat (map header_line (hs @ [length_header n])) @ CRLF"
  by (simp add: format_head_def request_line_def)

lemma request_parts:
  assumes "well_formed_request m u q p hs n"
  shows "word_of '' '' m" "word_of '' ?'' u" "word_of '' '' p" "n < 2 ^ 62"
    "\<forall>h \<in> set hs. well_formed_header h \<and> \<not> names_length (fst h)" "length hs < MG_MAX_HTTP_HEADERS - 1"
    "length (format_head m u q p hs n) < 2 ^ 62"
    "\<forall>c \<in> set (case q of None \<Rightarrow> [] | Some q \<Rightarrow> ''?'' @ q). head_char c \<and> c \<noteq> CHR '' ''"
proof -
  note wf = assms [unfolded well_formed_request_def]
  show "word_of '' '' m" "word_of '' ?'' u" "word_of '' '' p" "n < 2 ^ 62"
    "\<forall>h \<in> set hs. well_formed_header h \<and> \<not> names_length (fst h)" "length hs < MG_MAX_HTTP_HEADERS - 1"
    "length (format_head m u q p hs n) < 2 ^ 62"
    using wf by blast+
  from wf have "case q of None \<Rightarrow> True | Some q \<Rightarrow> \<forall>c \<in> set q. head_char c \<and> c \<noteq> CHR '' ''" by blast
  then show "\<forall>c \<in> set (case q of None \<Rightarrow> [] | Some q \<Rightarrow> ''?'' @ q). head_char c \<and> c \<noteq> CHR '' ''"
    using head_char_simps(6) by (cases q) simp_all
qed

lemma request_line_chars:
  assumes "well_formed_request m u q p hs n"
  shows "\<forall>c \<in> set (request_line m u q p). head_char c"
proof
  fix c
  assume "c \<in> set (request_line m u q p)"
  then have "c \<in> set m \<or> c = CHR '' '' \<or> c \<in> set u \<or> c \<in> set (case q of None \<Rightarrow> [] | Some q \<Rightarrow> ''?'' @ q) \<or> c \<in> set p"
    by (simp only: request_line_def set_append Un_iff list.set insert_iff) blast
  then show "head_char c"
    using request_parts(1,2,3,8) [OF assms] head_char_simps(4) by (metis word_simps(2))
qed

lemma request_len_format:
  assumes "well_formed_request m u q p hs n"
  shows "mg_http_get_request_len (format_head m u q p hs n) = int (length (format_head m u q p hs n))"
proof -
  have "\<forall>l \<in> set (map header_line (hs @ [length_header n])). a_line l"
    using request_parts(5) [OF assms] header_a_line number_header by (simp add: ball_Un)
  from scan_lines [OF this request_line_chars [OF assms], of 0] show ?thesis
    unfolding mg_http_get_request_len_def format_head_lines of_nat_0 add_0 .
qed

lemma head_not_space: "head_char c \<Longrightarrow> c \<noteq> CHR '' '' \<Longrightarrow> \<not> c_isspace c"
proof -
  have "byte c = byte (CHR '' '') \<Longrightarrow> c = CHR '' ''" by (simp only: byte_eq_iff)
  then show "head_char c \<Longrightarrow> c \<noteq> CHR '' '' \<Longrightarrow> \<not> c_isspace c"
    by (auto simp: head_char_def c_isprint_def c_isspace_def)
qed

lemma skip_word:
  assumes "word_of '' '' v" "r \<noteq> []" "head_char (hd r)" "hd r \<noteq> CHR '' ''"
  shows "mg_skip (v @ '' '' @ r) '' '' = (v, r)"
proof -
  have "hd r \<noteq> NUL" using assms(3) head_char_simps by metis
  then show ?thesis
    using mg_skip_token [of v "'' ''" "'' ''" r] word_simps(3) [OF assms(1)] assms(4) by (auto simp: is_delim_def)
qed

lemma strchr_absent: "c \<notin> set s \<Longrightarrow> mg_strchr (s @ t) c = map_option (\<lambda>k. length s + k) (mg_strchr t c)"
  by (induction s; cases "mg_strchr t c") auto

lemma word_append: "word_of '' ?'' u \<Longrightarrow> \<forall>c \<in> set v. head_char c \<and> c \<noteq> CHR '' '' \<Longrightarrow> word_of '' '' (u @ v)"
  by (auto simp: word_of_def)

lemma parse_request:
  assumes "mg_http_get_request_len buf = int (length buf)" "buf \<noteq> []" "dropWhile c_isspace buf = buf"
    "mg_skip buf '' '' = (m, s1)" "mg_skip s1 '' '' = (t, s2)" "mg_skip s2 [CR, LF] = (p, s3)"
    "length s1 < length buf" "length s2 < length s1"
    "req = empty_message\<lparr>body_off := length buf, http_method := m, proto := p,
       query_string := map_option (\<lambda>k. drop (k + 1) t) (mg_strchr t (CHR ''?'')),
       uri := (case mg_strchr t (CHR ''?'') of None \<Rightarrow> t | Some k \<Rightarrow> take k t)\<rparr>"
    "mg_http_parse_headers s3 (length buf) 0 req = hm"
    "body_len hm \<noteq> size_max \<or> mg_vcasecmp (http_method hm) ''POST'' = 0"
  shows "mg_parse_http buf True = Inr (length buf, hm)"
proof -
  have "mg_parse_http buf True = Inr (length buf, hm)" if "mg_strchr t (CHR ''?'') = None"
    using assms that by (auto simp: mg_parse_http_def Let_def empty_message_def)
  moreover have "mg_parse_http buf True = Inr (length buf, hm)" if "mg_strchr t (CHR ''?'') = Some k" for k
    using assms that by (auto simp: mg_parse_http_def Let_def)
  ultimately show ?thesis by (cases "mg_strchr t (CHR ''?'')") auto
qed

lemma parse_format_head:
  assumes "well_formed_request m u q p hs n"
  shows "mg_parse_http (format_head m u q p hs n) True = Inr (length (format_head m u q p hs n), the_message m u q p hs n)"
proof -
  define target where "target = u @ (case q of None \<Rightarrow> [] | Some q \<Rightarrow> ''?'' @ q)"
  define lines where "lines = concat (map header_line (hs @ [length_header n])) @ CRLF"
  define buf where "buf = format_head m u q p hs n"
  note parts = request_parts [OF assms]
  have target: "word_of '' '' target" unfolding target_def by (rule word_append [OF parts(2,8)])
  have buf: "buf = m @ '' '' @ target @ '' '' @ p @ CRLF @ lines"
    by (simp add: buf_def format_head_def target_def lines_def)
  have start: "dropWhile c_isspace buf = buf"
    using parts(1) head_not_space [of "hd m"] by (cases m) (auto simp: buf word_of_def)
  have t1: "mg_skip buf '' '' = (m, target @ '' '' @ p @ CRLF @ lines)"
    unfolding buf using target by (intro skip_word [OF parts(1)]) (auto simp: word_of_def hd_append)
  have t2: "mg_skip (target @ '' '' @ p @ CRLF @ lines) '' '' = (target, p @ CRLF @ lines)"
    using parts(3) by (intro skip_word [OF target]) (auto simp: word_of_def hd_append)
  have "lines \<noteq> [] \<and> head_char (hd lines)"
    unfolding lines_def using parts(5) number_header by (intro lines_start) auto
  then have "\<not> is_delim [CR, LF] (hd lines)" using head_char_simps by (auto simp: is_delim_def)
  then have t3: "mg_skip (p @ CRLF @ lines) [CR, LF] = (p, lines)"
    using parts(3) by (intro line_value(1)) (auto simp: word_of_def)
  have question: "mg_strchr target (CHR ''?'') = (case q of None \<Rightarrow> None | Some q \<Rightarrow> Some (length u))"
  proof -
    have "CHR ''?'' \<notin> set u" using parts(2) unfolding word_of_def by auto
    then show ?thesis
      using strchr_absent [of "CHR ''?''" u "[]"] strchr_absent [of "CHR ''?''" u "CHR ''?'' # the q"]
      by (cases q) (simp_all add: target_def)
  qed
  have len: "mg_http_get_request_len buf = int (length buf)"
    using request_len_format [OF assms] by (simp add: buf_def)
  have parsed: "mg_http_parse_headers lines (length buf) 0 r = r\<lparr>body_len := n, message_len := length buf + n,
      headers := headers r @ hs @ [length_header n]\<rparr>" for r
    using parse_headers [of n hs 0 "length buf" r] parts(4-7) by (simp add: lines_def buf_def)
  have shorter: "buf \<noteq> []" "length (p @ CRLF @ lines) < length (target @ '' '' @ p @ CRLF @ lines)"
    "length (target @ '' '' @ p @ CRLF @ lines) < length buf"
    by (simp_all add: buf)
  have fields: "map_option (\<lambda>k. drop (k + 1) target) (mg_strchr target (CHR ''?'')) = q"
    "(case mg_strchr target (CHR ''?'') of None \<Rightarrow> target | Some k \<Rightarrow> take k target) = u"
    unfolding question by (cases q; simp add: target_def)+
  have "mg_parse_http buf True = Inr (length buf, the_message m u q p hs n)"
    by (rule parse_request [OF len shorter(1) start t1 t2 t3 shorter(3,2) refl])
      (use parts(4) in \<open>simp_all add: fields [simplified] parsed [unfolded buf_def] empty_message_def the_message_def buf_def size_max_def Let_def\<close>)
  then show ?thesis by (simp add: buf_def)
qed



end
