(* ===== verification/BL_Web_Props.thy ===== *)
theory BL_Web_Props
  imports BL_Web_Enc
begin

text \<open>
  The encodings of \<open>BL_Web_Enc\<close> can be undone: base64 in one go and in pieces, hexadecimal, URL encoding. The
  buffer keeps its length within its size.
\<close>

unbundle bit_operations_syntax

section \<open>Base64\<close>

lemma or_plus:
  assumes "y < 2 ^ n"
  shows "push_bit n x OR y = 2 ^ n * x + (y :: nat)"
proof -
  have "take_bit n y = y" using assms by (simp add: take_bit_nat_eq_self)
  then have "push_bit n x AND y = push_bit n x AND take_bit n y" by simp
  also have "\<dots> = 0" by (rule bit_eqI) (auto simp: bit_simps)
  finally have "push_bit n x + y = push_bit n x OR y" by (rule disjunctive_add_eq_or)
  then show ?thesis by (simp add: push_bit_eq_mult mult.commute)
qed

lemma and_low: "(a :: nat) AND 3 = a mod 4" "a AND 15 = a mod 16" "a AND 63 = a mod 64" "a AND 127 = a mod 128"
  using take_bit_eq_mask [of 2 a] take_bit_eq_mask [of 4 a] take_bit_eq_mask [of 6 a] take_bit_eq_mask [of 7 a]
  by (simp_all add: take_bit_eq_mod mask_eq_exp_minus_1)

text \<open>The three bytes of a round as numbers, and the four values of the encoding.\<close>

lemma sextets:
  assumes "a < 256" "b < 256" "c < (256 :: nat)"
  shows "drop_bit 2 a = a div 4" "push_bit 4 (a AND 3) OR drop_bit 4 b = 16 * (a mod 4) + b div 16"
    "push_bit 2 (b AND 15) OR drop_bit 6 c = 4 * (b mod 16) + c div 64" "c AND 63 = c mod 64"
  using assms by (simp_all add: drop_bit_eq_div and_low or_plus)

lemma octets:
  assumes "v < 64" "w < 64" "x < 64" "y < (64 :: nat)"
  shows "push_bit 2 v OR drop_bit 4 w = 4 * v + w div 16" "push_bit 4 w OR drop_bit 2 x = 16 * w + x div 4"
    "push_bit 6 x OR y = 64 * x + y"
  using assms by (simp_all add: drop_bit_eq_div or_plus)

lemma b64_tables: "map cs_base64_emit_code [0..<64] = b64" "map from_b64 b64 = [0..<64]"
  unfolding b64_def from_b64_def and_low list.map
  by (simp_all add: cs_base64_emit_code_def upt_rec char_of_def bit_0 b64_tab_def nth_append)

lemma b64_length: "length b64 = 64"
  using arg_cong [OF b64_tables(2), of length] by simp

lemma b64_inverse: "v < 64 \<Longrightarrow> from_b64 (b64 ! v) = v"
  using arg_cong [OF b64_tables(2), of "\<lambda>xs. xs ! v"] by (simp add: b64_length)

lemma emit_code: "v < 64 \<Longrightarrow> cs_base64_emit_code v = b64 ! v"
  using arg_cong [OF b64_tables(1), of "\<lambda>xs. xs ! v"] by simp

lemma from_b64_pad: "from_b64 (CHR ''='') = 200"
  by code_simp

lemma base64_simps:
  "base64_rounds [x] = [b64 ! (byte x div 4), b64 ! (16 * (byte x mod 4))]"
  "base64_rounds [x, y] = [b64 ! (byte x div 4), b64 ! (16 * (byte x mod 4) + byte y div 16), b64 ! (4 * (byte y mod 16))]"
  "base64_rounds (x # y # z # s) = [b64 ! (byte x div 4), b64 ! (16 * (byte x mod 4) + byte y div 16),
     b64 ! (4 * (byte y mod 16) + byte z div 64), b64 ! (byte z mod 64)] @ base64_rounds s"
  unfolding base64_rounds.simps Let_def sextets [OF byte_less byte_less byte_less] by simp_all

lemma sextet_bounds:
  assumes "a < 256" "b < 256" "c < (256 :: nat)"
  shows "a div 4 < 64" "16 * (a mod 4) + b div 16 < 64" "4 * (b mod 16) + c div 64 < 64" "c mod 64 < 64"
    "16 * (a mod 4) < 64" "4 * (b mod 16) < 64"
proof -
  have "a div 4 < 64" "b div 16 < 16" "c div 64 < 4" "a mod 4 < 4" "b mod 16 < 16" "c mod 64 < 64"
    using assms by (simp_all add: less_mult_imp_div_less)
  then show "a div 4 < 64" "16 * (a mod 4) + b div 16 < 64" "4 * (b mod 16) + c div 64 < 64" "c mod 64 < 64"
    "16 * (a mod 4) < 64" "4 * (b mod 16) < 64"
    by linarith+
qed

lemma digits_join:
  "t < 4 \<Longrightarrow> (4 * u + t) div 4 = (u :: nat)" "t < 16 \<Longrightarrow> (16 * u + t) div 16 = (u :: nat)"
  "b < 256 \<Longrightarrow> (16 * (16 * r + b div 16) + b mod 16) mod 256 = (b :: nat)"
  "c < 256 \<Longrightarrow> (64 * (4 * r + c div 64) + c mod 64) mod 256 = (c :: nat)"
proof -
  have "16 * (16 * r + b div 16) + b mod 16 = b + 256 * r" by (simp add: algebra_simps)
  then show "b < 256 \<Longrightarrow> (16 * (16 * r + b div 16) + b mod 16) mod 256 = b" by simp
  have "64 * (4 * r + c div 64) + c mod 64 = c + 256 * r" by (simp add: algebra_simps)
  then show "c < 256 \<Longrightarrow> (64 * (4 * r + c div 64) + c mod 64) mod 256 = c" by simp
  show "t < 4 \<Longrightarrow> (4 * u + t) div 4 = u" "t < 16 \<Longrightarrow> (16 * u + t) div 16 = u" by simp_all
qed

lemma decode_round:
  fixes x y z :: char
  defines "a \<equiv> byte x" and "b \<equiv> byte y" and "c \<equiv> byte z"
  shows "cs_base64_decode (b64 ! (a div 4) # b64 ! (16 * (a mod 4) + b div 16) # b64 ! (4 * (b mod 16) + c div 64) # b64 ! (c mod 64) # s)
    = (case cs_base64_decode s of (ds, n) \<Rightarrow> (x # y # z # ds, 4 + n))"
    "cs_base64_decode (b64 ! (a div 4) # b64 ! (16 * (a mod 4) + b div 16) # b64 ! (4 * (b mod 16)) # CHR ''='' # s) = ([x, y], 4)"
    "cs_base64_decode (b64 ! (a div 4) # b64 ! (16 * (a mod 4)) # CHR ''='' # CHR ''='' # s) = ([x], 4)"
proof -
  have l: "a < 256" "b < 256" "c < 256" by (simp_all add: a_def b_def c_def byte_less)
  note v = sextet_bounds [OF l]
  note vals = b64_inverse [OF v(1)] b64_inverse [OF v(2)] b64_inverse [OF v(3)] b64_inverse [OF v(4)]
    b64_inverse [OF v(5)] b64_inverse [OF v(6)] from_b64_pad
  have n: "a div 4 \<noteq> 255" "a div 4 \<noteq> 200" "16 * (a mod 4) + b div 16 \<noteq> 255" "16 * (a mod 4) + b div 16 \<noteq> 200"
    "4 * (b mod 16) + c div 64 \<noteq> 255" "4 * (b mod 16) + c div 64 \<noteq> 200" "c mod 64 \<noteq> 255" "c mod 64 \<noteq> 200"
    "16 * (a mod 4) \<noteq> 255" "16 * (a mod 4) \<noteq> 200" "4 * (b mod 16) \<noteq> 255" "4 * (b mod 16) \<noteq> 200"
    using v by linarith+
  have "c div 64 < 4" "b div 16 < 16" using l by (simp_all add: less_mult_imp_div_less)
  then have o: "4 * (a div 4) + (16 * (a mod 4) + b div 16) div 16 = a"
    "(16 * (16 * (a mod 4) + b div 16) + (4 * (b mod 16) + c div 64) div 4) mod 256 = b"
    "(64 * (4 * (b mod 16) + c div 64) + c mod 64) mod 256 = c"
    "(16 * (16 * (a mod 4) + b div 16) + (4 * (b mod 16)) div 4) mod 256 = b"
    "4 * (a div 4) + (16 * (a mod 4)) div 16 = a"
    using l digits_join(1) [of 0 "b mod 16"] by (simp_all only: digits_join mult_div_mod_eq) simp_all
  have ch: "char_of n = (d :: char)" if "n mod 256 = byte d" for n d
    using that by (metis char_of_mod_256 char_of_char)
  have out: "char_of (4 * (a div 4) + (16 * (a mod 4) + b div 16) div 16) = x"
    "char_of (16 * (16 * (a mod 4) + b div 16) + (4 * (b mod 16) + c div 64) div 4) = y"
    "char_of (64 * (4 * (b mod 16) + c div 64) + c mod 64) = z"
    "char_of (16 * (16 * (a mod 4) + b div 16) + (4 * (b mod 16)) div 4) = y"
    "char_of (4 * (a div 4) + (16 * (a mod 4)) div 16) = x"
    using o l by (intro ch; simp only: a_def b_def c_def mod_less)+
  show "cs_base64_decode (b64 ! (a div 4) # b64 ! (16 * (a mod 4) + b div 16) # b64 ! (4 * (b mod 16) + c div 64) # b64 ! (c mod 64) # s)
    = (case cs_base64_decode s of (ds, n) \<Rightarrow> (x # y # z # ds, 4 + n))"
    unfolding cs_base64_decode.simps vals Let_def octets [OF v(1) v(2) v(3) v(4)] out by (simp add: n)
  show "cs_base64_decode (b64 ! (a div 4) # b64 ! (16 * (a mod 4) + b div 16) # b64 ! (4 * (b mod 16)) # CHR ''='' # s) = ([x, y], 4)"
    unfolding cs_base64_decode.simps vals Let_def octets [OF v(1) v(2) v(6) v(4)] out by (simp add: n)
  show "cs_base64_decode (b64 ! (a div 4) # b64 ! (16 * (a mod 4)) # CHR ''='' # CHR ''='' # s) = ([x], 4)"
    unfolding cs_base64_decode.simps vals Let_def octets [OF v(1) v(5) v(3) v(4)] out by (simp add: n)
qed

lemma base64_encode_simps:
  "cs_base64_encode [] = []"
  "cs_base64_encode [x] = [b64 ! (byte x div 4), b64 ! (16 * (byte x mod 4)), CHR ''='', CHR ''='']"
  "cs_base64_encode [x, y] = [b64 ! (byte x div 4), b64 ! (16 * (byte x mod 4) + byte y div 16), b64 ! (4 * (byte y mod 16)), CHR ''='']"
  "cs_base64_encode (x # y # z # s) = [b64 ! (byte x div 4), b64 ! (16 * (byte x mod 4) + byte y div 16),
     b64 ! (4 * (byte y mod 16) + byte z div 64), b64 ! (byte z mod 64)] @ cs_base64_encode s"
  by (simp_all add: cs_base64_encode_def base64_simps Let_def numeral_2_eq_2 del: base64_rounds.simps(2))

lemma base64_induct [case_names nil one two more]:
  assumes "P []" "\<And>x. P [x]" "\<And>x y. P [x, y]" "\<And>x y z s. P s \<Longrightarrow> P (x # y # z # s)"
  shows "P s"
  using assms by induction_schema (pat_completeness, lexicographic_order)

lemma base64_decode_encode: "cs_base64_decode (cs_base64_encode s) = (s, length (cs_base64_encode s))"
proof (induction s rule: base64_induct)
  case (more x y z s)
  then show ?case by (simp add: base64_encode_simps decode_round del: cs_base64_decode.simps(1))
qed (simp_all add: base64_encode_simps decode_round del: cs_base64_decode.simps(1))

text \<open>The encoder that takes its input in pieces gives the same text.\<close>

lemma base64_update_append: "cs_base64_update (s @ t) ctx = cs_base64_update t (cs_base64_update s ctx)"
  by (induction s arbitrary: ctx) simp_all

lemma emit_chunk_simps:
  "cs_base64_emit_chunk [x] = [b64 ! (byte x div 4), b64 ! (16 * (byte x mod 4))]"
  "cs_base64_emit_chunk [x, y] = [b64 ! (byte x div 4), b64 ! (16 * (byte x mod 4) + byte y div 16), b64 ! (4 * (byte y mod 16))]"
  "cs_base64_emit_chunk [x, y, z] = [b64 ! (byte x div 4), b64 ! (16 * (byte x mod 4) + byte y div 16),
     b64 ! (4 * (byte y mod 16) + byte z div 64), b64 ! (byte z mod 64)]"
  unfolding cs_base64_emit_chunk_def Let_def sextets [OF byte_less byte_less byte_less]
  using sextet_bounds [OF byte_less [of x] byte_less [of y] byte_less [of z]] by (simp_all add: emit_code)

lemma base64_stream: "b64_chunk ctx = [] \<Longrightarrow>
    cs_base64_finish (cs_base64_update s ctx) = b64_out ctx @ cs_base64_encode s"
  by (induction s arbitrary: ctx rule: base64_induct)
    (simp_all add: base64_encode_simps cs_base64_finish_def emit_chunk_simps numeral_2_eq_2 numeral_3_eq_3)


section \<open>Hexadecimal and URL encoding\<close>

lemma less_16: "k < (16 :: nat) \<longleftrightarrow> k \<in> {0, 1, 2, 3, 4, 5, 6, 7, 8, 9, 10, 11, 12, 13, 14, 15}"
  unfolding insert_iff empty_iff by presburger

lemma hex_digits:
  assumes "k < 16"
  shows "fourbit (hex ! k) = k" "hextoi (c_tolower (hex ! k)) = k" "c_isxdigit (hex ! k)"
proof -
  have "fourbit (hex ! k) = k \<and> hextoi (c_tolower (hex ! k)) = k \<and> c_isxdigit (hex ! k)"
    using assms unfolding less_16
    by (elim insertE) (simp_all add: hex_def fourbit_def hextoi_def c_tolower_def c_isxdigit_def c_isdigit_def)
  then show "fourbit (hex ! k) = k" "hextoi (c_tolower (hex ! k)) = k" "c_isxdigit (hex ! k)" by simp_all
qed

lemma nibbles:
  "drop_bit 4 (byte c) < 16" "byte c AND 15 < 16" "push_bit 4 (drop_bit 4 (byte c)) OR (byte c AND 15) = byte c"
  "push_bit 4 (drop_bit 4 (byte c)) + (byte c AND 15) = byte c"
proof -
  show lo: "byte c AND 15 < 16" by (simp add: and_low)
  show "drop_bit 4 (byte c) < 16" using byte_less [of c] by (simp add: drop_bit_eq_div less_mult_imp_div_less)
  show sum: "push_bit 4 (drop_bit 4 (byte c)) + (byte c AND 15) = byte c"
    by (simp add: drop_bit_eq_div push_bit_eq_mult and_low)
  show "push_bit 4 (drop_bit 4 (byte c)) OR (byte c AND 15) = byte c"
    using or_plus [of "byte c AND 15" 4 "drop_bit 4 (byte c)"] lo sum by (simp add: push_bit_eq_mult mult.commute)
qed

lemma hex_roundtrip: "cs_from_hex (cs_to_hex s) = s"
  by (induction s) (simp_all add: hex_digits nibbles)

lemma url_decode_char:
  "url_decode_loop (url_encode_char c @ s) (Suc room) form = map_option (Cons c) (url_decode_loop s room form)"
proof (cases "c_isalnum c \<or> c \<in> set dont_escape \<or> c = NUL")
  case True
  then have "c \<noteq> CHR ''%''" "c \<noteq> CHR ''+''"
    by (auto simp: c_isalnum_def c_isdigit_def dont_escape_def)
  with True show ?thesis by (simp add: url_encode_char_def)
next
  case False
  then show ?thesis by (simp add: url_encode_char_def hex_digits nibbles Let_def)
qed

lemma url_decode_encode: "length s \<le> room \<Longrightarrow> url_decode_loop (mg_url_encode s) room form = Some s"
proof (induction s arbitrary: room)
  case (Cons c s)
  then obtain r where "room = Suc r" by (cases room) auto
  with Cons show ?case by (simp add: mg_url_encode_def url_decode_char)
qed (simp add: mg_url_encode_def)

lemma url_too_small: "room < length s \<Longrightarrow> url_decode_loop (mg_url_encode s) room form = None"
proof (induction s arbitrary: room)
  case (Cons c s)
  show ?case
  proof (cases room)
    case 0
    then show ?thesis by (auto simp: mg_url_encode_def url_encode_char_def)
  next
    case (Suc r)
    with Cons show ?thesis by (simp add: mg_url_encode_def url_decode_char)
  qed
qed simp


section \<open>Patterns\<close>

lemma match_bounds:
  "mg_match_prefix_n p s \<le> length s" "match_loop p s j \<le> j + length s"
  "len \<le> length s \<Longrightarrow> star_loop p s j len \<le> j + length s"
proof (induction p s and p s j and p s j len rule: mg_match_prefix_n_match_loop_star_loop.induct)
  case (1 pattern str)
  then show ?case by (auto simp: Let_def split: option.splits)
next
  case (5 qs str j len)
  then show ?case by (subst star_loop.simps) (auto simp: Let_def simp del: star_loop.simps)
next
  case (4 c ps d ss j)
  then show ?case using length_takeWhile_le [of "\<lambda>x. x \<noteq> CHR ''/''" "d # ss"]
    by (auto simp: Let_def simp del: star_loop.simps mg_match_prefix_n.simps split: if_splits)
qed simp_all

section \<open>Buffers\<close>

definition mbuf_ok :: "mbuf \<Rightarrow> bool" where
  "mbuf_ok a \<longleftrightarrow> length (mb_buf a) \<le> mb_size a"

text \<open>The operations on buffers act on the list of bytes in use, or change nothing when memory is refused.\<close>

lemma mbuf_operations:
  "mbuf_ok (mbuf_init mem n)" "mb_buf (mbuf_init mem n) = []"
  "mbuf_ok a \<Longrightarrow> mbuf_ok (mbuf_resize mem n a)" "mb_buf (mbuf_resize mem n a) = mb_buf a"
  "mbuf_ok a \<Longrightarrow> mbuf_ok (mbuf_trim mem a)" "mb_buf (mbuf_trim mem a) = mb_buf a"
  "mbuf_ok a \<Longrightarrow> mbuf_ok (mbuf_remove n a)"
  "mb_buf (mbuf_remove n a) = (if n \<le> length (mb_buf a) then drop n (mb_buf a) else mb_buf a)"
  by (auto simp: mbuf_ok_def mbuf_init_def mbuf_resize_def mbuf_trim_def mbuf_remove_def)

lemma mbuf_append_ok:
  assumes "mbuf_ok a"
  shows "(\<exists>b. mbuf_append mem data a = Some (length data, b) \<and> mbuf_ok b \<and> mb_buf b = mb_buf a @ data)
    \<or> mbuf_append mem data a = Some (0, a) \<and> \<not> mem ((length (mb_buf a) + length data) * 3 div 2)"
  using assms by (auto simp: mbuf_append_def mbuf_insert_def mbuf_ok_def Let_def)

end
