(* ===== verification/BL_Web_Chunks.thy ===== *)
theory BL_Web_Chunks
  imports BL_Web_Stream BL_Web_Parse BL_Web_Props
begin

text \<open>
  Chunked bodies: what \<open>mg_send_http_chunk\<close> writes, \<open>mg_handle_chunked\<close> puts together; two inputs that bring
  the receiver down.
\<close>

section \<open>The length of a chunk\<close>

definition hex_value :: "nat \<Rightarrow> string \<Rightarrow> nat" where
  "hex_value = foldl (\<lambda>n c. (n * 16 + (if c_isdigit c then byte c - 48 else c_tolower c - 97 + 10)) mod 2 ^ 64)"

lemma xdigits_append:
  "\<forall>c \<in> set x. c_isxdigit c \<Longrightarrow> xdigits (x @ s) a = (length x + fst (xdigits s (hex_value a x)), snd (xdigits s (hex_value a x)))"
  by (induction x arbitrary: a) (auto simp: hex_value_def split: prod.splits)

lemma hex_digit:
  assumes "k < 16"
  shows "c_isxdigit (''0123456789ABCDEF'' ! k)"
    "(let c = ''0123456789ABCDEF'' ! k in if c_isdigit c then byte c - 48 else c_tolower c - 97 + 10) = k"
  using assms unfolding less_16 by (auto simp: c_isxdigit_def c_isdigit_def c_tolower_def)

lemma upper_hex_digits: "c \<in> set (upper_hex n) \<Longrightarrow> c_isxdigit c"
proof (induction n rule: upper_hex.induct)
  case (1 n)
  then show ?case
    using hex_digit(1) [of n] hex_digit(1) [of "n mod 16"] by (subst (asm) (2) upper_hex.simps) (auto split: if_splits)
qed

lemma upper_hex_value: "hex_value 0 (upper_hex n) = n mod 2 ^ 64"
proof (induction n rule: upper_hex.induct)
  case (1 n)
  show ?case
  proof (cases "n < 16")
    case True
    then show ?thesis using hex_digit(2) [of n] by (subst upper_hex.simps) (simp add: hex_value_def Let_def)
  next
    case False
    have "((n div 16) mod 2 ^ 64 * 16 + n mod 16) mod 2 ^ 64 = n mod 2 ^ 64"
      by (metis mod_add_left_eq mod_mult_left_eq div_mult_mod_eq)
    then show ?thesis using 1 False hex_digit(2) [of "n mod 16"]
      by (subst upper_hex.simps) (simp add: hex_value_def Let_def)
  qed
qed

lemma upper_hex_nonempty: "upper_hex n \<noteq> []"
  by (subst upper_hex.simps) simp

section \<open>One chunk\<close>

lemma crlf_at_line: "length a = i \<Longrightarrow> i > 0 \<Longrightarrow> length (a @ CRLF @ b) < 2 ^ 63 \<Longrightarrow> crlf_at (a @ CRLF @ b) i = Some True"
  by (auto simp: crlf_at_def nth_append)

definition chunk_head :: "string \<Rightarrow> nat" where
  "chunk_head d = length (upper_hex (length d)) + 2"

lemma length_http_chunk: "length (http_chunk d) = chunk_head d + length d + 2"
  by (simp add: http_chunk_def chunk_head_def)

lemma parse_chunk:
  assumes "length (http_chunk d @ r) < 2 ^ 62"
  shows "mg_http_parse_chunk (http_chunk d @ r) = Chunk (length (http_chunk d)) (chunk_head d) (length d)"
proof -
  define x where "x = upper_hex (length d)"
  have buf: "http_chunk d @ r = x @ CRLF @ d @ CRLF @ r" by (simp add: http_chunk_def x_def)
  have small: "length (x @ CRLF @ d @ CRLF @ r) < 2 ^ 62" using assms by (simp only: buf)
  have "\<not> c_isxdigit CR" by (simp add: c_isxdigit_def c_isdigit_def)
  then have scan: "xdigits (x @ CRLF @ d @ CRLF @ r) 0 = (length x, length d)"
    using xdigits_append [of x "CRLF @ d @ CRLF @ r" 0] upper_hex_digits upper_hex_value [of "length d"] small
    by (simp add: x_def)
  have first: "crlf_at (x @ CRLF @ d @ CRLF @ r) (length x) = Some True"
    using upper_hex_nonempty small by (intro crlf_at_line) (auto simp: x_def)
  have "crlf_at ((x @ CRLF @ d) @ CRLF @ r) (length x + 2 + length d) = Some True"
    using small by (intro crlf_at_line) auto
  then have second: "crlf_at (x @ CRLF @ d @ CRLF @ r) ((length x + 2 + length d) mod 2 ^ 64) = Some True"
    using small by simp
  show ?thesis
    unfolding buf mg_http_parse_chunk_def scan
    using first second small by (simp add: Let_def chunk_head_def x_def http_chunk_def)
qed

section \<open>All chunks\<close>

definition wire_chunks :: "string list \<Rightarrow> string" where
  "wire_chunks ds = concat (map http_chunk ds) @ http_chunk []"

text \<open>The data moves down to the body, and what is behind the chunk stays where it was.\<close>

lemma memmove_down:
  assumes "blen \<le> i" "i + off + len \<le> length buf"
  shows "memmove blen (i + off) len buf = Some (take blen buf @ take len (drop (i + off) buf) @ drop (blen + len) buf)"
  using assms by (simp add: memmove_def)

lemma chunk_moved:
  assumes "blen \<le> i" "i + n \<le> length buf" "drop i buf = http_chunk d @ r" "n = length (http_chunk d)"
    "buf' = take blen buf @ d @ drop (blen + length d) buf"
  shows "memmove blen (i + chunk_head d) (length d) buf = Some buf'" "take (blen + length d) buf' = take blen buf @ d"
    "drop (i + n) buf' = r" "length buf' = length buf"
proof -
  have n: "n = chunk_head d + length d + 2" by (simp add: assms(4) length_http_chunk)
  have "drop (i + chunk_head d) buf = drop (chunk_head d) (http_chunk d @ r)"
    using assms(3) by (metis add.commute drop_drop)
  also have "\<dots> = d @ CRLF @ r" by (simp add: chunk_head_def http_chunk_def)
  finally have "take (length d) (drop (i + chunk_head d) buf) = d" by simp
  then show "memmove blen (i + chunk_head d) (length d) buf = Some buf'"
    using memmove_down [of blen i "chunk_head d" "length d" buf] assms(1,2,5) n by simp
  show "take (blen + length d) buf' = take blen buf @ d" using assms(1,2,5) by simp
  have "drop (i + n) buf = r" using assms(3,4) by (metis add.commute append_eq_conv_conj drop_drop)
  moreover have "drop (i + n) buf' = drop (i + n) buf" using assms(1,2,5) n by simp
  ultimately show "drop (i + n) buf' = r" by simp
  show "length buf' = length buf" using assms(1,2,5) n by simp
qed

lemma chunk_loop_step:
  assumes "blen \<le> i" "drop i buf = http_chunk d @ r" "length buf < 2 ^ 62"
  shows "\<exists>buf'. chunk_loop (Suc fuel) buf i blen =
      (if d = [] then Some (buf', i + length (http_chunk d), blen, True)
       else chunk_loop fuel buf' (i + length (http_chunk d)) (blen + length d)) \<and>
    take (blen + length d) buf' = take blen buf @ d \<and> drop (i + length (http_chunk d)) buf' = r \<and> length buf' = length buf"
proof -
  let ?buf' = "take blen buf @ d @ drop (blen + length d) buf"
  have "length (http_chunk d @ r) = length buf - i" unfolding assms(2) [symmetric] by simp
  then have len: "i + length (http_chunk d) \<le> length buf" "length (http_chunk d @ r) < 2 ^ 62"
    using assms(3) length_http_chunk [of d] by auto
  note moved = chunk_moved [OF assms(1) len(1) assms(2) refl refl]
  show ?thesis
    using parse_chunk [OF len(2)] moved by (intro exI [of _ ?buf']) (simp add: assms(2))
qed

lemma chunk_loop_wire:
  "[] \<notin> set ds \<Longrightarrow> blen \<le> i \<Longrightarrow> drop i buf = wire_chunks ds @ r \<Longrightarrow> length buf < 2 ^ 62 \<Longrightarrow> length ds < fuel \<Longrightarrow>
   \<exists>buf'. chunk_loop fuel buf i blen = Some (buf', i + length (wire_chunks ds), blen + length (concat ds), True) \<and>
     take (blen + length (concat ds)) buf' = take blen buf @ concat ds \<and> drop (i + length (wire_chunks ds)) buf' = r"
proof (induction ds arbitrary: buf i blen fuel)
  case Nil
  then obtain k where "fuel = Suc k" by (cases fuel) auto
  then show ?case using chunk_loop_step [of blen i buf "[]" r k] Nil.prems by (auto simp: wire_chunks_def)
next
  case (Cons d ds)
  then obtain k where k: "fuel = Suc k" "length ds < k" by (cases fuel) auto
  let ?n = "length (http_chunk d)"
  have "drop i buf = http_chunk d @ (wire_chunks ds @ r)" using Cons.prems(3) by (simp add: wire_chunks_def)
  then obtain buf' where buf': "chunk_loop fuel buf i blen = chunk_loop k buf' (i + ?n) (blen + length d)"
    "take (blen + length d) buf' = take blen buf @ d" "drop (i + ?n) buf' = wire_chunks ds @ r" "length buf' = length buf"
    using chunk_loop_step [of blen i buf d "wire_chunks ds @ r" k] Cons.prems k by auto
  have "\<exists>buf''. chunk_loop k buf' (i + ?n) (blen + length d)
      = Some (buf'', i + ?n + length (wire_chunks ds), blen + length d + length (concat ds), True) \<and>
    take (blen + length d + length (concat ds)) buf'' = take (blen + length d) buf' @ concat ds \<and>
    drop (i + ?n + length (wire_chunks ds)) buf'' = r"
    using Cons.prems buf' k length_http_chunk [of d] by (intro Cons.IH) auto
  then show ?case using buf' by (auto simp: wire_chunks_def ac_simps)
qed

section \<open>A chunked request\<close>

definition chunked_request :: "string \<Rightarrow> http_message \<Rightarrow> bool" where
  "chunked_request h hm \<longleftrightarrow> mg_parse_http h True = Inr (length h, hm) \<and> is_chunked hm \<and>
     mg_get_http_header hm ''Sec-WebSocket-Key'' = None"

definition with_body :: "string \<Rightarrow> string \<Rightarrow> http_message \<Rightarrow> http_message" where
  "with_body h b hm = hm\<lparr>body_len := length b, message_len := length h + length b\<rparr>"

lemma message_order: "hm\<lparr>message_len := a, body_len := b\<rparr> = hm\<lparr>body_len := b, message_len := a\<rparr>"
  by simp

lemma body_shorter: "length (concat ds) < length (wire_chunks ds)"
  by (induction ds) (auto simp: wire_chunks_def length_http_chunk chunk_head_def)

lemma handle_chunked:
  assumes "answers_requests H (handler nc)" "MG_F_DELETE_CHUNK \<notin> flags nc"
    "recv_mbuf nc = h @ wire_chunks ds" "chunk_body_len nc = 0" "length (recv_mbuf nc) < 2 ^ 62" "[] \<notin> set ds"
  shows "mg_handle_chunked H hm (length h) nc = returnM (with_body h (concat ds) hm,
    nc\<lparr>recv_mbuf := h @ concat ds, chunk_body_len := length (concat ds)\<rparr>)"
proof -
  let ?w = "wire_chunks ds" and ?n = "length (concat ds)"
  have "length ds \<le> length (concat (map http_chunk ds))"
    by (induction ds) (auto simp: length_http_chunk)
  then have "length ds < Suc (length ?w)" by (simp add: wire_chunks_def)
  then obtain buf' where loop: "chunk_loop (Suc (length ?w)) ?w 0 0 = Some (buf', length ?w, ?n, True)"
    "take ?n buf' = concat ds" "drop (length ?w) buf' = []"
    using chunk_loop_wire [of ds 0 0 ?w "[]" "Suc (length ?w)"] assms(3,5,6) by auto
  have "?n < length ?w" by (rule body_shorter)
  let ?c = "nc\<lparr>recv_mbuf := h @ concat ds, chunk_body_len := ?n\<rparr>"
  have "clear_flag MG_F_DELETE_CHUNK ?c = ?c" using assms(2) by (intro clear_absent) simp
  moreover have "mg_call H (handler nc) (MG_EV_HTTP_CHUNK (hm\<lparr>body_len := ?n\<rparr>)) ?c = returnM ?c"
    using call_ignored [of H ?c] assms(1) by simp
  ultimately show ?thesis
    using assms(2-4) loop \<open>?n < length ?w\<close>
    by (simp add: mg_handle_chunked_def Let_def with_body_def add.commute del: run_basic(1) length_concat chunk_loop.simps)
qed

lemma recv_chunked:
  assumes "ready nc" "answers_requests H (handler nc)" "chunk_body_len nc = 0" "chunked_request h hm"
    "[] \<notin> set ds" "length (h @ wire_chunks ds) < 2 ^ 62"
  shows "mg_recv_common fuel H (h @ wire_chunks ds) nc =
    bindM (mg_call H (handler nc) (MG_EV_HTTP_REQUEST (with_body h (concat ds) hm))
       (nc\<lparr>recv_mbuf := h @ concat ds, rcvd := length (h @ wire_chunks ds), chunk_body_len := length (concat ds)\<rparr>))
     (\<lambda>c. returnM ((remove_received (length (h @ concat ds)) c)\<lparr>rcvd := 0\<rparr>))"
proof -
  let ?b = "concat ds" and ?w = "wire_chunks ds"
  define c where "c = nc\<lparr>recv_mbuf := h @ ?w, rcvd := length (h @ ?w)\<rparr>"
  define c' where "c' = nc\<lparr>recv_mbuf := h @ ?b, rcvd := length (h @ ?w), chunk_body_len := length ?b\<rparr>"
  have plain: "plain_server nc" "recv_mbuf nc = []" "rcvd nc = 0" using assms(1) by (auto simp: ready_def)
  have shorter: "length ?b < length ?w" by (rule body_shorter)
  have "c\<lparr>recv_mbuf := h @ ?b, chunk_body_len := length ?b\<rparr> = c'" by (simp add: c_def c'_def)
  then have chunked: "mg_handle_chunked H hm (length h) c = returnM (with_body h ?b hm, c')"
    using handle_chunked [of H c h ds hm] assms plain by (simp add: c_def plain_server_def)
  have same: "mg_get_http_header (with_body h ?b hm) k = mg_get_http_header hm k" for k
    by (simp add: with_body_def mg_get_http_header_def)
  have deliver: "deliver_chunk H (with_body h ?b hm) (length h) c' = returnM (with_body h ?b hm, c')"
    using deliver_ignored [of H c'] assms(2) plain by (simp add: c'_def plain_server_def with_body_def message_order)
  have "http_message_step H (with_body h ?b hm) (length h) c' =
      bindM (mg_call H (handler nc) (MG_EV_HTTP_REQUEST (with_body h ?b hm)) c') (\<lambda>c. returnM ((remove_received (length (h @ ?b)) c)\<lparr>rcvd := 0\<rparr>))"
    using shorter plain deliver
    by (simp add: http_message_step_def c'_def with_body_def message_event_def plain_server_def
        mg_http_call_endpoint_handler_def mg_http_get_endpoint_handler_def del: run_basic(1))
  moreover have "mg_recv_common fuel H (h @ ?w) nc = http_recv fuel H (length (h @ ?w)) (nc\<lparr>recv_mbuf := h @ ?w\<rparr>)"
  proof -
    have "receiving nc [] = nc" "nc\<lparr>rcvd := 0, recv_mbuf := h @ ?w\<rparr> = nc\<lparr>recv_mbuf := h @ ?w\<rparr>"
      using plain by (simp_all add: receiving_def)
    then show ?thesis using recv_common [OF plain(1) assms(2), of fuel "h @ ?w" "[]"] by simp
  qed
  moreover have "http_recv fuel H (length (h @ ?w)) (nc\<lparr>recv_mbuf := h @ ?w\<rparr>) = http_message_step H (with_body h ?b hm) (length h) c'"
    using plain assms(4) parse_append [of h True hm ?w] chunked
    by (simp add: http_recv_def c_def chunked_request_def same plain_server_def c'_def del: run_basic(1))
  ultimately show ?thesis by (simp only: c'_def)
qed

section \<open>An example\<close>

definition demo_head :: string where
  "demo_head = ''POST / HTTP/1.1'' @ CRLF @ ''Transfer-Encoding: chunked'' @ CRLF @ CRLF"

definition demo_hm :: http_message where
  "demo_hm = empty_message\<lparr>body_off := 47, http_method := ''POST'', proto := ''HTTP/1.1'', query_string := None, uri := ''/'',
     headers := [(''Transfer-Encoding'', ''chunked'')]\<rparr>"

definition demo_handlers :: "string list handlers" where
  "demo_handlers h ev nc = (case ev of
      MG_EV_HTTP_REQUEST hm \<Rightarrow> bindM (modifyM (\<lambda>l. l @ [take (body_len hm) (drop (body_off hm) (recv_mbuf nc))]))
        (\<lambda>_. returnM (mg_send ''ok'' nc))
    | _ \<Rightarrow> returnM nc)"

definition demo_reply :: "http_message \<Rightarrow> string \<Rightarrow> (string list, string) M" where
  "demo_reply hm buf = bindM (modifyM (\<lambda>l. l @ [take (body_len hm) (drop (body_off hm) buf)])) (\<lambda>_. returnM ''ok'')"

definition demo_connection :: mg_connection where
  "demo_connection = new_connection 0 [] (\<lambda>_. [])"

interpretation demo: http_service demo_handlers h demo_reply for h
proof (unfold_locales, goal_cases)
  case (1 ev nc)
  then show ?case by (cases ev) (auto simp: demo_handlers_def)
qed (simp add: demo_handlers_def demo_reply_def bindM_assoc del: run_basic(1))

lemma demo_parse: "mg_parse_http demo_head True = Inr (length demo_head, demo_hm)"
proof -
  define lines where "lines = ''Transfer-Encoding: chunked'' @ CRLF @ CRLF"
  have buf: "demo_head = ''POST / HTTP/1.1'' @ CRLF @ lines" by (simp add: demo_head_def lines_def)
  have len: "length demo_head = 47" by (simp add: demo_head_def)
  have skip: "mg_skip demo_head '' '' = (''POST'', ''/ HTTP/1.1'' @ CRLF @ lines)"
    "mg_skip (''/ HTTP/1.1'' @ CRLF @ lines) '' '' = (''/'', ''HTTP/1.1'' @ CRLF @ lines)"
    "mg_skip (''HTTP/1.1'' @ CRLF @ lines) [CR, LF] = (''HTTP/1.1'', lines)"
    by (simp_all add: buf lines_def mg_skip_simps is_delim_def)
  have head: "mg_http_get_request_len demo_head = int (length demo_head)"
    by (simp add: demo_head_def mg_http_get_request_len_def http_get_request_len.simps c_isprint_def)
  have start: "dropWhile c_isspace demo_head = demo_head" "demo_head \<noteq> []" by (simp_all add: demo_head_def c_isspace_def)
  have line: "mg_skip lines '': '' = (''Transfer-Encoding'', ''chunked'' @ CRLF @ CRLF)"
    "mg_skip (''chunked'' @ CRLF @ CRLF) [CR, LF] = (''chunked'', [])" "mg_skip [] d = ([], [])" for d
    by (simp_all add: lines_def mg_skip_simps is_delim_def)
  have other: "mg_ncasecmp lines ''Content-Length'' 14 \<noteq> 0"
    by (simp add: lines_def eval_nat_numeral c_tolower_def)
  have trim: "trim_spaces ''chunked'' = ''chunked''" by (simp add: trim_spaces_def)
  have nil: "mg_http_parse_headers [] n i q = q" for n i q
    by (subst mg_http_parse_headers.simps) (simp add: line(3))
  have fields: "mg_http_parse_headers lines (length demo_head) 0 q = q\<lparr>headers := headers q @ [(''Transfer-Encoding'', ''chunked'')]\<rparr>" for q
    using other by (subst mg_http_parse_headers.simps) (simp add: line [simplified] trim nil MG_MAX_HTTP_HEADERS_def Let_def)
  have "length (''/ HTTP/1.1'' @ CRLF @ lines) < length demo_head" by (simp add: buf)
  moreover have "length (''HTTP/1.1'' @ CRLF @ lines) < length (''/ HTTP/1.1'' @ CRLF @ lines)" by simp
  moreover have "mg_vcasecmp ''POST'' ''POST'' = 0" by (simp add: mg_vcasecmp_def eval_nat_numeral)
  ultimately have "mg_parse_http demo_head True = Inr (length demo_head, empty_message\<lparr>body_off := length demo_head,
      http_method := ''POST'', proto := ''HTTP/1.1'', query_string := None, uri := ''/'',
      headers := headers (empty_message\<lparr>body_off := length demo_head, http_method := ''POST'', proto := ''HTTP/1.1'',
        query_string := None, uri := ''/''\<rparr>) @ [(''Transfer-Encoding'', ''chunked'')]\<rparr>)"
    by (intro parse_request [OF head start(2,1) skip _ _ refl]) (simp_all add: fields)
  then show ?thesis by (simp add: demo_hm_def len empty_message_def)
qed

lemma demo_chunked: "chunked_request demo_head demo_hm"
  using demo_parse
  by (simp add: chunked_request_def demo_hm_def is_chunked_def mg_get_http_header_def empty_message_def mg_vcasecmp_def
      eval_nat_numeral c_tolower_def)

lemma demo_ready: "ready demo_connection" "chunk_body_len demo_connection = 0"
  by (simp_all add: demo_connection_def new_connection_def ready_def plain_server_def)

lemma demo_chunk: "http_chunk ''bear'' = ''4'' @ CRLF @ ''bear'' @ CRLF" "http_chunk ''ing'' = ''3'' @ CRLF @ ''ing'' @ CRLF"
  "http_chunk [] = ''0'' @ CRLF @ CRLF"
  by (simp_all add: http_chunk_def upper_hex.simps)

section \<open>Answers and failures\<close>

lemma answer_chunked:
  assumes "ready nc" "replies_with H (handler nc) f" "chunk_body_len nc = 0" "chunked_request h hm"
    "[] \<notin> set ds" "length (h @ wire_chunks ds) < 2 ^ 62"
  shows "mg_recv_common fuel H (h @ wire_chunks ds) nc = bindM (f (with_body h (concat ds) hm) (h @ concat ds))
    (\<lambda>r. returnM ((mg_send r nc)\<lparr>chunk_body_len := length (concat ds)\<rparr>))"
proof -
  let ?c = "nc\<lparr>recv_mbuf := h @ concat ds, rcvd := length (h @ wire_chunks ds), chunk_body_len := length (concat ds)\<rparr>"
  have "answers_requests H (handler nc)" "replies_with H (handler ?c) f" using assms(2) by (auto simp: replies_with_def)
  moreover have "(remove_received (length (h @ concat ds)) (mg_send r ?c))\<lparr>rcvd := 0\<rparr>
      = (mg_send r nc)\<lparr>chunk_body_len := length (concat ds)\<rparr>" for r
    using assms(1) by (simp add: remove_received_def mg_send_def ready_def plain_server_def)
  ultimately show ?thesis
    using recv_chunked [OF assms(1) _ assms(3-6), of H fuel] call_reply [of H ?c f] by (simp add: bindM_assoc del: run_basic(1))
qed



lemma recv_head_chunked:
  assumes "ready nc" "answers_requests H (handler nc)" "chunked_request h hm" "m = (nc\<lparr>recv_mbuf := h @ b, rcvd := length (h @ b)\<rparr>)"
  shows "mg_handle_chunked H hm (length h) m = faultM e \<Longrightarrow> mg_recv_common fuel H (h @ b) nc = faultM e"
    "mg_handle_chunked H hm (length h) m = exitM k \<Longrightarrow> mg_recv_common fuel H (h @ b) nc = exitM k"
proof -
  have plain: "plain_server nc" "recv_mbuf nc = []" "rcvd nc = 0" using assms(1) by (auto simp: ready_def)
  have "receiving nc [] = nc" "nc\<lparr>rcvd := 0, recv_mbuf := h @ b\<rparr> = nc\<lparr>recv_mbuf := h @ b\<rparr>"
    using plain by (simp_all add: receiving_def)
  then have recv: "mg_recv_common fuel H (h @ b) nc = http_recv fuel H (length (h @ b)) (nc\<lparr>recv_mbuf := h @ b\<rparr>)"
    using recv_common [OF plain(1) assms(2), of fuel "h @ b" "[]"] by simp
  have "accepted nc" using plain(1) by (simp add: plain_server_def)
  then show "mg_handle_chunked H hm (length h) m = faultM e \<Longrightarrow> mg_recv_common fuel H (h @ b) nc = faultM e"
    "mg_handle_chunked H hm (length h) m = exitM k \<Longrightarrow> mg_recv_common fuel H (h @ b) nc = exitM k"
    using assms(3) parse_append [of h True hm b] plain(3) unfolding recv assms(4)
    by (simp_all add: http_recv_def chunked_request_def bindM_def fun_eq_iff)
qed



section \<open>The size of a chunk overflows\<close>

text \<open>
  With \<open>FFFFFFFFFFFFFFFE\<close> as its size, a chunk ends before its data begins: the line end behind the size is
  taken for the one behind the data, and the data is moved.
\<close>

lemma overflowing_chunk:
  assumes "\<forall>c \<in> set x. c_isxdigit c" "x \<noteq> []" "hex_value 0 x = 2 ^ 64 - 2" "length (x @ CRLF @ r) < 2 ^ 62"
  shows "mg_http_parse_chunk (x @ CRLF @ r) = Chunk (length x + 2) (length x + 2) (2 ^ 64 - 2)"
proof -
  have "\<not> c_isxdigit CR" by (simp add: c_isxdigit_def c_isdigit_def)
  then have scan: "xdigits (x @ CRLF @ r) 0 = (length x, 2 ^ 64 - 2)"
    using xdigits_append [OF assms(1), of "CRLF @ r" 0] assms(3) by simp
  have first: "crlf_at (x @ CRLF @ r) (length x) = Some True"
    using assms(2,4) by (intro crlf_at_line) auto
  have wrap: "(length x + 2 + (2 ^ 64 - 2)) mod 2 ^ 64 = length x"
  proof -
    have "length x + 2 + (2 ^ 64 - 2) = length x + (2 ^ 64 :: nat)" by simp
    moreover have "length x < 2 ^ 64" using assms(4) by simp
    ultimately show ?thesis by (simp only: mod_add_self2 mod_less)
  qed
  show ?thesis
    unfolding mg_http_parse_chunk_def scan prod.case first option.case bool.case Let_def wrap by simp
qed

text \<open>
  C28. A request that gives its first chunk the size \<open>FFFFFFFFFFFFFFFE\<close> makes the server move that many bytes: the sum
  of the offset and the size wraps, so that the checks accept it.
\<close>

theorem chunk_size_overflows:
  assumes "ready nc" "answers_requests H (handler nc)" "chunk_body_len nc = 0" "chunked_request h hm"
    "\<forall>c \<in> set x. c_isxdigit c" "x \<noteq> []" "hex_value 0 x = 2 ^ 64 - 2" "length (x @ CRLF @ r) < 2 ^ 62"
  shows "mg_recv_common fuel H (h @ x @ CRLF @ r) nc = faultM Bad_index"
proof (rule recv_head_chunked(1) [OF assms(1,2,4) refl])
  let ?b = "x @ CRLF @ r"
  have "memmove 0 (0 + (length x + 2)) (2 ^ 64 - 2) ?b = None" using assms(8) by (simp add: memmove_def)
  then have "chunk_loop (Suc (length ?b)) ?b 0 0 = None"
    using overflowing_chunk [OF assms(5-8)] by (simp only: chunk_loop.simps drop_0 chunk_result.case option.case)
  then show "mg_handle_chunked H hm (length h) (nc\<lparr>recv_mbuf := h @ ?b, rcvd := length (h @ ?b)\<rparr>) = faultM Bad_index"
    using assms(3) by (simp add: mg_handle_chunked_def del: chunk_loop.simps)
qed

lemma chunk_size_overflows_witness:
  "mg_recv_common 1 demo_handlers (demo_head @ ''FFFFFFFFFFFFFFFE'' @ CRLF @ []) demo_connection = faultM Bad_index"
proof (rule chunk_size_overflows [where hm = demo_hm])
  show "hex_value 0 ''FFFFFFFFFFFFFFFE'' = 2 ^ 64 - 2" "\<forall>c \<in> set ''FFFFFFFFFFFFFFFE''. c_isxdigit c"
    by (simp_all add: hex_value_def c_isdigit_def c_tolower_def c_isxdigit_def)
  show "answers_requests demo_handlers (handler demo_connection)"
    using demo.service by (simp add: replies_with_def)
qed (simp_all add: demo_ready demo_chunked)

end
