(* ===== verification/BL_Web.thy ===== *)
theory BL_Web
  imports BL_Initial BL_Web_Stream BL_Web_Parse BL_Web_Chunks
begin

text \<open>
  The module \<^verbatim>\<open>simpleweb\<close> on the web server library: its event handler calls the BearLang function, and the bytes
  that a client sends, in pieces of any size, become the calls of this function and the bytes of the replies.
\<close>

section \<open>The event handler\<close>

text \<open>
  The text of the body: \<open>snprintf\<close> with \<open>%s\<close> stops at a NUL, and at the length of the body. (It reads on
  behind the body until it finds a NUL, which is not modelled.)
\<close>

definition body_text :: "http_message \<Rightarrow> string \<Rightarrow> string" where
  "body_text hm buf = takeWhile (\<lambda>c. c \<noteq> NUL) (take (body_len hm) (drop (body_off hm) buf))"

definition simpleweb_handlers :: "runtime \<Rightarrow> ptr \<Rightarrow> store handlers" where
  "simpleweb_handlers R handler_func h ev nc = (case ev of
      MG_EV_HTTP_REQUEST hm \<Rightarrow> bindM (handle_request R handler_func (http_method hm, uri hm, body_text hm (recv_mbuf nc))) (\<lambda>html.
        returnM (mg_send html (mg_send_head 200 (int (length html)) ''Content-Type: text/html'' nc)))
    | _ \<Rightarrow> returnM nc)"

text \<open>The reply to a message, and the contract of the library.\<close>

definition html_reply :: "string \<Rightarrow> string" where
  "html_reply html = reply_head 200 (int (length html)) ''Content-Type: text/html'' @ html"

definition reply_to :: "runtime \<Rightarrow> ptr \<Rightarrow> http_message \<Rightarrow> string \<Rightarrow> (store, string) M" where
  "reply_to R f hm buf = bindM (handle_request R f (http_method hm, uri hm, body_text hm buf)) (\<lambda>html. returnM (html_reply html))"

interpretation simpleweb: http_service "simpleweb_handlers R f" h "reply_to R f" for R f h
proof (unfold_locales, goal_cases)
  case (1 ev nc)
  then show ?case by (cases ev) (auto simp: simpleweb_handlers_def)
next
  case (2 hm nc)
  then show ?case
    by (simp add: simpleweb_handlers_def reply_to_def html_reply_def mg_send_head_def mg_send_def bindM_assoc del: run_basic(1))
qed

section \<open>Requests\<close>

text \<open>A request as a client means it: method, path, query, protocol, headers and body.\<close>

record request =
  r_method :: string
  r_path :: string
  r_query :: "string option"
  r_proto :: string
  r_headers :: "(string \<times> string) list"
  r_body :: string

definition request_head :: "request \<Rightarrow> string" where
  "request_head r = format_head (r_method r) (r_path r) (r_query r) (r_proto r) (r_headers r) (length (r_body r))"

definition request_bytes :: "request \<Rightarrow> string" where
  "request_bytes r = request_head r @ r_body r"

definition ordinary_header :: "string \<times> string \<Rightarrow> bool" where
  "ordinary_header h \<longleftrightarrow> map c_tolower (fst h) \<noteq> map c_tolower ''Transfer-Encoding'' \<and>
     map c_tolower (fst h) \<noteq> map c_tolower ''Sec-WebSocket-Key''"

definition ordinary_request :: "request \<Rightarrow> bool" where
  "ordinary_request r \<longleftrightarrow> well_formed_request (r_method r) (r_path r) (r_query r) (r_proto r) (r_headers r) (length (r_body r)) \<and>
     (\<forall>h \<in> set (r_headers r). ordinary_header h) \<and> length (request_head r) \<le> MG_MAX_HTTP_REQUEST_SIZE"

text \<open>What the server is to do: call the function for each request, and send what it gives.\<close>

primrec web_replies :: "runtime \<Rightarrow> ptr \<Rightarrow> request list \<Rightarrow> (store, string) M" where
  "web_replies R f [] = returnM []"
| "web_replies R f (r # rs) = bindM (handle_request R f (r_method r, r_path r, takeWhile (\<lambda>c. c \<noteq> NUL) (r_body r))) (\<lambda>html.
     bindM (web_replies R f rs) (\<lambda>x. returnM (html_reply html @ x)))"

lemma header_absent:
  assumes "\<forall>h \<in> set hs. NUL \<notin> set (fst h) \<and> map c_tolower (fst h) \<noteq> map c_tolower name" "headers hm = hs"
  shows "mg_get_http_header hm name = None"
proof -
  have "mg_ncasecmp (fst h) name (length name) \<noteq> 0" if "h \<in> set hs" "length (fst h) = length name" for h
    using assms(1) that mg_ncasecmp_eq [of "fst h" "length name" name] by auto
  then have "find (\<lambda>(h, v). length h = length name \<and> mg_ncasecmp h name (length name) = 0) hs = None"
    by (fastforce simp: find_None_iff)
  then show ?thesis by (simp add: mg_get_http_header_def assms(2))
qed

lemma ordinary_length: "ordinary_header (length_header n)" "NUL \<notin> set (fst (length_header n))"
  by (simp_all add: ordinary_header_def length_header_def c_tolower_def)

definition the_request :: "request \<Rightarrow> http_message" where
  "the_request r = the_message (r_method r) (r_path r) (r_query r) (r_proto r) (r_headers r) (length (r_body r))"

lemma the_request_simps:
  "http_method (the_request r) = r_method r" "uri (the_request r) = r_path r" "body_off (the_request r) = length (request_head r)"
  "message_len (the_request r) = length (request_head r) + length (r_body r)" "body_len (the_request r) = length (r_body r)"
  "headers (the_request r) = r_headers r @ [length_header (length (r_body r))]"
  by (simp_all add: the_request_def the_message_def request_head_def Let_def)

lemma ordinary_whole:
  assumes "ordinary_request r"
  shows "whole_message (request_head r) (r_body r) (the_request r)"
proof -
  have wf: "well_formed_request (r_method r) (r_path r) (r_query r) (r_proto r) (r_headers r) (length (r_body r))"
    using assms by (simp add: ordinary_request_def)
  have no_nul: "NUL \<notin> set (fst h)" if "h \<in> set (r_headers r)" for h
    using request_parts(5) [OF wf] that word_simps(2) [of "'': ''" "fst h"] head_char_simps(3)
    unfolding well_formed_header_def by blast
  have "\<forall>h \<in> set (r_headers r). ordinary_header h" using assms by (simp add: ordinary_request_def)
  then have ordinary: "ordinary_header h \<and> NUL \<notin> set (fst h)" if "h \<in> set (r_headers r @ [length_header (length (r_body r))])" for h
    using that ordinary_length no_nul by (cases "h \<in> set (r_headers r)") auto
  have "mg_get_http_header (the_request r) ''Transfer-Encoding'' = None"
    using ordinary by (intro header_absent [OF _ the_request_simps(6)]) (auto simp only: ordinary_header_def)
  moreover have "mg_get_http_header (the_request r) ''Sec-WebSocket-Key'' = None"
    using ordinary by (intro header_absent [OF _ the_request_simps(6)]) (auto simp only: ordinary_header_def)
  ultimately show ?thesis
    using parse_format_head [OF wf] assms
    by (simp add: whole_message_def plain_message_def is_chunked_def the_request_simps ordinary_request_def)
      (simp add: the_request_def request_head_def)
qed

text \<open>The function gets exactly the method, the path and the body of the request.\<close>

lemma reply_to_request:
  "reply_to R f ((the_request r)\<lparr>body_len := length b\<rparr>) (request_head r @ b)
    = bindM (handle_request R f (r_method r, r_path r, takeWhile (\<lambda>c. c \<noteq> NUL) b)) (\<lambda>html. returnM (html_reply html))"
  by (simp add: reply_to_def body_text_def the_request_simps)

definition sent_in_pieces :: "request \<Rightarrow> string list \<Rightarrow> bool" where
  "sent_in_pieces r ps \<longleftrightarrow> [] \<notin> set ps \<and> concat ps = request_bytes r"

definition sent :: "request \<Rightarrow> string list \<Rightarrow> sent_message" where
  "sent r ps = (request_head r, r_body r, the_request r, ps)"

lemma sent_well:
  "ordinary_request r \<Longrightarrow> length (request_bytes r) < recv_mbuf_limit nc \<Longrightarrow> sent_in_pieces r ps \<Longrightarrow> well_sent nc (sent r ps)"
  using ordinary_whole [of r] by (simp add: well_sent_def sent_def sent_in_pieces_def request_bytes_def)

lemma replies_sent: "length rs = length pss \<Longrightarrow> all_replies (reply_to R f) (map2 sent rs pss) = web_replies R f rs"
proof (induction rs pss rule: list_induct2)
  case (Cons r rs ps pss)
  then show ?case using reply_to_request [of R f "r_body r" r]
    by (simp add: sent_def bindM_assoc del: run_basic(1))
qed simp

lemma pieces_sent: "length rs = length pss \<Longrightarrow> all_pieces (map2 sent rs pss) = concat pss"
  by (induction rs pss rule: list_induct2) (simp_all add: sent_def all_pieces_def)

lemma all_well_sent:
  assumes "\<forall>r \<in> set rs. ordinary_request r \<and> length (request_bytes r) < recv_mbuf_limit nc"
    "\<forall>(r, ps) \<in> set (zip rs pss). sent_in_pieces r ps"
  shows "\<forall>m \<in> set (map2 sent rs pss). well_sent nc m"
proof -
  have "well_sent nc (sent r ps)" if "(r, ps) \<in> set (zip rs pss)" for r ps
    using that assms set_zip_leftD by (intro sent_well) fastforce+
  then show ?thesis by auto
qed

section \<open>An example\<close>

text \<open>A request with a query, a header and a body, and a cut inside a header name.\<close>

definition demo_request :: request where
  "demo_request = \<lparr>r_method = ''POST'', r_path = ''/a'', r_query = Some ''x=1'', r_proto = ''HTTP/1.1'',
     r_headers = [(''Host'', ''bear'')], r_body = ''hi''\<rparr>"

lemma demo_limit: "recv_mbuf_limit demo_connection = 2 ^ 64 - 1"
  by (simp add: demo_connection_def new_connection_def)

lemma demo_bytes: "request_head demo_request = ''POST /a?x=1 HTTP/1.1'' @ CRLF @ ''Host: bear'' @ CRLF @ ''Content-Length: 2'' @ CRLF @ CRLF"
    "r_body demo_request = ''hi''"
proof -
  have "digit_char 2 = CHR ''2''" by code_simp
  then show "request_head demo_request = ''POST /a?x=1 HTTP/1.1'' @ CRLF @ ''Host: bear'' @ CRLF @ ''Content-Length: 2'' @ CRLF @ CRLF"
    "r_body demo_request = ''hi''"
    by (simp_all add: demo_request_def request_head_def format_head_def header_line_def length_header_def mpz_get_str_def
        nat_digits.simps)
qed

lemma demo_ordinary: "ordinary_request demo_request"
proof -
  have "length (request_head demo_request) = 55" by (simp add: demo_bytes)
  moreover have "\<not> names_length ''Host''" by (simp add: names_length_def c_tolower_def)
  ultimately show ?thesis
    by (simp add: ordinary_request_def well_formed_request_def request_head_def [symmetric] MG_MAX_HTTP_REQUEST_SIZE_def MG_MAX_HTTP_HEADERS_def)
      (simp add: demo_request_def word_of_def head_char_def c_isprint_def well_formed_header_def ordinary_header_def c_tolower_def)
qed

section \<open>Serving\<close>





end
