(* ===== verification/BL_Web_Frames.thy ===== *)
theory BL_Web_Frames
  imports BL_Web_Stream BL_Web_Props
begin

text \<open>
  Websocket frames: what one side sends, the other side receives, in order, whatever the length of the data and
  with or without a mask; a message in fragments is put together.
\<close>

unbundle bit_operations_syntax

section \<open>Numbers\<close>

lemma be_bytes_Suc: "be_bytes (Suc k) n = char_of (n div 256 ^ k) # be_bytes k n"
proof -
  have "map (\<lambda>i. char_of (n div 256 ^ (k - i))) [0..<Suc k] = char_of (n div 256 ^ k) # map (\<lambda>i. char_of (n div 256 ^ (k - Suc i))) [0..<k]"
    by (simp add: map_upt_Suc del: upt_Suc)
  then show ?thesis by (simp add: be_bytes_def)
qed

lemma length_be_bytes [simp]: "length (be_bytes k n) = k"
  by (simp add: be_bytes_def)

lemma be_value_from: "foldl (\<lambda>n c. 256 * n + byte c) a s = a * 256 ^ length s + be_value s"
proof (induction s arbitrary: a)
  case (Cons c s)
  show ?case using Cons.IH [of "256 * a + byte c"] Cons.IH [of "byte c"] by (simp add: be_value_def algebra_simps)
qed (simp add: be_value_def)

lemma be_value_Cons: "be_value (c # s) = byte c * 256 ^ length s + be_value s"
  using be_value_from [of "byte c" s] by (simp add: be_value_def)

lemma be_value_bytes: "be_value (be_bytes k n) = n mod 256 ^ k"
proof (induction k)
  case (Suc k)
  have "n mod (256 ^ k * 256) = 256 ^ k * (n div 256 ^ k mod 256) + n mod 256 ^ k" by (rule mod_mult2_eq)
  then show ?case using Suc by (simp add: be_bytes_Suc be_value_Cons of_char_of mult.commute)
qed (simp add: be_bytes_def be_value_def)

section \<open>Masks\<close>

lemma char_xor_xor: "char_of (byte (char_of (byte c XOR m)) XOR (m :: nat)) = c"
proof -
  have "take_bit 8 (take_bit 8 (byte c XOR m) XOR m) = take_bit 8 (byte c)"
    by (simp add: take_bit_xor xor.assoc)
  moreover have "byte (char_of (byte c XOR m)) = take_bit 8 (byte c XOR m)"
    by (simp add: of_char_of take_bit_eq_mod)
  ultimately have "char_of (byte (char_of (byte c XOR m)) XOR m) = (char_of (take_bit 8 (byte c)) :: char)"
    using char_of_take_bit_eq [of 8 "take_bit 8 (byte c XOR m) XOR m"] by simp
  then show ?thesis by (simp add: char_of_take_bit_eq)
qed

lemma length_xor_mask [simp]: "length (xor_mask key data) = length data"
  by (simp add: xor_mask_def)

lemma xor_mask_twice: "xor_mask key (xor_mask key data) = data"
  by (rule nth_equalityI) (simp_all add: xor_mask_def char_xor_xor [unfolded of_char_of])

section \<open>The header of a frame\<close>

text \<open>A frame with the number of its operation, the last one of its message or not, with a mask or without one.\<close>

definition wire :: "nat \<Rightarrow> string option \<Rightarrow> string \<Rightarrow> string" where
  "wire op key data = ws_header op (length data) (key \<noteq> None) @ (case key of None \<Rightarrow> data | Some k \<Rightarrow> k @ xor_mask k data)"

lemma send_wire:
  "send_mbuf (mg_send_websocket_frame op data nc) = send_mbuf nc @ wire op (if accepted nc then None else Some (masks nc 0)) data"
  by (simp add: mg_send_websocket_frame_def wire_def mg_send_def set_flag_def Let_def)

definition op_code :: "nat \<Rightarrow> nat" where
  "op_code op = (if op AND WEBSOCKET_DONT_FIN \<noteq> 0 then 0 else 128) + op mod 16"

lemma op_code_bounds: "op_code op < 256"
  using mod_less_divisor [of 16 op] by (simp add: op_code_def del: mod_less_divisor)

lemma or_128: "k < 128 \<Longrightarrow> 128 OR k = 128 + (k :: nat)"
  using or_plus [of k 7 1] by simp

lemma and_128: "(x :: nat) AND 128 = 0 \<longleftrightarrow> even (x div 128)"
  using and_exp_eq_0_iff_not_bit [of x 7] by (simp add: bit_iff_odd)

lemma header_byte: "char_of ((if op AND WEBSOCKET_DONT_FIN \<noteq> 0 then 0 else 128) OR (op AND 15)) = (char_of (op_code op) :: char)"
proof -
  have "128 OR op mod 16 = 128 + op mod 16" by (rule or_128) (simp add: less_le_trans [of _ 16])
  then show ?thesis by (cases "op AND WEBSOCKET_DONT_FIN = 0") (simp_all add: op_code_def and_low del: char_of_eq_iff)
qed

text \<open>The header with the mask is what \<open>frame_lengths\<close> reads.\<close>

definition key_of :: "string option \<Rightarrow> string" where
  "key_of key = (case key of None \<Rightarrow> [] | Some k \<Rightarrow> k)"

definition good_key :: "string option \<Rightarrow> bool" where
  "good_key key \<longleftrightarrow> (case key of None \<Rightarrow> True | Some k \<Rightarrow> length k = 4)"

definition masked :: "string option \<Rightarrow> string \<Rightarrow> string" where
  "masked key data = (case key of None \<Rightarrow> data | Some k \<Rightarrow> xor_mask k data)"

lemma wire_parts: "wire op key data = ws_header op (length data) (key \<noteq> None) @ key_of key @ masked key data"
  by (auto simp: wire_def key_of_def masked_def split: option.splits)

lemma length_masked [simp]: "length (masked key data) = length data"
  by (auto simp: masked_def split: option.splits)

lemma ws_header_eq:
  "ws_header op len m = char_of (op_code op) # (let b = (if m then 128 else 0) in
     if len < 126 then [char_of (len + b)] else if len < 65535 then char_of (126 + b) # be_bytes 2 len
     else char_of (127 + b) # be_bytes 8 len)"
  unfolding ws_header_def header_byte Let_def by (rule refl)

lemma second_byte:
  assumes "l < 128"
  shows "byte (char_of (l + (if m then 128 else 0 :: nat))) AND 127 = l"
    "byte (char_of (l + (if m then 128 else 0))) AND 128 \<noteq> 0 \<longleftrightarrow> m"
proof -
  have "(l + 128) div 128 = 1" using assms by simp
  then show "byte (char_of (l + (if m then 128 else 0 :: nat))) AND 127 = l"
    "byte (char_of (l + (if m then 128 else 0))) AND 128 \<noteq> 0 \<longleftrightarrow> m"
    using assms by (auto simp: of_char_of and_low and_128)
qed

lemma frame_lengths_wire:
  assumes "good_key key" "length data < 2 ^ 63"
  shows "frame_lengths (wire op key data @ rest) =
    (length (ws_header op (length data) (key \<noteq> None)) + length (key_of key), length data, length (key_of key))"
proof -
  define n where "n = length data"
  define t where "t = key_of key @ masked key data @ rest"
  have key: "length (key_of key) = (if key \<noteq> None then 4 else 0)" "length (key_of key) \<le> length t"
    using assms(1) by (auto simp: key_of_def good_key_def t_def split: option.splits)
  have w: "wire op key data @ rest = ws_header op n (key \<noteq> None) @ t" by (simp add: wire_parts t_def n_def)
  consider "n < 126" | "126 \<le> n" "n < 65535" | "65535 \<le> n" by linarith
  then show ?thesis
  proof cases
    case 1
    then show ?thesis using key second_byte [of n] unfolding w n_def [symmetric]
      by (auto simp: ws_header_eq frame_lengths_def Let_def)
  next
    case 2
    moreover have "be_value (be_bytes 2 n) = n" using 2 be_value_bytes [of 2 n] by simp
    ultimately show ?thesis using key second_byte [of 126] unfolding w n_def [symmetric]
      by (auto simp: ws_header_eq frame_lengths_def Let_def)
  next
    case 3
    moreover have "be_value (be_bytes 8 n) = n" using assms(2) be_value_bytes [of 8 n] by (simp add: n_def)
    ultimately show ?thesis using key second_byte [of 127] unfolding w n_def [symmetric]
      by (auto simp: ws_header_eq frame_lengths_def Let_def)
  qed
qed

section \<open>Receiving a frame\<close>

text \<open>A connection with the message \<open>pre\<close> so far in its receive buffer, and \<open>t\<close> behind it.\<close>

definition holding :: "mg_connection \<Rightarrow> string \<Rightarrow> string \<Rightarrow> mg_connection" where
  "holding nc pre t = nc\<lparr>recv_mbuf := pre @ t, reass_len := length pre\<rparr>"

lemma holding_simps [simp]:
  "recv_mbuf (holding nc pre t) = pre @ t" "reass_len (holding nc pre t) = length pre"
  "handler (holding nc pre t) = handler nc" "flags (holding nc pre t) = flags nc"
  "(holding nc pre t)\<lparr>recv_mbuf := u\<rparr> = nc\<lparr>recv_mbuf := u, reass_len := length pre\<rparr>"
  by (simp_all add: holding_def)

definition head_bytes :: "nat \<Rightarrow> string option \<Rightarrow> string \<Rightarrow> string" where
  "head_bytes op key data = ws_header op (length data) (key \<noteq> None) @ key_of key"

lemma xor_mask_key: "length k = 4 \<Longrightarrow> xor_mask (k @ x) d = xor_mask k d"
  by (rule nth_equalityI) (simp_all add: xor_mask_def nth_append)

lemma unmask:
  assumes "good_key key"
  shows "(if length (key_of key) > 0 then xor_mask (key_of key @ x) (masked key data) else masked key data) = data"
  using assms xor_mask_key xor_mask_twice by (cases key) (auto simp: good_key_def key_of_def masked_def)

lemma wire_head: "hd0 (wire op key data @ t) = char_of (op_code op)" "wire op key data \<noteq> []"
  by (simp_all add: wire_parts ws_header_eq)

lemma deliver_wire:
  assumes "good_key key" "length data < 2 ^ 63"
    "reass = (mg_is_ws_fragment (op_code op) \<and> MG_F_WEBSOCKET_NO_DEFRAG \<notin> flags nc)"
    "\<not> (reass \<and> mg_is_ws_control_frame (op_code op))"
    "reass \<or> mg_is_ws_control_frame (op_code op) \<or> pre = []"
  shows "mg_deliver_websocket_data H (holding nc pre (wire op key data @ t)) =
    bindM (let c = holding nc pre (head_bytes op key data @ data @ t); h = length (head_bytes op key data) in
        if reass then ws_fragment H (op_code op) h (length data) c
        else ws_complete H (op_code op) data (h + length data) c) (\<lambda>c. returnM (True, c))"
proof -
  define nd where "nd = wire op key data @ t"
  define h where "h = length (ws_header op (length data) (key \<noteq> None)) + length (key_of key)"
  have nd: "nd = head_bytes op key data @ masked key data @ t" "length nd > 0" "length nd \<ge> h + length data"
    "take h nd = head_bytes op key data" "take (length data) (drop h nd) = masked key data" "drop (h + length data) nd = t"
    "drop (h - length (key_of key)) nd = key_of key @ masked key data @ t"
    by (simp_all add: nd_def h_def head_bytes_def wire_parts ws_header_eq)
  have lengths: "frame_lengths nd = (h, length data, length (key_of key))"
    using frame_lengths_wire [OF assms(1,2)] by (simp add: nd_def h_def)
  have "h \<le> 14" using assms(1)
    by (auto simp: h_def ws_header_eq key_of_def good_key_def Let_def split: option.splits)
  then have small: "(h + length data) mod 18446744073709551616 = h + length data" using assms(2) by simp
  have "h > 0" by (simp add: h_def ws_header_eq)
  have first: "byte (hd0 nd) = op_code op" using wire_head(1) [of op key data t] op_code_bounds [of op]
    by (simp add: nd_def of_char_of)
  have length_head: "length (head_bytes op key data) = h" by (simp add: head_bytes_def h_def)
  have non_empty: "nd \<noteq> []" and long: "\<not> length nd < h + length data" using nd(2,3) by auto
  have un: "key_of key \<noteq> [] \<Longrightarrow> xor_mask (key_of key @ masked key data @ t) (masked key data) = data"
    "key_of key = [] \<Longrightarrow> masked key data = data"
    using unmask [OF assms(1), of "masked key data @ t" data] by auto
  show ?thesis
    unfolding mg_deliver_websocket_data_def Let_def nd_def [symmetric]
    using \<open>h > 0\<close> assms(4,5) non_empty long
    by (cases reass) (auto simp: lengths first small nd(4-) un assms(3) [symmetric] length_head holding_def [symmetric])
qed

section \<open>Messages\<close>

text \<open>A message in fragments: the first has the operation, the last one ends it.\<close>

fun continuations :: "(string option \<times> string) list \<Rightarrow> string" where
  "continuations [] = []"
| "continuations [(k, d)] = wire 0 k d"
| "continuations ((k, d) # f # fs) = wire WEBSOCKET_DONT_FIN k d @ continuations (f # fs)"

definition wire_message :: "nat \<Rightarrow> (string option \<times> string) list \<Rightarrow> string" where
  "wire_message op fs = (case fs of [] \<Rightarrow> [] | [(k, d)] \<Rightarrow> wire op k d
     | (k, d) # fs' \<Rightarrow> wire (op + WEBSOCKET_DONT_FIN) k d @ continuations fs')"

definition frame_data :: "(string option \<times> string) list \<Rightarrow> string" where
  "frame_data fs = concat (map snd fs)"

text \<open>A data message: not a control frame, and of a total length that fits.\<close>

definition data_message :: "nat \<times> (string option \<times> string) list \<Rightarrow> bool" where
  "data_message m \<longleftrightarrow> (case m of (op, fs) \<Rightarrow> 0 < op \<and> op < 8 \<and> fs \<noteq> [] \<and> (\<forall>(k, d) \<in> set fs. good_key k) \<and>
     length (frame_data fs) < 2 ^ 62)"

definition the_frame :: "nat \<Rightarrow> string \<Rightarrow> websocket_message" where
  "the_frame op data = \<lparr>ws_data = data, ws_size = length data, ws_flags = 128 OR op\<rparr>"

text \<open>A handler that does something for each message and leaves the connection alone.\<close>

definition gets_messages :: "'w handlers \<Rightarrow> nat \<Rightarrow> (websocket_message \<Rightarrow> ('w, unit) M) \<Rightarrow> bool" where
  "gets_messages H h g \<longleftrightarrow> (\<forall>wsm nc. H h (MG_EV_WEBSOCKET_FRAME wsm) nc = bindM (g wsm) (\<lambda>_. returnM nc))"

lemma dont_fin: "op < 16 \<Longrightarrow> op AND WEBSOCKET_DONT_FIN = 0" "op < 16 \<Longrightarrow> (op + WEBSOCKET_DONT_FIN) AND WEBSOCKET_DONT_FIN \<noteq> 0"
  using and_exp_eq_0_iff_not_bit [of op 8] and_exp_eq_0_iff_not_bit [of "op + 256" 8] div_add_self2 [of 256 op]
  by (simp_all add: WEBSOCKET_DONT_FIN_def bit_iff_odd)

lemma op_codes: "op < 16 \<Longrightarrow> op_code op = 128 + op" "op < 16 \<Longrightarrow> op_code (op + WEBSOCKET_DONT_FIN) = op"
  using dont_fin [of op] mod_mult_self1 [of op 16 16] by (simp_all add: op_code_def) (simp_all add: WEBSOCKET_DONT_FIN_def)

lemma op_code_plain: "op_code 0 = 128" "op_code WEBSOCKET_DONT_FIN = 0"
  using op_codes [of 0] by simp_all

lemma code_kinds:
  assumes "op < 8"
  shows "mg_is_ws_fragment (128 + op) \<longleftrightarrow> op = 0" "mg_is_ws_fragment op" "\<not> mg_is_ws_control_frame (128 + op)"
    "\<not> mg_is_ws_control_frame op" "(128 + op) AND 8 = 0" "mg_is_ws_first_fragment op \<longleftrightarrow> op > 0"
    "\<not> mg_is_ws_first_fragment (128 + op)" "(128 + op) AND 128 \<noteq> 0" "op AND 128 = 0" "128 OR op = 128 + op"
    "(128 + op) AND 15 = op"
proof -
  have "op \<in> {0, 1, 2, 3, 4, 5, 6, 7}" using assms by auto
  then show "mg_is_ws_fragment (128 + op) \<longleftrightarrow> op = 0" "mg_is_ws_fragment op" "\<not> mg_is_ws_control_frame (128 + op)"
    "\<not> mg_is_ws_control_frame op" "(128 + op) AND 8 = 0" "mg_is_ws_first_fragment op \<longleftrightarrow> op > 0"
    "\<not> mg_is_ws_first_fragment (128 + op)" "(128 + op) AND 128 \<noteq> 0" "op AND 128 = 0" "128 OR op = 128 + op"
    "(128 + op) AND 15 = op"
    by (auto simp: mg_is_ws_fragment_def mg_is_ws_control_frame_def mg_is_ws_first_fragment_def
        WEBSOCKET_OP_CLOSE_def WEBSOCKET_OP_PING_def WEBSOCKET_OP_PONG_def)
qed

lemma call_message:
  assumes "gets_messages H (handler nc) g" "ws_flags wsm AND 8 = 0"
  shows "mg_handle_incoming_websocket_frame H wsm nc = bindM (g wsm) (\<lambda>_. returnM nc)"
  using assms restored_flags [of nc]
  by (simp add: mg_handle_incoming_websocket_frame_def mg_call_def gets_messages_def bindM_assoc del: run_basic(1))

lemma update_order: "nc\<lparr>reass_len := n, recv_mbuf := x\<rparr> = nc\<lparr>recv_mbuf := x, reass_len := n\<rparr>"
  by simp

lemma receive_single:
  assumes "good_key k" "length d < 2 ^ 62" "0 < op" "op < 8" "gets_messages H (handler nc) g"
  shows "mg_deliver_websocket_data H (holding nc [] (wire op k d @ t))
    = bindM (g (the_frame op d)) (\<lambda>_. returnM (True, holding nc [] t))"
proof -
  note kinds = code_kinds [OF assms(4)]
  let ?c = "holding nc [] (head_bytes op k d @ d @ t)"
  have "ws_complete H (128 + op) d (length (head_bytes op k d) + length d) ?c
      = bindM (g (the_frame op d)) (\<lambda>_. returnM (holding nc [] t))"
    using assms(3,4) kinds call_message [of H ?c g "\<lparr>ws_data = d, ws_size = length d, ws_flags = 128 + op\<rparr>"] assms(5)
    by (simp add: ws_complete_def WEBSOCKET_OP_PING_def WEBSOCKET_OP_CLOSE_def the_frame_def bindM_assoc
        holding_def update_order del: run_basic(1))
  then show ?thesis
    using deliver_wire [OF assms(1), of d False op nc "[]" H t] assms kinds
    by (simp add: op_codes bindM_assoc del: run_basic(1))
qed

lemma receive_first:
  assumes "good_key k" "length d < 2 ^ 62" "0 < op" "op < 8" "MG_F_WEBSOCKET_NO_DEFRAG \<notin> flags nc"
  shows "mg_deliver_websocket_data H (holding nc [] (wire (op + WEBSOCKET_DONT_FIN) k d @ t))
    = returnM (True, holding nc (char_of op # d) t)"
proof -
  note kinds = code_kinds [OF assms(4)]
  let ?b = "head_bytes (op + WEBSOCKET_DONT_FIN) k d"
  have code: "op_code (op + WEBSOCKET_DONT_FIN) = op" using assms(4) op_codes(2) by simp
  then have start: "take (Suc 0) ?b = [char_of op]" "Suc 0 \<le> length ?b" by (simp_all add: head_bytes_def ws_header_eq)
  have "ws_fragment H op (length ?b) (length d) (holding nc [] (?b @ d @ t)) = returnM (holding nc (char_of op # d) t)"
    using start kinds assms(3) by (simp add: ws_fragment_def holding_def update_order del: length_greater_0_conv Suc_le_eq)
  then show ?thesis
    using deliver_wire [OF assms(1), of d True "op + WEBSOCKET_DONT_FIN" nc "[]" H t] assms(2,5) kinds
    by (simp add: code del: run_basic(1))
qed

lemma receive_middle:
  assumes "good_key k" "length d < 2 ^ 62" "MG_F_WEBSOCKET_NO_DEFRAG \<notin> flags nc" "acc \<noteq> []"
  shows "mg_deliver_websocket_data H (holding nc acc (wire WEBSOCKET_DONT_FIN k d @ t)) = returnM (True, holding nc (acc @ d) t)"
proof -
  let ?b = "head_bytes WEBSOCKET_DONT_FIN k d"
  have "ws_fragment H 0 (length ?b) (length d) (holding nc acc (?b @ d @ t)) = returnM (holding nc (acc @ d) t)"
    using code_kinds [of 0] by (simp add: ws_fragment_def holding_def update_order)
  then show ?thesis
    using deliver_wire [OF assms(1), of d True WEBSOCKET_DONT_FIN nc acc H t] assms(2,3) code_kinds [of 0] op_code_plain
    by (simp del: run_basic(1))
qed

lemma receive_last_fragment:
  assumes "good_key k" "length d < 2 ^ 62" "MG_F_WEBSOCKET_NO_DEFRAG \<notin> flags nc" "gets_messages H (handler nc) g"
    "op < 8" "length (acc @ d) < 2 ^ 62"
  shows "mg_deliver_websocket_data H (holding nc (char_of op # acc) (wire 0 k d @ t))
    = bindM (g (the_frame op (acc @ d))) (\<lambda>_. returnM (True, holding nc [] t))"
proof -
  note kinds = code_kinds [OF assms(5)]
  let ?b = "head_bytes 0 k d" and ?pre = "char_of op # acc"
  let ?c = "nc\<lparr>recv_mbuf := ?pre @ d @ t, reass_len := 0\<rparr>" and ?n = "length ?pre + length d"
  have size: "(?n + (2 ^ 64 - 1)) mod 2 ^ 64 = length (acc @ d)" using assms(6) by simp
  have flag: "128 OR byte (hd0 (?pre @ d @ t)) = 128 OR op" using assms(5) by (simp add: of_char_of)
  have moved: "take (length ?pre) (?pre @ ?b @ d @ t) @ drop (length ?pre + length ?b) (?pre @ ?b @ d @ t) = ?pre @ d @ t"
    by simp
  have data: "take (length (acc @ d)) (drop 1 (?pre @ d @ t)) = acc @ d" by simp
  have "gets_messages H (handler ?c) g" using assms(4) by simp
  then have call: "mg_handle_incoming_websocket_frame H (the_frame op (acc @ d)) ?c = bindM (g (the_frame op (acc @ d))) (\<lambda>_. returnM ?c)"
    by (rule call_message) (simp add: the_frame_def kinds(5,10))
  have rest: "remove_received ?n ?c = holding nc [] t" by (simp add: remove_received_def holding_def)
  have "ws_fragment H 128 (length ?b) (length d) (holding nc ?pre (?b @ d @ t))
      = bindM (mg_handle_incoming_websocket_frame H (the_frame op (acc @ d)) ?c) (\<lambda>c. returnM (remove_received ?n c))"
    unfolding ws_fragment_def Let_def holding_simps using code_kinds(7,8) [of 0]
    by (simp only: add_0_right if_False if_True moved size flag data) (simp add: the_frame_def holding_def update_order del: run_basic(1))
  also have "\<dots> = bindM (g (the_frame op (acc @ d))) (\<lambda>_. returnM (holding nc [] t))"
    by (simp only: call bindM_assoc bindM_return_left rest)
  finally have "ws_fragment H 128 (length ?b) (length d) (holding nc ?pre (?b @ d @ t))
      = bindM (g (the_frame op (acc @ d))) (\<lambda>_. returnM (holding nc [] t))" .
  then show ?thesis
    using deliver_wire [OF assms(1), of d True 0 nc ?pre H t] assms(2,3) code_kinds [of 0] op_code_plain
    by (simp add: bindM_assoc del: run_basic(1))
qed

section \<open>A stream of messages\<close>

definition frame_count :: "(nat \<times> (string option \<times> string) list) list \<Rightarrow> nat" where
  "frame_count ms = sum_list (map (\<lambda>(op, fs). length fs) ms)"

definition wire_messages :: "(nat \<times> (string option \<times> string) list) list \<Rightarrow> string" where
  "wire_messages ms = concat (map (\<lambda>(op, fs). wire_message op fs) ms)"

primrec deliver_all :: "(websocket_message \<Rightarrow> ('w, unit) M) \<Rightarrow> (nat \<times> (string option \<times> string) list) list \<Rightarrow> ('w, unit) M" where
  "deliver_all g [] = returnM ()"
| "deliver_all g (m # ms) = (case m of (op, fs) \<Rightarrow> bindM (g (the_frame op (frame_data fs))) (\<lambda>_. deliver_all g ms))"

lemma deliver_nothing: "mg_deliver_websocket_data H (holding nc [] []) = returnM (False, holding nc [] [])"
  by (simp add: mg_deliver_websocket_data_def frame_lengths_def)

lemma loop_continuations:
  assumes "MG_F_WEBSOCKET_NO_DEFRAG \<notin> flags nc" "gets_messages H (handler nc) g" "op < 8"
  shows "\<forall>(k, d) \<in> set fs. good_key k \<Longrightarrow> fs \<noteq> [] \<Longrightarrow> length (acc @ frame_data fs) < 2 ^ 62 \<Longrightarrow>
    ws_loop (length fs + n) H (holding nc (char_of op # acc) (continuations fs @ t))
    = bindM (g (the_frame op (acc @ frame_data fs))) (\<lambda>_. ws_loop n H (holding nc [] t))"
proof (induction fs arbitrary: acc rule: continuations.induct)
  case (2 k d)
  then show ?case using receive_last_fragment [OF _ _ assms, of k d acc t]
    by (simp add: frame_data_def bindM_assoc)
next
  case (3 k d f fs)
  then have "mg_deliver_websocket_data H (holding nc (char_of op # acc) (wire WEBSOCKET_DONT_FIN k d @ continuations (f # fs) @ t))
      = returnM (True, holding nc (char_of op # (acc @ d)) (continuations (f # fs) @ t))"
    using receive_middle [of k d nc "char_of op # acc" H] assms(1) by (simp add: frame_data_def)
  moreover have "ws_loop (length (f # fs) + n) H (holding nc (char_of op # (acc @ d)) (continuations (f # fs) @ t))
      = bindM (g (the_frame op ((acc @ d) @ frame_data (f # fs)))) (\<lambda>_. ws_loop n H (holding nc [] t))"
    using "3.prems" by (intro "3.IH") (auto simp: frame_data_def)
  ultimately show ?case by (simp add: frame_data_def)
qed simp

lemma loop_message:
  assumes "MG_F_WEBSOCKET_NO_DEFRAG \<notin> flags nc" "gets_messages H (handler nc) g" "data_message (op, fs)"
  shows "ws_loop (length fs + n) H (holding nc [] (wire_message op fs @ t))
    = bindM (g (the_frame op (frame_data fs))) (\<lambda>_. ws_loop n H (holding nc [] t))"
proof -
  obtain k d fs' where fs: "fs = (k, d) # fs'" using assms(3) by (cases fs) (auto simp: data_message_def)
  have facts: "0 < op" "op < 8" "good_key k" "\<forall>(k, d) \<in> set fs'. good_key k" "length (d @ frame_data fs') < 2 ^ 62"
    using assms(3) by (auto simp: data_message_def fs frame_data_def)
  show ?thesis
  proof (cases fs')
    case Nil
    then show ?thesis using receive_single [OF facts(3) _ facts(1,2) assms(2), of d t] facts(5)
      by (simp add: fs wire_message_def frame_data_def bindM_assoc)
  next
    case (Cons f fs'')
    then have w: "wire_message op fs @ t = wire (op + WEBSOCKET_DONT_FIN) k d @ continuations fs' @ t"
      by (cases f) (simp add: fs wire_message_def)
    have "mg_deliver_websocket_data H (holding nc [] (wire_message op fs @ t))
        = returnM (True, holding nc (char_of op # d) (continuations fs' @ t))"
      unfolding w using facts by (intro receive_first assms(1)) auto
    moreover have "ws_loop (length fs' + n) H (holding nc (char_of op # d) (continuations fs' @ t))
        = bindM (g (the_frame op (d @ frame_data fs'))) (\<lambda>_. ws_loop n H (holding nc [] t))"
      using facts Cons by (intro loop_continuations assms) auto
    ultimately show ?thesis by (simp add: fs frame_data_def)
  qed
qed

lemma frames_delivered:
  assumes "recv_mbuf nc = wire_messages ms" "reass_len nc = 0" "MG_F_WEBSOCKET_NO_DEFRAG \<notin> flags nc"
    "gets_messages H (handler nc) g" "\<forall>m \<in> set ms. data_message m"
  shows "ws_loop (Suc (frame_count ms)) H nc = bindM (deliver_all g ms) (\<lambda>_. returnM (nc\<lparr>recv_mbuf := []\<rparr>))"
proof -
  have "ws_loop (frame_count ms + 1) H (holding nc [] (wire_messages ms))
      = bindM (deliver_all g ms) (\<lambda>_. returnM (holding nc [] []))"
    using assms(5)
  proof (induction ms)
    case Nil
    then show ?case using deliver_nothing [of H nc] by (simp add: frame_count_def wire_messages_def)
  next
    case (Cons m ms)
    obtain op fs where m: "m = (op, fs)" by (cases m)
    have "frame_count (m # ms) + 1 = length fs + (frame_count ms + 1)"
      "wire_messages (m # ms) = wire_message op fs @ wire_messages ms"
      by (simp_all add: m frame_count_def wire_messages_def)
    then have "ws_loop (frame_count (m # ms) + 1) H (holding nc [] (wire_messages (m # ms)))
        = bindM (g (the_frame op (frame_data fs))) (\<lambda>_. ws_loop (frame_count ms + 1) H (holding nc [] (wire_messages ms)))"
      using loop_message [OF assms(3,4), of op fs] Cons.prems m by (simp only: list.set insertI1 simp_thms)
    then show ?case using Cons.IH Cons.prems by (simp add: m bindM_assoc del: ws_loop.simps)
  qed
  moreover have "holding nc [] (wire_messages ms) = nc" "holding nc [] [] = nc\<lparr>recv_mbuf := []\<rparr>"
    using assms(1,2) by (simp_all add: holding_def)
  ultimately show ?thesis by simp
qed

section \<open>From one side to the other\<close>

text \<open>The calls with which a program sends a message in fragments, and a list of messages.\<close>

fun send_continuations :: "string list \<Rightarrow> mg_connection \<Rightarrow> mg_connection" where
  "send_continuations [] c = c"
| "send_continuations [d] c = mg_send_websocket_frame 0 d c"
| "send_continuations (d # e # ds) c = send_continuations (e # ds) (mg_send_websocket_frame WEBSOCKET_DONT_FIN d c)"

definition send_message :: "nat \<times> string list \<Rightarrow> mg_connection \<Rightarrow> mg_connection" where
  "send_message m c = (case m of (op, ds) \<Rightarrow> (case ds of [] \<Rightarrow> c | [d] \<Rightarrow> mg_send_websocket_frame op d c
     | d # ds' \<Rightarrow> send_continuations ds' (mg_send_websocket_frame (op + WEBSOCKET_DONT_FIN) d c)))"

definition mask_numbers :: "mg_connection \<Rightarrow> bool" where
  "mask_numbers c \<longleftrightarrow> (\<forall>i. length (masks c i) = 4)"

definition the_key :: "mg_connection \<Rightarrow> string option" where
  "the_key c = (if accepted c then None else Some (masks c 0))"

definition good_frames :: "(string option \<times> string) list \<Rightarrow> bool" where
  "good_frames fs \<longleftrightarrow> (\<forall>(k, d) \<in> set fs. good_key k)"

lemma send_keeps:
  "mask_numbers c \<Longrightarrow> mask_numbers (mg_send_websocket_frame op d c)" "mask_numbers c \<Longrightarrow> good_key (the_key c)"
  by (auto simp: mask_numbers_def mg_send_websocket_frame_def mg_send_def set_flag_def the_key_def good_key_def Let_def)

lemma send_wire_key: "send_mbuf (mg_send_websocket_frame op d c) = send_mbuf c @ wire op (the_key c) d"
  by (simp add: send_wire the_key_def)

lemma send_continuations_wire:
  "mask_numbers c \<Longrightarrow> \<exists>fs. send_mbuf (send_continuations ds c) = send_mbuf c @ continuations fs \<and> map snd fs = ds \<and>
     good_frames fs \<and> mask_numbers (send_continuations ds c)"
proof (induction ds c rule: send_continuations.induct)
  case (2 d c)
  then show ?case using send_keeps(1) [OF "2.prems", of 0 d] send_keeps(2) [OF "2.prems"]
    by (intro exI [of _ "[(the_key c, d)]"]) (simp only: send_continuations.simps continuations.simps list.map snd_conv
        send_wire_key good_frames_def list.set ball_simps case_prod_conv simp_thms)
next
  case (3 d e ds c)
  from "3.IH" [OF send_keeps(1) [OF "3.prems"]]
  obtain fs where fs: "send_mbuf (send_continuations (e # ds) (mg_send_websocket_frame WEBSOCKET_DONT_FIN d c))
      = send_mbuf (mg_send_websocket_frame WEBSOCKET_DONT_FIN d c) @ continuations fs" "map snd fs = e # ds" "good_frames fs"
    "mask_numbers (send_continuations (e # ds) (mg_send_websocket_frame WEBSOCKET_DONT_FIN d c))"
    by (elim exE conjE) (rule that)
  then have "continuations ((the_key c, d) # fs) = wire WEBSOCKET_DONT_FIN (the_key c) d @ continuations fs"
    by (cases fs) auto
  then show ?case using fs send_keeps(2) [OF "3.prems"]
    by (intro exI [of _ "(the_key c, d) # fs"]) (simp add: send_wire_key good_frames_def)
next
  case (1 c)
  then show ?case by (intro exI [of _ "[]"]) (simp add: good_frames_def)
qed

lemma send_message_wire:
  assumes "mask_numbers c"
  shows "\<exists>fs. send_mbuf (send_message (op, ds) c) = send_mbuf c @ wire_message op fs \<and> map snd fs = ds \<and> good_frames fs \<and>
    mask_numbers (send_message (op, ds) c)"
proof (cases ds rule: remdups_adj.cases)
  case 1
  then show ?thesis using assms by (intro exI [of _ "[]"]) (simp add: send_message_def wire_message_def good_frames_def)
next
  case (2 d)
  then show ?thesis using assms send_keeps [OF assms]
    by (intro exI [of _ "[(the_key c, d)]"]) (simp add: send_message_def wire_message_def good_frames_def send_wire_key)
next
  case (3 d e ds')
  from send_continuations_wire [OF send_keeps(1) [OF assms], of "e # ds'" "op + WEBSOCKET_DONT_FIN" d]
  obtain fs where fs: "send_mbuf (send_continuations (e # ds') (mg_send_websocket_frame (op + WEBSOCKET_DONT_FIN) d c))
      = send_mbuf (mg_send_websocket_frame (op + WEBSOCKET_DONT_FIN) d c) @ continuations fs" "map snd fs = e # ds'" "good_frames fs"
    "mask_numbers (send_continuations (e # ds') (mg_send_websocket_frame (op + WEBSOCKET_DONT_FIN) d c))"
    by (elim exE conjE) (rule that)
  then have "wire_message op ((the_key c, d) # fs) = wire (op + WEBSOCKET_DONT_FIN) (the_key c) d @ continuations fs"
    by (cases fs) (auto simp: wire_message_def)
  then show ?thesis using fs send_keeps(2) [OF assms] 3
    by (intro exI [of _ "(the_key c, d) # fs"]) (simp add: send_message_def send_wire_key good_frames_def)
qed

lemma send_messages_wire:
  "mask_numbers c \<Longrightarrow> \<exists>ms'. send_mbuf (fold send_message ms c) = send_mbuf c @ wire_messages ms' \<and>
     map (\<lambda>(op, fs). (op, map snd fs)) ms' = ms \<and> (\<forall>(op, fs) \<in> set ms'. good_frames fs)"
proof (induction ms arbitrary: c)
  case Nil
  then show ?case by (intro exI [of _ "[]"]) (simp add: wire_messages_def)
next
  case (Cons m ms)
  obtain op ds where m: "m = (op, ds)" by (cases m)
  obtain fs where fs: "send_mbuf (send_message m c) = send_mbuf c @ wire_message op fs" "map snd fs = ds" "good_frames fs"
    "mask_numbers (send_message m c)"
    using send_message_wire [OF Cons.prems] m by blast
  obtain ms' where "send_mbuf (fold send_message ms (send_message m c)) = send_mbuf (send_message m c) @ wire_messages ms'"
    "map (\<lambda>(op, fs). (op, map snd fs)) ms' = ms" "\<forall>(op, fs) \<in> set ms'. good_frames fs"
    using Cons.IH [OF fs(4)] by blast
  then show ?case using fs m by (intro exI [of _ "(op, fs) # ms'"]) (simp add: wire_messages_def)
qed

text \<open>What the receiver's program gets: every message once, whole, in order.\<close>

primrec get_all :: "(websocket_message \<Rightarrow> ('w, unit) M) \<Rightarrow> (nat \<times> string list) list \<Rightarrow> ('w, unit) M" where
  "get_all g [] = returnM ()"
| "get_all g (m # ms) = (case m of (op, ds) \<Rightarrow> bindM (g (the_frame op (concat ds))) (\<lambda>_. get_all g ms))"

definition sendable :: "nat \<times> string list \<Rightarrow> bool" where
  "sendable m \<longleftrightarrow> (case m of (op, ds) \<Rightarrow> 0 < op \<and> op < 8 \<and> ds \<noteq> [] \<and> length (concat ds) < 2 ^ 62)"

lemma deliver_get: "deliver_all g ms' = get_all g (map (\<lambda>(op, fs). (op, map snd fs)) ms')"
  by (induction ms') (auto simp: frame_data_def)

text \<open>
  C6. Messages that one side sends as websocket frames, each whole or in fragments, with a mask when it is a client,
  arrive at the program of the other side: every message once, in order, with its operation and its data.
\<close>

theorem frames_exchanged:
  assumes "send_mbuf c = []" "mask_numbers c" "\<forall>m \<in> set ms. sendable m"
    "recv_mbuf nc = send_mbuf (fold send_message ms c)" "reass_len nc = 0" "MG_F_WEBSOCKET_NO_DEFRAG \<notin> flags nc"
    "gets_messages H (handler nc) g"
  shows "ws_loop (Suc (sum_list (map (length \<circ> snd) ms))) H nc = bindM (get_all g ms) (\<lambda>_. returnM (nc\<lparr>recv_mbuf := []\<rparr>))"
proof -
  obtain ms' where ms': "send_mbuf (fold send_message ms c) = wire_messages ms'" "map (\<lambda>(op, fs). (op, map snd fs)) ms' = ms"
    "\<forall>(op, fs) \<in> set ms'. good_frames fs"
    using send_messages_wire [OF assms(2), of ms] assms(1) by auto
  have "data_message m" if "m \<in> set ms'" for m
  proof -
    obtain op fs where m: "m = (op, fs)" by (cases m)
    then have "(op, map snd fs) \<in> set ms" using that ms'(2) by (force simp: image_iff)
    then show ?thesis using assms(3) ms'(3) that m
      by (auto simp: sendable_def data_message_def good_frames_def frame_data_def)
  qed
  moreover have "frame_count ms' = sum_list (map (length \<circ> snd) ms)"
    unfolding ms'(2) [symmetric] by (simp add: frame_count_def comp_def split_def)
  ultimately show ?thesis
    using frames_delivered [of nc ms' H g] assms(4-7) ms'(1) deliver_get [of g ms'] ms'(2) by simp
qed

text \<open>A client that sends a whole message and one in two fragments, and a server that keeps a list of them.\<close>

definition demo_client :: mg_connection where
  "demo_client = (new_connection 0 [] (\<lambda>_. ''abcd''))\<lparr>accepted := False\<rparr>"

definition demo_messages :: "(nat \<times> string list) list" where
  "demo_messages = [(1, [''hi'']), (2, [''a'', ''bc''])]"

definition demo_frame_handlers :: "string list handlers" where
  "demo_frame_handlers h ev nc = (case ev of
      MG_EV_WEBSOCKET_FRAME wsm \<Rightarrow> bindM (modifyM (\<lambda>l. l @ [ws_data wsm])) (\<lambda>_. returnM nc) | _ \<Rightarrow> returnM nc)"

lemma frames_exchanged_witness:
  "\<exists>nc. recv_mbuf nc = send_mbuf (fold send_message demo_messages demo_client) \<and>
     ws_loop 4 demo_frame_handlers nc [] = Ret (nc\<lparr>recv_mbuf := []\<rparr>) [''hi'', ''abc'']"
proof -
  define nc where "nc = (new_connection 0 [] (\<lambda>_. []))\<lparr>recv_mbuf := send_mbuf (fold send_message demo_messages demo_client)\<rparr>"
  have count: "Suc (sum_list (map (length \<circ> snd) demo_messages)) = 4" by (simp add: demo_messages_def)
  have "ws_loop (Suc (sum_list (map (length \<circ> snd) demo_messages))) demo_frame_handlers nc
      = bindM (get_all (\<lambda>wsm. modifyM (\<lambda>l. l @ [ws_data wsm])) demo_messages) (\<lambda>_. returnM (nc\<lparr>recv_mbuf := []\<rparr>))"
    by (rule frames_exchanged [of demo_client])
      (auto simp: demo_client_def new_connection_def mask_numbers_def demo_messages_def sendable_def nc_def gets_messages_def
        demo_frame_handlers_def)
  then have "ws_loop 4 demo_frame_handlers nc [] = Ret (nc\<lparr>recv_mbuf := []\<rparr>) [''hi'', ''abc'']"
    unfolding count by (simp only:) (simp add: demo_messages_def the_frame_def run_simps)
  then show ?thesis by (intro exI [of _ nc]) (simp add: nc_def)
qed

end
