(* ===== verification/BL_Web_Uri.thy ===== *)
theory BL_Web_Uri
  imports BL_Web_Enc
begin

text \<open>
  Addresses (\<^verbatim>\<open>mg_uri.c\<close>): parsing into parts, putting them together, and the normal form of a path, in which
  no component leads to another directory.
\<close>

section \<open>Parsing\<close>

text \<open>The component before the first separator, and the text behind this separator.\<close>

definition parse_uri_component :: "string \<Rightarrow> string \<Rightarrow> string \<times> string" where
  "parse_uri_component s seps = (let c = takeWhile (\<lambda>x. x \<notin> set seps) s in (c, drop (length c + 1) s))"

record uri_parts =
  u_scheme :: string
  u_user_info :: string
  u_host :: string
  u_port :: nat
  u_path :: string
  u_query :: string
  u_fragment :: string

datatype uri_state = P_START | P_SCHEME_OR_PORT | P_USER_INFO | P_HOST | P_PORT | P_REST

text \<open>The digits of a port: an unsigned int, from characters that are not checked.\<close>

definition port_value :: "nat \<Rightarrow> string \<Rightarrow> nat" where
  "port_value = foldl (\<lambda>n c. nat ((10 * int n + schar c - 48) mod 2 ^ 32))"

text \<open>
  One round of the loop at the rest \<open>p\<close> of the address; \<open>before p\<close> is the part of the address before it. The result
  is the new state and rest, \<open>None\<close> where the code returns -1.
\<close>

definition uri_rest :: "string \<Rightarrow> uri_parts \<Rightarrow> uri_parts" where
  "uri_rest p u = (case parse_uri_component p ''?#'' of (path, p1) \<Rightarrow>
     let has_query = (p1 \<noteq> [] \<and> p ! length path = CHR ''?'');
         (query, p2) = (if has_query then parse_uri_component p1 ''#'' else (u_query u, p1)) in
     u\<lparr>u_path := path, u_query := query, u_fragment := fst (parse_uri_component p2 [])\<rparr>)"

definition uri_host :: "string \<Rightarrow> uri_parts \<Rightarrow> (uri_state \<times> string \<times> uri_parts) option" where
  "uri_host p u = (let p = (if hd0 p = CHR ''@'' then tl p else p) in
     if hd0 p = CHR ''['' \<and> CHR '']'' \<notin> set p then None
     else let host = (if hd0 p = CHR ''['' then takeWhile (\<lambda>c. c \<noteq> CHR '']'') p @ '']''
                      else takeWhile (\<lambda>c. c \<noteq> CHR '':'' \<and> c \<noteq> CHR ''/'') p); p = drop (length host) p in
       Some (if p \<noteq> [] \<and> hd p = CHR '':'' then P_PORT else if p \<noteq> [] \<and> hd p = CHR ''/'' then P_REST else P_HOST, p,
         u\<lparr>u_host := host\<rparr>))"

definition uri_step :: "string \<Rightarrow> uri_state \<Rightarrow> string \<Rightarrow> uri_parts \<Rightarrow> (uri_state \<times> string \<times> uri_parts) option" where
  "uri_step uri st p u = (let before = (\<lambda>p. take (length uri - length p) uri) in case st of
      P_START \<Rightarrow> if hd0 p = CHR ''['' then Some (P_HOST, p, u)
        else let q = dropWhile (\<lambda>c. c \<noteq> CHR '':'' \<and> c \<noteq> CHR ''/'') p in
          if hd0 q = CHR '':'' \<and> q \<noteq> [] then Some (P_SCHEME_OR_PORT, q, u)
          else Some (if q \<noteq> [] then P_REST else P_START, q, u\<lparr>u_host := before q\<rparr>)
    | P_SCHEME_OR_PORT \<Rightarrow> if take 3 p = ''://'' then Some (P_USER_INFO, drop 3 p, u\<lparr>u_scheme := before p\<rparr>)
        else Some (P_PORT, p, u\<lparr>u_host := before p\<rparr>)
    | P_USER_INFO \<Rightarrow> let info = takeWhile (\<lambda>c. c \<notin> set ''@[/'') p; q = drop (length info) p in
        if q = [] \<or> hd q = CHR ''/'' \<or> hd q = CHR ''['' then Some (P_HOST, p, u\<lparr>u_user_info := []\<rparr>)
        else Some (P_HOST, q, u\<lparr>u_user_info := info\<rparr>)
    | P_HOST \<Rightarrow> uri_host p u
    | P_PORT \<Rightarrow> let ds = takeWhile (\<lambda>c. c \<noteq> CHR ''/'') (tl p); q = drop (length ds) (tl p) in
        Some (if q \<noteq> [] then P_REST else P_PORT, q, u\<lparr>u_port := port_value (u_port u) ds\<rparr>)
    | P_REST \<Rightarrow> Some (P_REST, [], uri_rest p u))"

primrec uri_rank :: "uri_state \<Rightarrow> nat" where
  "uri_rank P_START = 5"
| "uri_rank P_SCHEME_OR_PORT = 4"
| "uri_rank P_USER_INFO = 3"
| "uri_rank P_HOST = 2"
| "uri_rank P_PORT = 1"
| "uri_rank P_REST = 0"

text \<open>Every round takes some characters, or goes on to a later state with the same rest.\<close>

lemma uri_host_progress:
  "uri_host p u = Some (st', p', u') \<Longrightarrow> p \<noteq> [] \<Longrightarrow>
   length p' < length p \<or> length p' = length p \<and> uri_rank st' < uri_rank P_HOST"
  by (cases p) (auto simp: uri_host_def Let_def split: if_splits)

lemma uri_start_progress:
  assumes "uri_step uri P_START p u = Some (st', p', u')" "p \<noteq> []"
  shows "length p' < length p \<or> length p' = length p \<and> uri_rank st' < 5"
proof -
  define q where "q = dropWhile (\<lambda>c. c \<noteq> CHR '':'' \<and> c \<noteq> CHR ''/'') p"
  have "st' = P_HOST \<and> p' = p \<or> p' = q \<and> (st' = P_SCHEME_OR_PORT \<or> st' = P_REST \<or> q = [])"
    using assms(1) by (simp only: uri_step_def uri_state.case Let_def q_def [symmetric]) (simp split: if_splits)
  moreover have "length q \<le> length p" by (simp add: q_def length_dropWhile_le)
  ultimately show ?thesis using assms(2) by (cases "length q = length p") auto
qed

lemma uri_step_progress:
  assumes "uri_step uri st p u = Some (st', p', u')" "p \<noteq> []"
  shows "length p' < length p \<or> length p' = length p \<and> uri_rank st' < uri_rank st"
proof (cases st)
  case P_START
  then show ?thesis using assms uri_start_progress by simp
next
  case P_SCHEME_OR_PORT
  then show ?thesis using assms by (cases "take 3 p = ''://''") (auto simp: uri_step_def)
next
  case P_USER_INFO
  then have "st' = P_HOST" "length p' \<le> length p" using assms(1) by (auto simp: uri_step_def Let_def split: if_splits)
  then show ?thesis using P_USER_INFO by auto
next
  case P_HOST
  then show ?thesis using assms uri_host_progress [of p u st' p' u'] by (simp add: uri_step_def)
next
  case P_PORT
  then have "length p' \<le> length (tl p)" using assms(1) by (auto simp: uri_step_def Let_def)
  then show ?thesis using assms(2) by (cases p) auto
next
  case P_REST
  then show ?thesis using assms by (simp add: uri_step_def)
qed

function uri_loop :: "string \<Rightarrow> uri_state \<Rightarrow> string \<Rightarrow> uri_parts \<Rightarrow> uri_parts option" where
  "uri_loop uri st p u = (if p = [] then Some u else case uri_step uri st p u of
       None \<Rightarrow> None | Some (st', p', u') \<Rightarrow> uri_loop uri st' p' u')"
  by pat_completeness auto
termination
  by (relation "measures [\<lambda>(uri, st, p, u). length p, \<lambda>(uri, st, p, u). uri_rank st]")
    (auto dest: uri_step_progress)

declare uri_loop.simps [simp del]

definition mg_parse_uri :: "string \<Rightarrow> uri_parts option" where
  "mg_parse_uri uri = uri_loop uri P_START uri \<lparr>u_scheme = [], u_user_info = [], u_host = [], u_port = 0, u_path = [],
     u_query = [], u_fragment = []\<rparr>"

section \<open>Normal paths\<close>

text \<open>The output so far without its last component.\<close>

definition backtrack :: "string \<Rightarrow> string" where
  "backtrack d = (let d = (if length d > 1 \<and> last d = CHR ''/'' then butlast d else d) in
     rev (dropWhile (\<lambda>c. c \<noteq> CHR ''/'') (rev d)))"

function normalize_loop :: "string \<Rightarrow> string \<Rightarrow> string" where
  "normalize_loop s d = (if s = [] then d else case parse_uri_component s ''/'' of (component, nxt) \<Rightarrow>
     normalize_loop nxt (if mg_vcmp component ''.'' = 0 then d else if mg_vcmp component ''..'' = 0 then backtrack d
       else d @ take (length s - length nxt) s))"
  by pat_completeness auto
termination
  by (relation "measure (\<lambda>(s, d). length s)") (auto simp: parse_uri_component_def Let_def)

declare normalize_loop.simps [simp del]

definition mg_normalize_uri_path :: "string \<Rightarrow> string option" where
  "mg_normalize_uri_path s = (if s = [] \<or> hd s \<noteq> CHR ''/'' then None
     else let d = normalize_loop s [] in Some (if d = [] then ''/'' else d))"

section \<open>Putting an address together\<close>

definition mg_assemble_uri :: "uri_parts \<Rightarrow> bool \<Rightarrow> string option" where
  "mg_assemble_uri u normalize_path = (let pre = (if u_scheme u \<noteq> [] then u_scheme u @ ''://'' else [])
       @ (if u_user_info u \<noteq> [] then u_user_info u @ ''@'' else []) @ u_host u
       @ (if u_port u \<noteq> 0 then '':'' @ mpz_get_str (int (u_port u)) else []);
     post = (if u_query u \<noteq> [] then ''?'' @ u_query u else []) @ (if u_fragment u \<noteq> [] then ''#'' @ u_fragment u else []) in
     if u_path u \<noteq> [] then (if normalize_path
       then (case mg_normalize_uri_path (u_path u) of None \<Rightarrow> None | Some path \<Rightarrow> Some (pre @ path @ post))
       else Some (pre @ u_path u @ post))
     else Some (pre @ (if normalize_path then ''/'' else []) @ post))"

section \<open>What a normal path is\<close>

text \<open>The components of a path between the slashes, and the reference: directories on a stack.\<close>

fun components :: "string \<Rightarrow> string list" where
  "components [] = [[]]"
| "components (c # s) = (if c = CHR ''/'' then [] # components s
     else (c # hd (components s)) # tl (components s))"

definition enter :: "string list \<Rightarrow> string \<Rightarrow> string list" where
  "enter st c = (if c = ''.'' then st else if c = ''..'' then butlast st else st @ [c])"

definition directory :: "string list \<Rightarrow> string" where
  "directory st = ''/'' @ concat (map (\<lambda>c. c @ ''/'') st)"

text \<open>The last component is a file of the directory, unless it is a dot or two.\<close>

definition resolve :: "string list \<Rightarrow> string" where
  "resolve cs = (let st = foldl enter [] (butlast cs); file = last cs in
     if file = ''.'' \<or> file = ''..'' then directory (enter st file) else directory st @ file)"

definition no_slash :: "string \<Rightarrow> bool" where
  "no_slash c \<longleftrightarrow> CHR ''/'' \<notin> set c"

lemma components_plain: "no_slash c \<Longrightarrow> components c = [c]"
  by (induction c) (auto simp: no_slash_def)

lemma components_slash: "no_slash c \<Longrightarrow> components (c @ ''/'' @ t) = c # components t"
  by (induction c) (auto simp: no_slash_def)

lemma components_ne: "components t \<noteq> []"
  by (induction t) auto

lemma components_directory: "\<forall>c \<in> set st. no_slash c \<Longrightarrow> no_slash f \<Longrightarrow> components (tl (directory st @ f)) = st @ [f]"
proof (induction st)
  case (Cons c st)
  have "tl (directory (c # st) @ f) = c @ ''/'' @ tl (directory st @ f)" by (simp add: directory_def)
  then show ?case using Cons components_slash by simp
qed (simp add: directory_def components_plain)

lemma directory_snoc: "directory (st @ [c]) = directory st @ c @ ''/''"
  by (simp add: directory_def)

lemma directory_end: "\<exists>x. directory st = x @ ''/''"
  by (cases st rule: rev_cases) (auto simp: directory_snoc, simp add: directory_def)

lemma backtrack_component:
  assumes "no_slash c"
  shows "backtrack (x @ ''/'' @ c @ ''/'') = x @ ''/''"
proof -
  have "butlast (x @ ''/'' @ c @ ''/'') = x @ ''/'' @ c" by (simp add: butlast_append)
  moreover have "dropWhile (\<lambda>x. x \<noteq> CHR ''/'') (rev c @ CHR ''/'' # rev x) = CHR ''/'' # rev x"
    using assms by (subst dropWhile_append2) (auto simp: no_slash_def)
  ultimately show ?thesis by (simp add: backtrack_def)
qed

lemma backtrack_directory:
  assumes "\<forall>c \<in> set st. no_slash c"
  shows "backtrack (directory st) = directory (butlast st)"
proof (cases st rule: rev_cases)
  case Nil
  then show ?thesis by (simp add: backtrack_def directory_def)
next
  case (snoc st' c)
  obtain x where "directory st' = x @ ''/''" using directory_end by blast
  then show ?thesis using backtrack_component [of c x] assms by (simp add: snoc directory_snoc)
qed

text \<open>The rest of a path from a directory.\<close>

definition resolve_from :: "string list \<Rightarrow> string list \<Rightarrow> string" where
  "resolve_from st cs = (let st = foldl enter st (butlast cs); file = last cs in
     if file = ''.'' \<or> file = ''..'' then directory (enter st file) else directory st @ file)"

lemma resolve_from_Cons: "cs \<noteq> [] \<Longrightarrow> resolve_from st (c # cs) = resolve_from (enter st c) cs"
  by (simp add: resolve_from_def)

lemma component_split:
  obtains "no_slash s" "parse_uri_component s ''/'' = (s, [])"
  | c t where "no_slash c" "s = c @ ''/'' @ t" "parse_uri_component s ''/'' = (c, t)"
proof (cases "no_slash s")
  case True
  then have eq: "takeWhile (\<lambda>x. x \<notin> set ''/'') s = s" unfolding takeWhile_eq_all_conv by (auto simp: no_slash_def)
  have "parse_uri_component s ''/'' = (s, [])" unfolding parse_uri_component_def eq by simp
  then show ?thesis using that(1) True by blast
next
  case False
  then obtain c t where s: "s = c @ CHR ''/'' # t" "CHR ''/'' \<notin> set c"
    using split_list_first [of "CHR ''/''" s] by (auto simp: no_slash_def)
  then have "takeWhile (\<lambda>x. x \<noteq> CHR ''/'') s = c" by (subst s(1), subst takeWhile_append2) auto
  then show ?thesis using that(2) [of c t] s by (simp add: parse_uri_component_def Let_def no_slash_def)
qed

lemma enter_slash: "\<forall>c \<in> set st. no_slash c \<Longrightarrow> no_slash c \<Longrightarrow> \<forall>c \<in> set (enter st c). no_slash c"
  by (auto simp: enter_def dest: in_set_butlastD)

lemma dot_cmp: "length c < 2 ^ 31 \<Longrightarrow> mg_vcmp c ''.'' = 0 \<longleftrightarrow> c = ''.''" "length c < 2 ^ 31 \<Longrightarrow> mg_vcmp c ''..'' = 0 \<longleftrightarrow> c = ''..''"
  by (rule mg_vcmp_eq; simp)+

text \<open>One round of the loop at the end of the path, and in the middle.\<close>

lemma loop_nil: "normalize_loop [] d = d"
  by (simp add: normalize_loop.simps)

lemma loop_component:
  assumes "s \<noteq> []" "parse_uri_component s ''/'' = (c, t)" "length c < 2 ^ 31"
  shows "normalize_loop s d = normalize_loop t
    (if c = ''.'' then d else if c = ''..'' then backtrack d else d @ take (length s - length t) s)"
proof -
  have "normalize_loop s d = normalize_loop t (if mg_vcmp c ''.'' = 0 then d else if mg_vcmp c ''..'' = 0 then backtrack d
       else d @ take (length s - length t) s)"
    by (subst normalize_loop.simps) (simp only: assms(1,2) prod.case if_False)
  then show ?thesis by (simp only: dot_cmp [OF assms(3)])
qed

lemma loop_last:
  assumes "no_slash s" "parse_uri_component s ''/'' = (s, [])" "\<forall>c \<in> set st. no_slash c" "length s < 2 ^ 31"
  shows "normalize_loop s (directory st) = resolve_from st [s]"
proof (cases "s = []")
  case True
  then show ?thesis by (simp add: loop_nil resolve_from_def)
next
  case False
  have "normalize_loop s (directory st)
      = (if s = ''.'' then directory st else if s = ''..'' then directory (butlast st) else directory st @ s)"
    using loop_component [OF False assms(2,4), of "directory st"] backtrack_directory [OF assms(3)] by (simp add: loop_nil)
  then show ?thesis by (cases "s = ''.''"; cases "s = ''..''") (simp_all add: resolve_from_def enter_def)
qed

lemma loop_middle:
  assumes "no_slash c" "s = c @ ''/'' @ t" "parse_uri_component s ''/'' = (c, t)" "\<forall>c \<in> set st. no_slash c" "length s < 2 ^ 31"
  shows "normalize_loop s (directory st) = normalize_loop t (directory (enter st c))"
proof -
  have "length c < 2 ^ 31" "s \<noteq> []" "take (length s - length t) s = c @ ''/''" using assms(2,5) by simp_all
  then show ?thesis
    using loop_component [OF _ assms(3), of "directory st"] backtrack_directory [OF assms(4)]
    by (cases "c = ''.''"; cases "c = ''..''") (simp_all add: enter_def directory_snoc)
qed

lemma loop_resolve:
  "\<forall>c \<in> set st. no_slash c \<Longrightarrow> length s < 2 ^ 31 \<Longrightarrow> normalize_loop s (directory st) = resolve_from st (components s)"
proof (induction "length s" arbitrary: s st rule: less_induct)
  case less
  show ?case
  proof (cases s rule: component_split)
    case 1
    then show ?thesis using loop_last less.prems components_plain by simp
  next
    case (2 c t)
    have "normalize_loop s (directory st) = normalize_loop t (directory (enter st c))"
      by (rule loop_middle [OF 2 less.prems])
    also have "\<dots> = resolve_from (enter st c) (components t)"
      using enter_slash [OF less.prems(1) 2(1)] less.prems(2) by (intro less.hyps) (simp_all add: 2(2))
    also have "\<dots> = resolve_from st (components s)"
      unfolding 2(2) components_slash [OF 2(1)] by (rule resolve_from_Cons [OF components_ne, symmetric])
    finally show ?thesis .
  qed
qed

lemma normalize_resolve:
  assumes "length t < 2 ^ 31"
  shows "mg_normalize_uri_path (''/'' @ t) = Some (resolve (components t))"
proof -
  have dots: "mg_vcmp [] ''.'' \<noteq> 0" "mg_vcmp [] ''..'' \<noteq> 0" by (simp_all add: mg_vcmp_eq)
  have "parse_uri_component (''/'' @ t) ''/'' = ([], t)" by (simp add: parse_uri_component_def)
  then have "normalize_loop (''/'' @ t) [] = normalize_loop t (directory [])"
    using dots by (subst normalize_loop.simps) (simp add: directory_def)
  also have "\<dots> = resolve_from [] (components t)" using assms by (intro loop_resolve) simp_all
  finally have "normalize_loop (''/'' @ t) [] = resolve (components t)" by (simp add: resolve_from_def resolve_def)
  moreover have "resolve (components t) \<noteq> []" by (simp add: resolve_def directory_def Let_def)
  ultimately show ?thesis by (simp add: mg_normalize_uri_path_def)
qed

text \<open>No component of the result leads out of its directory, and it is its own normal form.\<close>

definition plain_component :: "string \<Rightarrow> bool" where
  "plain_component c \<longleftrightarrow> no_slash c \<and> c \<noteq> ''.'' \<and> c \<noteq> ''..''"

lemma enter_plain: "no_slash c \<Longrightarrow> \<forall>c \<in> set st. plain_component c \<Longrightarrow> \<forall>c \<in> set (enter st c). plain_component c"
  by (auto simp: enter_def plain_component_def dest: in_set_butlastD)

lemma enter_all_plain:
  "\<forall>c \<in> set cs. no_slash c \<Longrightarrow> \<forall>c \<in> set st. plain_component c \<Longrightarrow> \<forall>c \<in> set (foldl enter st cs). plain_component c"
proof (induction cs arbitrary: st)
  case (Cons c cs)
  then have "\<forall>c \<in> set (enter st c). plain_component c" by (intro enter_plain) auto
  then show ?case using Cons by simp
qed simp

lemma components_no_slash: "\<forall>c \<in> set (components t). no_slash c"
proof (induction t)
  case (Cons a t)
  then show ?case using components_ne [of t] hd_in_set [of "components t"] list.set_sel(2) [of "components t"]
    by (auto simp: no_slash_def)
qed (simp add: no_slash_def)

lemma resolve_plain:
  assumes "cs \<noteq> []" "\<forall>c \<in> set cs. no_slash c"
  shows "\<exists>st f. resolve cs = directory st @ f \<and> plain_component f \<and> (\<forall>c \<in> set st. plain_component c)"
proof -
  let ?st = "foldl enter [] (butlast cs)"
  have st: "\<forall>c \<in> set ?st. plain_component c"
    using assms(2) in_set_butlastD [of _ cs] by (intro enter_all_plain) auto
  have last: "no_slash (last cs)" using assms by simp
  show ?thesis
  proof (cases "last cs = ''.'' \<or> last cs = ''..''")
    case True
    then show ?thesis using enter_plain [OF last st]
      by (intro exI [of _ "enter ?st (last cs)"] exI [of _ "[]"]) (auto simp: resolve_def plain_component_def no_slash_def)
  next
    case False
    then show ?thesis using st last
      by (intro exI [of _ ?st] exI [of _ "last cs"]) (simp add: resolve_def plain_component_def)
  qed
qed

lemma enter_all_same: "\<forall>c \<in> set st. plain_component c \<Longrightarrow> foldl enter acc st = acc @ st"
  by (induction st arbitrary: acc) (auto simp: enter_def plain_component_def)

lemma backtrack_shorter: "length (backtrack d) \<le> length d"
  using length_dropWhile_le [of "\<lambda>c. c \<noteq> CHR ''/''" "rev d"] length_dropWhile_le [of "\<lambda>c. c \<noteq> CHR ''/''" "rev (butlast d)"]
  by (auto simp: backtrack_def Let_def)

lemma length_normalize: "length (normalize_loop s d) \<le> length d + length s"
proof (induction s d rule: normalize_loop.induct)
  case (1 s d)
  show ?case
  proof (cases "s = []")
    case True
    then show ?thesis by (simp add: normalize_loop.simps)
  next
    case False
    obtain c t where ct: "parse_uri_component s ''/'' = (c, t)" by fastforce
    then have "length t \<le> length s" by (auto simp: parse_uri_component_def Let_def)
    then show ?thesis using 1 [OF False ct [symmetric]] ct False backtrack_shorter [of d]
      by (subst normalize_loop.simps) (auto split: if_splits)
  qed
qed

lemma normal_path_parts:
  assumes "length t < 2 ^ 30" "mg_normalize_uri_path (''/'' @ t) = Some out"
  shows "out = resolve (components t)" "\<forall>c \<in> set (components (tl out)). c \<noteq> ''.'' \<and> c \<noteq> ''..''"
    "mg_normalize_uri_path out = Some out"
proof -
  show out: "out = resolve (components t)" using normalize_resolve [of t] assms by simp
  obtain st f where st: "out = directory st @ f" "plain_component f" "\<forall>c \<in> set st. plain_component c"
    using resolve_plain [OF components_ne components_no_slash] out by blast
  have cs: "components (tl out) = st @ [f]"
    using components_directory [of st f] st by (simp add: plain_component_def)
  then show "\<forall>c \<in> set (components (tl out)). c \<noteq> ''.'' \<and> c \<noteq> ''..''" using st by (auto simp: plain_component_def)
  have "resolve (st @ [f]) = out"
    using enter_all_same [OF st(3), of "[]"] st(1,2) by (simp add: resolve_def plain_component_def)
  then have "resolve (components (tl out)) = out" by (simp only: cs)
  moreover have "out = ''/'' @ tl out" using st(1) by (simp add: directory_def)
  moreover have "length (tl out) < 2 ^ 31"
    using assms length_normalize [of "''/'' @ t" "[]"] by (auto simp: mg_normalize_uri_path_def Let_def split: if_splits)
  ultimately show "mg_normalize_uri_path out = Some out" using normalize_resolve [of "tl out"] by metis
qed

text \<open>
  C26. The normal form of a path is what its components give when each of them is entered from the directory on top
  of a stack, dots do nothing and two dots leave the directory; it has no such component itself, and is its own
  normal form.
\<close>

theorem normal_path:
  assumes "length t < 2 ^ 30"
  shows "\<exists>out. mg_normalize_uri_path (''/'' @ t) = Some out \<and> out = resolve (components t) \<and>
    (\<forall>c \<in> set (components (tl out)). c \<noteq> ''.'' \<and> c \<noteq> ''..'') \<and> mg_normalize_uri_path out = Some out"
proof -
  have "length t < 2 ^ 31" using assms by simp
  from normalize_resolve [OF this] show ?thesis using normal_path_parts [OF assms] by blast
qed

lemma normal_path_witness: "mg_normalize_uri_path ''/../a/./b/../c'' = Some ''/a/c''"
proof -
  have "components ''../a/./b/../c'' = [''..'', ''a'', ''.'', ''b'', ''..'', ''c'']" by simp
  then have "resolve (components ''../a/./b/../c'') = ''/a/c''" by (simp add: resolve_def enter_def directory_def)
  then show ?thesis using normal_path [of "''../a/./b/../c''"] by simp
qed

end
