(* ===== verification/Spec2Isabelle.thy ===== *)
theory Spec2Isabelle
  imports BL_Module_Props BL_Hash_Props BL_Web BL_Web_Frames BL_Web_Uri
begin

text \<open>
  BearLang is a Lisp interpreter in C. The runtime (\<^verbatim>\<open>runtime/src\<close>) reads text into tagged values, evaluates
  them in chained contexts and prints them; modules of the standard library (\<^verbatim>\<open>stdlib\<close>) add operators
  written in C; \<^verbatim>\<open>bli\<close> runs files and an interactive loop; \<^verbatim>\<open>blc\<close> translates functions to C text. The module
  \<^verbatim>\<open>simpleweb\<close> answers HTTP requests by calls of a BearLang function; the web server library that it runs on is
  part of its sources. This development models these parts as functions on an explicit state and proves what
  they promise.

  \<^bold>\<open>State and effects.\<close> A value is a record \<open>bl_val_t\<close> with a tag and a \<open>bl_union\<close> (\<^verbatim>\<open>include/bearlang/types.h\<close>); a
  pointer is a number, NULL is 0, and the \<open>heap\<close> of a \<open>store\<close> maps pointers to values, so aliasing and
  mutation are as in the code. Reading a member of the union that was not stored gives the bits that the
  layout puts there when they are known (zeros) and a \<open>Fault\<close> otherwise. A computation \<open>'a BL\<close> takes a store
  and gives \<open>Ret\<close> with a result and a store, \<open>Fault\<close> where the C code has undefined behaviour or crashes,
  \<open>Exit\<close> with a status, or \<open>Timeout\<close> when its fuel is used up. Numbers are GMP integers and therefore \<open>int\<close>.
  Memory is never exhausted except in the hash table, and the garbage collector is not visible.

  \<^bold>\<open>Theories and sources.\<close>
  \<^item> \<open>BL_Prelude\<close>: lists, strings and the C library's string functions.
  \<^item> \<open>BL_Types\<close>, \<open>BL_Memory\<close>, \<open>BL_Values\<close>: values, the store, the loop \<open>for_cdr\<close> over cons cells; the invariant
    \<open>wf_store\<close> (tags fit unions, static values are intact, the symbol table is consistent), the relation
    \<open>evolves\<close> (no tag changes, symbols and other constants never change) and the collection \<open>keeps_intros\<close> that
    proves both for every operation; allocation and constructors (\<^verbatim>\<open>utils.c\<close>).
  \<^item> \<open>BL_Lists\<close> (\<^verbatim>\<open>list_ops.c\<close>), \<open>BL_Strings\<close> (\<^verbatim>\<open>string_ops.c\<close>), \<open>BL_Errors\<close> (\<^verbatim>\<open>error_tools.c\<close>).
  \<^item> \<open>BL_Lexer\<close> (\<^verbatim>\<open>lexer.l\<close>: longest match, then the first rule), \<open>BL_Reader\<close> and \<open>BL_Printer\<close> (\<^verbatim>\<open>sexp.c\<close>).
  \<^item> \<open>BL_Ctx\<close> (\<^verbatim>\<open>ctx.c\<close>, \<^verbatim>\<open>builtins.inc\<close>, \<^verbatim>\<open>data_types.inc\<close>, \<^verbatim>\<open>err_types.inc\<close>): contexts, static values, the
    initial store.
  \<^item> \<open>BL_Builtins\<close>, \<open>BL_Import\<close> (\<^verbatim>\<open>builtins.c\<close>): the operators, importing, documentation.
  \<^item> \<open>BL_Modules\<close> (\<^verbatim>\<open>hello\<close>, \<^verbatim>\<open>error\<close>, \<^verbatim>\<open>os\<close>, \<^verbatim>\<open>stdio\<close>), \<open>BL_Foreign\<close> (\<^verbatim>\<open>xml\<close>, \<^verbatim>\<open>testmod\<close>, \<^verbatim>\<open>cffi\<close>, \<^verbatim>\<open>simpleweb\<close>, \<^verbatim>\<open>py27\<close>).
  \<^item> \<open>BL_Eval\<close> (\<^verbatim>\<open>eval.c\<close>): evaluation ties the operators, modules and functions together.
  \<^item> \<open>BL_Repl\<close> (\<^verbatim>\<open>bli/src/main.c\<close>, \<^verbatim>\<open>init.c\<close>), \<open>BL_Compiler\<close> (\<^verbatim>\<open>blc/src/main.c\<close> and the stub of compiled programs).
  \<^item> \<open>BL_Uthash\<close>, \<open>BL_Uthash_Ops\<close> (\<^verbatim>\<open>include/bearlang/uthash.h\<close>): the hash table behind the symbols on 32-bit
    words; the operations that the program uses, and those that the header offers besides.
  \<^item> \<open>BL_Utarray\<close> (\<^verbatim>\<open>include/bearlang/utarray.h\<close>): dynamic arrays, with constructors and destructors that act on a
    state of the client. The header comes with the program, which does not use it.
  \<^item> \<open>BL_Sexp\<close>, \<open>BL_Roundtrip\<close>: expression trees, their text, and reading printed text.
  \<^item> \<open>BL_Initial\<close>, \<open>BL_Scope\<close>: the initial state; contexts as maps, lookup along parents, parameters.
  \<^item> \<open>BL_Data_Props\<close>, \<open>BL_Eval_Props\<close>, \<open>BL_Oper_Props\<close>, \<open>BL_Program_Props\<close>, \<open>BL_Call_Props\<close>, \<open>BL_Module_Props\<close>,
    \<open>BL_Array_Props\<close>, \<open>BL_Hash_Props\<close>: the properties.
  \<^item> \<open>BL_Web_Str\<close>, \<open>BL_Web_Enc\<close>, \<open>BL_Web_Sha1\<close>, \<open>BL_Web_Uri\<close> (\<^verbatim>\<open>stdlib/simpleweb/src/mongoose.c\<close>): strings, base64,
    hexadecimal and URL encoding, patterns, the buffer \<open>mbuf\<close>, SHA-1, addresses.
  \<^item> \<open>BL_Web_Http\<close>: parsing of messages and chunks, heads of replies. \<open>BL_Web_Conn\<close>: connections, calls of the user's
    handler, websocket frames. \<open>BL_Web_Server\<close>: the HTTP protocol handler, endpoints, chunked bodies, reading
    from sockets and the poll loop.
  \<^item> \<open>BL_Web_Stream\<close>, \<open>BL_Web_Parse\<close>, \<open>BL_Web_Frames\<close>, \<open>BL_Web_Chunks\<close>, \<open>BL_Web_Props\<close>: their properties. \<open>BL_Web\<close>: the
    event handler of \<^verbatim>\<open>simpleweb.c\<close> on this library and the evaluator.

  \<^bold>\<open>Interfaces.\<close> Lists that are built and reversed (\<open>sequence_store\<close>, interpreted on the list operations),
  contexts that are assigned to and looked up (\<open>scope_laws\<close>, on \<open>bl_ctx_set\<close>), the runtime that operators call
  back into, the table that \<open>bl_mk_symbol\<close> needs (\<open>symbol_table_laws\<close>, on the hash table), its extension by
  removal (\<open>shrinking_table\<close>) and the handler of a service that answers every request by one reply
  (\<open>http_service\<close>, on the handler of \<open>simpleweb\<close>) are locales; the clients' lemmas are proved in them.

  \<^bold>\<open>What is shown.\<close>
  \<^item> Data: printing and reading are inverse on expression trees; the reader, the file reader and the
    scanner always end; printing changes nothing; names shorter than 31 characters are interned and longer
    ones are not; pool addresses are distinct, and the last of a pool is out of bounds; lists, splitting,
    decimal text, division; the checks of argument counts and types accept exactly what they should.
  \<^item> Evaluation: every run keeps the state well formed, is independent of the fuel and never returns NULL;
    assignment refines the update of a map and lookup the search along the parents; symbols, parameters,
    the standard context.
  \<^item> Operators: sums of any length, arithmetic, comparison and logic on literals, the conditional, loops,
    sequences that stop at the first error, the choice of a handler by \<open>try\<close>, calls of functions that are
    defined in the language; the formatting of \<open>fprintf\<close> against a reference, the exit status.
  \<^item> Programs: the hash table agrees with the association list that the rest of the development uses and
    stays consistent through expansions; sessions keep the state well formed; integers are echoed; the
    completion hook reads out of bounds; the compiler's text for an expression.
  \<^item> Libraries: dynamic arrays implement lists for every sequence of operations, growth ends up to \<open>2 ^ 31\<close>
    elements and not beyond, sorted arrays are searched correctly; removal and replacement in the hash
    table, its stable sort, iteration with removal, the Bloom filter; strings of an array cannot be freed,
    and a selected table loses its tail.
  \<^item> Web server: whatever the pieces in which the bytes of requests arrive, the BearLang function is called once
    for each request, in order, with its method, path and body, and the replies are its results; the parser
    inverts the formatting of a request; a chunked body is put together as it was sent; messages in websocket
    frames arrive in order, in fragments and with masks; SHA-1 is the function of the standard; base64 and URL
    encoding can be undone; a normalized path is the path of a walk that never leaves the root. A second
    chunked request on a connection and a chunk whose size wraps around stop the server, and a connection
    that ends early has an incomplete body delivered as a request.

  \<^bold>\<open>Fuel.\<close> \<open>bl_eval n\<close> evaluates to depth \<open>n\<close>; its operators run with the same bound for their loops. A bound is
  a device of the model only: outcomes other than \<open>Timeout\<close> do not depend on it. The reader gets
  \<open>2 * length + 1\<close>, since each form consumes a character, and the printer and the compiler the number of
  addresses, since a value that is not circular is no deeper; these bounds are proved to suffice. The loop over
  websocket frames has a bound that the properties let exceed the number of frames; the loop over chunks gets
  the number of bytes, as each chunk takes some.

  \<^bold>\<open>Surroundings.\<close> Files, globbing, dynamic libraries, streams, processes, the line editor and foreign functions
  are given by a record of functions in the state (\<open>os\<close>) and by recorded calls (\<open>ext_calls\<close>); nothing is
  assumed of them. The allocator of the hash table is a parameter that is assumed to refuse 64 gigabytes. The
  handlers of the web server library are a function from numbers to handlers; what \<^verbatim>\<open>recv\<close> and \<^verbatim>\<open>send\<close> return and
  the random masks of a websocket client are arguments.

  \<^bold>\<open>Not modelled.\<close> Of the web server library the unix build without TLS is modelled, as far as the serving of
  requests needs it: no files, directories, authorization, CGI, SSI, WebDAV, streamed multipart bodies, proxies,
  no DNS, MQTT or CoAP, no datagrams, timers, resolver or other network interfaces, no MD5 and JSON. Its
  allocator succeeds (except in \<open>mbuf\<close>, where it is a parameter), the debugging output is left out, and a read
  one behind the end of a buffer gives a NUL where the code relies on it. The vendored libraries are
  third-party code, of which only the GMP functions that the runtime calls are described, on integers; of
  \<^verbatim>\<open>uthash.h\<close> the variants that it switches off itself (recoverable allocation failures, compilers without
  \<open>decltype\<close>) are left out; the scanner tables are generated from the rules; \<^verbatim>\<open>testmod2\<close> contains no code. In
  \<^verbatim>\<open>utarray.h\<close> an argument that lies in the array itself is outside of the model. The association list of symbols
  and the hash table can differ for names of exactly 31 characters, the length to which keys are cut.
\<close>

end
